(* ===== verification/Prelude.thy ===== *)
theory Prelude
  imports Main "HOL-Library.Word"
begin

text \<open>
  What the components of the development share: the machine-integer types of
  \<^verbatim>\<open>vm_basic_types.h\<close>, the faults that a C function can end in (a fault is a value of
  the model, not a state in which the model is silent), the allocator parameter, and the
  lemmas on words and lists that the component proofs use.
\<close>

unbundle bit_operations_syntax

section \<open>Machine types, faults and results\<close>

type_synonym u8 = "8 word"
type_synonym u32 = "32 word"
type_synonym u64 = "64 word"

type_synonym i32 = "32 word"
type_synonym i64 = "64 word"

text \<open>
  The ways in which a call can fail to return a value: an access outside an allocated block,
  a dereference of a null pointer or of a freed block, a division by zero, a read of the wrong member of a union, a call of \<^verbatim>\<open>Panic\<close>, a loop that never
  ends. \<^verbatim>\<open>ASSERT\<close> compiles to nothing outside debug builds (\<^verbatim>\<open>vm_assert.h\<close>) and is not a fault.
\<close>

datatype fault = OutOfBounds | NullDeref | UseAfterFree | DivByZero | TypeConfusion | Panicked | Diverges

type_synonym 'a res = "fault + 'a"

definition bindR :: "'a res \<Rightarrow> ('a \<Rightarrow> 'b res) \<Rightarrow> 'b res" where
  "bindR r f = (case r of Inl e \<Rightarrow> Inl e | Inr x \<Rightarrow> f x)"

lemma bindR_Inr [simp]: "bindR (Inr x) f = f x"
  by (simp add: bindR_def)

lemma bindR_Inl [simp]: "bindR (Inl e) f = Inl e"
  by (simp add: bindR_def)

lemma bindR_eq_Inr: "bindR r f = Inr y \<longleftrightarrow> (\<exists>x. r = Inr x \<and> f x = Inr y)"
  by (cases r) auto

text \<open>A loop that does not end is the fault \<^const>\<open>Diverges\<close>.\<close>

definition loop :: "'a res option \<Rightarrow> 'a res" where
  "loop r = (case r of None \<Rightarrow> Inl Diverges | Some x \<Rightarrow> x)"

text \<open>
  The C allocator: whether a request of so many bytes is granted. Each operation that
  allocates takes it as an argument, so two calls can meet two different allocators.
\<close>

type_synonym allocator = "nat \<Rightarrow> bool"

definition MAX_UINT32 :: u32 where
  "MAX_UINT32 = 0xFFFFFFFF"

named_theorems wsimps \<open>facts that read words as natural numbers\<close>

lemmas [wsimps] = word_less_nat_alt word_le_nat_alt unat_mod_distrib unat_div_distrib

lemma unat_add_bound:
  fixes a b :: "'a::len word"
  assumes "unat a + unat b < 2 ^ LENGTH('a)"
  shows "unat (a + b) = unat a + unat b"
  using assms by (simp add: unat_word_ariths)

lemma unat_mult_bound:
  fixes a b :: "'a::len word"
  assumes "unat a * unat b < 2 ^ LENGTH('a)"
  shows "unat (a * b) = unat a * unat b"
  using assms by (simp add: unat_word_ariths)

lemma unat_of_nat_bound:
  assumes "n < 2 ^ LENGTH('a)"
  shows "unat (of_nat n :: 'a::len word) = n"
  using assms by (simp add: unat_of_nat take_bit_nat_eq_self)

lemma unat_lt_32: "unat (x :: u32) < 2 ^ 32"
  using unsigned_less [of x, where 'a = nat] by simp

lemma unat_lt_64: "unat (x :: u64) < 2 ^ 64"
  using unsigned_less [of x, where 'a = nat] by simp

lemma unat_succ:
  fixes x y :: "'a::len word"
  assumes "x < y"
  shows "unat (x + 1) = Suc (unat x)"
proof -
  have "Suc (unat x) \<le> unat y" using assms by (simp add: word_less_nat_alt)
  also have "\<dots> < 2 ^ LENGTH('a)" by (rule unsigned_less [of y, where 'a = nat])
  finally show ?thesis by (simp add: unat_word_ariths)
qed

lemma count_up: "x < y \<Longrightarrow> unat y - unat (x + 1) < unat y - unat (x :: 'a::len word)"
  using unat_succ [of x y] by (simp add: word_less_nat_alt)

lemma unat_max_64: "unat (- 1 :: u64) = 18446744073709551615"
  by (simp add: unsigned_minus_1_eq_mask mask_eq_exp_minus_1)

section \<open>Output buffers\<close>

text \<open>
  The output buffer: the bytes written so far and the size of the block. Every write is checked
  against the size.
\<close>

record OutBuf =
  ob_bytes :: "u8 list"
  ob_size :: nat

definition WriteBytes :: "OutBuf \<Rightarrow> u8 list \<Rightarrow> OutBuf res" where
  "WriteBytes buf bs =
     (if length (ob_bytes buf) + length bs \<le> ob_size buf
      then Inr (buf\<lparr>ob_bytes := ob_bytes buf @ bs\<rparr>) else Inl OutOfBounds)"

definition empty_OutBuf :: "nat \<Rightarrow> OutBuf" where
  "empty_OutBuf n = \<lparr>ob_bytes = [], ob_size = n\<rparr>"

definition put :: "OutBuf \<Rightarrow> u8 list \<Rightarrow> OutBuf" where
  "put buf bs = buf\<lparr>ob_bytes := ob_bytes buf @ bs\<rparr>"

lemma put_simps [simp]:
  "ob_bytes (put buf bs) = ob_bytes buf @ bs" "ob_size (put buf bs) = ob_size buf"
  "put (put buf bs) cs = put buf (bs @ cs)" "put buf [] = buf"
  by (simp_all add: put_def)

abbreviation fits :: "OutBuf \<Rightarrow> u8 list \<Rightarrow> bool" where
  "fits buf bs \<equiv> length (ob_bytes buf) + length bs \<le> ob_size buf"

lemma WriteBytes_put: "WriteBytes buf bs = (if fits buf bs then Inr (put buf bs) else Inl OutOfBounds)"
  by (simp add: WriteBytes_def put_def)

text \<open>\<^verbatim>\<open>strlen\<close> on a block that holds no zero byte reads past its end.\<close>

definition c_strlen :: "u8 list \<Rightarrow> nat res" where
  "c_strlen s = (if 0 \<in> set s then Inr (length (takeWhile (\<lambda>c. c \<noteq> 0) s)) else Inl OutOfBounds)"

lemma c_strlen_string:
  assumes "0 \<notin> set s"
  shows "c_strlen (s @ 0 # rest) = Inr (length s)"
proof -
  have "takeWhile (\<lambda>c. c \<noteq> 0) (s @ 0 # rest) = s"
    using assms by (subst takeWhile_append2) auto
  then show ?thesis by (simp add: c_strlen_def)
qed

section \<open>Byte ranges\<close>

text \<open>\<^verbatim>\<open>memcpy\<close> from and to a range of a block: outside the block it is a fault.\<close>

definition patch :: "'a list \<Rightarrow> nat \<Rightarrow> 'a list \<Rightarrow> 'a list" where
  "patch xs off ys = take off xs @ ys @ drop (off + length ys) xs"

definition read_at :: "'a list \<Rightarrow> nat \<Rightarrow> nat \<Rightarrow> 'a list res" where
  "read_at xs off n = (if off + n \<le> length xs then Inr (take n (drop off xs)) else Inl OutOfBounds)"

definition write_at :: "'a list \<Rightarrow> nat \<Rightarrow> 'a list \<Rightarrow> 'a list res" where
  "write_at xs off ys = (if off + length ys \<le> length xs then Inr (patch xs off ys) else Inl OutOfBounds)"

lemma length_patch [simp]: "off + length ys \<le> length xs \<Longrightarrow> length (patch xs off ys) = length xs"
  by (simp add: patch_def)

lemma nth_patch:
  assumes "off + length ys \<le> length xs" and "k < length xs"
  shows "patch xs off ys ! k = (if off \<le> k \<and> k < off + length ys then ys ! (k - off) else xs ! k)"
  using assms by (auto simp: patch_def nth_append min_def)

lemma patch_Nil [simp]: "patch xs off [] = xs"
  by (simp add: patch_def)

lemma patch_patch:
  assumes "off + length ys + length zs \<le> length xs"
  shows "patch (patch xs off ys) (off + length ys) zs = patch xs off (ys @ zs)"
  using assms by (auto simp: patch_def ac_simps)

lemma patch_all: "length ys = length xs \<Longrightarrow> patch xs 0 ys = ys"
  by (simp add: patch_def)

section \<open>Loops over lists of items and runs of operations\<close>

text \<open>A loop over a list whose body may fault.\<close>

fun foldR :: "('x \<Rightarrow> 's \<Rightarrow> 's res) \<Rightarrow> 'x list \<Rightarrow> 's \<Rightarrow> 's res" where
  "foldR f [] s = Inr s"
| "foldR f (x # xs) s = bindR (f x s) (foldR f xs)"

lemma foldR_append: "foldR f (xs @ ys) s = bindR (foldR f xs s) (foldR f ys)"
  by (induction xs arbitrary: s) (auto simp: bindR_def split: sum.splits)

lemma foldR_upt:
  assumes "I 0 s" and "\<And>i s. i < n \<Longrightarrow> I i s \<Longrightarrow> \<exists>s'. f i s = Inr s' \<and> I (Suc i) s'"
  shows "\<exists>s'. foldR f [0..<n] s = Inr s' \<and> I n s'"
  using assms
proof (induction n)
  case (Suc n)
  then obtain s1 where s1: "foldR f [0..<n] s = Inr s1" "I n s1" by auto
  moreover obtain s2 where "f n s1 = Inr s2" "I (Suc n) s2" using Suc.prems(2) [OF _ s1(2)] by auto
  ultimately show ?case by (simp add: foldR_append)
qed simp

text \<open>A sequence of calls on an object: its outputs, or the first fault.\<close>

fun run :: "('s \<Rightarrow> 'o \<Rightarrow> ('s \<times> 'r) res) \<Rightarrow> 's \<Rightarrow> 'o list \<Rightarrow> ('s \<times> 'r list) res" where
  "run step s [] = Inr (s, [])"
| "run step s (op # ops) =
     bindR (step s op) (\<lambda>(s1, r). bindR (run step s1 ops) (\<lambda>(s2, rs). Inr (s2, r # rs)))"

fun run_spec :: "('a \<Rightarrow> 'o \<Rightarrow> 'a \<times> 'r) \<Rightarrow> 'a \<Rightarrow> 'o list \<Rightarrow> 'a \<times> 'r list" where
  "run_spec step a [] = (a, [])"
| "run_spec step a (op # ops) =
     (let (a1, r) = step a op; (a2, rs) = run_spec step a1 ops in (a2, r # rs))"

text \<open>
  An implementation of an abstract object. \<open>cap s\<close> bounds the number of further calls for which
  the contract holds (a counter that must not wrap, a table that must not outgrow its index type).
\<close>

locale implementation =
  fixes step :: "'s \<Rightarrow> 'o \<Rightarrow> ('s \<times> 'r) res"
    and spec :: "'a \<Rightarrow> 'o \<Rightarrow> 'a \<times> 'r"
    and inv :: "'s \<Rightarrow> bool"
    and abs :: "'s \<Rightarrow> 'a"
    and cap :: "'s \<Rightarrow> nat"
    and legal :: "'s \<Rightarrow> 'o \<Rightarrow> bool"
  assumes step_sim: "inv s \<Longrightarrow> 0 < cap s \<Longrightarrow> legal s op \<Longrightarrow>
    \<exists>s' r. step s op = Inr (s', r) \<and> inv s' \<and> spec (abs s) op = (abs s', r) \<and>
      cap s \<le> Suc (cap s') \<and> (\<forall>o'. legal s' o' = legal s o')"
begin

lemma run_sim:
  assumes "inv s" and "length ops \<le> cap s" and "\<And>op. op \<in> set ops \<Longrightarrow> legal s op"
  shows "\<exists>s' rs. run step s ops = Inr (s', rs) \<and> inv s' \<and> run_spec spec (abs s) ops = (abs s', rs)"
  using assms
proof (induction ops arbitrary: s)
  case Nil
  then show ?case by simp
next
  case (Cons op ops)
  then obtain s1 r where s1: "step s op = Inr (s1, r)" "inv s1" "spec (abs s) op = (abs s1, r)"
    "cap s \<le> Suc (cap s1)" "\<forall>o'. legal s1 o' = legal s o'"
    using step_sim [of s op] by auto
  then obtain s2 rs where "run step s1 ops = Inr (s2, rs)" "inv s2"
    "run_spec spec (abs s1) ops = (abs s2, rs)"
    using Cons.IH [of s1] Cons.prems by auto
  with s1 show ?case
    by simp
qed

lemma run_outputs:
  assumes "inv s" and "length ops \<le> cap s" and "\<And>op. op \<in> set ops \<Longrightarrow> legal s op"
    and "run step s ops = Inr (s', rs)"
  shows "rs = snd (run_spec spec (abs s) ops)"
  using run_sim [OF assms(1-3)] assms(4) by auto

end

section \<open>Transition systems\<close>

text \<open>
  The states that a step relation reaches from its initial states, and the induction principle as
  an interface: what holds initially and is kept by each step holds in every reachable state.
\<close>

inductive reach :: "('s \<Rightarrow> bool) \<Rightarrow> ('s \<Rightarrow> 'a \<Rightarrow> 's \<Rightarrow> bool) \<Rightarrow> 's \<Rightarrow> bool" for init step where
  reach_init: "init s \<Longrightarrow> reach init step s"
| reach_step: "reach init step s \<Longrightarrow> step s a s' \<Longrightarrow> reach init step s'"

locale invariant_system =
  fixes init :: "'s \<Rightarrow> bool"
    and step :: "'s \<Rightarrow> 'a \<Rightarrow> 's \<Rightarrow> bool"
    and inv :: "'s \<Rightarrow> bool"
  assumes init_inv: "init s \<Longrightarrow> inv s"
    and step_inv: "inv s \<Longrightarrow> step s a s' \<Longrightarrow> inv s'"
begin

lemma reach_inv: "reach init step s \<Longrightarrow> inv s"
  by (induction rule: reach.induct) (auto intro: init_inv step_inv)

end

end
