(* ===== verification/HashMap.thy ===== *)
theory HashMap
  imports Prelude
begin

text \<open>
  The sparse map of \<^verbatim>\<open>lib/hashMap/hashMap.c\<close>: an open-addressing table with linear probing,
  tombstones and doubling.
\<close>

section \<open>The table\<close>

datatype HashMapEntryState = HashMapState_EMPTY | HashMapState_FILLED | HashMapState_DELETED

text \<open>
  One slot: the header (state and hash), the key bytes and the data. The data is a value of
  type \<open>'d\<close>; \<^const>\<open>None\<close> is the zero-filled data area of a slot that was never written.
\<close>

record 'd HashMapEntry =
  he_state :: HashMapEntryState
  he_hash :: u32
  he_key :: "u8 list"
  he_data :: "'d option"

text \<open>
  \<^verbatim>\<open>struct HashMap\<close>. The list is the allocated block: its length is the number of slots that
  were allocated, which the code keeps equal to \<open>hm_numEntries\<close> but does not store.
\<close>

record 'd HashMap =
  hm_entries :: "'d HashMapEntry list"
  hm_numEntries :: u32
  hm_count :: u32
  hm_alpha :: u32
  hm_keySize :: u64
  hm_dataSize :: u64
  hm_entrySize :: u64
  hm_keyOffset :: u64
  hm_dataOffset :: u64

definition NO_FREE_INDEX :: u32 where
  "NO_FREE_INDEX = - 1"

definition HASHMAP_DEFAULT_ALPHA :: u32 where
  "HASHMAP_DEFAULT_ALPHA = 2"

definition sizeof_HashMapEntryHeader :: u64 where
  "sizeof_HashMapEntryHeader = 8"

text \<open>A slot of a block that \<^verbatim>\<open>calloc\<close> has just zeroed (\<^verbatim>\<open>HashMapState_EMPTY\<close> is 0).\<close>

definition zero_entry :: "'d HashMapEntry" where
  "zero_entry = \<lparr>he_state = HashMapState_EMPTY, he_hash = 0, he_key = [], he_data = None\<rparr>"

definition ROUNDUP :: "u64 \<Rightarrow> u64 \<Rightarrow> u64" where
  "ROUNDUP x y = (x + y - 1) div y * y"

definition CalculateEntrySize :: "'d HashMap \<Rightarrow> 'd HashMap" where
  "CalculateEntrySize m =
     (let alignKeySize = ROUNDUP (hm_keySize m) 4;
          alignDataSize = ROUNDUP (hm_dataSize m) 4;
          alignKeyOffset = sizeof_HashMapEntryHeader;
          alignDataOffset = ROUNDUP (alignKeyOffset + alignKeySize) 4
      in m\<lparr>hm_entrySize := sizeof_HashMapEntryHeader + alignKeySize + alignDataSize,
             hm_keyOffset := alignKeyOffset,
             hm_dataOffset := alignDataOffset\<rparr>)"

definition InitMap :: "allocator \<Rightarrow> 'd HashMap \<Rightarrow> u32 \<Rightarrow> u32 \<Rightarrow> u64 \<Rightarrow> u64 \<Rightarrow> 'd HashMap option" where
  "InitMap calloc m numEntries alpha keySize dataSize =
     (let n = numEntries * alpha;
          m1 = CalculateEntrySize (m\<lparr>hm_numEntries := n, hm_alpha := alpha,
                                         hm_keySize := keySize, hm_dataSize := dataSize\<rparr>)
      in if calloc (unat n * unat (hm_entrySize m1))
         then Some (m1\<lparr>hm_entries := replicate (unat n) zero_entry\<rparr>)
         else None)"

definition sizeof_HashMap :: nat where
  "sizeof_HashMap = 64"

text \<open>The map structure as \<^verbatim>\<open>calloc\<close> returns it.\<close>

definition zero_map :: "'d HashMap" where
  "zero_map = \<lparr>hm_entries = [], hm_numEntries = 0, hm_count = 0, hm_alpha = 0, hm_keySize = 0,
               hm_dataSize = 0, hm_entrySize = 0, hm_keyOffset = 0, hm_dataOffset = 0\<rparr>"

definition HashMap_AllocMapAlpha :: "allocator \<Rightarrow> u32 \<Rightarrow> u32 \<Rightarrow> u64 \<Rightarrow> u64 \<Rightarrow> 'd HashMap option" where
  "HashMap_AllocMapAlpha calloc numEntries alpha keySize dataSize =
     (if calloc sizeof_HashMap
      then InitMap calloc zero_map numEntries alpha keySize dataSize
      else None)"

definition HashMap_AllocMap :: "allocator \<Rightarrow> u32 \<Rightarrow> u64 \<Rightarrow> u64 \<Rightarrow> 'd HashMap option" where
  "HashMap_AllocMap calloc numEntries keySize dataSize =
     HashMap_AllocMapAlpha calloc numEntries HASHMAP_DEFAULT_ALPHA keySize dataSize"

section \<open>Slots, hashes and probing\<close>

text \<open>
  \<^verbatim>\<open>GetEntry\<close> computes three pointers into the block; a slot past the end of the block is an
  access out of bounds. \<open>SetEntry\<close> is a write through those pointers.
\<close>

definition GetEntry :: "'d HashMap \<Rightarrow> u32 \<Rightarrow> 'd HashMapEntry res" where
  "GetEntry m index =
     (if unat index < length (hm_entries m) then Inr (hm_entries m ! unat index)
      else Inl OutOfBounds)"

definition SetEntry :: "'d HashMap \<Rightarrow> u32 \<Rightarrow> 'd HashMapEntry \<Rightarrow> 'd HashMap res" where
  "SetEntry m index e =
     (if unat index < length (hm_entries m)
      then Inr (m\<lparr>hm_entries := (hm_entries m)[unat index := e]\<rparr>)
      else Inl OutOfBounds)"

text \<open>djb2 over the first \<open>hm_keySize\<close> bytes of the key, modulo \<open>2 ^ 32\<close>.\<close>

definition key_bytes :: "'d HashMap \<Rightarrow> u8 list \<Rightarrow> u8 list" where
  "key_bytes m key = take (unat (hm_keySize m)) key"

definition djb2 :: "u8 list \<Rightarrow> u32" where
  "djb2 bs = foldl (\<lambda>h b. h * 33 + ucast b) 5381 bs"

definition ComputeHash :: "'d HashMap \<Rightarrow> u8 list \<Rightarrow> u32" where
  "ComputeHash m key = djb2 (key_bytes m key)"

definition CompareKeys :: "'d HashMap \<Rightarrow> u8 list \<Rightarrow> u8 list \<Rightarrow> bool" where
  "CompareKeys m key compare \<longleftrightarrow> key_bytes m key = key_bytes m compare"

text \<open>
  The probing loop of \<^verbatim>\<open>LookupKey\<close>. \<open>cur\<close> is the slot the out-parameters \<^verbatim>\<open>header\<close> and
  \<^verbatim>\<open>data\<close> point to, \<open>freeIndex\<close> the first slot met that is not filled.
\<close>

function LookupKey_loop ::
  "'d HashMap \<Rightarrow> u8 list \<Rightarrow> u32 \<Rightarrow> u32 \<Rightarrow> u32 \<Rightarrow> u32 \<Rightarrow> u32 \<Rightarrow> (bool \<times> u32 \<times> u32) res" where
  "LookupKey_loop m key hash index probe cur freeIndex =
     (if probe < hm_numEntries m + 1 then
        let currentIndex = (index + probe) mod hm_numEntries m;
            free' = (if freeIndex = NO_FREE_INDEX then currentIndex else freeIndex)
        in case GetEntry m currentIndex of
             Inl f \<Rightarrow> Inl f
           | Inr e \<Rightarrow>
               (case he_state e of
                  HashMapState_EMPTY \<Rightarrow> Inr (False, currentIndex, free')
                | HashMapState_DELETED \<Rightarrow>
                    LookupKey_loop m key hash index (probe + 1) currentIndex free'
                | HashMapState_FILLED \<Rightarrow>
                    if he_hash e = hash \<and> CompareKeys m key (he_key e)
                    then Inr (True, currentIndex, freeIndex)
                    else LookupKey_loop m key hash index (probe + 1) currentIndex freeIndex)
      else Inr (False, cur, freeIndex))"
  by pat_completeness auto

lemma probe_measure:
  fixes probe n :: u32
  assumes "probe < n"
  shows "unat n - unat (probe + 1) < unat n - unat probe"
proof -
  have lt: "unat probe < unat n"
    using assms by (simp add: word_less_nat_alt)
  have "unat n < 2 ^ 32"
    by (rule unat_lt_32)
  with lt have "unat (probe + 1) = unat probe + 1"
    by (subst unat_add_bound) simp_all
  with lt show ?thesis
    by simp
qed

termination LookupKey_loop
  by (relation "measure (\<lambda>(m, key, hash, index, probe, cur, freeIndex).
                   unat (hm_numEntries m + 1) - unat probe)")
     (auto intro: probe_measure)

declare LookupKey_loop.simps [simp del]

text \<open>\<^verbatim>\<open>LookupKey\<close>: was the key found, the slot of the last probe, the first free slot met.\<close>

definition LookupKey :: "'d HashMap \<Rightarrow> u8 list \<Rightarrow> (bool \<times> u32 \<times> u32) res" where
  "LookupKey m key =
     (if hm_numEntries m = 0 then Inl DivByZero
      else let hash = ComputeHash m key;
               index = hash mod hm_numEntries m
           in LookupKey_loop m key hash index 0 0 NO_FREE_INDEX)"

section \<open>Growth\<close>

definition Clamped_UMul32 :: "u32 \<Rightarrow> u32 \<Rightarrow> u32 \<times> bool" where
  "Clamped_UMul32 a b =
     (if unat a * unat b < 2 ^ 32 then (a * b, True) else (MAX_UINT32, False))"

definition NeedsResize :: "'d HashMap \<Rightarrow> bool" where
  "NeedsResize m \<longleftrightarrow>
     (let required = fst (Clamped_UMul32 (hm_count m) (hm_alpha m))
      in required \<ge> hm_numEntries m)"

text \<open>
  The \<^verbatim>\<open>do ... while (NeedsResize(map))\<close> loop of \<^verbatim>\<open>Resize\<close>. A table of no slots never leaves it.
\<close>

function Resize_grow :: "'d HashMap \<Rightarrow> 'd HashMap res" where
  "Resize_grow m =
     (if hm_numEntries m = 0 then Inl Diverges
      else let (n, ok) = Clamped_UMul32 (hm_numEntries m) 2;
               m1 = m\<lparr>hm_numEntries := n\<rparr>
           in if \<not> ok then Inr m1
              else if NeedsResize m1 then Resize_grow m1
              else Inr m1)"
  by pat_completeness auto
termination
proof (relation "measure (\<lambda>m. 2 ^ 32 - unat (hm_numEntries m))")
  fix m :: "'d HashMap" and x :: "u32 \<times> bool" and n ok and m1 :: "'d HashMap"
  assume nz: "hm_numEntries m \<noteq> 0"
    and x: "x = Clamped_UMul32 (hm_numEntries m) 2" "(n, ok) = x"
    and m1eq: "m1 = m\<lparr>hm_numEntries := n\<rparr>" and "\<not> \<not> ok"
  then have lt: "unat (hm_numEntries m) * 2 < 2 ^ 32" and n: "n = hm_numEntries m * 2"
    by (auto simp: Clamped_UMul32_def split: if_splits)
  from lt have "unat n = unat (hm_numEntries m) * 2"
    unfolding n by (subst unat_mult_bound) simp_all
  moreover from nz have "0 < unat (hm_numEntries m)"
    by (simp add: unat_gt_0)
  ultimately show "(m1, m) \<in> measure (\<lambda>m. 2 ^ 32 - unat (hm_numEntries m))"
    using lt by (simp add: m1eq)
qed simp

declare Resize_grow.simps [simp del]

text \<open>
  A filled slot: what \<^verbatim>\<open>HashMap_Put\<close> and \<^verbatim>\<open>Resize\<close> write through the pointers of \<^verbatim>\<open>GetEntry\<close>.
\<close>

definition FillEntry :: "'d HashMap \<Rightarrow> u32 \<Rightarrow> u32 \<Rightarrow> u8 list \<Rightarrow> 'd option \<Rightarrow> 'd HashMap res" where
  "FillEntry m index hash key data =
     SetEntry m index \<lparr>he_state = HashMapState_FILLED, he_hash = hash,
                         he_key = key_bytes m key, he_data = data\<rparr>"

text \<open>The copying loop of \<^verbatim>\<open>Resize\<close>, over the slots of the old table in order.\<close>

fun Resize_copy :: "'d HashMap \<Rightarrow> nat list \<Rightarrow> 'd HashMap \<Rightarrow> 'd HashMap res" where
  "Resize_copy old [] m = Inr m"
| "Resize_copy old (i # is) m =
     bindR (GetEntry old (of_nat i)) (\<lambda>e.
       case he_state e of
         HashMapState_FILLED \<Rightarrow>
           bindR (LookupKey m (he_key e)) (\<lambda>(found, hdr, freeIndex).
             if \<not> found
             then bindR (FillEntry m freeIndex (he_hash e) (he_key e) (he_data e)) (\<lambda>m1.
                    Resize_copy old is (m1\<lparr>hm_count := hm_count m1 + 1\<rparr>))
             else Resize_copy old is m)
       | _ \<Rightarrow> Resize_copy old is m)"

definition Resize :: "allocator \<Rightarrow> 'd HashMap \<Rightarrow> 'd HashMap res" where
  "Resize calloc m =
     (if hm_numEntries m = MAX_UINT32 then
        (if hm_count m < MAX_UINT32 then Inr m else Inl Panicked)
      else let n2 = hm_numEntries m * 2
           in if \<not> calloc (unat n2 * unat (hm_entrySize m)) then Inr m
              else bindR (Resize_grow (m\<lparr>hm_entries := replicate (unat n2) zero_entry\<rparr>)) (\<lambda>m1.
                     Resize_copy m [0 ..< unat (hm_numEntries m)] (m1\<lparr>hm_count := 0\<rparr>)))"

section \<open>The operations\<close>

definition HashMap_Put :: "allocator \<Rightarrow> 'd HashMap \<Rightarrow> u8 list \<Rightarrow> 'd \<Rightarrow> ('d HashMap \<times> bool) res" where
  "HashMap_Put calloc m key data =
     bindR (LookupKey m key) (\<lambda>(found, hdr, freeIndex).
       if found
       then bindR (GetEntry m hdr) (\<lambda>e.
              bindR (SetEntry m hdr (e\<lparr>he_data := Some data\<rparr>)) (\<lambda>m1. Inr (m1, True)))
       else bindR (if NeedsResize m
                   then bindR (Resize calloc m) (\<lambda>m1.
                          bindR (LookupKey m1 key) (\<lambda>(found1, hdr1, freeIndex1).
                            Inr (m1, freeIndex1, freeIndex1 \<noteq> NO_FREE_INDEX)))
                   else Inr (m, freeIndex, True))
              (\<lambda>(m1, freeIndex1, proceed).
                 if \<not> proceed then Inr (m1, False)
                 else bindR (FillEntry (m1\<lparr>hm_count := hm_count m1 + 1\<rparr>) freeIndex1
                               (ComputeHash m key) key (Some data))
                        (\<lambda>m2. Inr (m2, True))))"

definition HashMap_Get :: "'d HashMap \<Rightarrow> u8 list \<Rightarrow> 'd option res" where
  "HashMap_Get m key =
     bindR (LookupKey m key) (\<lambda>(found, hdr, freeIndex).
       if found then bindR (GetEntry m hdr) (\<lambda>e. Inr (he_data e)) else Inr None)"

fun HashMap_Clear_loop :: "nat list \<Rightarrow> 'd HashMap \<Rightarrow> 'd HashMap res" where
  "HashMap_Clear_loop [] m = Inr m"
| "HashMap_Clear_loop (i # is) m =
     bindR (GetEntry m (of_nat i)) (\<lambda>e.
       bindR (SetEntry m (of_nat i) (e\<lparr>he_state := HashMapState_EMPTY\<rparr>)) (\<lambda>m1.
         HashMap_Clear_loop is m1))"

definition HashMap_Clear :: "'d HashMap \<Rightarrow> 'd HashMap res" where
  "HashMap_Clear m =
     bindR (HashMap_Clear_loop [0 ..< unat (hm_numEntries m)] m) (\<lambda>m1.
       Inr (m1\<lparr>hm_count := 0\<rparr>))"

definition HashMap_Remove :: "'d HashMap \<Rightarrow> u8 list \<Rightarrow> ('d HashMap \<times> bool) res" where
  "HashMap_Remove m key =
     bindR (LookupKey m key) (\<lambda>(found, hdr, freeIndex).
       if \<not> found then Inr (m, False)
       else bindR (GetEntry m hdr) (\<lambda>e.
              bindR (SetEntry (m\<lparr>hm_count := hm_count m - 1\<rparr>) hdr
                       (e\<lparr>he_state := HashMapState_DELETED\<rparr>)) (\<lambda>m1.
                Inr (m1, True))))"

definition HashMap_Count :: "'d HashMap \<Rightarrow> u32" where
  "HashMap_Count m = hm_count m"

text \<open>The iterator callback gets the key, the data and the user data, which it may change.\<close>

type_synonym ('d, 's) HashMapIteratorFn = "u8 list \<Rightarrow> 'd option \<Rightarrow> 's \<Rightarrow> 's res"

fun HashMap_Iterate_loop ::
  "('d, 's) HashMapIteratorFn \<Rightarrow> bool \<Rightarrow> nat list \<Rightarrow> 'd HashMap \<Rightarrow> 's \<Rightarrow> ('d HashMap \<times> 's) res" where
  "HashMap_Iterate_loop itFn clear [] m userData = Inr (m, userData)"
| "HashMap_Iterate_loop itFn clear (i # is) m userData =
     bindR (GetEntry m (of_nat i)) (\<lambda>e.
       bindR (if he_state e = HashMapState_FILLED
              then bindR (itFn (he_key e) (he_data e) userData) (\<lambda>userData1.
                     Inr (if clear then m\<lparr>hm_count := hm_count m - 1\<rparr> else m, userData1))
              else Inr (m, userData)) (\<lambda>(m1, userData1).
         bindR (if clear then SetEntry m1 (of_nat i) (e\<lparr>he_state := HashMapState_EMPTY\<rparr>)
                else Inr m1) (\<lambda>m2.
           HashMap_Iterate_loop itFn clear is m2 userData1)))"

definition HashMap_Iterate ::
  "'d HashMap \<Rightarrow> ('d, 's) HashMapIteratorFn \<Rightarrow> bool \<Rightarrow> 's \<Rightarrow> ('d HashMap \<times> 's) res" where
  "HashMap_Iterate m itFn clear userData =
     HashMap_Iterate_loop itFn clear [0 ..< unat (hm_numEntries m)] m userData"

text \<open>The consistency check that debug builds run after every change.\<close>

definition filled :: "'d HashMapEntry \<Rightarrow> bool" where
  "filled e \<longleftrightarrow> he_state e = HashMapState_FILLED"

definition CheckSanity :: "'d HashMap \<Rightarrow> bool" where
  "CheckSanity m \<longleftrightarrow>
     (\<forall>e \<in> set (take (unat (hm_numEntries m)) (hm_entries m)).
        filled e \<longrightarrow> he_hash e = ComputeHash m (he_key e)) \<and>
     of_nat (length (filter filled (take (unat (hm_numEntries m)) (hm_entries m)))) = hm_count m \<and>
     hm_numEntries m \<noteq> 0"

end
