(* ===== verification/HashMap_Laws.thy ===== *)
theory HashMap_Laws
  imports HashMap
begin

text \<open>
  The invariant of the table of \<^verbatim>\<open>hashMap.c\<close> and the proof that its operations implement
  a finite map from keys to data.
\<close>

section \<open>The table as a list of slots\<close>

definition probe_at :: "nat \<Rightarrow> 'd HashMapEntry list \<Rightarrow> u8 list \<Rightarrow> nat \<Rightarrow> nat" where
  "probe_at ks es key i = (unat (djb2 (take ks key)) + i) mod length es"

definition slot_wf :: "nat \<Rightarrow> 'd HashMapEntry list \<Rightarrow> nat \<Rightarrow> bool" where
  "slot_wf ks es p \<longleftrightarrow>
     length (he_key (es ! p)) = ks \<and> he_hash (es ! p) = djb2 (he_key (es ! p)) \<and>
     he_data (es ! p) \<noteq> None \<and>
     (\<exists>i < length es. p = probe_at ks es (he_key (es ! p)) i \<and>
        (\<forall>j < i. he_state (es ! probe_at ks es (he_key (es ! p)) j) \<noteq> HashMapState_EMPTY))"

definition table_inv :: "nat \<Rightarrow> 'd HashMapEntry list \<Rightarrow> bool" where
  "table_inv ks es \<longleftrightarrow>
     es \<noteq> [] \<and>
     (\<forall>p < length es. filled (es ! p) \<longrightarrow> slot_wf ks es p) \<and>
     (\<forall>p < length es. \<forall>q < length es. filled (es ! p) \<longrightarrow> filled (es ! q) \<longrightarrow>
        he_key (es ! p) = he_key (es ! q) \<longrightarrow> p = q)"

text \<open>What a caller of the map sees: the data stored under a key.\<close>

definition table_lookup :: "nat \<Rightarrow> 'd HashMapEntry list \<Rightarrow> u8 list \<Rightarrow> 'd option" where
  "table_lookup ks es key =
     (case List.find (\<lambda>e. filled e \<and> he_key e = take ks key) es of
        None \<Rightarrow> None | Some e \<Rightarrow> he_data e)"

definition load :: "'d HashMapEntry list \<Rightarrow> nat" where
  "load es = length (filter filled es)"

lemma filled_update:
  "filled (e\<lparr>he_data := d\<rparr>) = filled e"
  "\<not> filled (e\<lparr>he_state := HashMapState_EMPTY\<rparr>)"
  "\<not> filled (e\<lparr>he_state := HashMapState_DELETED\<rparr>)"
  "filled \<lparr>he_state = HashMapState_FILLED, he_hash = h, he_key = k, he_data = d\<rparr>"
  by (simp_all add: filled_def)

lemma zero_entry_not_filled [simp]: "\<not> filled zero_entry"
  by (simp add: filled_def zero_entry_def)

lemma probe_at_less: "es \<noteq> [] \<Longrightarrow> probe_at ks es key i < length es"
  by (simp add: probe_at_def)

lemma probe_at_update [simp]: "probe_at ks (es[p := e]) key i = probe_at ks es key i"
  by (simp add: probe_at_def)

lemma probe_at_surj:
  assumes "p < length es"
  shows "\<exists>i < length es. probe_at ks es key i = p"
proof -
  let ?n = "length es" and ?h = "unat (djb2 (take ks key))"
  have n: "0 < ?n" using assms by linarith
  let ?i = "(p + (?n - ?h mod ?n)) mod ?n"
  have "(?h + ?i) mod ?n = (?h mod ?n + (p + (?n - ?h mod ?n))) mod ?n"
    by (simp add: mod_simps)
  also have "?h mod ?n + (p + (?n - ?h mod ?n)) = p + ?n"
    using mod_less_divisor [OF n, of ?h] by simp
  finally have "(?h + ?i) mod ?n = p"
    using assms by simp
  moreover have "?i < ?n" using n by simp
  ultimately show ?thesis
    by (auto simp: probe_at_def)
qed

lemma table_inv_slot: "table_inv ks es \<Longrightarrow> p < length es \<Longrightarrow> filled (es ! p) \<Longrightarrow> slot_wf ks es p"
  by (simp add: table_inv_def)

lemma find_append:
  "List.find P (xs @ ys) = (case List.find P xs of None \<Rightarrow> List.find P ys | Some x \<Rightarrow> Some x)"
  by (induction xs) auto

lemma find_unique:
  assumes "p < length xs" and "P (xs ! p)" and "\<And>q. q < length xs \<Longrightarrow> P (xs ! q) \<Longrightarrow> q = p"
  shows "List.find P xs = Some (xs ! p)"
proof -
  have "\<forall>j < p. \<not> P (xs ! j)"
  proof (intro allI impI notI)
    fix j assume "j < p" "P (xs ! j)"
    with assms(1) assms(3) [of j] show False by simp
  qed
  with assms show ?thesis
    unfolding find_Some_iff by blast
qed

lemma table_lookup_present:
  assumes inv: "table_inv ks es" and p: "p < length es" "filled (es ! p)"
    and key: "he_key (es ! p) = take ks key"
  shows "table_lookup ks es key = he_data (es ! p)"
proof -
  have "List.find (\<lambda>e. filled e \<and> he_key e = take ks key) es = Some (es ! p)"
    using inv p key by (intro find_unique) (auto simp: table_inv_def)
  then show ?thesis
    by (simp add: table_lookup_def)
qed

lemma table_lookup_absent:
  assumes "\<And>p. p < length es \<Longrightarrow> filled (es ! p) \<Longrightarrow> he_key (es ! p) \<noteq> take ks key"
  shows "table_lookup ks es key = None"
proof -
  have "List.find (\<lambda>e. filled e \<and> he_key e = take ks key) es = None"
    using assms unfolding find_None_iff by (auto simp: in_set_conv_nth)
  then show ?thesis
    by (simp add: table_lookup_def)
qed

lemma table_lookup_None_iff:
  assumes "table_inv ks es"
  shows "table_lookup ks es key = None \<longleftrightarrow>
         (\<forall>p < length es. filled (es ! p) \<longrightarrow> he_key (es ! p) \<noteq> take ks key)"
proof
  assume none: "table_lookup ks es key = None"
  show "\<forall>p < length es. filled (es ! p) \<longrightarrow> he_key (es ! p) \<noteq> take ks key"
  proof (intro allI impI notI)
    fix p assume p: "p < length es" "filled (es ! p)" "he_key (es ! p) = take ks key"
    then have "he_data (es ! p) = None"
      using none table_lookup_present [OF assms] by simp
    with table_inv_slot [OF assms p(1,2)] show False
      by (simp add: slot_wf_def)
  qed
qed (rule table_lookup_absent, blast)

text \<open>
  A probe sequence that meets no match before an empty slot (or wraps round) shows that the
  key is absent.
\<close>

lemma probe_absent:
  assumes inv: "table_inv ks es"
    and nomatch: "\<And>i. i < j \<Longrightarrow> \<not> (filled (es ! probe_at ks es key i) \<and>
                     he_key (es ! probe_at ks es key i) = take ks key)"
    and stop: "j < length es \<Longrightarrow> he_state (es ! probe_at ks es key j) = HashMapState_EMPTY"
    and p: "p < length es" "filled (es ! p)"
  shows "he_key (es ! p) \<noteq> take ks key"
proof
  assume k: "he_key (es ! p) = take ks key"
  from inv p have "slot_wf ks es p"
    by (rule table_inv_slot)
  then obtain i where i: "i < length es" "p = probe_at ks es key i"
    and chain: "\<And>j. j < i \<Longrightarrow> he_state (es ! probe_at ks es key j) \<noteq> HashMapState_EMPTY"
    unfolding slot_wf_def k by (auto simp: probe_at_def)
  consider "i < j" | "i = j" | "j < i" by linarith
  then show False
  proof cases
    case 1 with nomatch i p k show False by blast
  next
    case 2 with stop i p show False by (simp add: filled_def)
  next
    case 3 with stop chain i show False by auto
  qed
qed

section \<open>Updates of one slot\<close>

lemma load_update:
  assumes "p < length es"
  shows "load (es[p := e]) + (if filled (es ! p) then 1 else 0) = load es + (if filled e then 1 else 0)"
proof -
  have es: "es = take p es @ es ! p # drop (Suc p) es"
    using assms by (rule id_take_nth_drop)
  have "load (es[p := e]) = load (take p es) + (if filled e then 1 else 0) + load (drop (Suc p) es)"
    using assms by (simp add: load_def upd_conv_take_nth_drop)
  moreover have "load es = load (take p es) + (if filled (es ! p) then 1 else 0) + load (drop (Suc p) es)"
    by (subst es) (simp add: load_def)
  ultimately show ?thesis
    by simp
qed

lemma load_le: "load es \<le> length es"
  by (simp add: load_def)

lemma load_full: "load es = length es \<Longrightarrow> p < length es \<Longrightarrow> filled (es ! p)"
  unfolding load_def by (metis length_filter_less nat_neq_iff nth_mem)

text \<open>Slots whose state does not become empty keep every probe chain alive.\<close>

lemma slot_wf_update:
  assumes wf: "slot_wf ks es q" and q: "q \<noteq> p"
    and nonempty: "p < length es \<Longrightarrow> he_state e \<noteq> HashMapState_EMPTY"
  shows "slot_wf ks (es[p := e]) q"
proof -
  have e: "es[p := e] ! q = es ! q" using q by simp
  from wf obtain i where "i < length es" "q = probe_at ks es (he_key (es ! q)) i"
    and "\<And>j. j < i \<Longrightarrow> he_state (es ! probe_at ks es (he_key (es ! q)) j) \<noteq> HashMapState_EMPTY"
    unfolding slot_wf_def by blast
  moreover from this nonempty have
    "\<And>j. j < i \<Longrightarrow> he_state (es[p := e] ! probe_at ks es (he_key (es ! q)) j) \<noteq> HashMapState_EMPTY"
    by (cases "p < length es") (simp_all add: nth_list_update list_update_beyond)
  ultimately show ?thesis
    using wf unfolding slot_wf_def e probe_at_update length_list_update by blast
qed

lemma table_inv_update:
  assumes inv: "table_inv ks es" and p: "p < length es"
    and nonempty: "he_state e \<noteq> HashMapState_EMPTY"
    and wf: "filled e \<Longrightarrow> slot_wf ks (es[p := e]) p"
    and fresh: "\<And>q. filled e \<Longrightarrow> q < length es \<Longrightarrow> q \<noteq> p \<Longrightarrow> filled (es ! q) \<Longrightarrow> he_key (es ! q) \<noteq> he_key e"
  shows "table_inv ks (es[p := e])"
  unfolding table_inv_def
proof (intro conjI allI impI)
  show "es[p := e] \<noteq> []" using inv by (simp add: table_inv_def)
next
  fix q assume "q < length (es[p := e])" "filled (es[p := e] ! q)"
  then show "slot_wf ks (es[p := e]) q"
    using inv p wf nonempty
    by (cases "q = p") (auto simp: table_inv_def intro!: slot_wf_update)
next
  fix q r
  assume "q < length (es[p := e])" "r < length (es[p := e])"
    "filled (es[p := e] ! q)" "filled (es[p := e] ! r)" "he_key (es[p := e] ! q) = he_key (es[p := e] ! r)"
  note qr = this
  have uniq: "q < length es \<Longrightarrow> r < length es \<Longrightarrow> filled (es ! q) \<Longrightarrow> filled (es ! r) \<Longrightarrow>
      he_key (es ! q) = he_key (es ! r) \<Longrightarrow> q = r"
    using inv by (simp add: table_inv_def)
  show "q = r"
    using qr p fresh [of q] fresh [of r] uniq
    by (cases "q = p"; cases "r = p") simp_all
qed

lemma key_absent_update:
  assumes "p < length es" and "\<not> filled (es ! p) \<or> he_key (es ! p) \<noteq> take ks k"
    and "\<not> filled e \<or> he_key e \<noteq> take ks k"
  shows "table_lookup ks (es[p := e]) k = table_lookup ks es k"
proof -
  let ?P = "\<lambda>e. filled e \<and> he_key e = take ks k"
  have es: "es = take p es @ es ! p # drop (Suc p) es"
    using assms(1) by (rule id_take_nth_drop)
  have "List.find ?P (es[p := e]) = List.find ?P es"
    by (subst (2) es) (use assms in \<open>auto simp: upd_conv_take_nth_drop find_append split: option.split\<close>)
  then show ?thesis
    by (simp add: table_lookup_def)
qed

section \<open>Probing\<close>

definition entry_matches :: "'d HashMap \<Rightarrow> u8 list \<Rightarrow> 'd HashMapEntry \<Rightarrow> bool" where
  "entry_matches m key e \<longleftrightarrow>
     filled e \<and> he_hash e = ComputeHash m key \<and> CompareKeys m key (he_key e)"

definition shape_ok :: "'d HashMap \<Rightarrow> bool" where
  "shape_ok m \<longleftrightarrow> length (hm_entries m) = unat (hm_numEntries m) \<and>
     hm_entries m \<noteq> [] \<and> unat (hm_numEntries m) \<le> 2 ^ 31"

abbreviation probe_slot :: "'d HashMap \<Rightarrow> u8 list \<Rightarrow> nat \<Rightarrow> nat" where
  "probe_slot m \<equiv> probe_at (unat (hm_keySize m)) (hm_entries m)"

lemma shape_okD:
  assumes "shape_ok m"
  shows "length (hm_entries m) = unat (hm_numEntries m)" "0 < unat (hm_numEntries m)"
    "unat (hm_numEntries m) \<le> 2147483648" "unat (hm_numEntries m + 1) = unat (hm_numEntries m) + 1"
proof -
  from assms show l: "length (hm_entries m) = unat (hm_numEntries m)"
    and b: "unat (hm_numEntries m) \<le> 2147483648"
    by (simp_all add: shape_ok_def)
  from assms have "hm_entries m \<noteq> []"
    by (simp add: shape_ok_def)
  with l show "0 < unat (hm_numEntries m)"
    by (metis length_greater_0_conv)
  from b show "unat (hm_numEntries m + 1) = unat (hm_numEntries m) + 1"
    by (subst unat_add_bound) simp_all
qed

lemma probe_index:
  assumes "shape_ok m" and "unat probe \<le> unat (hm_numEntries m)"
  shows "unat ((ComputeHash m key mod hm_numEntries m + probe) mod hm_numEntries m) =
         probe_slot m key (unat probe)"
proof -
  note s = shape_okD [OF assms(1)]
  let ?N = "hm_numEntries m" and ?h = "ComputeHash m key"
  have "unat (?h mod ?N) < unat ?N"
    using s(2) by (simp add: unat_mod_distrib)
  then have "unat (?h mod ?N + probe) = unat ?h mod unat ?N + unat probe"
    using s(3) assms(2) by (subst unat_add_bound) (simp_all add: unat_mod_distrib)
  then show ?thesis
    by (simp add: unat_mod_distrib probe_at_def s(1) ComputeHash_def key_bytes_def mod_simps)
qed

lemma probe_slot_less: "shape_ok m \<Longrightarrow> probe_slot m key i < length (hm_entries m)"
  unfolding shape_ok_def by (rule probe_at_less) blast

text \<open>What the probing loop has seen when it stops without a match, from probe \<open>lo\<close> on.\<close>

definition miss_from :: "'d HashMap \<Rightarrow> u8 list \<Rightarrow> nat \<Rightarrow> nat \<Rightarrow> bool" where
  "miss_from m key lo j \<longleftrightarrow> lo \<le> j \<and>
     (\<forall>i. lo \<le> i \<and> i < j \<longrightarrow> \<not> entry_matches m key (hm_entries m ! probe_slot m key i)) \<and>
     (j \<le> length (hm_entries m) \<longrightarrow>
        he_state (hm_entries m ! probe_slot m key j) = HashMapState_EMPTY)"

definition free_from :: "'d HashMap \<Rightarrow> u8 list \<Rightarrow> nat \<Rightarrow> u32 \<Rightarrow> bool" where
  "free_from m key lo fr \<longleftrightarrow>
     (fr = NO_FREE_INDEX \<and>
        (\<forall>i. lo \<le> i \<and> i \<le> length (hm_entries m) \<longrightarrow> filled (hm_entries m ! probe_slot m key i))) \<or>
     (\<exists>i0 \<ge> lo. unat fr = probe_slot m key i0 \<and> \<not> filled (hm_entries m ! probe_slot m key i0) \<and>
        (\<forall>i. lo \<le> i \<and> i < i0 \<longrightarrow> filled (hm_entries m ! probe_slot m key i)))"

lemma miss_from_step:
  "\<not> entry_matches m key (hm_entries m ! probe_slot m key lo) \<Longrightarrow> miss_from m key (Suc lo) j \<Longrightarrow>
   miss_from m key lo j"
  unfolding miss_from_def by (metis Suc_leD Suc_leI le_neq_implies_less)

lemma free_from_step:
  assumes "filled (hm_entries m ! probe_slot m key lo)" and "free_from m key (Suc lo) fr"
  shows "free_from m key lo fr"
  using assms unfolding free_from_def by (metis Suc_leD Suc_leI le_neq_implies_less)

lemma free_from_here:
  "unat fr = probe_slot m key lo \<Longrightarrow> \<not> filled (hm_entries m ! probe_slot m key lo) \<Longrightarrow>
   free_from m key lo fr"
  unfolding free_from_def by (meson le_refl not_le)

lemma slot_not_NO_FREE:
  assumes "shape_ok m" and "unat fr = probe_slot m key i"
  shows "fr \<noteq> NO_FREE_INDEX"
proof
  assume "fr = NO_FREE_INDEX"
  moreover have "unat (- 1 :: u32) = 4294967295"
    by (simp add: unsigned_minus_1_eq_mask mask_eq_exp_minus_1)
  ultimately have "probe_slot m key i = 4294967295"
    using assms(2) by (simp add: NO_FREE_INDEX_def)
  moreover have "probe_slot m key i < unat (hm_numEntries m)"
    using probe_slot_less [OF assms(1)] shape_okD(1) [OF assms(1)] by metis
  ultimately show False
    using shape_okD(3) [OF assms(1)] by simp
qed

text \<open>The outcomes of the loop, started at probe \<open>lo\<close> with \<open>free\<close> as the free slot so far.\<close>

inductive loop_post :: "'d HashMap \<Rightarrow> u8 list \<Rightarrow> nat \<Rightarrow> u32 \<Rightarrow> (bool \<times> u32 \<times> u32) res \<Rightarrow> bool"
  for m key lo free where
  hit: "unat c = probe_slot m key i \<Longrightarrow> entry_matches m key (hm_entries m ! probe_slot m key i) \<Longrightarrow>
    loop_post m key lo free (Inr (True, c, fr))"
| miss: "miss_from m key lo j \<Longrightarrow> (free = NO_FREE_INDEX \<Longrightarrow> free_from m key lo fr) \<Longrightarrow>
    (free \<noteq> NO_FREE_INDEX \<Longrightarrow> fr = free) \<Longrightarrow> loop_post m key lo free (Inr (False, c, fr))"

lemma loop_post_deleted:
  assumes "\<not> entry_matches m key (hm_entries m ! probe_slot m key lo)" and "free_from m key lo c"
    and "free' = (if free = NO_FREE_INDEX then c else free)" and "free' \<noteq> NO_FREE_INDEX"
    and "loop_post m key (Suc lo) free' r"
  shows "loop_post m key lo free r"
  using assms(5,1-4)
  by cases (auto intro: loop_post.intros miss_from_step)

lemma loop_post_filled:
  assumes "\<not> entry_matches m key (hm_entries m ! probe_slot m key lo)"
    and "filled (hm_entries m ! probe_slot m key lo)" and "loop_post m key (Suc lo) free r"
  shows "loop_post m key lo free r"
  using assms(3,1-2)
  by cases (auto intro: loop_post.intros miss_from_step free_from_step)

lemma LookupKey_loop_spec:
  assumes "shape_ok m" and "hash = ComputeHash m key" and "index = hash mod hm_numEntries m"
    and "unat probe \<le> unat (hm_numEntries m) + 1"
  shows "loop_post m key (unat probe) free (LookupKey_loop m key hash index probe cur free)"
  using assms
proof (induction m key hash index probe cur free rule: LookupKey_loop.induct)
  case (1 m key hash index probe cur free)
  note s = shape_okD [OF "1.prems"(1)]
  let ?c = "(index + probe) mod hm_numEntries m"
  let ?free' = "if free = NO_FREE_INDEX then ?c else free"
  let ?e = "hm_entries m ! probe_slot m key (unat probe)"
  show ?case
  proof (cases "probe < hm_numEntries m + 1")
    case False
    then have "unat probe = length (hm_entries m) + 1"
      using "1.prems"(4) s by (simp add: word_less_nat_alt)
    then have "miss_from m key (unat probe) (unat probe)" "free_from m key (unat probe) NO_FREE_INDEX"
      by (auto simp: miss_from_def free_from_def)
    with False show ?thesis
      by (subst LookupKey_loop.simps) (auto intro: loop_post.miss)
  next
    case True
    then have le: "unat probe \<le> unat (hm_numEntries m)"
      using s by (simp add: word_less_nat_alt)
    have next_probe: "unat (probe + 1) = Suc (unat probe)"
      using le s(3) by (subst unat_add_bound) simp_all
    have c: "unat ?c = probe_slot m key (unat probe)"
      using probe_index [OF "1.prems"(1) le] "1.prems"(2,3) by simp
    have get: "GetEntry m ?c = Inr ?e"
      using probe_slot_less [OF "1.prems"(1)] by (simp add: GetEntry_def c)
    have step: "loop_post m key (Suc (unat probe)) f
        (LookupKey_loop m key hash index (probe + 1) ?c f)"
      if "he_state ?e = HashMapState_DELETED \<and> f = ?free' \<or>
          he_state ?e = HashMapState_FILLED \<and> f = free \<and> \<not> (he_hash ?e = hash \<and> CompareKeys m key (he_key ?e))" for f
      using that "1.IH" [OF True refl refl get] "1.prems"(1-3) le next_probe by auto
    show ?thesis
    proof (cases "he_state ?e")
      case HashMapState_EMPTY
      have "LookupKey_loop m key hash index probe cur free = Inr (False, ?c, ?free')"
        using True get HashMapState_EMPTY by (subst LookupKey_loop.simps) (simp add: Let_def)
      moreover have "miss_from m key (unat probe) (unat probe)"
        using HashMapState_EMPTY by (auto simp: miss_from_def)
      moreover have "free_from m key (unat probe) ?c"
        using HashMapState_EMPTY by (intro free_from_here c) (simp add: filled_def)
      ultimately show ?thesis
        by (auto intro: loop_post.miss)
    next
      case HashMapState_DELETED
      have eq: "LookupKey_loop m key hash index probe cur free =
          LookupKey_loop m key hash index (probe + 1) ?c ?free'"
        using True get HashMapState_DELETED by (subst LookupKey_loop.simps) (simp add: Let_def)
      have nf: "\<not> filled ?e" "\<not> entry_matches m key ?e"
        using HashMapState_DELETED by (simp_all add: filled_def entry_matches_def)
      have "?free' \<noteq> NO_FREE_INDEX"
        using slot_not_NO_FREE [OF "1.prems"(1) c] by auto
      with step [of ?free'] HashMapState_DELETED show ?thesis
        unfolding eq by (intro loop_post_deleted [OF nf(2) free_from_here [OF c nf(1)] refl]) simp_all
    next
      case HashMapState_FILLED
      show ?thesis
      proof (cases "he_hash ?e = hash \<and> CompareKeys m key (he_key ?e)")
        case match: True
        have "LookupKey_loop m key hash index probe cur free = Inr (True, ?c, free)"
          using True get HashMapState_FILLED match by (subst LookupKey_loop.simps) (simp add: Let_def)
        moreover have "entry_matches m key ?e"
          using match HashMapState_FILLED "1.prems"(2) by (simp add: entry_matches_def filled_def)
        ultimately show ?thesis
          using c by (auto intro: loop_post.hit)
      next
        case nomatch: False
        have eq: "LookupKey_loop m key hash index probe cur free =
            LookupKey_loop m key hash index (probe + 1) ?c free"
          using True get HashMapState_FILLED nomatch by (subst LookupKey_loop.simps) (auto simp: Let_def)
        have nm: "\<not> entry_matches m key ?e" "filled ?e"
          using nomatch HashMapState_FILLED "1.prems"(2) by (auto simp: entry_matches_def filled_def)
        show ?thesis
          using step [of free] HashMapState_FILLED nomatch unfolding eq
          by (intro loop_post_filled [OF nm]) simp_all
      qed
    qed
  qed
qed

section \<open>The invariant and the abstraction\<close>

definition tab_ok :: "'d HashMap \<Rightarrow> bool" where
  "tab_ok m \<longleftrightarrow> shape_ok m \<and> table_inv (unat (hm_keySize m)) (hm_entries m)"

definition hm_inv :: "'d HashMap \<Rightarrow> bool" where
  "hm_inv m \<longleftrightarrow> tab_ok m \<and> 0 < unat (hm_alpha m) \<and> unat (hm_count m) = load (hm_entries m)"

text \<open>The finite map a table stands for, on keys of the map's key size.\<close>

definition hm_abs :: "'d HashMap \<Rightarrow> u8 list \<Rightarrow> 'd option" where
  "hm_abs m key =
     (if length key = unat (hm_keySize m)
      then table_lookup (unat (hm_keySize m)) (hm_entries m) key else None)"

lemma entry_matches_iff:
  assumes "tab_ok m" and "p < length (hm_entries m)"
  shows "entry_matches m key (hm_entries m ! p) \<longleftrightarrow>
         filled (hm_entries m ! p) \<and> he_key (hm_entries m ! p) = take (unat (hm_keySize m)) key"
  using assms table_inv_slot [of "unat (hm_keySize m)" "hm_entries m" p]
  by (auto simp: tab_ok_def entry_matches_def CompareKeys_def ComputeHash_def key_bytes_def slot_wf_def)

lemma all_probes_filled:
  assumes "es \<noteq> []" and "\<And>i. i < length es \<Longrightarrow> filled (es ! probe_at ks es key i)"
  shows "load es = length es"
proof -
  have "filled e" if e: "e \<in> set es" for e
  proof -
    from e obtain p where "p < length es" "e = es ! p"
      by (auto simp: in_set_conv_nth)
    with assms(2) probe_at_surj [of p es ks key] show ?thesis
      by auto
  qed
  then show ?thesis
    by (simp add: load_def)
qed

text \<open>Where a new key may go: the first slot of its probe sequence that is not filled.\<close>

definition insert_slot :: "'d HashMap \<Rightarrow> u8 list \<Rightarrow> u32 \<Rightarrow> bool" where
  "insert_slot m key fr \<longleftrightarrow>
     (\<exists>i0 < length (hm_entries m). unat fr = probe_slot m key i0 \<and>
        \<not> filled (hm_entries m ! unat fr) \<and>
        (\<forall>i < i0. filled (hm_entries m ! probe_slot m key i)))"

lemma free_from_0:
  assumes "shape_ok m" and "free_from m key 0 fr"
  shows "fr = NO_FREE_INDEX \<and> load (hm_entries m) = length (hm_entries m) \<or>
         fr \<noteq> NO_FREE_INDEX \<and> insert_slot m key fr"
  using assms(2) unfolding free_from_def
proof (elim disjE conjE exE)
  assume "fr = NO_FREE_INDEX"
    and all: "\<forall>i. 0 \<le> i \<and> i \<le> length (hm_entries m) \<longrightarrow> filled (hm_entries m ! probe_slot m key i)"
  have "load (hm_entries m) = length (hm_entries m)"
    using assms(1) all by (intro all_probes_filled [of _ "unat (hm_keySize m)" key]) (auto simp: shape_ok_def)
  with \<open>fr = NO_FREE_INDEX\<close> show ?thesis
    by simp
next
  fix i0
  assume fr: "unat fr = probe_slot m key i0" and nf: "\<not> filled (hm_entries m ! probe_slot m key i0)"
    and below: "\<forall>i. 0 \<le> i \<and> i < i0 \<longrightarrow> filled (hm_entries m ! probe_slot m key i)"
  have "i0 < length (hm_entries m)"
  proof (rule ccontr)
    assume "\<not> i0 < length (hm_entries m)"
    with below have "load (hm_entries m) = length (hm_entries m)"
      using assms(1) by (intro all_probes_filled [of _ "unat (hm_keySize m)" key]) (auto simp: shape_ok_def)
    with nf probe_slot_less [OF assms(1)] show False
      using load_full by blast
  qed
  with fr nf below have "insert_slot m key fr"
    unfolding insert_slot_def by auto
  with slot_not_NO_FREE [OF assms(1) fr] show ?thesis
    by blast
qed

lemma LookupKey_cases:
  assumes ok: "tab_ok m"
  obtains (hit) c fr where "LookupKey m key = Inr (True, c, fr)" "unat c < length (hm_entries m)"
      "filled (hm_entries m ! unat c)"
      "he_key (hm_entries m ! unat c) = take (unat (hm_keySize m)) key"
  | (miss) c fr where "LookupKey m key = Inr (False, c, fr)"
      "table_lookup (unat (hm_keySize m)) (hm_entries m) key = None"
      "fr = NO_FREE_INDEX \<and> load (hm_entries m) = length (hm_entries m) \<or>
       fr \<noteq> NO_FREE_INDEX \<and> insert_slot m key fr"
proof -
  have shape: "shape_ok m" and inv: "table_inv (unat (hm_keySize m)) (hm_entries m)"
    using ok by (simp_all add: tab_ok_def)
  have nz: "hm_numEntries m \<noteq> 0"
    using shape_okD(2) [OF shape] by auto
  have eq: "LookupKey m key = LookupKey_loop m key (ComputeHash m key)
      (ComputeHash m key mod hm_numEntries m) 0 0 NO_FREE_INDEX"
    using nz by (simp add: LookupKey_def Let_def)
  have "loop_post m key 0 NO_FREE_INDEX (LookupKey m key)"
    using LookupKey_loop_spec [OF shape refl refl, of 0 key NO_FREE_INDEX 0] by (simp add: eq)
  then show thesis
  proof cases
    case (hit c i fr)
    then show thesis
      using entry_matches_iff [OF ok probe_slot_less [OF shape]] probe_slot_less [OF shape, of key i]
      by (intro that(1) [of c fr]) simp_all
  next
    case (miss j fr c)
    have nomatch: "\<not> (filled (hm_entries m ! probe_slot m key i) \<and>
        he_key (hm_entries m ! probe_slot m key i) = take (unat (hm_keySize m)) key)" if "i < j" for i
      using miss(2) that entry_matches_iff [OF ok probe_slot_less [OF shape], of key key i]
      by (simp add: miss_from_def)
    have stop: "j < length (hm_entries m) \<Longrightarrow>
        he_state (hm_entries m ! probe_slot m key j) = HashMapState_EMPTY"
      using miss(2) by (simp add: miss_from_def)
    have "table_lookup (unat (hm_keySize m)) (hm_entries m) key = None"
      by (rule table_lookup_absent) (rule probe_absent [OF inv nomatch stop])
    with miss free_from_0 [OF shape miss(3) [OF refl]] show thesis
      by (intro that(2) [of c fr]) simp_all
  qed
qed

section \<open>Writing one slot\<close>

lemma fill_table:
  assumes inv: "table_inv ks es" and i0: "i0 < length es" and p: "p = probe_at ks es key i0"
    and free: "\<not> filled (es ! p)" and below: "\<And>i. i < i0 \<Longrightarrow> filled (es ! probe_at ks es key i)"
    and absent: "table_lookup ks es key = None" and len: "length key = ks"
    and e: "e = \<lparr>he_state = HashMapState_FILLED, he_hash = djb2 key, he_key = key, he_data = Some d\<rparr>"
  shows "table_inv ks (es[p := e])"
    and "table_lookup ks (es[p := e]) k = (if take ks k = key then Some d else table_lookup ks es k)"
    and "load (es[p := e]) = load es + 1"
proof -
  have plt: "p < length es"
    using inv p by (auto simp: table_inv_def intro: probe_at_less)
  have ef: "filled e" "he_key e = key" "he_data e = Some d" "he_hash e = djb2 key"
    by (simp_all add: e filled_def)
  have key: "take ks key = key" using len by simp
  have "\<And>i. i < i0 \<Longrightarrow> he_state (es[p := e] ! probe_at ks es key i) \<noteq> HashMapState_EMPTY"
    using below ef(1) plt by (auto simp: nth_list_update filled_def)
  then have wf: "slot_wf ks (es[p := e]) p"
    using plt ef len i0 p unfolding slot_wf_def by auto
  have fresh: "\<And>q. q < length es \<Longrightarrow> filled (es ! q) \<Longrightarrow> he_key (es ! q) \<noteq> key"
    using absent table_lookup_None_iff [OF inv, of key] key by simp
  show inv': "table_inv ks (es[p := e])"
    using inv plt wf fresh ef by (intro table_inv_update) (auto simp: filled_def)
  show "load (es[p := e]) = load es + 1"
    using load_update [OF plt, of e] free ef by simp
  show "table_lookup ks (es[p := e]) k = (if take ks k = key then Some d else table_lookup ks es k)"
  proof (cases "take ks k = key")
    case True
    then show ?thesis
      using table_lookup_present [OF inv', of p k] plt ef by simp
  next
    case False
    then show ?thesis
      using key_absent_update [OF plt, of ks k e] free ef by simp
  qed
qed

text \<open>The fields that no operation on slots changes.\<close>

definition same_shape :: "'d HashMap \<Rightarrow> 'd HashMap \<Rightarrow> bool" where
  "same_shape m m' \<longleftrightarrow> hm_numEntries m' = hm_numEntries m \<and> hm_alpha m' = hm_alpha m \<and>
     hm_keySize m' = hm_keySize m \<and> hm_dataSize m' = hm_dataSize m \<and>
     hm_entrySize m' = hm_entrySize m \<and> hm_keyOffset m' = hm_keyOffset m \<and>
     hm_dataOffset m' = hm_dataOffset m"

lemma hm_inv_count_room:
  assumes "hm_inv m" and "load (hm_entries m) < length (hm_entries m)"
  shows "unat (hm_count m + 1) = load (hm_entries m) + 1"
proof -
  have "length (hm_entries m) \<le> 2147483648"
    using assms(1) by (simp add: hm_inv_def tab_ok_def shape_ok_def)
  with assms show ?thesis
    by (subst unat_add_bound) (simp_all add: hm_inv_def)
qed

lemma insert_slot_room: "insert_slot m key fr \<Longrightarrow> shape_ok m \<Longrightarrow> load (hm_entries m) < length (hm_entries m)"
  using load_full [of "hm_entries m" "unat fr"] load_le [of "hm_entries m"] probe_slot_less [of m key]
  by (fastforce simp: insert_slot_def order.order_iff_strict)

lemma FillEntry_spec:
  assumes inv: "hm_inv m" and slot: "insert_slot m key fr"
    and absent: "table_lookup (unat (hm_keySize m)) (hm_entries m) key = None"
    and len: "length key = unat (hm_keySize m)"
  obtains m' where "FillEntry (m\<lparr>hm_count := c\<rparr>) fr (djb2 key) key (Some d) = Inr m'"
    and "hm_inv (m'\<lparr>hm_count := hm_count m + 1\<rparr>)" and "hm_count m' = c" and "same_shape m m'"
    and "\<And>k. table_lookup (unat (hm_keySize m)) (hm_entries m') k =
         (if take (unat (hm_keySize m)) k = key then Some d
          else table_lookup (unat (hm_keySize m)) (hm_entries m) k)"
    and "load (hm_entries m') = load (hm_entries m) + 1"
proof -
  let ?ks = "unat (hm_keySize m)" and ?es = "hm_entries m"
  let ?e = "\<lparr>he_state = HashMapState_FILLED, he_hash = djb2 key, he_key = key, he_data = Some d\<rparr>"
  have shape: "shape_ok m" and tinv: "table_inv ?ks ?es"
    using inv by (simp_all add: hm_inv_def tab_ok_def)
  from slot obtain i0 where i0: "i0 < length ?es" "unat fr = probe_at ?ks ?es key i0"
    "\<not> filled (?es ! unat fr)" "\<And>i. i < i0 \<Longrightarrow> filled (?es ! probe_at ?ks ?es key i)"
    unfolding insert_slot_def by blast
  note fill = fill_table [OF tinv i0 absent len refl, of d]
  have lt: "unat fr < length ?es"
    using i0(2) probe_slot_less [OF shape] by simp
  let ?m' = "m\<lparr>hm_count := c, hm_entries := ?es[unat fr := ?e]\<rparr>"
  have kb: "key_bytes m key = key" "key_bytes (m\<lparr>hm_count := c\<rparr>) key = key"
    using len by (simp_all add: key_bytes_def)
  have "FillEntry (m\<lparr>hm_count := c\<rparr>) fr (djb2 key) key (Some d) = Inr ?m'"
    using lt kb by (simp add: FillEntry_def SetEntry_def)
  moreover have "hm_inv (?m'\<lparr>hm_count := hm_count m + 1\<rparr>)"
    using inv fill(1,3) hm_inv_count_room [OF inv insert_slot_room [OF slot shape]]
    by (simp add: hm_inv_def tab_ok_def shape_ok_def)
  ultimately show thesis
    using fill(2,3) by (intro that [of ?m']) (simp_all add: same_shape_def)
qed

section \<open>Lookup, removal, clearing\<close>

lemma hm_inv_tab: "hm_inv m \<Longrightarrow> tab_ok m"
  by (simp add: hm_inv_def)

lemma tab_ok_inv: "tab_ok m \<Longrightarrow> table_inv (unat (hm_keySize m)) (hm_entries m)"
  by (simp add: tab_ok_def)

lemma HashMap_Get_abs:
  assumes "hm_inv m" and "length key = unat (hm_keySize m)"
  shows "HashMap_Get m key = Inr (hm_abs m key)"
  using hm_inv_tab [OF assms(1)]
proof (cases rule: LookupKey_cases [where key = key])
  case (hit c fr)
  then have "table_lookup (unat (hm_keySize m)) (hm_entries m) key = he_data (hm_entries m ! unat c)"
    using table_lookup_present tab_ok_inv [OF hm_inv_tab [OF assms(1)]] by blast
  with hit assms(2) show ?thesis
    by (simp add: HashMap_Get_def GetEntry_def hm_abs_def)
next
  case (miss c fr)
  with assms(2) show ?thesis
    by (simp add: HashMap_Get_def hm_abs_def)
qed

lemma delete_table:
  assumes inv: "table_inv ks es" and p: "p < length es" "filled (es ! p)"
    and e: "e = (es ! p)\<lparr>he_state := HashMapState_DELETED\<rparr>"
  shows "table_inv ks (es[p := e])"
    and "table_lookup ks (es[p := e]) k =
         (if take ks k = he_key (es ! p) then None else table_lookup ks es k)"
    and "load (es[p := e]) + 1 = load es"
proof -
  have ne: "\<not> filled e" "he_state e \<noteq> HashMapState_EMPTY"
    by (simp_all add: e filled_def)
  show inv': "table_inv ks (es[p := e])"
    using inv p ne by (intro table_inv_update) simp_all
  show "load (es[p := e]) + 1 = load es"
    using load_update [OF p(1), of e] p(2) ne by simp
  show "table_lookup ks (es[p := e]) k =
         (if take ks k = he_key (es ! p) then None else table_lookup ks es k)"
  proof (cases "take ks k = he_key (es ! p)")
    case True
    have "he_key (es[p := e] ! q) \<noteq> take ks k" if "q < length es" "filled (es[p := e] ! q)" for q
      using that True inv p ne unfolding table_inv_def by (cases "q = p") auto
    then have "table_lookup ks (es[p := e]) k = None"
      by (intro table_lookup_absent) simp
    with True show ?thesis
      by simp
  next
    case False
    then show ?thesis
      using key_absent_update [OF p(1), of ks k e] ne by auto
  qed
qed

lemma HashMap_Remove_spec:
  assumes inv: "hm_inv m" and len: "length key = unat (hm_keySize m)"
  obtains m' where "HashMap_Remove m key = Inr (m', hm_abs m key \<noteq> None)"
    and "hm_inv m'" and "hm_abs m' = (hm_abs m)(key := None)" and "same_shape m m'"
  using hm_inv_tab [OF inv]
proof (cases rule: LookupKey_cases [where key = key])
  case (hit c fr)
  let ?ks = "unat (hm_keySize m)" and ?es = "hm_entries m"
  let ?e = "(?es ! unat c)\<lparr>he_state := HashMapState_DELETED\<rparr>"
  let ?m' = "m\<lparr>hm_count := hm_count m - 1, hm_entries := ?es[unat c := ?e]\<rparr>"
  have tinv: "table_inv ?ks ?es"
    using tab_ok_inv [OF hm_inv_tab [OF inv]] .
  note del = delete_table [OF tinv hit(2,3) refl]
  have "table_lookup ?ks ?es key = he_data (?es ! unat c)"
    using table_lookup_present [OF tinv hit(2-4)] .
  moreover have "he_data (?es ! unat c) \<noteq> None"
    using table_inv_slot [OF tinv hit(2,3)] by (simp add: slot_wf_def)
  ultimately have some: "hm_abs m key \<noteq> None"
    using len by (simp add: hm_abs_def)
  have "unat (hm_count m - 1) = unat (hm_count m) - 1"
    using inv del(3) by (simp add: hm_inv_def unat_sub word_le_nat_alt)
  then have "hm_inv ?m'"
    using inv del(1,3) by (simp add: hm_inv_def tab_ok_def shape_ok_def)
  moreover have "HashMap_Remove m key = Inr (?m', hm_abs m key \<noteq> None)"
    using hit some by (simp add: HashMap_Remove_def GetEntry_def SetEntry_def)
  moreover have "hm_abs ?m' = (hm_abs m)(key := None)"
    using hit len del(2) by (auto simp: hm_abs_def fun_eq_iff)
  ultimately show thesis
    by (intro that [of ?m']) (simp_all add: same_shape_def)
next
  case (miss c fr)
  then have none: "hm_abs m key = None"
    by (simp add: hm_abs_def)
  show thesis
  proof (rule that [of m])
    show "HashMap_Remove m key = Inr (m, hm_abs m key \<noteq> None)"
      using miss none by (simp add: HashMap_Remove_def)
    show "hm_abs m = (hm_abs m)(key := None)"
      using none by (simp add: fun_upd_idem)
  qed (simp_all add: inv same_shape_def)
qed

text \<open>A table in which no slot is filled.\<close>

lemma table_inv_empty:
  assumes "es \<noteq> []" and "\<And>e. e \<in> set es \<Longrightarrow> \<not> filled e"
  shows "table_inv ks es" and "table_lookup ks es k = None" and "load es = 0"
proof -
  have nf: "\<not> filled (es ! p)" if "p < length es" for p
    using assms(2) that by simp
  show "table_inv ks es"
    using assms(1) nf by (simp add: table_inv_def)
  show "table_lookup ks es k = None"
    using nf by (intro table_lookup_absent) blast
  show "load es = 0"
    using assms(2) by (simp add: load_def filter_empty_conv)
qed

lemma HashMap_Clear_loop_spec:
  assumes "i \<le> length (hm_entries m)" and "length (hm_entries m) < 2 ^ 32"
  shows "HashMap_Clear_loop [i ..< length (hm_entries m)] m =
     Inr (m\<lparr>hm_entries := take i (hm_entries m) @
              map (\<lambda>e. e\<lparr>he_state := HashMapState_EMPTY\<rparr>) (drop i (hm_entries m))\<rparr>)"
  using assms
proof (induction "length (hm_entries m) - i" arbitrary: i m)
  case 0
  then show ?case by simp
next
  case (Suc n)
  then have i: "i < length (hm_entries m)" by simp
  have u: "unat (of_nat i :: u32) = i"
    using i Suc.prems by (intro unat_of_nat_bound) simp
  let ?e = "(hm_entries m ! i)\<lparr>he_state := HashMapState_EMPTY\<rparr>"
  let ?m1 = "m\<lparr>hm_entries := (hm_entries m)[i := ?e]\<rparr>"
  have "HashMap_Clear_loop [i ..< length (hm_entries m)] m =
      HashMap_Clear_loop [Suc i ..< length (hm_entries ?m1)] ?m1"
    using i by (simp add: upt_conv_Cons GetEntry_def SetEntry_def u)
  also have "\<dots> = Inr (?m1\<lparr>hm_entries := take (Suc i) (hm_entries ?m1) @
              map (\<lambda>e. e\<lparr>he_state := HashMapState_EMPTY\<rparr>) (drop (Suc i) (hm_entries ?m1))\<rparr>)"
    using Suc i by (intro Suc.hyps) simp_all
  also have "\<dots> = Inr (m\<lparr>hm_entries := take i (hm_entries m) @
              map (\<lambda>e. e\<lparr>he_state := HashMapState_EMPTY\<rparr>) (drop i (hm_entries m))\<rparr>)"
    using i by (simp add: take_Suc_conv_app_nth Cons_nth_drop_Suc [symmetric])
  finally show ?case .
qed

lemma HashMap_Clear_spec:
  assumes inv: "hm_inv m"
  obtains m' where "HashMap_Clear m = Inr m'" and "hm_inv m'" and "hm_abs m' = Map.empty"
    and "HashMap_Count m' = 0" and "same_shape m m'"
proof -
  let ?es = "map (\<lambda>e. e\<lparr>he_state := HashMapState_EMPTY\<rparr>) (hm_entries m)"
  let ?m' = "m\<lparr>hm_entries := ?es, hm_count := 0\<rparr>"
  have shape: "shape_ok m"
    using inv by (simp add: hm_inv_def tab_ok_def)
  have ne: "?es \<noteq> []" and "\<And>e. e \<in> set ?es \<Longrightarrow> \<not> filled e"
    using shape by (auto simp: shape_ok_def filled_def)
  note empty = table_inv_empty [OF this]
  have "length (hm_entries m) < 2 ^ 32"
    using shape_okD(1,3) [OF shape] by simp
  then have "HashMap_Clear m = Inr ?m'"
    using HashMap_Clear_loop_spec [of 0 m] shape_okD(1) [OF shape] by (simp add: HashMap_Clear_def)
  moreover have "hm_inv ?m'"
    using inv empty(1,3) by (simp add: hm_inv_def tab_ok_def shape_ok_def)
  ultimately show thesis
    using empty(2) by (intro that [of ?m']) (auto simp: hm_abs_def HashMap_Count_def same_shape_def)
qed

section \<open>Growing the table\<close>

lemma NeedsResize_iff:
  assumes "shape_ok m"
  shows "NeedsResize m \<longleftrightarrow> unat (hm_numEntries m) \<le> unat (hm_count m) * unat (hm_alpha m)"
proof (cases "unat (hm_count m) * unat (hm_alpha m) < 2 ^ 32")
  case True
  then show ?thesis
    by (simp add: NeedsResize_def Clamped_UMul32_def word_le_nat_alt unat_mult_bound)
next
  case False
  with shape_okD(3) [OF assms] show ?thesis
    by (simp add: NeedsResize_def Clamped_UMul32_def word_le_nat_alt MAX_UINT32_def)
qed

lemma Resize_grow_once:
  assumes "0 < unat (hm_numEntries m)" and "unat (hm_numEntries m) \<le> 2 ^ 30"
    and "unat (hm_count m) * unat (hm_alpha m) < 2 * unat (hm_numEntries m)"
  shows "Resize_grow m = Inr (m\<lparr>hm_numEntries := hm_numEntries m * 2\<rparr>)"
proof -
  have u: "unat (hm_numEntries m * 2) = unat (hm_numEntries m) * 2"
    using assms(2) by (subst unat_mult_bound) simp_all
  have "\<not> NeedsResize (m\<lparr>hm_numEntries := hm_numEntries m * 2\<rparr>)"
    using assms u
    by (simp add: NeedsResize_def Clamped_UMul32_def word_le_nat_alt unat_mult_bound)
  moreover have "hm_numEntries m \<noteq> 0"
    using assms(1) by auto
  ultimately show ?thesis
    using assms(2) by (subst Resize_grow.simps) (simp add: Clamped_UMul32_def)
qed

lemma table_lookup_snoc:
  "table_lookup ks (es @ [e]) k =
     (if \<exists>x \<in> set es. filled x \<and> he_key x = take ks k then table_lookup ks es k
      else if filled e \<and> he_key e = take ks k then he_data e else None)"
proof (cases "\<exists>x \<in> set es. filled x \<and> he_key x = take ks k")
  case True
  then obtain y where "List.find (\<lambda>e. filled e \<and> he_key e = take ks k) es = Some y"
    by (metis (mono_tags, lifting) find_None_iff not_Some_eq)
  with True show ?thesis
    by (simp add: table_lookup_def find_append)
next
  case False
  then have "List.find (\<lambda>e. filled e \<and> he_key e = take ks k) es = None"
    by (simp add: find_None_iff)
  with False show ?thesis
    by (auto simp: table_lookup_def find_append)
qed

lemma table_lookup_no_key:
  "\<not> (\<exists>x \<in> set es. filled x \<and> he_key x = take ks k) \<Longrightarrow> table_lookup ks es k = None"
  by (rule table_lookup_absent) (metis nth_mem)

lemma prefix_key_fresh:
  assumes "table_inv ks es" and "i < length es" and "filled (es ! i)" and "k = he_key (es ! i)"
  shows "\<not> (\<exists>x \<in> set (take i es). filled x \<and> he_key x = k)"
proof
  assume "\<exists>x \<in> set (take i es). filled x \<and> he_key x = k"
  then obtain j where "j < i" "filled (es ! j)" "he_key (es ! j) = k"
    using assms(2) by (auto simp: in_set_conv_nth)
  with assms show False
    unfolding table_inv_def by (metis less_irrefl less_trans)
qed

text \<open>
  The copying loop has moved the first \<open>i\<close> slots of the old table: the new table stands for
  the map of that prefix.
\<close>

definition copied :: "'d HashMap \<Rightarrow> 'd HashMap \<Rightarrow> nat \<Rightarrow> bool" where
  "copied old m i \<longleftrightarrow> hm_inv m \<and> hm_keySize m = hm_keySize old \<and>
     load (hm_entries m) = load (take i (hm_entries old)) \<and>
     (\<forall>k. table_lookup (unat (hm_keySize old)) (hm_entries m) k =
          table_lookup (unat (hm_keySize old)) (take i (hm_entries old)) k)"

lemma load_take_Suc:
  "i < length es \<Longrightarrow> load (take (Suc i) es) = load (take i es) + (if filled (es ! i) then 1 else 0)"
  by (simp add: load_def take_Suc_conv_app_nth)

lemma load_take_le: "load (take i es) \<le> i"
  using load_le [of "take i es"] by simp

lemma Resize_copy_step:
  assumes old: "table_inv (unat (hm_keySize old)) (hm_entries old)" and i: "i < length (hm_entries old)"
    and b: "length (hm_entries old) < 2 ^ 32" and cp: "copied old m i"
    and room: "length (hm_entries old) \<le> length (hm_entries m)"
  obtains m' where "Resize_copy old (i # is) m = Resize_copy old is m'" and "copied old m' (Suc i)"
    and "same_shape m m'" and "length (hm_entries m') = length (hm_entries m)"
proof -
  let ?ks = "unat (hm_keySize old)" and ?es = "hm_entries old"
  let ?e = "?es ! i" and ?k = "he_key (?es ! i)"
  have u: "unat (of_nat i :: u32) = i"
    using i b by (intro unat_of_nat_bound) simp
  have get: "GetEntry old (of_nat i) = Inr ?e"
    using i by (simp add: GetEntry_def u)
  have inv: "hm_inv m" and ks: "hm_keySize m = hm_keySize old"
    using cp by (simp_all add: copied_def)
  show thesis
  proof (cases "filled ?e")
    case False
    have "table_lookup ?ks (take (Suc i) ?es) k = table_lookup ?ks (take i ?es) k" for k
      using i False table_lookup_no_key [of "take i ?es" ?ks k]
      by (auto simp: take_Suc_conv_app_nth table_lookup_snoc)
    then have "copied old m (Suc i)"
      using cp i False by (simp add: copied_def load_take_Suc)
    moreover have "Resize_copy old (i # is) m = Resize_copy old is m"
      using get False by (cases "he_state ?e") (auto simp: filled_def)
    ultimately show thesis
      by (intro that [of m]) (simp_all add: same_shape_def)
  next
    case True
    have wf: "length ?k = ?ks" "he_hash ?e = djb2 ?k" "he_data ?e \<noteq> None"
      using table_inv_slot [OF old i True] by (simp_all add: slot_wf_def)
    then obtain d where d: "he_data ?e = Some d" by blast
    have takek: "take ?ks ?k = ?k" using wf(1) by simp
    have fresh: "\<not> (\<exists>x \<in> set (take i ?es). filled x \<and> he_key x = ?k)"
      by (rule prefix_key_fresh [OF old i True refl])
    then have absent: "table_lookup ?ks (hm_entries m) ?k = None"
      using cp table_lookup_no_key [of "take i ?es" ?ks ?k] takek by (simp add: copied_def)
    have notfull: "load (hm_entries m) < length (hm_entries m)"
      using cp room i load_take_le [of i ?es] by (simp add: copied_def)
    obtain c fr where L: "LookupKey m ?k = Inr (False, c, fr)" and slot: "insert_slot m ?k fr"
      using hm_inv_tab [OF inv]
    proof (cases rule: LookupKey_cases [where key = ?k])
      case (hit c fr)
      then have "table_lookup ?ks (hm_entries m) ?k \<noteq> None"
        using table_lookup_None_iff [OF tab_ok_inv [OF hm_inv_tab [OF inv]], of ?k] ks by metis
      with absent show thesis by simp
    next
      case (miss c fr)
      with notfull show thesis by (intro that) auto
    qed
    have absent': "table_lookup (unat (hm_keySize m)) (hm_entries m) ?k = None"
      and len': "length ?k = unat (hm_keySize m)"
      using absent wf(1) ks by simp_all
    obtain m1 where m1: "FillEntry (m\<lparr>hm_count := hm_count m\<rparr>) fr (djb2 ?k) ?k (Some d) = Inr m1"
      "hm_inv (m1\<lparr>hm_count := hm_count m + 1\<rparr>)" "hm_count m1 = hm_count m" "same_shape m m1"
      "\<And>k. table_lookup (unat (hm_keySize m)) (hm_entries m1) k =
         (if take (unat (hm_keySize m)) k = ?k then Some d
          else table_lookup (unat (hm_keySize m)) (hm_entries m) k)"
      "load (hm_entries m1) = load (hm_entries m) + 1"
      by (rule FillEntry_spec [OF inv slot absent' len', where c = "hm_count m" and d = d]) blast
    let ?m' = "m1\<lparr>hm_count := hm_count m1 + 1\<rparr>"
    have "Resize_copy old (i # is) m = Resize_copy old is ?m'"
      using get True L m1(1) wf(2) d by (simp add: filled_def)
    moreover have "table_lookup ?ks (take (Suc i) ?es) k =
        (if take ?ks k = ?k then Some d else table_lookup ?ks (take i ?es) k)" for k
      using i True fresh d table_lookup_no_key [of "take i ?es" ?ks k]
      by (auto simp: take_Suc_conv_app_nth table_lookup_snoc)
    then have "copied old ?m' (Suc i)"
      using cp m1(2-6) i True ks by (simp add: copied_def load_take_Suc same_shape_def)
    moreover have "length (hm_entries m1) = length (hm_entries m)"
      using m1(2,4) inv by (simp add: hm_inv_def tab_ok_def shape_ok_def same_shape_def)
    ultimately show thesis
      using m1(4) by (intro that [of ?m']) (simp_all add: same_shape_def)
  qed
qed

lemma same_shape_trans: "same_shape a b \<Longrightarrow> same_shape b c \<Longrightarrow> same_shape a c"
  by (simp add: same_shape_def)

lemma Resize_copy_spec:
  assumes "table_inv (unat (hm_keySize old)) (hm_entries old)" and "i \<le> length (hm_entries old)"
    and "length (hm_entries old) < 2 ^ 32" and "copied old m i"
    and "length (hm_entries old) \<le> length (hm_entries m)"
  shows "\<exists>m'. Resize_copy old [i ..< length (hm_entries old)] m = Inr m' \<and>
    copied old m' (length (hm_entries old)) \<and> same_shape m m'"
  using assms
proof (induction "length (hm_entries old) - i" arbitrary: i m)
  case 0
  then show ?case by (auto simp: same_shape_def)
next
  case (Suc n)
  then have i: "i < length (hm_entries old)" by simp
  obtain m1 where m1:
    "Resize_copy old (i # [Suc i ..< length (hm_entries old)]) m =
       Resize_copy old [Suc i ..< length (hm_entries old)] m1"
    "copied old m1 (Suc i)" "same_shape m m1" "length (hm_entries m1) = length (hm_entries m)"
    using Resize_copy_step [OF Suc.prems(1) i Suc.prems(3-5)] by blast
  have "\<exists>m'. Resize_copy old [Suc i ..< length (hm_entries old)] m1 = Inr m' \<and>
    copied old m' (length (hm_entries old)) \<and> same_shape m1 m'"
    using Suc m1 by (intro Suc.hyps) simp_all
  then show ?case
    using m1(1,3) i by (auto simp: upt_conv_Cons intro: same_shape_trans)
qed

text \<open>What an operation that may have doubled the table keeps.\<close>

definition same_layout :: "'d HashMap \<Rightarrow> 'd HashMap \<Rightarrow> bool" where
  "same_layout m m' \<longleftrightarrow> hm_alpha m' = hm_alpha m \<and> hm_keySize m' = hm_keySize m \<and>
     hm_dataSize m' = hm_dataSize m \<and> hm_entrySize m' = hm_entrySize m \<and>
     hm_keyOffset m' = hm_keyOffset m \<and> hm_dataOffset m' = hm_dataOffset m"

text \<open>
  One doubling is enough for the load. The block that \<^verbatim>\<open>Resize\<close> allocates has twice the slots, so
  this is what keeps every later access inside it.
\<close>

definition single_growth :: "'d HashMap \<Rightarrow> bool" where
  "single_growth m \<longleftrightarrow> unat (hm_numEntries m) \<le> 2 ^ 30 \<and>
     unat (hm_count m) * unat (hm_alpha m) < 2 * unat (hm_numEntries m)"

definition doubled_bytes :: "'d HashMap \<Rightarrow> nat" where
  "doubled_bytes m = unat (hm_numEntries m * 2) * unat (hm_entrySize m)"

lemma Resize_spec:
  fixes m :: "'d HashMap"
  assumes inv: "hm_inv m" and growth: "single_growth m" and grant: "calloc (doubled_bytes m)"
  obtains m' where "Resize calloc m = Inr m'" and "hm_inv m'" and "hm_abs m' = hm_abs m"
    and "unat (hm_numEntries m') = 2 * unat (hm_numEntries m)" and "hm_count m' = hm_count m"
    and "same_layout m m'"
proof -
  have shape: "shape_ok m" and tinv: "table_inv (unat (hm_keySize m)) (hm_entries m)"
    using inv by (simp_all add: hm_inv_def tab_ok_def)
  note s = shape_okD [OF shape]
  have n: "unat (hm_numEntries m) \<le> 1073741824"
    "unat (hm_count m) * unat (hm_alpha m) < 2 * unat (hm_numEntries m)"
    using growth by (simp_all add: single_growth_def)
  have n2: "unat (hm_numEntries m * 2) = 2 * unat (hm_numEntries m)"
    using n(1) by (subst unat_mult_bound) simp_all
  have nmax: "hm_numEntries m \<noteq> MAX_UINT32"
    using n(1) by (auto simp: MAX_UINT32_def)
  let ?es = "replicate (2 * unat (hm_numEntries m)) (zero_entry :: 'd HashMapEntry)"
  let ?m1 = "m\<lparr>hm_entries := ?es, hm_numEntries := hm_numEntries m * 2, hm_count := 0\<rparr>"
  have ne: "?es \<noteq> []" and nf: "\<And>e. e \<in> set ?es \<Longrightarrow> \<not> filled e"
    using s(2) by auto
  note empty = table_inv_empty [OF ne nf]
  have "hm_inv ?m1"
    using inv empty(1,3) n(1) n2 ne by (simp add: hm_inv_def tab_ok_def shape_ok_def)
  then have "copied m ?m1 0"
    using empty(2,3) by (simp add: copied_def load_def table_lookup_def)
  then obtain m' where m': "Resize_copy m [0 ..< length (hm_entries m)] ?m1 = Inr m'"
    "copied m m' (length (hm_entries m))" "same_shape ?m1 m'"
    using Resize_copy_spec [OF tinv, of 0 ?m1] s by auto
  have grow: "Resize_grow (m\<lparr>hm_entries := ?es\<rparr>) =
      Inr (m\<lparr>hm_entries := ?es, hm_numEntries := hm_numEntries m * 2\<rparr>)"
    using Resize_grow_once [of "m\<lparr>hm_entries := ?es\<rparr>"] n s(2) by simp
  have "Resize calloc m = Inr m'"
    using nmax grant grow m'(1) s(1) by (simp add: Resize_def doubled_bytes_def n2)
  moreover have "unat (hm_count m') = unat (hm_count m)"
    using m'(2) inv by (simp add: copied_def hm_inv_def)
  then have "hm_count m' = hm_count m"
    by (simp add: word_unat_eq_iff)
  moreover have "hm_abs m' = hm_abs m"
    using m'(2,3) by (auto simp: copied_def hm_abs_def same_shape_def fun_eq_iff)
  ultimately show thesis
    using m' n2 by (intro that [of m']) (simp_all add: copied_def same_shape_def same_layout_def)
qed

lemma Resize_refused:
  assumes "hm_inv m" and "single_growth m" and "\<not> calloc (doubled_bytes m)"
  shows "Resize calloc m = Inr m"
  using assms by (auto simp: Resize_def doubled_bytes_def Let_def single_growth_def MAX_UINT32_def)

section \<open>Insertion\<close>

lemma put_fresh:
  assumes inv: "hm_inv m" and len: "length key = unat (hm_keySize m)"
    and absent: "hm_abs m key = None" and slot: "insert_slot m key fr"
  obtains m' where
    "FillEntry (m\<lparr>hm_count := hm_count m + 1\<rparr>) fr (ComputeHash m key) key (Some d) = Inr m'"
    and "hm_inv m'" and "hm_abs m' = (hm_abs m)(key \<mapsto> d)" and "same_shape m m'"
    and "hm_count m' = hm_count m + 1"
proof -
  have hash: "ComputeHash m key = djb2 key"
    using len by (simp add: ComputeHash_def key_bytes_def)
  have "table_lookup (unat (hm_keySize m)) (hm_entries m) key = None"
    using absent len by (simp add: hm_abs_def)
  from FillEntry_spec [OF inv slot this len, where c = "hm_count m + 1" and d = d]
  obtain m' where m': "FillEntry (m\<lparr>hm_count := hm_count m + 1\<rparr>) fr (djb2 key) key (Some d) = Inr m'"
    "hm_inv (m'\<lparr>hm_count := hm_count m + 1\<rparr>)" "hm_count m' = hm_count m + 1" "same_shape m m'"
    "\<And>k. table_lookup (unat (hm_keySize m)) (hm_entries m') k =
         (if take (unat (hm_keySize m)) k = key then Some d
          else table_lookup (unat (hm_keySize m)) (hm_entries m) k)"
    by blast
  have "m'\<lparr>hm_count := hm_count m + 1\<rparr> = m'"
    using m'(3) by simp
  with m'(2) have "hm_inv m'"
    by simp
  moreover have "hm_abs m' = (hm_abs m)(key \<mapsto> d)"
    using m'(4,5) len by (auto simp: hm_abs_def same_shape_def fun_eq_iff)
  ultimately show thesis
    using m' by (intro that [of m']) (simp_all add: hash)
qed

lemma LookupKey_miss:
  assumes inv: "hm_inv m" and len: "length key = unat (hm_keySize m)" and absent: "hm_abs m key = None"
  obtains c fr where "LookupKey m key = Inr (False, c, fr)"
    and "fr = NO_FREE_INDEX \<longleftrightarrow> load (hm_entries m) = length (hm_entries m)"
    and "fr \<noteq> NO_FREE_INDEX \<Longrightarrow> insert_slot m key fr"
  using hm_inv_tab [OF inv]
proof (cases rule: LookupKey_cases [where key = key])
  case (hit c fr)
  then have "table_lookup (unat (hm_keySize m)) (hm_entries m) key \<noteq> None"
    using table_lookup_None_iff [OF tab_ok_inv [OF hm_inv_tab [OF inv]], of key] by metis
  with absent len show thesis
    by (simp add: hm_abs_def)
next
  case (miss c fr)
  moreover have "insert_slot m key fr \<Longrightarrow> load (hm_entries m) < length (hm_entries m)"
    using insert_slot_room inv by (auto simp: hm_inv_def tab_ok_def)
  ultimately show thesis
    by (intro that) auto
qed

lemma HashMap_Put_present:
  assumes inv: "hm_inv m" and len: "length key = unat (hm_keySize m)" and present: "hm_abs m key \<noteq> None"
  obtains m' where "HashMap_Put calloc m key d = Inr (m', True)" and "hm_inv m'"
    and "hm_abs m' = (hm_abs m)(key \<mapsto> d)" and "same_shape m m'" and "hm_count m' = hm_count m"
  using hm_inv_tab [OF inv]
proof (cases rule: LookupKey_cases [where key = key])
  case (miss c fr)
  with present len show thesis
    by (simp add: hm_abs_def)
next
  case (hit c fr)
  let ?ks = "unat (hm_keySize m)" and ?es = "hm_entries m"
  let ?e = "(?es ! unat c)\<lparr>he_data := Some d\<rparr>"
  let ?m' = "m\<lparr>hm_entries := ?es[unat c := ?e]\<rparr>"
  have tinv: "table_inv ?ks ?es"
    using tab_ok_inv [OF hm_inv_tab [OF inv]] .
  have f: "filled ?e" "he_key ?e = take ?ks key"
    using hit(3,4) by (simp_all add: filled_def)
  have wf: "slot_wf ?ks ?es (unat c)"
    by (rule table_inv_slot [OF tinv hit(2,3)])
  have state: "he_state (?es[unat c := ?e] ! q) = he_state (?es ! q)" for q
    using hit(2) by (cases "q = unat c") simp_all
  have "slot_wf ?ks (?es[unat c := ?e]) (unat c)"
    using wf hit(2) unfolding slot_wf_def by (simp add: state)
  moreover have "he_key (?es ! q) \<noteq> he_key ?e" if "q < length ?es" "q \<noteq> unat c" "filled (?es ! q)" for q
    using that tinv hit(2,3) unfolding table_inv_def by auto
  ultimately have inv': "table_inv ?ks (?es[unat c := ?e])"
    using f(1) by (intro table_inv_update [OF tinv hit(2)]) (auto simp: filled_def)
  have "load (?es[unat c := ?e]) = load ?es"
    using load_update [OF hit(2), of ?e] hit(3) f(1) by simp
  then have "hm_inv ?m'"
    using inv inv' by (simp add: hm_inv_def tab_ok_def shape_ok_def)
  moreover have "HashMap_Put calloc m key d = Inr (?m', True)"
    using hit by (simp add: HashMap_Put_def GetEntry_def SetEntry_def)
  moreover have "table_lookup ?ks (?es[unat c := ?e]) k =
      (if take ?ks k = take ?ks key then Some d else table_lookup ?ks ?es k)" for k
    using table_lookup_present [OF inv', of "unat c" k] key_absent_update [OF hit(2), of ?ks k ?e] hit f
    by auto
  then have "hm_abs ?m' = (hm_abs m)(key \<mapsto> d)"
    using len by (auto simp: hm_abs_def fun_eq_iff)
  ultimately show thesis
    by (intro that [of ?m']) (simp_all add: same_shape_def)
qed

text \<open>
  The load invariant: the filled slots respect the maximum load factor \<open>1 / alpha\<close>, and the
  number of slots is a multiple of \<open>alpha\<close>.
\<close>

definition hm_room :: "'d HashMap \<Rightarrow> bool" where
  "hm_room m \<longleftrightarrow> unat (hm_count m) * unat (hm_alpha m) \<le> unat (hm_numEntries m) \<and>
     unat (hm_alpha m) dvd unat (hm_numEntries m)"

text \<open>When the table must grow, one doubling suffices and stays within 32 bits.\<close>

definition growth_ok :: "'d HashMap \<Rightarrow> bool" where
  "growth_ok m \<longleftrightarrow> (NeedsResize m \<longrightarrow> single_growth m)"

lemma load_lt_length:
  assumes "hm_inv m" and "\<not> NeedsResize m"
  shows "load (hm_entries m) < length (hm_entries m)"
proof -
  have shape: "shape_ok m" using assms(1) by (simp add: hm_inv_def tab_ok_def)
  have "unat (hm_count m) \<le> unat (hm_count m) * unat (hm_alpha m)"
    using assms(1) by (simp add: hm_inv_def)
  moreover have "unat (hm_count m) * unat (hm_alpha m) < unat (hm_numEntries m)"
    using assms(2) NeedsResize_iff [OF shape] by simp
  ultimately have "unat (hm_count m) < unat (hm_numEntries m)"
    by (rule le_less_trans)
  then show ?thesis
    using assms(1) shape_okD(1) [OF shape] by (simp add: hm_inv_def)
qed

lemma same_shape_layout: "same_shape m m' \<Longrightarrow> same_layout m m'"
  by (simp add: same_shape_def same_layout_def)

lemma HashMap_Put_room:
  assumes inv: "hm_inv m" and len: "length key = unat (hm_keySize m)" and absent: "hm_abs m key = None"
    and no: "\<not> NeedsResize m"
  obtains m' where "HashMap_Put calloc m key d = Inr (m', True)" and "hm_inv m'"
    and "hm_abs m' = (hm_abs m)(key \<mapsto> d)" and "same_shape m m'" and "hm_count m' = hm_count m + 1"
proof -
  obtain c fr where L: "LookupKey m key = Inr (False, c, fr)" and slot: "insert_slot m key fr"
    using LookupKey_miss [OF inv len absent] load_lt_length [OF inv no] by (metis nat_less_le)
  obtain m' where "FillEntry (m\<lparr>hm_count := hm_count m + 1\<rparr>) fr (ComputeHash m key) key (Some d) = Inr m'"
    "hm_inv m'" "hm_abs m' = (hm_abs m)(key \<mapsto> d)" "same_shape m m'" "hm_count m' = hm_count m + 1"
    using put_fresh [OF inv len absent slot] by blast
  with L no show thesis
    by (intro that [of m']) (simp_all add: HashMap_Put_def)
qed

lemma HashMap_Put_grow:
  assumes inv: "hm_inv m" and len: "length key = unat (hm_keySize m)" and absent: "hm_abs m key = None"
    and need: "NeedsResize m" and growth: "single_growth m" and grant: "calloc (doubled_bytes m)"
  obtains m' where "HashMap_Put calloc m key d = Inr (m', True)" and "hm_inv m'"
    and "hm_abs m' = (hm_abs m)(key \<mapsto> d)" and "same_layout m m'" and "hm_count m' = hm_count m + 1"
    and "unat (hm_numEntries m') = 2 * unat (hm_numEntries m)"
proof -
  obtain m1 where m1: "Resize calloc m = Inr m1" "hm_inv m1" "hm_abs m1 = hm_abs m"
    "unat (hm_numEntries m1) = 2 * unat (hm_numEntries m)" "hm_count m1 = hm_count m" "same_layout m m1"
    by (rule Resize_spec [where calloc = calloc, OF inv growth grant])
  have len1: "length key = unat (hm_keySize m1)" and absent1: "hm_abs m1 key = None"
    using len absent m1 by (simp_all add: same_layout_def)
  have "shape_ok m" "shape_ok m1"
    using inv m1(2) by (simp_all add: hm_inv_def tab_ok_def)
  moreover have "load (hm_entries m1) = load (hm_entries m)"
    using inv m1(2,5) by (simp add: hm_inv_def)
  ultimately have notfull: "load (hm_entries m1) \<noteq> length (hm_entries m1)"
    using m1(4) load_le [of "hm_entries m"] shape_okD(1,2) [of m] shape_okD(1) [of m1] by linarith
  obtain c0 fr0 where L: "LookupKey m key = Inr (False, c0, fr0)"
    using LookupKey_miss [OF inv len absent] by blast
  obtain c fr where L1: "LookupKey m1 key = Inr (False, c, fr)" "fr \<noteq> NO_FREE_INDEX" "insert_slot m1 key fr"
    using LookupKey_miss [OF m1(2) len1 absent1] notfull by metis
  have hash: "ComputeHash m key = ComputeHash m1 key"
    using m1(6) by (simp add: ComputeHash_def key_bytes_def same_layout_def)
  obtain m' where "FillEntry (m1\<lparr>hm_count := hm_count m1 + 1\<rparr>) fr (ComputeHash m1 key) key (Some d) = Inr m'"
    "hm_inv m'" "hm_abs m' = (hm_abs m1)(key \<mapsto> d)" "same_shape m1 m'" "hm_count m' = hm_count m1 + 1"
    using put_fresh [OF m1(2) len1 absent1 L1(3)] by blast
  with L L1(1,2) m1 need hash show thesis
    by (intro that [of m']) (simp_all add: HashMap_Put_def same_shape_def same_layout_def)
qed

lemma HashMap_Put_refused:
  assumes inv: "hm_inv m" and len: "length key = unat (hm_keySize m)" and absent: "hm_abs m key = None"
    and need: "NeedsResize m" and growth: "single_growth m" and refuse: "\<not> calloc (doubled_bytes m)"
  shows "load (hm_entries m) = length (hm_entries m) \<Longrightarrow> HashMap_Put calloc m key d = Inr (m, False)"
    and "load (hm_entries m) < length (hm_entries m) \<Longrightarrow>
      \<exists>m'. HashMap_Put calloc m key d = Inr (m', True) \<and> hm_inv m' \<and>
        hm_abs m' = (hm_abs m)(key \<mapsto> d) \<and> same_shape m m' \<and> hm_count m' = hm_count m + 1"
proof -
  have rs: "Resize calloc m = Inr m"
    by (rule Resize_refused [where calloc = calloc, OF inv growth refuse])
  obtain c fr where L: "LookupKey m key = Inr (False, c, fr)"
    and full: "fr = NO_FREE_INDEX \<longleftrightarrow> load (hm_entries m) = length (hm_entries m)"
    and slot: "fr \<noteq> NO_FREE_INDEX \<Longrightarrow> insert_slot m key fr"
    using LookupKey_miss [OF inv len absent] by blast
  show "HashMap_Put calloc m key d = Inr (m, False)" if "load (hm_entries m) = length (hm_entries m)"
    using that full L need rs by (simp add: HashMap_Put_def)
  assume "load (hm_entries m) < length (hm_entries m)"
  with full slot have fr: "fr \<noteq> NO_FREE_INDEX" "insert_slot m key fr" by simp_all
  obtain m' where "FillEntry (m\<lparr>hm_count := hm_count m + 1\<rparr>) fr (ComputeHash m key) key (Some d) = Inr m'"
    "hm_inv m'" "hm_abs m' = (hm_abs m)(key \<mapsto> d)" "same_shape m m'" "hm_count m' = hm_count m + 1"
    using put_fresh [OF inv len absent fr(2)] by blast
  with L need rs fr show "\<exists>m'. HashMap_Put calloc m key d = Inr (m', True) \<and> hm_inv m' \<and>
        hm_abs m' = (hm_abs m)(key \<mapsto> d) \<and> same_shape m m' \<and> hm_count m' = hm_count m + 1"
    by (simp add: HashMap_Put_def)
qed

lemma dvd_less_add_le:
  fixes a x y :: nat
  assumes "a dvd x" and "a dvd y" and "x < y"
  shows "x + a \<le> y"
proof -
  have "a dvd y - x" using assms by (simp add: dvd_diff_nat)
  then have "a \<le> y - x" using assms(3) by (simp add: dvd_imp_le)
  with assms(3) show ?thesis by simp
qed

lemma HashMap_Put_granted:
  assumes inv: "hm_inv m" and room: "hm_room m" and bound: "unat (hm_count m) * unat (hm_alpha m) \<le> 2 ^ 30"
    and len: "length key = unat (hm_keySize m)" and grant: "calloc (doubled_bytes m)"
  obtains m' where "HashMap_Put calloc m key d = Inr (m', True)" and "hm_inv m'" and "hm_room m'"
    and "hm_abs m' = (hm_abs m)(key \<mapsto> d)" and "same_layout m m'"
    and "unat (hm_count m') \<le> Suc (unat (hm_count m))"
proof -
  have shape: "shape_ok m" using inv by (simp add: hm_inv_def tab_ok_def)
  note s = shape_okD [OF shape]
  let ?c = "unat (hm_count m)" and ?a = "unat (hm_alpha m)" and ?n = "unat (hm_numEntries m)"
  have need_iff: "NeedsResize m \<longleftrightarrow> ?n \<le> ?c * ?a" by (rule NeedsResize_iff [OF shape])
  have r: "?c * ?a \<le> ?n" "?a dvd ?n" using room by (simp_all add: hm_room_def)
  have alpha_le: "?a \<le> ?n"
    using r(2) s(2) by (rule dvd_imp_le)
  have "?c \<le> ?c * ?a" using inv by (simp add: hm_inv_def)
  then have "?c \<le> 2 ^ 30" using bound by (rule le_trans)
  then have succ: "unat (hm_count m + 1) = Suc ?c"
    by (subst unat_add_bound) simp_all
  consider "hm_abs m key \<noteq> None" | "hm_abs m key = None" "\<not> NeedsResize m" | "hm_abs m key = None" "NeedsResize m"
    by blast
  then show thesis
  proof cases
    case 1
    obtain m' where "HashMap_Put calloc m key d = Inr (m', True)" "hm_inv m'"
      "hm_abs m' = (hm_abs m)(key \<mapsto> d)" "same_shape m m'" "hm_count m' = hm_count m"
      by (rule HashMap_Put_present [OF inv len 1])
    with room show thesis
      by (intro that [of m']) (simp_all add: same_shape_layout hm_room_def same_shape_def)
  next
    case 2
    obtain m' where m': "HashMap_Put calloc m key d = Inr (m', True)" "hm_inv m'"
      "hm_abs m' = (hm_abs m)(key \<mapsto> d)" "same_shape m m'" "hm_count m' = hm_count m + 1"
      by (rule HashMap_Put_room [OF inv len 2])
    have "?c * ?a < ?n" using 2(2) need_iff by simp
    then have "?c * ?a + ?a \<le> ?n" using r(2) by (intro dvd_less_add_le) simp_all
    with m' succ r(2) show thesis
      by (intro that [of m']) (simp_all add: same_shape_layout hm_room_def same_shape_def)
  next
    case 3
    then have "single_growth m"
      using r(1) bound need_iff s(2) by (simp add: single_growth_def)
    from HashMap_Put_grow [where calloc = calloc, OF inv len 3 this grant]
    obtain m' where m': "HashMap_Put calloc m key d = Inr (m', True)" "hm_inv m'"
      "hm_abs m' = (hm_abs m)(key \<mapsto> d)" "same_layout m m'" "hm_count m' = hm_count m + 1"
      "unat (hm_numEntries m') = 2 * ?n"
      by blast
    have "?a dvd 2 * ?n" using r(2) by (rule dvd_mult)
    with m' succ r(1) alpha_le show thesis
      by (intro that [of m']) (simp_all add: hm_room_def same_layout_def)
  qed
qed

end
