(* ===== verification/HashMap_Spec.thy ===== *)
theory HashMap_Spec
  imports HashMap_Laws
begin

text \<open>
  The contract of \<^verbatim>\<open>hashMap.c\<close> as its clients use it: allocation, iteration, the entry layout, and
  the proof that any sequence of calls behaves as a finite map.
\<close>

section \<open>Allocation and layout\<close>

lemma ROUNDUP_4:
  assumes "unat x < 2 ^ 62"
  shows "unat (ROUNDUP x 4) = (unat x + 3) div 4 * 4"
proof -
  have e: "x + 4 - 1 = x + 3" by simp
  have u: "unat (x + 3) = unat x + 3"
    using assms by (subst unat_add_bound) simp_all
  have d: "unat ((x + 3) div 4) = (unat x + 3) div 4"
    by (simp add: unat_div_distrib u)
  have "(unat x + 3) div 4 * 4 \<le> unat x + 3" by simp
  then show ?thesis
    unfolding ROUNDUP_def e using assms
    by (subst unat_mult_bound) (simp_all add: d)
qed

lemma CalculateEntrySize_layout:
  assumes "unat (hm_keySize m) < 2 ^ 61" and "unat (hm_dataSize m) < 2 ^ 61"
  shows "unat (hm_keyOffset (CalculateEntrySize m)) = 8"
    and "unat (hm_dataOffset (CalculateEntrySize m)) = 8 + (unat (hm_keySize m) + 3) div 4 * 4"
    and "unat (hm_entrySize (CalculateEntrySize m)) =
         unat (hm_dataOffset (CalculateEntrySize m)) + (unat (hm_dataSize m) + 3) div 4 * 4"
proof -
  let ?k = "ROUNDUP (hm_keySize m) 4" and ?d = "ROUNDUP (hm_dataSize m) 4"
  have k: "unat ?k = (unat (hm_keySize m) + 3) div 4 * 4"
    using assms(1) by (intro ROUNDUP_4) simp
  have d: "unat ?d = (unat (hm_dataSize m) + 3) div 4 * 4"
    using assms(2) by (intro ROUNDUP_4) simp
  have k8: "unat (8 + ?k) = 8 + unat ?k"
    using assms(1) k by (subst unat_add_bound) simp_all
  have r: "unat (ROUNDUP (8 + ?k) 4) = 8 + unat ?k"
    using assms(1) k8 k by (subst ROUNDUP_4) simp_all
  have e: "unat (8 + ?k + ?d) = 8 + unat ?k + unat ?d"
    using assms k d k8 by (subst unat_add_bound) simp_all
  show "unat (hm_keyOffset (CalculateEntrySize m)) = 8"
    by (simp add: CalculateEntrySize_def Let_def sizeof_HashMapEntryHeader_def)
  show "unat (hm_dataOffset (CalculateEntrySize m)) = 8 + (unat (hm_keySize m) + 3) div 4 * 4"
    using r k by (simp add: CalculateEntrySize_def Let_def sizeof_HashMapEntryHeader_def)
  show "unat (hm_entrySize (CalculateEntrySize m)) =
         unat (hm_dataOffset (CalculateEntrySize m)) + (unat (hm_dataSize m) + 3) div 4 * 4"
    using r e d by (simp add: CalculateEntrySize_def Let_def sizeof_HashMapEntryHeader_def)
qed

lemma CalculateEntrySize_fields [simp]:
  "hm_entries (CalculateEntrySize m) = hm_entries m"
  "hm_numEntries (CalculateEntrySize m) = hm_numEntries m"
  "hm_count (CalculateEntrySize m) = hm_count m"
  "hm_alpha (CalculateEntrySize m) = hm_alpha m"
  "hm_keySize (CalculateEntrySize m) = hm_keySize m"
  "hm_dataSize (CalculateEntrySize m) = hm_dataSize m"
  by (simp_all add: CalculateEntrySize_def Let_def)

lemma HashMap_AllocMapAlpha_spec:
  fixes m :: "'d HashMap"
  assumes alloc: "HashMap_AllocMapAlpha calloc n alpha ks ds = Some m"
    and pos: "0 < unat n" "0 < unat alpha" and bound: "unat n * unat alpha \<le> 2 ^ 31"
  shows "hm_inv m" and "hm_room m" and "hm_abs m = Map.empty" and "hm_count m = 0"
    and "hm_alpha m = alpha" and "hm_keySize m = ks" and "hm_dataSize m = ds"
    and "unat (hm_numEntries m) = unat n * unat alpha"
proof -
  have u: "unat (n * alpha) = unat n * unat alpha"
    using bound by (intro unat_mult_bound) simp
  let ?es = "replicate (unat n * unat alpha) (zero_entry :: 'd HashMapEntry)"
  have m: "hm_entries m = ?es" "hm_numEntries m = n * alpha" "hm_count m = 0" "hm_alpha m = alpha"
      "hm_keySize m = ks" "hm_dataSize m = ds"
    using alloc
    by (auto simp: HashMap_AllocMapAlpha_def InitMap_def Let_def u zero_map_def split: if_splits)
  have ne: "?es \<noteq> []" and nf: "\<And>e. e \<in> set ?es \<Longrightarrow> \<not> filled e"
    using pos by auto
  note empty = table_inv_empty [OF ne nf]
  show "hm_inv m"
    using m u pos bound empty(1,3) ne by (simp add: hm_inv_def tab_ok_def shape_ok_def)
  show "hm_room m"
    using m u by (simp add: hm_room_def)
  show "hm_abs m = Map.empty"
    using m empty(2) by (auto simp: hm_abs_def)
qed (use alloc in \<open>auto simp: HashMap_AllocMapAlpha_def InitMap_def Let_def zero_map_def
        unat_mult_bound [OF le_less_trans [OF bound]] split: if_splits\<close>)

section \<open>Iteration\<close>

text \<open>The filled slots in slot order, as the iterator meets them.\<close>

definition hm_items :: "'d HashMap \<Rightarrow> (u8 list \<times> 'd option) list" where
  "hm_items m = map (\<lambda>e. (he_key e, he_data e)) (filter filled (hm_entries m))"

lemma HashMap_Iterate_loop_spec:
  assumes "i \<le> length (hm_entries m)" and "length (hm_entries m) < 2 ^ 32"
  shows "HashMap_Iterate_loop f False [i ..< length (hm_entries m)] m u =
    bindR (foldR (\<lambda>(k, d). f k d) (map (\<lambda>e. (he_key e, he_data e)) (filter filled (drop i (hm_entries m)))) u)
      (\<lambda>u'. Inr (m, u'))"
  using assms
proof (induction "length (hm_entries m) - i" arbitrary: i u)
  case 0
  then show ?case by simp
next
  case (Suc n)
  then have i: "i < length (hm_entries m)" by simp
  have w: "unat (of_nat i :: u32) = i"
    using i Suc.prems by (intro unat_of_nat_bound) simp
  have IH: "HashMap_Iterate_loop f False [Suc i ..< length (hm_entries m)] m v =
    bindR (foldR (\<lambda>(k, d). f k d) (map (\<lambda>e. (he_key e, he_data e)) (filter filled (drop (Suc i) (hm_entries m)))) v)
      (\<lambda>u'. Inr (m, u'))" for v
    using Suc i by (intro Suc.hyps) simp_all
  show ?case
    using i
    by (cases "f (he_key (hm_entries m ! i)) (he_data (hm_entries m ! i)) u")
       (simp_all add: upt_conv_Cons GetEntry_def w IH filled_def Cons_nth_drop_Suc [symmetric])
qed

lemma HashMap_Iterate_items:
  assumes "hm_inv m"
  shows "HashMap_Iterate m f False u = bindR (foldR (\<lambda>(k, d). f k d) (hm_items m) u) (\<lambda>u'. Inr (m, u'))"
proof -
  have shape: "shape_ok m" using assms by (simp add: hm_inv_def tab_ok_def)
  show ?thesis
    using HashMap_Iterate_loop_spec [of 0 m f u] shape_okD(1,3) [OF shape]
    by (simp add: HashMap_Iterate_def hm_items_def)
qed

lemma HashMap_Iterate_clear_loop:
  assumes "i \<le> length (hm_entries m)" and "length (hm_entries m) < 2 ^ 32"
    and "\<And>k d u. f k d u = Inr (g k d u)"
  shows "\<exists>c. HashMap_Iterate_loop f True [i ..< length (hm_entries m)] m u =
    Inr (m\<lparr>hm_entries := take i (hm_entries m) @
             map (\<lambda>e. e\<lparr>he_state := HashMapState_EMPTY\<rparr>) (drop i (hm_entries m)), hm_count := c\<rparr>,
         fold (\<lambda>(k, d). g k d) (map (\<lambda>e. (he_key e, he_data e)) (filter filled (drop i (hm_entries m)))) u) \<and>
    c = hm_count m - of_nat (load (drop i (hm_entries m)))"
  using assms
proof (induction "length (hm_entries m) - i" arbitrary: i m u)
  case 0
  then show ?case by (simp add: load_def)
next
  case (Suc n)
  then have i: "i < length (hm_entries m)" by simp
  have w: "unat (of_nat i :: u32) = i"
    using i Suc.prems by (intro unat_of_nat_bound) simp
  let ?e = "hm_entries m ! i"
  let ?m1 = "m\<lparr>hm_count := (if filled ?e then hm_count m - 1 else hm_count m),
               hm_entries := (hm_entries m)[i := ?e\<lparr>he_state := HashMapState_EMPTY\<rparr>]\<rparr>"
  let ?u1 = "if filled ?e then g (he_key ?e) (he_data ?e) u else u"
  have step: "HashMap_Iterate_loop f True [i ..< length (hm_entries m)] m u =
      HashMap_Iterate_loop f True [Suc i ..< length (hm_entries ?m1)] ?m1 ?u1"
    using i by (simp add: upt_conv_Cons GetEntry_def SetEntry_def w filled_def Suc.prems(3))
  have drop: "drop (Suc i) ((hm_entries m)[i := x]) = drop (Suc i) (hm_entries m)" for x
    by simp
  have "\<exists>c. HashMap_Iterate_loop f True [Suc i ..< length (hm_entries ?m1)] ?m1 ?u1 =
    Inr (?m1\<lparr>hm_entries := take (Suc i) (hm_entries ?m1) @
             map (\<lambda>e. e\<lparr>he_state := HashMapState_EMPTY\<rparr>) (drop (Suc i) (hm_entries ?m1)), hm_count := c\<rparr>,
         fold (\<lambda>(k, d). g k d) (map (\<lambda>e. (he_key e, he_data e)) (filter filled (drop (Suc i) (hm_entries ?m1)))) ?u1) \<and>
    c = hm_count ?m1 - of_nat (load (drop (Suc i) (hm_entries ?m1)))"
    using Suc i by (intro Suc.hyps) simp_all
  then show ?case
    unfolding step using i
    by (simp add: take_Suc_conv_app_nth load_def Cons_nth_drop_Suc [symmetric])
qed

lemma distinct_filled_keys:
  assumes "\<And>p q. p < length xs \<Longrightarrow> q < length xs \<Longrightarrow> filled (xs ! p) \<Longrightarrow> filled (xs ! q) \<Longrightarrow>
          he_key (xs ! p) = he_key (xs ! q) \<Longrightarrow> p = q"
  shows "distinct (map fst (map (\<lambda>e. (he_key e, he_data e)) (filter filled xs)))"
  using assms
proof (induction xs)
  case Nil
  then show ?case by simp
next
  case (Cons x xs)
  have "he_key x \<notin> he_key ` set (filter filled xs)" if "filled x"
  proof
    assume "he_key x \<in> he_key ` set (filter filled xs)"
    then obtain q where "q < length xs" "filled (xs ! q)" "he_key (xs ! q) = he_key x"
      by (auto simp: in_set_conv_nth)
    with Cons.prems [of 0 "Suc q"] that show False by simp
  qed
  moreover have "distinct (map fst (map (\<lambda>e. (he_key e, he_data e)) (filter filled xs)))"
    using Cons.prems [of "Suc _" "Suc _"] by (intro Cons.IH) auto
  ultimately show ?case
    by (auto simp: comp_def)
qed

lemma hm_items_abs:
  assumes "hm_inv m"
  shows "map_of (hm_items m) = (\<lambda>k. map_option Some (hm_abs m k))"
    and "distinct (map fst (hm_items m))" and "length (hm_items m) = unat (hm_count m)"
    and "\<And>k d. (k, d) \<in> set (hm_items m) \<Longrightarrow> hm_abs m k = d \<and> d \<noteq> None \<and> length k = unat (hm_keySize m)"
proof -
  let ?es = "hm_entries m" and ?ks = "unat (hm_keySize m)"
  have tinv: "table_inv ?ks ?es"
    using assms by (simp add: hm_inv_def tab_ok_def)
  have uniq: "p = q" if "p < length ?es" "q < length ?es" "filled (?es ! p)" "filled (?es ! q)"
      "he_key (?es ! p) = he_key (?es ! q)" for p q
    using tinv that unfolding table_inv_def by blast
  show d: "distinct (map fst (hm_items m))"
    unfolding hm_items_def by (rule distinct_filled_keys) (rule uniq)
  show "length (hm_items m) = unat (hm_count m)"
    using assms by (simp add: hm_items_def hm_inv_def load_def)
  show item: "hm_abs m k = d \<and> d \<noteq> None \<and> length k = ?ks" if "(k, d) \<in> set (hm_items m)" for k d
  proof -
    from that obtain p where p: "p < length ?es" "filled (?es ! p)" "k = he_key (?es ! p)" "d = he_data (?es ! p)"
      by (auto simp: hm_items_def in_set_conv_nth)
    moreover have "slot_wf ?ks ?es p" by (rule table_inv_slot [OF tinv p(1,2)])
    ultimately show ?thesis
      using table_lookup_present [OF tinv p(1,2), of k] by (simp add: hm_abs_def slot_wf_def)
  qed
  show "map_of (hm_items m) = (\<lambda>k. map_option Some (hm_abs m k))"
  proof
    fix k
    show "map_of (hm_items m) k = map_option Some (hm_abs m k)"
    proof (cases "map_of (hm_items m) k")
      case (Some v)
      then have "(k, v) \<in> set (hm_items m)" by (rule map_of_SomeD)
      with item Some show ?thesis by fastforce
    next
      case None
      then have "\<forall>p < length ?es. filled (?es ! p) \<longrightarrow> he_key (?es ! p) \<noteq> k"
        by (auto simp: hm_items_def map_of_eq_None_iff image_iff)
      then have "hm_abs m k = None"
        by (auto simp: hm_abs_def intro!: table_lookup_absent)
      with None show ?thesis by simp
    qed
  qed
qed

definition hm_list :: "'d HashMap \<Rightarrow> (u8 list \<times> 'd) list" where
  "hm_list m = map (\<lambda>(k, d). (k, the d)) (hm_items m)"

lemma foldR_the:
  assumes "\<And>k d. (k, d) \<in> set ys \<Longrightarrow> d \<noteq> None"
  shows "foldR (\<lambda>(k, v). f k (Some v)) (map (\<lambda>(k, d). (k, the d)) ys) u = foldR (\<lambda>(k, d). f k d) ys u"
  using assms
proof (induction ys arbitrary: u)
  case (Cons y ys)
  obtain k d where y: "y = (k, d)" by (cases y)
  have "Some (the d) = d" using Cons.prems [of k d] y by simp
  with Cons y show ?case by (auto simp: bindR_def split: sum.split)
qed simp

lemma hm_count_card:
  assumes "hm_inv m"
  shows "finite (dom (hm_abs m))" and "card (dom (hm_abs m)) = unat (hm_count m)"
proof -
  note it = hm_items_abs [OF assms]
  have dom: "dom (hm_abs m) = set (map fst (hm_items m))"
    using it(1) dom_map_of_conv_image_fst [of "hm_items m"] by (auto simp: dom_def fun_eq_iff)
  show "finite (dom (hm_abs m))" unfolding dom by simp
  show "card (dom (hm_abs m)) = unat (hm_count m)"
    unfolding dom using distinct_card [OF it(2)] it(3) by simp
qed

lemma hm_inv_sane:
  assumes "hm_inv m"
  shows "CheckSanity m"
proof -
  have shape: "shape_ok m" and tinv: "table_inv (unat (hm_keySize m)) (hm_entries m)"
    using assms by (simp_all add: hm_inv_def tab_ok_def)
  have "he_hash e = ComputeHash m (he_key e)" if "e \<in> set (hm_entries m)" "filled e" for e
  proof -
    from that obtain p where p: "p < length (hm_entries m)" "e = hm_entries m ! p"
      by (auto simp: in_set_conv_nth)
    with table_inv_slot [OF tinv p(1)] that(2) show ?thesis
      by (simp add: slot_wf_def ComputeHash_def key_bytes_def)
  qed
  moreover have "of_nat (length (filter filled (hm_entries m))) = hm_count m"
  proof -
    have len: "length (filter filled (hm_entries m)) = unat (hm_count m)"
      using assms by (simp add: hm_inv_def load_def)
    show ?thesis unfolding len by simp
  qed
  ultimately show ?thesis
    using shape_okD(1,2) [OF shape] by (auto simp: CheckSanity_def)
qed

lemma HashMap_Iterate_list:
  assumes "hm_inv m"
  shows "HashMap_Iterate m f False u =
           bindR (foldR (\<lambda>(k, v). f k (Some v)) (hm_list m) u) (\<lambda>u'. Inr (m, u'))"
    and "distinct (map fst (hm_list m))" and "length (hm_list m) = unat (HashMap_Count m)"
    and "(k, v) \<in> set (hm_list m) \<longleftrightarrow> hm_abs m k = Some v"
proof -
  note it = hm_items_abs [OF assms]
  show "HashMap_Iterate m f False u =
           bindR (foldR (\<lambda>(k, v). f k (Some v)) (hm_list m) u) (\<lambda>u'. Inr (m, u'))"
    using HashMap_Iterate_items [OF assms] foldR_the [of "hm_items m" f u] it(4)
    by (fastforce simp: hm_list_def)
  show "distinct (map fst (hm_list m))" "length (hm_list m) = unat (HashMap_Count m)"
    using it(2,3) by (simp_all add: hm_list_def HashMap_Count_def case_prod_unfold comp_def)
  show "(k, v) \<in> set (hm_list m) \<longleftrightarrow> hm_abs m k = Some v"
  proof
    assume "(k, v) \<in> set (hm_list m)"
    then obtain d where "(k, d) \<in> set (hm_items m)" "v = the d" by (auto simp: hm_list_def)
    with it(4) [of k d] show "hm_abs m k = Some v" by auto
  next
    assume "hm_abs m k = Some v"
    then have "map_of (hm_items m) k = Some (Some v)" by (simp add: it(1))
    then have "(k, Some v) \<in> set (hm_items m)" by (rule map_of_SomeD)
    then show "(k, v) \<in> set (hm_list m)" by (force simp: hm_list_def)
  qed
qed

section \<open>Sequences of calls\<close>

datatype 'd hm_op = OpPut "u8 list" 'd | OpGet "u8 list" | OpRemove "u8 list" | OpClear | OpCount

datatype 'd hm_out = OutBool bool | OutData "'d option" | OutUnit | OutCount u32

fun hm_step :: "allocator \<Rightarrow> 'd HashMap \<Rightarrow> 'd hm_op \<Rightarrow> ('d HashMap \<times> 'd hm_out) res" where
  "hm_step calloc m (OpPut k d) = bindR (HashMap_Put calloc m k d) (\<lambda>(m1, b). Inr (m1, OutBool b))"
| "hm_step calloc m (OpGet k) = bindR (HashMap_Get m k) (\<lambda>v. Inr (m, OutData v))"
| "hm_step calloc m (OpRemove k) = bindR (HashMap_Remove m k) (\<lambda>(m1, b). Inr (m1, OutBool b))"
| "hm_step calloc m OpClear = bindR (HashMap_Clear m) (\<lambda>m1. Inr (m1, OutUnit))"
| "hm_step calloc m OpCount = Inr (m, OutCount (HashMap_Count m))"

text \<open>The specification: the same calls on a finite map.\<close>

fun map_spec :: "(u8 list \<Rightarrow> 'd option) \<Rightarrow> 'd hm_op \<Rightarrow> (u8 list \<Rightarrow> 'd option) \<times> 'd hm_out" where
  "map_spec a (OpPut k d) = (a(k \<mapsto> d), OutBool True)"
| "map_spec a (OpGet k) = (a, OutData (a k))"
| "map_spec a (OpRemove k) = (a(k := None), OutBool (a k \<noteq> None))"
| "map_spec a OpClear = (Map.empty, OutUnit)"
| "map_spec a OpCount = (a, OutCount (of_nat (card (dom a))))"

fun hm_legal :: "'d HashMap \<Rightarrow> 'd hm_op \<Rightarrow> bool" where
  "hm_legal m (OpPut k d) = (length k = unat (hm_keySize m))"
| "hm_legal m (OpGet k) = (length k = unat (hm_keySize m))"
| "hm_legal m (OpRemove k) = (length k = unat (hm_keySize m))"
| "hm_legal m OpClear = True"
| "hm_legal m OpCount = True"

text \<open>How many more insertions keep the table below \<open>2 ^ 31\<close> slots.\<close>

definition hm_cap :: "'d HashMap \<Rightarrow> nat" where
  "hm_cap m = 2 ^ 30 div unat (hm_alpha m) - unat (hm_count m)"

definition hm_ready :: "'d HashMap \<Rightarrow> bool" where
  "hm_ready m \<longleftrightarrow> hm_inv m \<and> hm_room m"

lemma hm_legal_layout: "hm_keySize m' = hm_keySize m \<Longrightarrow> hm_legal m' op = hm_legal m op"
  by (cases op) simp_all

lemma hm_ready_shrink:
  assumes "hm_ready m" and "hm_inv m'" and "same_shape m m'" and "dom (hm_abs m') \<subseteq> dom (hm_abs m)"
  shows "hm_ready m'" and "hm_cap m \<le> hm_cap m'"
proof -
  have inv: "hm_inv m" using assms(1) by (simp add: hm_ready_def)
  have le: "unat (hm_count m') \<le> unat (hm_count m)"
    using card_mono [OF hm_count_card(1) [OF inv] assms(4)]
    by (simp add: hm_count_card(2) [OF inv] hm_count_card(2) [OF assms(2)])
  then have "unat (hm_count m') * unat (hm_alpha m) \<le> unat (hm_count m) * unat (hm_alpha m)"
    by (rule mult_le_mono1)
  also have "\<dots> \<le> unat (hm_numEntries m)"
    using assms(1) by (simp add: hm_ready_def hm_room_def)
  finally show "hm_ready m'"
    using assms(1-3) by (simp add: hm_ready_def hm_room_def same_shape_def)
  show "hm_cap m \<le> hm_cap m'"
    using le assms(3) by (simp add: hm_cap_def same_shape_def diff_le_mono2)
qed

lemma hm_cap_bound:
  assumes "0 < hm_cap m"
  shows "unat (hm_count m) * unat (hm_alpha m) \<le> 2 ^ 30"
proof -
  have "unat (hm_count m) \<le> 2 ^ 30 div unat (hm_alpha m)"
    using assms by (simp add: hm_cap_def)
  then have "unat (hm_count m) * unat (hm_alpha m) \<le> 2 ^ 30 div unat (hm_alpha m) * unat (hm_alpha m)"
    by (rule mult_le_mono1)
  also have "\<dots> \<le> 2 ^ 30" by (rule div_times_less_eq_dividend)
  finally show ?thesis .
qed

lemma hm_step_sim:
  assumes ready: "hm_ready m" and cap: "0 < hm_cap m" and legal: "hm_legal m op"
  shows "\<exists>m' r. hm_step (\<lambda>_. True) m op = Inr (m', r) \<and> hm_ready m' \<and>
    map_spec (hm_abs m) op = (hm_abs m', r) \<and> hm_cap m \<le> Suc (hm_cap m') \<and>
    (\<forall>o'. hm_legal m' o' = hm_legal m o')"
proof -
  have inv: "hm_inv m" and room: "hm_room m"
    using ready by (simp_all add: hm_ready_def)
  show ?thesis
  proof (cases op)
    case (OpPut k d)
    obtain m' where m': "HashMap_Put (\<lambda>_. True) m k d = Inr (m', True)" "hm_inv m'" "hm_room m'"
      "hm_abs m' = (hm_abs m)(k \<mapsto> d)" "same_layout m m'" "unat (hm_count m') \<le> Suc (unat (hm_count m))"
      using HashMap_Put_granted [OF inv room hm_cap_bound [OF cap], of k "\<lambda>_. True" d] legal OpPut by auto
    have "hm_cap m \<le> Suc (hm_cap m')"
      using m'(5,6) by (simp add: hm_cap_def same_layout_def)
    moreover have "\<forall>o'. hm_legal m' o' = hm_legal m o'"
      using m'(5) hm_legal_layout by (auto simp: same_layout_def)
    ultimately show ?thesis
      using m' OpPut by (intro exI [of _ m'] exI [of _ "OutBool True"]) (simp add: hm_ready_def)
  next
    case (OpGet k)
    with HashMap_Get_abs [OF inv, of k] legal ready show ?thesis by simp
  next
    case (OpRemove k)
    obtain m' where m': "HashMap_Remove m k = Inr (m', hm_abs m k \<noteq> None)"
      "hm_inv m'" "hm_abs m' = (hm_abs m)(k := None)" "same_shape m m'"
      using HashMap_Remove_spec [OF inv, of k] legal OpRemove by auto
    note sh = hm_ready_shrink [OF ready m'(2,4)]
    have sub: "dom (hm_abs m') \<subseteq> dom (hm_abs m)"
      using m'(3) by auto
    have "\<forall>o'. hm_legal m' o' = hm_legal m o'"
      using m'(4) hm_legal_layout by (auto simp: same_shape_def)
    with m' sh [OF sub] OpRemove show ?thesis by simp
  next
    case OpClear
    obtain m' where m': "HashMap_Clear m = Inr m'" "hm_inv m'" "hm_abs m' = Map.empty" "same_shape m m'"
      using HashMap_Clear_spec [OF inv] by metis
    have sub: "dom (hm_abs m') \<subseteq> dom (hm_abs m)"
      using m'(3) by simp
    have "\<forall>o'. hm_legal m' o' = hm_legal m o'"
      using m'(4) hm_legal_layout by (auto simp: same_shape_def)
    with m' hm_ready_shrink [OF ready m'(2,4) sub] OpClear show ?thesis by simp
  next
    case OpCount
    then show ?thesis
      using ready hm_count_card(2) [OF inv] by (simp add: HashMap_Count_def)
  qed
qed

interpretation hashmap: implementation "hm_step (\<lambda>_. True)" map_spec hm_ready hm_abs hm_cap hm_legal
  by unfold_locales (rule hm_step_sim)

lemma HashMap_AllocMapAlpha_granted:
  "\<exists>m. HashMap_AllocMapAlpha (\<lambda>_. True) n alpha ks ds = Some m"
  by (simp add: HashMap_AllocMapAlpha_def InitMap_def Let_def)

text \<open>The equations by which closed calls are evaluated.\<close>

lemmas hm_eval = HashMap_AllocMap_def HASHMAP_DEFAULT_ALPHA_def HashMap_AllocMapAlpha_def InitMap_def
  CalculateEntrySize_def ROUNDUP_def sizeof_HashMapEntryHeader_def zero_map_def zero_entry_def
  HashMap_Put_def LookupKey_def LookupKey_loop.simps ComputeHash_def key_bytes_def djb2_def
  GetEntry_def SetEntry_def FillEntry_def NeedsResize_def Clamped_UMul32_def CompareKeys_def
  Resize_def Resize_grow.simps NO_FREE_INDEX_def MAX_UINT32_def upt_conv_Cons

section \<open>Properties\<close>

text \<open>
  C5. A map that \<^verbatim>\<open>HashMap_AllocMap\<close> returned behaves as a finite map: any sequence of at most
  \<open>2 ^ 29\<close> put, get, remove, clear and count calls with keys of the map's size runs without a fault
  (no access out of bounds, no division by zero, no endless probe), and its results are those of
  the same calls on an initially empty finite map. The allocator grants the growth requests.
\<close>

theorem HashMap_refines_map:
  fixes m :: "'d HashMap"
  assumes "HashMap_AllocMap calloc n ks ds = Some m" and "0 < unat n" and "unat n \<le> 2 ^ 30"
    and "length ops \<le> 2 ^ 29" and "\<forall>op \<in> set ops. hm_legal m op"
  shows "\<exists>m'. run (hm_step (\<lambda>_. True)) m ops = Inr (m', snd (run_spec map_spec Map.empty ops)) \<and>
    hm_abs m' = fst (run_spec map_spec Map.empty ops) \<and> CheckSanity m'"
proof -
  have alloc: "HashMap_AllocMapAlpha calloc n 2 ks ds = Some m"
    using assms(1) by (simp add: HashMap_AllocMap_def HASHMAP_DEFAULT_ALPHA_def)
  have two: "0 < unat (2 :: u32)" "unat n * unat (2 :: u32) \<le> 2 ^ 31"
    using assms(3) by simp_all
  note m = HashMap_AllocMapAlpha_spec [OF alloc assms(2) two]
  have "hm_ready m" using m by (simp add: hm_ready_def)
  moreover have "length ops \<le> hm_cap m"
    using assms(4) m(4,5) by (simp add: hm_cap_def)
  ultimately obtain m' rs where "run (hm_step (\<lambda>_. True)) m ops = Inr (m', rs)" "hm_ready m'"
    "run_spec map_spec (hm_abs m) ops = (hm_abs m', rs)"
    using hashmap.run_sim [of m ops] assms(5) by blast
  then show ?thesis
    using m(3) hm_inv_sane [of m'] by (auto simp: hm_ready_def)
qed

theorem HashMap_refines_map_witness:
  "\<exists>m m'. HashMap_AllocMap (\<lambda>_. True) 16 4 8 = Some (m :: nat HashMap) \<and>
     run (hm_step (\<lambda>_. True)) m
       [OpPut [1, 2, 3, 4] 7, OpGet [1, 2, 3, 4], OpGet [0, 0, 0, 0], OpRemove [1, 2, 3, 4], OpCount] =
     Inr (m', [OutBool True, OutData (Some 7), OutData None, OutBool True, OutCount 0])"
proof -
  let ?ops = "[OpPut [1, 2, 3, 4] 7, OpGet [1, 2, 3, 4], OpGet [0, 0, 0, 0], OpRemove [1, 2, 3, 4], OpCount] :: nat hm_op list"
  obtain m where m: "HashMap_AllocMap (\<lambda>_. True) 16 4 8 = Some (m :: nat HashMap)"
    using HashMap_AllocMapAlpha_granted unfolding HashMap_AllocMap_def by blast
  have "hm_keySize m = 4"
    using m by (auto simp: HashMap_AllocMap_def HashMap_AllocMapAlpha_def InitMap_def Let_def)
  then have "\<forall>op \<in> set ?ops. hm_legal m op" by simp
  with HashMap_refines_map [OF m, of ?ops] m show ?thesis by auto
qed

text \<open>
  C29. \<^verbatim>\<open>HashMap_Put\<close> under any allocator: while at most one doubling is due, a call never faults; it
  returns \<^verbatim>\<open>TRUE\<close> and the map maps the key to the data, all else unchanged, or it returns \<^verbatim>\<open>FALSE\<close>,
  which happens only when the table is full and the allocator refused the larger one, and
  then the map is unchanged. The invariant of the table is kept either way.
\<close>

theorem HashMap_Put_any_allocator:
  assumes "hm_inv m" and "length key = unat (hm_keySize m)" and "growth_ok m"
  shows "\<exists>m' b. HashMap_Put calloc m key d = Inr (m', b) \<and> hm_inv m' \<and>
    (if b then hm_abs m' = (hm_abs m)(key \<mapsto> d)
     else m' = m \<and> load (hm_entries m) = length (hm_entries m) \<and> \<not> calloc (doubled_bytes m))"
proof -
  consider "hm_abs m key \<noteq> None" | "hm_abs m key = None" "\<not> NeedsResize m"
    | "hm_abs m key = None" "NeedsResize m" "single_growth m" "calloc (doubled_bytes m)"
    | "hm_abs m key = None" "NeedsResize m" "single_growth m" "\<not> calloc (doubled_bytes m)"
    using assms(3) by (auto simp: growth_ok_def)
  then show ?thesis
  proof cases
    case 1
    then show ?thesis
      by (elim HashMap_Put_present [where calloc = calloc and d = d, OF assms(1,2)]) auto
  next
    case 2
    show ?thesis
      by (rule HashMap_Put_room [where calloc = calloc and d = d, OF assms(1,2) 2]) auto
  next
    case 3
    show ?thesis
      by (rule HashMap_Put_grow [where calloc = calloc and d = d, OF assms(1,2) 3]) auto
  next
    case 4
    note refused = HashMap_Put_refused [where calloc = calloc and d = d, OF assms(1,2) 4]
    show ?thesis
    proof (cases "load (hm_entries m) = length (hm_entries m)")
      case True
      with refused(1) assms(1) 4(4) show ?thesis by auto
    next
      case False
      then have "load (hm_entries m) < length (hm_entries m)"
        using load_le [of "hm_entries m"] by simp
      from refused(2) [OF this] show ?thesis by auto
    qed
  qed
qed

theorem HashMap_Put_any_allocator_witness:
  "\<exists>m m' b. HashMap_AllocMap (\<lambda>_. True) 1 1 8 = Some (m :: nat HashMap) \<and>
     HashMap_Put (\<lambda>_. False) m [2] 5 = Inr (m', b) \<and> hm_inv m' \<and> b \<and> hm_abs m' [2] = Some 5"
proof -
  obtain m where m: "HashMap_AllocMapAlpha (\<lambda>_. True) 1 2 1 8 = Some (m :: nat HashMap)"
    using HashMap_AllocMapAlpha_granted by blast
  note spec = HashMap_AllocMapAlpha_spec [OF m]
  have inv: "hm_inv m" and len: "length [2 :: u8] = unat (hm_keySize m)" and n: "unat (hm_numEntries m) = 2"
    and c: "hm_count m = 0"
    using spec by simp_all
  have "\<not> NeedsResize m"
    using n c by (simp add: NeedsResize_def Clamped_UMul32_def word_le_nat_alt)
  then have growth: "growth_ok m" by (simp add: growth_ok_def)
  have notfull: "load (hm_entries m) \<noteq> length (hm_entries m)"
    using load_lt_length [OF inv \<open>\<not> NeedsResize m\<close>] by simp
  from HashMap_Put_any_allocator [OF inv len growth, of "\<lambda>_. False" 5] notfull
  obtain m' where "HashMap_Put (\<lambda>_. False) m [2] 5 = Inr (m', True)" "hm_inv m'"
    "hm_abs m' = (hm_abs m)([2] \<mapsto> 5)"
    by (metis (full_types))
  with m show ?thesis by (auto simp: HashMap_AllocMap_def HASHMAP_DEFAULT_ALPHA_def)
qed


text \<open>
  C32. \<^verbatim>\<open>HashMap_Iterate\<close> calls its callback exactly once for every key of the map, with the data stored
  under it, and leaves the map alone when it is not asked to clear it.
\<close>

theorem HashMap_Iterate_visits_all:
  assumes "hm_inv m"
  shows "HashMap_Iterate m f False u =
           bindR (foldR (\<lambda>(k, v). f k (Some v)) (hm_list m) u) (\<lambda>u'. Inr (m, u')) \<and>
         distinct (map fst (hm_list m)) \<and> length (hm_list m) = unat (HashMap_Count m) \<and>
         (\<forall>k v. (k, v) \<in> set (hm_list m) \<longleftrightarrow> hm_abs m k = Some v)"
  by (intro conjI allI HashMap_Iterate_list [OF assms])

theorem HashMap_Iterate_visits_all_witness:
  "\<exists>m m1. HashMap_AllocMap (\<lambda>_. True) 16 4 8 = Some (m :: nat HashMap) \<and>
     HashMap_Put (\<lambda>_. True) m [1, 2, 3, 4] 9 = Inr (m1, True) \<and>
     length (hm_list m1) = 1 \<and> ([1, 2, 3, 4], 9) \<in> set (hm_list m1) \<and>
     HashMap_Iterate m1 (\<lambda>k d u. Inr (u + length k)) False 0 =
       bindR (foldR (\<lambda>(k, v) u. Inr (u + length k)) (hm_list m1) 0) (\<lambda>u'. Inr (m1, u'))"
proof -
  obtain m where m: "HashMap_AllocMapAlpha (\<lambda>_. True) 16 2 4 8 = Some (m :: nat HashMap)"
    using HashMap_AllocMapAlpha_granted by blast
  note spec = HashMap_AllocMapAlpha_spec [OF m]
  have ks: "hm_inv m" "hm_room m" "hm_abs m = Map.empty" "hm_count m = 0" "hm_keySize m = 4"
    using spec by simp_all
  obtain m1 where m1: "HashMap_Put (\<lambda>_. True) m [1, 2, 3, 4] 9 = Inr (m1, True)" "hm_inv m1"
    "hm_abs m1 = (hm_abs m)([1, 2, 3, 4] \<mapsto> 9)"
    using HashMap_Put_granted [OF ks(1,2), of "[1, 2, 3, 4]" "\<lambda>_. True" 9] ks by auto
  note it = HashMap_Iterate_visits_all [OF m1(2)]
  have "hm_abs m1 = [[1, 2, 3, 4] \<mapsto> 9]" using m1(3) ks(3) by simp
  then have "unat (HashMap_Count m1) = 1"
    using hm_count_card(2) [OF m1(2)] by (simp add: HashMap_Count_def)
  with m m1(1,3) it [of "\<lambda>k d u. Inr (u + length k)" 0] show ?thesis
    by (auto simp: HashMap_AllocMap_def HASHMAP_DEFAULT_ALPHA_def)
qed

text \<open>
  The layout that \<^verbatim>\<open>CalculateEntrySize\<close> computes: within one entry the header, the key and the data
  do not overlap, key and data are 4-byte aligned, and the data ends within the entry.
\<close>

theorem HashMap_entry_layout:
  assumes "unat (hm_keySize m) < 2 ^ 61" and "unat (hm_dataSize m) < 2 ^ 61"
  shows "let m' = CalculateEntrySize m;
             key = unat (hm_keyOffset m'); data = unat (hm_dataOffset m')
         in unat sizeof_HashMapEntryHeader \<le> key \<and> key + unat (hm_keySize m) \<le> data \<and>
            data + unat (hm_dataSize m) \<le> unat (hm_entrySize m') \<and>
            4 dvd key \<and> 4 dvd data \<and> 4 dvd unat (hm_entrySize m')"
proof -
  have up: "x \<le> (x + 3) div 4 * 4" for x :: nat by presburger
  show ?thesis
    using up [of "unat (hm_keySize m)"] up [of "unat (hm_dataSize m)"]
    by (simp add: CalculateEntrySize_layout [OF assms] Let_def sizeof_HashMapEntryHeader_def)
qed

theorem HashMap_entry_layout_witness:
  "unat (hm_keySize (zero_map\<lparr>hm_keySize := 5, hm_dataSize := 9\<rparr> :: nat HashMap)) < 2 ^ 61 \<and>
   hm_entrySize (CalculateEntrySize (zero_map\<lparr>hm_keySize := 5, hm_dataSize := 9\<rparr> :: nat HashMap)) = 28 \<and>
   16 + 9 \<le> unat (hm_entrySize (CalculateEntrySize (zero_map\<lparr>hm_keySize := 5, hm_dataSize := 9\<rparr> :: nat HashMap)))"
  using HashMap_entry_layout [of "zero_map\<lparr>hm_keySize := 5, hm_dataSize := 9\<rparr> :: nat HashMap"]
  by (simp add: CalculateEntrySize_def ROUNDUP_def sizeof_HashMapEntryHeader_def zero_map_def)

end
