(* ===== verification/DataMap.thy ===== *)
theory DataMap
  imports HashMap_Spec
begin

text \<open>
  The typed key-value map of \<^verbatim>\<open>lib/dataMap/dataMap.c\<close>: entries of four types under 32-bit field ids,
  kept in a \<^verbatim>\<open>HashMap\<close>, with a byte encoding that is sent between processes.
\<close>

section \<open>Data\<close>

type_synonym DMKeyType = i32

datatype ErrorCode =
    DMERR_SUCCESS | DMERR_NOT_FOUND | DMERR_ALREADY_EXIST | DMERR_DUPLICATED_FIELD_IDS
  | DMERR_INSUFFICIENT_MEM | DMERR_TYPE_MISMATCH | DMERR_INVALID_ARGS | DMERR_UNKNOWN_TYPE
  | DMERR_TRUNCATED_DATA | DMERR_BUFFER_TOO_SMALL | DMERR_INTEGER_OVERFLOW

datatype DMFieldType =
    DMFIELDTYPE_EMPTY | DMFIELDTYPE_INT64 | DMFIELDTYPE_STRING | DMFIELDTYPE_INT64LIST
  | DMFIELDTYPE_STRINGLIST | DMFIELDTYPE_MAX

fun DMFieldType_val :: "DMFieldType \<Rightarrow> i32" where
  "DMFieldType_val DMFIELDTYPE_EMPTY = 0"
| "DMFieldType_val DMFIELDTYPE_INT64 = 1"
| "DMFieldType_val DMFIELDTYPE_STRING = 2"
| "DMFieldType_val DMFIELDTYPE_INT64LIST = 3"
| "DMFieldType_val DMFIELDTYPE_STRINGLIST = 4"
| "DMFieldType_val DMFIELDTYPE_MAX = 5"

text \<open>
  \<^verbatim>\<open>DataMapEntry\<close>: the tag and the union \<^verbatim>\<open>DMFieldValue\<close>, which the code always writes together.
  Blocks that the entry points to are lists: the bytes of a string buffer (which may be longer
  than the recorded length), the numbers, the strings before the terminating null pointer.
\<close>

datatype DataMapEntry =
    DM_Int64 i64
  | DM_String i32 "u8 list"
  | DM_Int64List i32 "i64 list"
  | DM_StringList "u8 list list" "i32 list"

fun entry_type :: "DataMapEntry \<Rightarrow> DMFieldType" where
  "entry_type (DM_Int64 v) = DMFIELDTYPE_INT64"
| "entry_type (DM_String n s) = DMFIELDTYPE_STRING"
| "entry_type (DM_Int64List n xs) = DMFIELDTYPE_INT64LIST"
| "entry_type (DM_StringList ss ns) = DMFIELDTYPE_STRINGLIST"

definition magic_cookie :: u64 where
  "magic_cookie = 0x4d41474943"

record DataMap =
  dm_map :: "DataMapEntry HashMap option"
  dm_cookie :: u64

definition sizeof_DataMapEntry :: nat where
  "sizeof_DataMapEntry = 24"

text \<open>A length or count passed to the allocator: an \<^verbatim>\<open>int32\<close> converted to \<^verbatim>\<open>size_t\<close>.\<close>

definition size_of_int32 :: "i32 \<Rightarrow> nat" where
  "size_of_int32 n = unat (scast n :: u64)"

text \<open>The bytes of a field id in memory, as the hash map compares and hashes them.\<close>

definition key_le :: "DMKeyType \<Rightarrow> u8 list" where
  "key_le k = [ucast k, ucast (drop_bit 8 k), ucast (drop_bit 16 k), ucast (drop_bit 24 k)]"

definition key_of_le :: "u8 list \<Rightarrow> DMKeyType" where
  "key_of_le bs = (case bs of [a, b, c, d] \<Rightarrow>
     ucast a OR push_bit 8 (ucast b) OR push_bit 16 (ucast c) OR push_bit 24 (ucast d) | _ \<Rightarrow> 0)"

section \<open>Adding and finding entries\<close>

text \<open>
  The four \<^verbatim>\<open>AddEntry_*\<close> helpers allocate an entry, fill it and put its pointer into the map. The
  map a failed call leaves behind is returned with the error.
\<close>

definition AddEntry :: "allocator \<Rightarrow> DataMap \<Rightarrow> DMKeyType \<Rightarrow> DataMapEntry \<Rightarrow> (DataMap \<times> ErrorCode) res" where
  "AddEntry malloc that key e =
     (if \<not> malloc sizeof_DataMapEntry then Inr (that, DMERR_INSUFFICIENT_MEM)
      else case dm_map that of
             None \<Rightarrow> Inl NullDeref
           | Some m \<Rightarrow>
               bindR (HashMap_Put malloc m (key_le key) e) (\<lambda>(m1, ok).
                 Inr (that\<lparr>dm_map := Some m1\<rparr>, if ok then DMERR_SUCCESS else DMERR_INSUFFICIENT_MEM)))"

definition AddEntry_Int64 :: "allocator \<Rightarrow> DataMap \<Rightarrow> DMKeyType \<Rightarrow> i64 \<Rightarrow> (DataMap \<times> ErrorCode) res" where
  "AddEntry_Int64 malloc that key value = AddEntry malloc that key (DM_Int64 value)"

definition AddEntry_String :: "allocator \<Rightarrow> DataMap \<Rightarrow> DMKeyType \<Rightarrow> u8 list \<Rightarrow> i32 \<Rightarrow> (DataMap \<times> ErrorCode) res" where
  "AddEntry_String malloc that key str strLen = AddEntry malloc that key (DM_String strLen str)"

definition AddEntry_Int64List ::
  "allocator \<Rightarrow> DataMap \<Rightarrow> DMKeyType \<Rightarrow> i64 list \<Rightarrow> i32 \<Rightarrow> (DataMap \<times> ErrorCode) res" where
  "AddEntry_Int64List malloc that key numbers listLen = AddEntry malloc that key (DM_Int64List listLen numbers)"

definition AddEntry_StringList ::
  "allocator \<Rightarrow> DataMap \<Rightarrow> DMKeyType \<Rightarrow> u8 list list \<Rightarrow> i32 list \<Rightarrow> (DataMap \<times> ErrorCode) res" where
  "AddEntry_StringList malloc that key strList strLens = AddEntry malloc that key (DM_StringList strList strLens)"

text \<open>
  \<^verbatim>\<open>FreeStringList\<close> dereferences its argument before it frees. The argument is the number of pointers
  in the block, \<^const>\<open>None\<close> for the null pointer.
\<close>

definition FreeStringList :: "nat option \<Rightarrow> unit res" where
  "FreeStringList strList =
     (case strList of None \<Rightarrow> Inl NullDeref
      | Some n \<Rightarrow> if n = 0 then Inl OutOfBounds else Inr ())"

definition LookupEntry :: "DataMap option \<Rightarrow> DMKeyType \<Rightarrow> DataMapEntry option res" where
  "LookupEntry that fieldId =
     (case that of None \<Rightarrow> Inr None
      | Some dm \<Rightarrow> (case dm_map dm of None \<Rightarrow> Inr None
                    | Some m \<Rightarrow> HashMap_Get m (key_le fieldId)))"

text \<open>A write through the entry pointer that \<^verbatim>\<open>LookupEntry\<close> returned.\<close>

definition WriteEntry :: "DataMap \<Rightarrow> DMKeyType \<Rightarrow> DataMapEntry \<Rightarrow> DataMap res" where
  "WriteEntry that fieldId e =
     (case dm_map that of None \<Rightarrow> Inl NullDeref
      | Some m \<Rightarrow> bindR (LookupKey m (key_le fieldId)) (\<lambda>(found, hdr, freeIndex).
          if \<not> found then Inl NullDeref
          else bindR (GetEntry m hdr) (\<lambda>s.
                 bindR (SetEntry m hdr (s\<lparr>he_data := Some e\<rparr>)) (\<lambda>m1.
                   Inr (that\<lparr>dm_map := Some m1\<rparr>)))))"

section \<open>Encoding\<close>

text \<open>Network byte order (\<^verbatim>\<open>htonl\<close> on the way out, \<^verbatim>\<open>ntohl\<close> on the way in).\<close>

definition be32 :: "u32 \<Rightarrow> u8 list" where
  "be32 x = [ucast (drop_bit 24 x), ucast (drop_bit 16 x), ucast (drop_bit 8 x), ucast x]"

definition of_be32 :: "u8 list \<Rightarrow> u32" where
  "of_be32 bs = (case bs of [a, b, c, d] \<Rightarrow>
     push_bit 24 (ucast a) OR push_bit 16 (ucast b) OR push_bit 8 (ucast c) OR ucast d | _ \<Rightarrow> 0)"

definition EncodeInt32 :: "OutBuf \<Rightarrow> i32 \<Rightarrow> OutBuf res" where
  "EncodeInt32 buf num = WriteBytes buf (be32 num)"

definition EncodeInt64 :: "OutBuf \<Rightarrow> i64 \<Rightarrow> OutBuf res" where
  "EncodeInt64 buf num =
     bindR (EncodeInt32 buf (ucast num)) (\<lambda>buf1. EncodeInt32 buf1 (ucast (drop_bit 32 num)))"

text \<open>The bytes that \<^verbatim>\<open>memcpy(dst, src, n)\<close> reads from a source block.\<close>

definition memcpy_read :: "'a list \<Rightarrow> i32 \<Rightarrow> 'a list res" where
  "memcpy_read xs n =
     (if 0 \<le> sint n \<and> nat (sint n) \<le> length xs then Inr (take (nat (sint n)) xs) else Inl OutOfBounds)"

definition EncodeString :: "OutBuf \<Rightarrow> u8 list \<Rightarrow> i32 \<Rightarrow> OutBuf res" where
  "EncodeString buf str strLen =
     bindR (EncodeInt32 buf strLen) (\<lambda>buf1.
       bindR (memcpy_read str strLen) (\<lambda>bs. WriteBytes buf1 bs))"

definition EncodeInt64List :: "OutBuf \<Rightarrow> i64 list \<Rightarrow> i32 \<Rightarrow> OutBuf res" where
  "EncodeInt64List buf numList listLen =
     bindR (EncodeInt32 buf listLen) (\<lambda>buf1.
       foldR (\<lambda>i b. if i < length numList then EncodeInt64 b (numList ! i) else Inl OutOfBounds)
         [0 ..< nat (sint listLen)] buf1)"

text \<open>\<^verbatim>\<open>ClientData\<close>, the user data of the iterator callbacks.\<close>

record ClientData =
  cd_result :: ErrorCode
  cd_buffer :: OutBuf
  cd_buffLen :: u32

text \<open>The size pass. All additions are on \<^verbatim>\<open>uint32\<close>; a string list checks for a wrap at each string.\<close>

fun CalcStringListSize :: "u32 \<Rightarrow> u8 list list \<Rightarrow> i32 list \<Rightarrow> u32 \<Rightarrow> (u32 \<times> bool) res" where
  "CalcStringListSize oldLen [] lens buffLen = Inr (buffLen, True)"
| "CalcStringListSize oldLen (s # ss) lens buffLen =
     (if buffLen < oldLen then Inr (buffLen, False)
      else case lens of [] \<Rightarrow> Inl OutOfBounds
           | n # ns \<Rightarrow> CalcStringListSize oldLen ss ns (buffLen + 4 + n))"

definition HashMapCalcEntrySizeCb :: "u8 list \<Rightarrow> DataMapEntry option \<Rightarrow> ClientData \<Rightarrow> ClientData res" where
  "HashMapCalcEntrySizeCb key data cd =
     (case data of None \<Rightarrow> Inl NullDeref
      | Some e \<Rightarrow>
        if cd_result cd \<noteq> DMERR_SUCCESS then Inr cd
        else
          let oldLen = cd_buffLen cd;
              finish = (\<lambda>n. if n < oldLen
                 then cd\<lparr>cd_buffLen := n, cd_result := DMERR_INTEGER_OVERFLOW\<rparr>
                 else cd\<lparr>cd_buffLen := n\<rparr>)
          in case e of
               DM_Int64 v \<Rightarrow> Inr (finish (oldLen + 4 + 4 + 8))
             | DM_String n s \<Rightarrow> Inr (finish (oldLen + 4 + 4 + 4 + n))
             | DM_Int64List n xs \<Rightarrow> Inr (finish (oldLen + 4 + 4 + 4 + 8 * n))
             | DM_StringList ss ns \<Rightarrow>
                 bindR (CalcStringListSize oldLen ss ns (oldLen + 4 + 4 + 4)) (\<lambda>(n, ok).
                   Inr (if ok then finish n
                        else cd\<lparr>cd_buffLen := n, cd_result := DMERR_INTEGER_OVERFLOW\<rparr>)))"

text \<open>The loop over a string list: the null pointer ends the strings, the lengths run along.\<close>

fun EncodeStrings :: "u8 list list \<Rightarrow> i32 list \<Rightarrow> OutBuf \<Rightarrow> OutBuf res" where
  "EncodeStrings [] lens buf = Inr buf"
| "EncodeStrings (s # ss) lens buf =
     (case lens of [] \<Rightarrow> Inl OutOfBounds
      | n # ns \<Rightarrow> bindR (EncodeString buf s n) (EncodeStrings ss ns))"

text \<open>Overwriting four bytes written earlier, at offset \<open>p\<close>.\<close>

definition PatchInt32 :: "OutBuf \<Rightarrow> nat \<Rightarrow> i32 \<Rightarrow> OutBuf" where
  "PatchInt32 buf p n =
     buf\<lparr>ob_bytes := take p (ob_bytes buf) @ be32 n @ drop (p + 4) (ob_bytes buf)\<rparr>"

definition EncodeValue :: "OutBuf \<Rightarrow> DataMapEntry \<Rightarrow> OutBuf res" where
  "EncodeValue buf e =
     (case e of
        DM_Int64 v \<Rightarrow> EncodeInt64 buf v
      | DM_String n s \<Rightarrow> EncodeString buf s n
      | DM_Int64List n xs \<Rightarrow> EncodeInt64List buf xs n
      | DM_StringList ss ns \<Rightarrow>
          bindR (WriteBytes buf [0, 0, 0, 0]) (\<lambda>buf1.
            bindR (EncodeStrings ss ns buf1) (\<lambda>buf2.
              Inr (PatchInt32 buf2 (length (ob_bytes buf)) (of_nat (length ss))))))"

definition HashMapSerializeEntryCb :: "u8 list \<Rightarrow> DataMapEntry option \<Rightarrow> ClientData \<Rightarrow> ClientData res" where
  "HashMapSerializeEntryCb key data cd =
     (case data of None \<Rightarrow> Inl NullDeref
      | Some e \<Rightarrow>
        bindR (EncodeInt32 (cd_buffer cd) (DMFieldType_val (entry_type e))) (\<lambda>b1.
          bindR (EncodeInt32 b1 (key_of_le key)) (\<lambda>b2.
            bindR (EncodeValue b2 e) (\<lambda>b3.
              Inr (cd\<lparr>cd_buffer := b3,
                      cd_buffLen := cd_buffLen cd -
                        of_nat (length (ob_bytes b3) - length (ob_bytes (cd_buffer cd)))\<rparr>)))))"

text \<open>
  \<^verbatim>\<open>DataMap_Serialize\<close>. \<open>outs\<close> says that the out-parameters \<^verbatim>\<open>buf\<close> and \<^verbatim>\<open>bufLen\<close> are not null; the
  result holds the buffer, if one is returned.
\<close>

definition DataMap_Serialize :: "allocator \<Rightarrow> DataMap option \<Rightarrow> bool \<Rightarrow> (ErrorCode \<times> u8 list option) res" where
  "DataMap_Serialize malloc that outs =
     (case that of None \<Rightarrow> Inr (DMERR_INVALID_ARGS, None)
      | Some dm \<Rightarrow>
        if \<not> outs then Inr (DMERR_INVALID_ARGS, None)
        else case dm_map dm of None \<Rightarrow> Inl NullDeref
        | Some m \<Rightarrow>
          bindR (HashMap_Iterate m HashMapCalcEntrySizeCb False
                   \<lparr>cd_result = DMERR_SUCCESS, cd_buffer = empty_OutBuf 0, cd_buffLen = 0\<rparr>) (\<lambda>(m1, cd).
            if cd_result cd \<noteq> DMERR_SUCCESS then Inr (cd_result cd, None)
            else let bufLen = cd_buffLen cd + 4
                 in if bufLen < cd_buffLen cd then Inr (DMERR_INTEGER_OVERFLOW, None)
                    else if \<not> malloc (unat bufLen) then Inr (DMERR_INSUFFICIENT_MEM, None)
                    else bindR (EncodeInt32 (empty_OutBuf (unat bufLen)) (cd_buffLen cd)) (\<lambda>b.
                           bindR (HashMap_Iterate m HashMapSerializeEntryCb False
                                    (cd\<lparr>cd_buffer := b\<rparr>)) (\<lambda>(m2, cd2).
                             if cd_result cd2 \<noteq> DMERR_SUCCESS then Inr (cd_result cd2, None)
                             else Inr (DMERR_SUCCESS, Some (ob_bytes (cd_buffer cd2)))))))"

section \<open>Life cycle\<close>

definition DataMap_GetType :: "DataMap option \<Rightarrow> DMKeyType \<Rightarrow> DMFieldType res" where
  "DataMap_GetType that fieldId =
     bindR (LookupEntry that fieldId) (\<lambda>r.
       Inr (case r of None \<Rightarrow> DMFIELDTYPE_EMPTY | Some e \<Rightarrow> entry_type e))"

text \<open>
  \<^verbatim>\<open>DataMap_Create\<close>: 16 entries, 4-byte keys, 8-byte data (a pointer). On failure the structure
  holds a null map and its old cookie.
\<close>

definition DataMap_Create :: "allocator \<Rightarrow> DataMap option \<Rightarrow> DataMap option \<times> ErrorCode" where
  "DataMap_Create malloc that =
     (case that of None \<Rightarrow> (None, DMERR_INVALID_ARGS)
      | Some dm \<Rightarrow>
        (case HashMap_AllocMap malloc 16 4 8 of
           None \<Rightarrow> (Some (dm\<lparr>dm_map := None\<rparr>), DMERR_INSUFFICIENT_MEM)
         | Some m \<Rightarrow> (Some (dm\<lparr>dm_map := Some m, dm_cookie := magic_cookie\<rparr>), DMERR_SUCCESS)))"

text \<open>\<^verbatim>\<open>FreeEntry\<close> and \<^verbatim>\<open>FreeEntryPayload\<close> release memory; a null entry is skipped.\<close>

definition HashMapFreeEntryCb :: "u8 list \<Rightarrow> DataMapEntry option \<Rightarrow> unit \<Rightarrow> unit res" where
  "HashMapFreeEntryCb key data u = Inr ()"

definition DataMap_Destroy :: "DataMap option \<Rightarrow> (DataMap option \<times> ErrorCode) res" where
  "DataMap_Destroy that =
     (case that of None \<Rightarrow> Inr (None, DMERR_INVALID_ARGS)
      | Some dm \<Rightarrow>
        (case dm_map dm of None \<Rightarrow> Inl NullDeref
         | Some m \<Rightarrow>
             bindR (HashMap_Iterate m HashMapFreeEntryCb True ()) (\<lambda>(m1, u).
               Inr (Some (dm\<lparr>dm_map := None, dm_cookie := 0\<rparr>), DMERR_SUCCESS))))"

section \<open>Decoding\<close>

text \<open>
  A decoder takes the bytes at \<^verbatim>\<open>*buf\<close> (up to the end of the block) and \<^verbatim>\<open>*left\<close>, and returns an
  error code or the value with both advanced. \<^verbatim>\<open>*left < sizeof(int32)\<close> compares as \<^verbatim>\<open>size_t\<close>.
\<close>

type_synonym 'a decoded = "(ErrorCode + 'a \<times> u8 list \<times> i32) res"

definition bindD :: "'a decoded \<Rightarrow> ('a \<Rightarrow> u8 list \<Rightarrow> i32 \<Rightarrow> (ErrorCode + 'b) res) \<Rightarrow> (ErrorCode + 'b) res" where
  "bindD r f = bindR r (\<lambda>s. case s of Inl e \<Rightarrow> Inr (Inl e) | Inr (x, buf, left) \<Rightarrow> f x buf left)"

definition DecodeInt32 :: "u8 list \<Rightarrow> i32 \<Rightarrow> i32 decoded" where
  "DecodeInt32 buf left =
     (if size_of_int32 left < 4 then Inr (Inl DMERR_TRUNCATED_DATA)
      else if length buf < 4 then Inl OutOfBounds
      else Inr (Inr (of_be32 (take 4 buf), drop 4 buf, left - 4)))"

definition DecodeInt64 :: "u8 list \<Rightarrow> i32 \<Rightarrow> i64 decoded" where
  "DecodeInt64 buf left =
     bindD (DecodeInt32 buf left) (\<lambda>low buf1 left1.
       bindD (DecodeInt32 buf1 left1) (\<lambda>high buf2 left2.
         Inr (Inr (push_bit 32 (ucast high) OR ucast low, buf2, left2))))"

definition DecodeString :: "allocator \<Rightarrow> u8 list \<Rightarrow> i32 \<Rightarrow> (u8 list \<times> i32) decoded" where
  "DecodeString malloc buf left =
     bindD (DecodeInt32 buf left) (\<lambda>strLen buf1 left1.
       if sint left1 < sint strLen then Inr (Inl DMERR_TRUNCATED_DATA)
       else if \<not> malloc (size_of_int32 strLen) then Inr (Inl DMERR_INSUFFICIENT_MEM)
       else bindR (memcpy_read buf1 strLen) (\<lambda>str.
              Inr (Inr ((str, strLen), drop (nat (sint strLen)) buf1, left1 - strLen))))"

text \<open>The loops that decode so many numbers or strings.\<close>

fun DecodeInt64s :: "nat \<Rightarrow> u8 list \<Rightarrow> i32 \<Rightarrow> i64 list decoded" where
  "DecodeInt64s 0 buf left = Inr (Inr ([], buf, left))"
| "DecodeInt64s (Suc n) buf left =
     bindD (DecodeInt64 buf left) (\<lambda>x buf1 left1.
       bindD (DecodeInt64s n buf1 left1) (\<lambda>xs buf2 left2. Inr (Inr (x # xs, buf2, left2))))"

fun DecodeStrings :: "allocator \<Rightarrow> nat \<Rightarrow> u8 list \<Rightarrow> i32 \<Rightarrow> (u8 list \<times> i32) list decoded" where
  "DecodeStrings malloc 0 buf left = Inr (Inr ([], buf, left))"
| "DecodeStrings malloc (Suc n) buf left =
     bindD (DecodeString malloc buf left) (\<lambda>x buf1 left1.
       bindD (DecodeStrings malloc n buf1 left1) (\<lambda>xs buf2 left2. Inr (Inr (x # xs, buf2, left2))))"

definition added :: "(DataMap \<times> ErrorCode) res \<Rightarrow> u8 list \<Rightarrow> i32 \<Rightarrow> DataMap decoded" where
  "added r buf left =
     bindR r (\<lambda>(dm, err). Inr (if err = DMERR_SUCCESS then Inr (dm, buf, left) else Inl err))"

definition DecodeInt64List :: "allocator \<Rightarrow> u8 list \<Rightarrow> i32 \<Rightarrow> DMKeyType \<Rightarrow> DataMap \<Rightarrow> DataMap decoded" where
  "DecodeInt64List malloc buf left fieldId that =
     bindD (DecodeInt32 buf left) (\<lambda>listLen buf1 left1.
       if \<not> malloc (unat (8 * scast listLen :: u64)) then Inr (Inl DMERR_INSUFFICIENT_MEM)
       else bindD (DecodeInt64s (nat (sint listLen)) buf1 left1) (\<lambda>xs buf2 left2.
              added (AddEntry_Int64List malloc that fieldId xs listLen) buf2 left2))"

definition DecodeStringList :: "allocator \<Rightarrow> u8 list \<Rightarrow> i32 \<Rightarrow> DMKeyType \<Rightarrow> DataMap \<Rightarrow> DataMap decoded" where
  "DecodeStringList malloc buf left fieldId that =
     bindD (DecodeInt32 buf left) (\<lambda>listSize buf1 left1.
       let haveList = malloc (size_of_int32 (listSize + 1) * 8);
           haveLens = malloc (unat (4 * scast listSize :: u64))
       in if \<not> haveList \<or> \<not> haveLens
          then bindR (FreeStringList (if haveList then Some (size_of_int32 (listSize + 1)) else None)) (\<lambda>u.
                 Inr (Inl DMERR_INSUFFICIENT_MEM))
          else bindD (DecodeStrings malloc (nat (sint listSize)) buf1 left1) (\<lambda>xs buf2 left2.
                 added (AddEntry_StringList malloc that fieldId (map fst xs) (map snd xs)) buf2 left2))"

text \<open>One turn of the loop of \<^verbatim>\<open>DataMap_DeserializeContent\<close>.\<close>

definition DecodeEntry :: "allocator \<Rightarrow> DataMap \<Rightarrow> u8 list \<Rightarrow> i32 \<Rightarrow> DataMap decoded" where
  "DecodeEntry malloc that buf left =
     bindD (DecodeInt32 buf left) (\<lambda>val buf1 left1.
       if sint val \<ge> sint (DMFieldType_val DMFIELDTYPE_MAX) then Inr (Inl DMERR_UNKNOWN_TYPE)
       else bindD (DecodeInt32 buf1 left1) (\<lambda>fieldId buf2 left2.
         bindR (LookupEntry (Some that) fieldId) (\<lambda>old.
           if old \<noteq> None then Inr (Inl DMERR_DUPLICATED_FIELD_IDS)
           else if val = DMFieldType_val DMFIELDTYPE_INT64 then
             bindD (DecodeInt64 buf2 left2) (\<lambda>v buf3 left3.
               added (AddEntry_Int64 malloc that fieldId v) buf3 left3)
           else if val = DMFieldType_val DMFIELDTYPE_STRING then
             bindD (DecodeString malloc buf2 left2) (\<lambda>(str, strLen) buf3 left3.
               added (AddEntry_String malloc that fieldId str strLen) buf3 left3)
           else if val = DMFieldType_val DMFIELDTYPE_INT64LIST then
             DecodeInt64List malloc buf2 left2 fieldId that
           else if val = DMFieldType_val DMFIELDTYPE_STRINGLIST then
             DecodeStringList malloc buf2 left2 fieldId that
           else Inr (Inl DMERR_UNKNOWN_TYPE))))"

text \<open>Each turn consumes bytes, so the loop ends.\<close>

lemma bindD_eq_Inr:
  "bindD r f = Inr (Inr y) \<longleftrightarrow> (\<exists>x buf left. r = Inr (Inr (x, buf, left)) \<and> f x buf left = Inr (Inr y))"
proof (cases r)
  case (Inr s)
  then show ?thesis by (cases s) (auto simp: bindD_def)
qed (simp add: bindD_def)

lemma added_eq_Inr:
  "added r buf left = Inr (Inr (dm, buf', left')) \<longleftrightarrow>
     r = Inr (dm, DMERR_SUCCESS) \<and> buf' = buf \<and> left' = left"
  by (auto simp: added_def bindR_eq_Inr)

lemma DecodeInt32_length:
  "DecodeInt32 buf left = Inr (Inr (x, buf', left')) \<Longrightarrow> length buf' + 4 = length buf"
  by (auto simp: DecodeInt32_def split: if_splits)

lemma DecodeInt64_length:
  "DecodeInt64 buf left = Inr (Inr (x, buf', left')) \<Longrightarrow> length buf' + 8 = length buf"
  by (auto simp: DecodeInt64_def bindD_eq_Inr dest!: DecodeInt32_length)

lemma DecodeString_length:
  "DecodeString malloc buf left = Inr (Inr (x, buf', left')) \<Longrightarrow> length buf' + 4 \<le> length buf"
  by (auto simp: DecodeString_def bindD_eq_Inr bindR_eq_Inr dest!: DecodeInt32_length split: if_splits)

lemma DecodeInt64s_length:
  "DecodeInt64s n buf left = Inr (Inr (xs, buf', left')) \<Longrightarrow> length buf' \<le> length buf"
  by (induction n arbitrary: buf left xs)
     (fastforce simp: bindD_eq_Inr dest: DecodeInt64_length)+

lemma DecodeStrings_length:
  "DecodeStrings malloc n buf left = Inr (Inr (xs, buf', left')) \<Longrightarrow> length buf' \<le> length buf"
  by (induction n arbitrary: buf left xs)
     (fastforce simp: bindD_eq_Inr dest: DecodeString_length)+

lemma DecodeEntry_length:
  "DecodeEntry malloc that buf left = Inr (Inr (dm, buf', left')) \<Longrightarrow> length buf' < length buf"
  by (auto simp: DecodeEntry_def DecodeInt64List_def DecodeStringList_def bindD_eq_Inr bindR_eq_Inr
        added_eq_Inr Let_def
        dest!: DecodeInt32_length DecodeInt64_length DecodeString_length DecodeInt64s_length
          DecodeStrings_length split: if_splits)

function DeserializeLoop :: "allocator \<Rightarrow> DataMap \<Rightarrow> u8 list \<Rightarrow> i32 \<Rightarrow> (DataMap \<times> ErrorCode) res" where
  "DeserializeLoop malloc that buf left =
     (if sint left > 0
      then case DecodeEntry malloc that buf left of
             Inl f \<Rightarrow> Inl f
           | Inr (Inl e) \<Rightarrow> Inr (that, e)
           | Inr (Inr (dm, buf1, left1)) \<Rightarrow> DeserializeLoop malloc dm buf1 left1
      else Inr (that, DMERR_SUCCESS))"
  by pat_completeness auto
termination
  by (relation "measure (\<lambda>(malloc, that, buf, left). length buf)") (auto dest: DecodeEntry_length)

declare DeserializeLoop.simps [simp del]

text \<open>
  After an error the map built so far is destroyed. (An entry that could not be put, because the
  allocator refused a larger table, has left the table as it was.)
\<close>

definition DataMap_DeserializeContent ::
  "allocator \<Rightarrow> u8 list \<Rightarrow> i32 \<Rightarrow> DataMap option \<Rightarrow> (DataMap option \<times> ErrorCode) res" where
  "DataMap_DeserializeContent malloc content contentLen that =
     (case DataMap_Create malloc that of
        (None, err) \<Rightarrow> Inr (None, err)
      | (Some dm, err) \<Rightarrow>
        if err \<noteq> DMERR_SUCCESS then Inr (Some dm, err)
        else bindR (DeserializeLoop malloc dm content contentLen) (\<lambda>(dm1, res).
               if res \<noteq> DMERR_SUCCESS
               then bindR (DataMap_Destroy (Some dm1)) (\<lambda>(dm2, e). Inr (dm2, res))
               else Inr (Some dm1, DMERR_SUCCESS)))"

text \<open>
  \<^verbatim>\<open>DataMap_Deserialize\<close>: \<open>buf\<close> is the block at \<^verbatim>\<open>bufIn\<close>. The test \<^verbatim>\<open>len > bufLen - sizeof(int32)\<close> is made
  on \<^verbatim>\<open>size_t\<close>.
\<close>

definition DataMap_Deserialize ::
  "allocator \<Rightarrow> u8 list option \<Rightarrow> i32 \<Rightarrow> DataMap option \<Rightarrow> (DataMap option \<times> ErrorCode) res" where
  "DataMap_Deserialize malloc bufIn bufLen that =
     (case (that, bufIn) of
        (Some dm, Some buf) \<Rightarrow>
          if sint bufLen < 0 then Inr (that, DMERR_INVALID_ARGS)
          else bindR (DecodeInt32 buf bufLen) (\<lambda>r.
                 case r of Inl e \<Rightarrow> Inr (that, e)
                 | Inr (len, buf1, left1) \<Rightarrow>
                     if (scast len :: u64) > scast bufLen - 4 then Inr (that, DMERR_TRUNCATED_DATA)
                     else DataMap_DeserializeContent malloc buf1 len that)
      | _ \<Rightarrow> Inr (that, DMERR_INVALID_ARGS))"

section \<open>Setters and getters\<close>

text \<open>
  The four setters differ in the argument check and the value; \<open>SetEntryValue\<close> is what they share
  after the check: add a new entry, refuse, or overwrite the old one in place.
\<close>

definition SetEntryValue ::
  "allocator \<Rightarrow> DataMap \<Rightarrow> DMKeyType \<Rightarrow> DataMapEntry \<Rightarrow> bool \<Rightarrow> (DataMap \<times> ErrorCode) res" where
  "SetEntryValue malloc that fieldId e replace =
     bindR (LookupEntry (Some that) fieldId) (\<lambda>old.
       case old of
         None \<Rightarrow> AddEntry malloc that fieldId e
       | Some x \<Rightarrow>
           if \<not> replace then Inr (that, DMERR_ALREADY_EXIST)
           else bindR (WriteEntry that fieldId e) (\<lambda>dm. Inr (dm, DMERR_SUCCESS)))"

definition on_map :: "DataMap option \<Rightarrow> (DataMap \<Rightarrow> (DataMap \<times> ErrorCode) res) \<Rightarrow> (DataMap option \<times> ErrorCode) res" where
  "on_map that f =
     (case that of None \<Rightarrow> Inr (None, DMERR_INVALID_ARGS)
      | Some dm \<Rightarrow> bindR (f dm) (\<lambda>(dm1, err). Inr (Some dm1, err)))"

definition DataMap_SetInt64 ::
  "allocator \<Rightarrow> DataMap option \<Rightarrow> DMKeyType \<Rightarrow> i64 \<Rightarrow> bool \<Rightarrow> (DataMap option \<times> ErrorCode) res" where
  "DataMap_SetInt64 malloc that fieldId value replace =
     on_map that (\<lambda>dm. SetEntryValue malloc dm fieldId (DM_Int64 value) replace)"

definition DataMap_SetString ::
  "allocator \<Rightarrow> DataMap option \<Rightarrow> DMKeyType \<Rightarrow> u8 list option \<Rightarrow> i32 \<Rightarrow> bool \<Rightarrow> (DataMap option \<times> ErrorCode) res" where
  "DataMap_SetString malloc that fieldId str strLen replace =
     (case str of None \<Rightarrow> Inr (that, DMERR_INVALID_ARGS)
      | Some s \<Rightarrow>
        if sint strLen < 0 \<and> strLen \<noteq> - 1 then Inr (that, DMERR_INVALID_ARGS)
        else on_map that (\<lambda>dm.
               bindR (if strLen = - 1 then bindR (c_strlen s) (\<lambda>n. Inr (of_nat n)) else Inr strLen) (\<lambda>n.
                 SetEntryValue malloc dm fieldId (DM_String n s) replace)))"

definition DataMap_SetInt64List ::
  "allocator \<Rightarrow> DataMap option \<Rightarrow> DMKeyType \<Rightarrow> i64 list option \<Rightarrow> i32 \<Rightarrow> bool \<Rightarrow> (DataMap option \<times> ErrorCode) res" where
  "DataMap_SetInt64List malloc that fieldId numList listLen replace =
     (case numList of None \<Rightarrow> Inr (that, DMERR_INVALID_ARGS)
      | Some xs \<Rightarrow>
        if sint listLen < 0 then Inr (that, DMERR_INVALID_ARGS)
        else on_map that (\<lambda>dm. SetEntryValue malloc dm fieldId (DM_Int64List listLen xs) replace))"

text \<open>The check \<^verbatim>\<open>strLens < 0\<close> compares a pointer with zero and never holds.\<close>

definition DataMap_SetStringList ::
  "allocator \<Rightarrow> DataMap option \<Rightarrow> DMKeyType \<Rightarrow> u8 list list option \<Rightarrow> i32 list \<Rightarrow> bool \<Rightarrow> (DataMap option \<times> ErrorCode) res" where
  "DataMap_SetStringList malloc that fieldId strList strLens replace =
     (case strList of None \<Rightarrow> Inr (that, DMERR_INVALID_ARGS)
      | Some ss \<Rightarrow>
        on_map that (\<lambda>dm. SetEntryValue malloc dm fieldId (DM_StringList ss strLens) replace))"

text \<open>The getters: \<open>outs\<close> says that the out-parameters are not null.\<close>

definition GetEntryValue ::
  "DataMap option \<Rightarrow> DMKeyType \<Rightarrow> bool \<Rightarrow> (DataMapEntry \<Rightarrow> 'v option) \<Rightarrow> (ErrorCode \<times> 'v option) res" where
  "GetEntryValue that fieldId outs pick =
     (if that = None \<or> \<not> outs then Inr (DMERR_INVALID_ARGS, None)
      else bindR (LookupEntry that fieldId) (\<lambda>r.
             Inr (case r of None \<Rightarrow> (DMERR_NOT_FOUND, None)
                  | Some e \<Rightarrow> (case pick e of None \<Rightarrow> (DMERR_TYPE_MISMATCH, None)
                               | Some v \<Rightarrow> (DMERR_SUCCESS, Some v)))))"

definition DataMap_GetInt64 :: "DataMap option \<Rightarrow> DMKeyType \<Rightarrow> bool \<Rightarrow> (ErrorCode \<times> i64 option) res" where
  "DataMap_GetInt64 that fieldId outs =
     GetEntryValue that fieldId outs (\<lambda>e. case e of DM_Int64 v \<Rightarrow> Some v | _ \<Rightarrow> None)"

definition DataMap_GetString :: "DataMap option \<Rightarrow> DMKeyType \<Rightarrow> bool \<Rightarrow> (ErrorCode \<times> (u8 list \<times> i32) option) res" where
  "DataMap_GetString that fieldId outs =
     GetEntryValue that fieldId outs (\<lambda>e. case e of DM_String n s \<Rightarrow> Some (s, n) | _ \<Rightarrow> None)"

definition DataMap_GetInt64List :: "DataMap option \<Rightarrow> DMKeyType \<Rightarrow> bool \<Rightarrow> (ErrorCode \<times> (i64 list \<times> i32) option) res" where
  "DataMap_GetInt64List that fieldId outs =
     GetEntryValue that fieldId outs (\<lambda>e. case e of DM_Int64List n xs \<Rightarrow> Some (xs, n) | _ \<Rightarrow> None)"

definition DataMap_GetStringList ::
  "DataMap option \<Rightarrow> DMKeyType \<Rightarrow> bool \<Rightarrow> (ErrorCode \<times> (u8 list list \<times> i32 list) option) res" where
  "DataMap_GetStringList that fieldId outs =
     GetEntryValue that fieldId outs (\<lambda>e. case e of DM_StringList ss ns \<Rightarrow> Some (ss, ns) | _ \<Rightarrow> None)"

section \<open>Copying\<close>

text \<open>
  \<^verbatim>\<open>CopyStringListEntry\<close>: \<open>memcpy\<close> of the first \<^verbatim>\<open>listSize\<close> lengths, then string by string.
\<close>

fun CopyStrings :: "allocator \<Rightarrow> u8 list list \<Rightarrow> i32 list \<Rightarrow> (ErrorCode + u8 list list) res" where
  "CopyStrings malloc [] lens = Inr (Inr [])"
| "CopyStrings malloc (s # ss) lens =
     (case lens of [] \<Rightarrow> Inl OutOfBounds
      | n # ns \<Rightarrow>
        if \<not> malloc (size_of_int32 n) then Inr (Inl DMERR_INSUFFICIENT_MEM)
        else bindR (memcpy_read s n) (\<lambda>s1.
               bindR (CopyStrings malloc ss ns) (\<lambda>r.
                 Inr (case r of Inl e \<Rightarrow> Inl e | Inr ss1 \<Rightarrow> Inr (s1 # ss1)))))"

definition CopyStringListEntry ::
  "allocator \<Rightarrow> DMKeyType \<Rightarrow> u8 list list \<Rightarrow> i32 list \<Rightarrow> DataMap \<Rightarrow> (DataMap \<times> ErrorCode) res" where
  "CopyStringListEntry malloc fieldId oldList lens dst =
     (let listSize = of_nat (length oldList) :: i32;
          haveList = malloc (size_of_int32 (listSize + 1) * 8);
          haveLens = malloc (unat (4 * scast listSize :: u64))
      in if \<not> haveList \<or> \<not> haveLens
         then bindR (FreeStringList (if haveList then Some (size_of_int32 (listSize + 1)) else None)) (\<lambda>u.
                Inr (dst, DMERR_INSUFFICIENT_MEM))
         else bindR (memcpy_read lens listSize) (\<lambda>newLens.
                bindR (CopyStrings malloc oldList newLens) (\<lambda>r.
                  case r of Inl e \<Rightarrow> Inr (dst, e)
                  | Inr newList \<Rightarrow> AddEntry_StringList malloc dst fieldId newList newLens)))"

text \<open>
  \<^verbatim>\<open>HashMapCopyEntryCb\<close>. In the number-list case the code allocates the new list and adds it without
  copying the numbers: its contents are whatever \<^verbatim>\<open>malloc\<close> returned, the parameter \<open>uninit\<close>.
\<close>

definition HashMapCopyEntryCb ::
  "allocator \<Rightarrow> (nat \<Rightarrow> i64 list) \<Rightarrow> u8 list \<Rightarrow> DataMapEntry option \<Rightarrow> DataMap \<times> ErrorCode \<Rightarrow> (DataMap \<times> ErrorCode) res" where
  "HashMapCopyEntryCb malloc uninit key data cd =
     (let fieldId = key_of_le key; dst = fst cd
      in case data of None \<Rightarrow> Inl NullDeref
      | Some e \<Rightarrow>
        if snd cd \<noteq> DMERR_SUCCESS then Inr cd
        else case e of
          DM_Int64 v \<Rightarrow> AddEntry_Int64 malloc dst fieldId v
        | DM_String n s \<Rightarrow>
            if \<not> malloc (size_of_int32 n) then Inr (dst, DMERR_INSUFFICIENT_MEM)
            else bindR (memcpy_read s n) (\<lambda>str. AddEntry_String malloc dst fieldId str n)
        | DM_Int64List n xs \<Rightarrow>
            if \<not> malloc (unat (8 * scast n :: u64)) then Inr (dst, DMERR_INSUFFICIENT_MEM)
            else AddEntry_Int64List malloc dst fieldId (uninit (nat (sint n))) n
        | DM_StringList ss ns \<Rightarrow> CopyStringListEntry malloc fieldId ss ns dst)"

definition DataMap_Copy ::
  "allocator \<Rightarrow> (nat \<Rightarrow> i64 list) \<Rightarrow> DataMap option \<Rightarrow> DataMap option \<Rightarrow> (DataMap option \<times> ErrorCode) res" where
  "DataMap_Copy malloc uninit src dst =
     (case (src, dst) of
        (Some s, Some d) \<Rightarrow>
          (case DataMap_Create malloc dst of
             (None, err) \<Rightarrow> Inr (None, err)
           | (Some d1, err) \<Rightarrow>
             if err \<noteq> DMERR_SUCCESS then Inr (Some d1, err)
             else case dm_map s of None \<Rightarrow> Inl NullDeref
             | Some m \<Rightarrow>
               bindR (HashMap_Iterate m (HashMapCopyEntryCb malloc uninit) False (d1, DMERR_SUCCESS))
                 (\<lambda>(m1, d2, result).
                    if result \<noteq> DMERR_SUCCESS
                    then bindR (DataMap_Destroy (Some d2)) (\<lambda>(d3, e). Inr (d3, result))
                    else Inr (Some d2, result)))
      | _ \<Rightarrow> Inr (dst, DMERR_INVALID_ARGS))"

end
