(* ===== verification/DataMap_Laws.thy ===== *)
theory DataMap_Laws
  imports DataMap
begin

text \<open>
  The wire format of \<^verbatim>\<open>dataMap.c\<close> as a reference encoding, the invariant of a data map, and the
  proofs that encoder, decoder, setters and getters meet them.
\<close>

section \<open>Bytes\<close>

lemma word_of_bytes:
  fixes x :: "u32"
  shows "ucast (ucast x :: u8) OR push_bit 8 (ucast (ucast (drop_bit 8 x) :: u8)) OR
         push_bit 16 (ucast (ucast (drop_bit 16 x) :: u8)) OR
         push_bit 24 (ucast (ucast (drop_bit 24 x) :: u8)) = x" (is "?l = x")
proof (rule bit_word_eqI)
  fix n assume "n < LENGTH(32)"
  then consider "n < 8" | "8 \<le> n" "n < 16" | "16 \<le> n" "n < 24" | "24 \<le> n" "n < 32"
    by fastforce
  then show "bit ?l n \<longleftrightarrow> bit x n"
    by cases (auto simp: bit_simps less_diff_conv2)
qed

lemma byte_of_word:
  fixes a b c d :: u8
  defines "x \<equiv> (ucast a OR push_bit 8 (ucast b) OR push_bit 16 (ucast c) OR push_bit 24 (ucast d)) :: u32"
  shows "ucast x = a" "ucast (drop_bit 8 x) = b" "ucast (drop_bit 16 x) = c" "ucast (drop_bit 24 x) = d"
  unfolding x_def
  by (rule bit_word_eqI; auto simp: bit_simps dest: bit_imp_le_length)+

lemma key_le_inverse [simp]: "key_of_le (key_le k) = k"
  by (simp add: key_of_le_def key_le_def word_of_bytes)

lemma length_key_le [simp]: "length (key_le k) = 4"
  by (simp add: key_le_def)

lemma key_le_inj [simp]: "key_le k = key_le k' \<longleftrightarrow> k = k'"
  by (metis key_le_inverse)

lemma key_of_le_inverse:
  assumes "length bs = 4"
  shows "key_le (key_of_le bs) = bs"
proof -
  obtain a b c d where bs: "bs = [a, b, c, d]"
    using assms by (auto simp: length_Suc_conv numeral_eq_Suc)
  show ?thesis
    unfolding bs key_le_def key_of_le_def
    by (simp add: byte_of_word del: drop_bit_or)
qed

lemma be32_inverse [simp]: "of_be32 (be32 x) = x"
  using word_of_bytes [of x] by (simp add: of_be32_def be32_def ac_simps)

lemma length_be32 [simp]: "length (be32 x) = 4"
  by (simp add: be32_def)

lemma join_halves [simp]:
  "push_bit 32 (ucast (ucast (drop_bit 32 v) :: u32)) OR ucast (ucast v :: u32) = (v :: i64)"
  by (rule bit_word_eqI) (auto simp: bit_simps)

section \<open>The invariant and the contents of a data map\<close>

text \<open>An allocator that grants every request a 64-bit process can make, and no other.\<close>

definition good_alloc :: "allocator \<Rightarrow> bool" where
  "good_alloc malloc \<longleftrightarrow> (\<forall>n. malloc n \<longleftrightarrow> n < 2 ^ 63)"

lemma good_allocD: "good_alloc malloc \<Longrightarrow> malloc n \<longleftrightarrow> n < 9223372036854775808"
  by (simp add: good_alloc_def)

definition dm_inv :: "DataMap \<Rightarrow> bool" where
  "dm_inv dm \<longleftrightarrow>
     (case dm_map dm of None \<Rightarrow> False
      | Some m \<Rightarrow> hm_ready m \<and> hm_keySize m = 4 \<and> hm_alpha m = 2 \<and> hm_entrySize m = 20)"

definition dm_abs :: "DataMap \<Rightarrow> DMKeyType \<Rightarrow> DataMapEntry option" where
  "dm_abs dm k = (case dm_map dm of None \<Rightarrow> None | Some m \<Rightarrow> hm_abs m (key_le k))"

definition dm_cap :: "DataMap \<Rightarrow> nat" where
  "dm_cap dm = (case dm_map dm of None \<Rightarrow> 0 | Some m \<Rightarrow> hm_cap m)"

lemma dm_invE:
  assumes "dm_inv dm"
  obtains m where "dm_map dm = Some m" "hm_ready m" "hm_inv m" "hm_keySize m = 4" "hm_alpha m = 2"
    "hm_entrySize m = 20" "dm_cap dm = hm_cap m" "dm_abs dm = (\<lambda>k. hm_abs m (key_le k))"
  using assms by (auto simp: dm_inv_def hm_ready_def dm_cap_def dm_abs_def fun_eq_iff split: option.splits)

lemma LookupEntry_abs:
  assumes "dm_inv dm"
  shows "LookupEntry (Some dm) k = Inr (dm_abs dm k)"
  using assms by (rule dm_invE) (simp add: LookupEntry_def HashMap_Get_abs)

lemma dm_abs_update:
  assumes "hm_abs m' = (hm_abs m)(key_le k \<mapsto> e)"
  shows "dm_abs (dm\<lparr>dm_map := Some m'\<rparr>) = (\<lambda>k. hm_abs m (key_le k))(k \<mapsto> e)"
  using assms by (auto simp: dm_abs_def)

lemma AddEntry_spec:
  assumes inv: "dm_inv dm" and cap: "0 < dm_cap dm" and alloc: "good_alloc malloc"
  obtains dm' where "AddEntry malloc dm k e = Inr (dm', DMERR_SUCCESS)" and "dm_inv dm'"
    and "dm_abs dm' = (dm_abs dm)(k \<mapsto> e)" and "dm_cap dm \<le> Suc (dm_cap dm')"
proof -
  obtain m where m: "dm_map dm = Some m" "hm_ready m" "hm_inv m" "hm_keySize m = 4" "hm_alpha m = 2"
    "hm_entrySize m = 20" "dm_cap dm = hm_cap m" "dm_abs dm = (\<lambda>k. hm_abs m (key_le k))"
    using inv by (rule dm_invE)
  have "unat (hm_numEntries m * 2) < 2 ^ 32" by (rule unat_lt_32)
  then have grant: "malloc (doubled_bytes m)"
    using m(6) by (simp add: doubled_bytes_def good_allocD [OF alloc])
  have room: "hm_room m" and bound: "unat (hm_count m) * unat (hm_alpha m) \<le> 2 ^ 30"
    using m(2,7) cap hm_cap_bound [of m] by (simp_all add: hm_ready_def)
  obtain m' where m': "HashMap_Put malloc m (key_le k) e = Inr (m', True)" "hm_inv m'" "hm_room m'"
    "hm_abs m' = (hm_abs m)(key_le k \<mapsto> e)" "same_layout m m'"
    "unat (hm_count m') \<le> Suc (unat (hm_count m))"
    by (rule HashMap_Put_granted [where calloc = malloc and key = "key_le k", OF m(3) room bound _ grant])
       (use m(4) in auto)
  let ?dm = "dm\<lparr>dm_map := Some m'\<rparr>"
  have l: "hm_keySize m' = 4" "hm_alpha m' = 2" "hm_entrySize m' = 20"
    using m m'(5) by (simp_all add: same_layout_def)
  show thesis
  proof (rule that [of ?dm])
    show "AddEntry malloc dm k e = Inr (?dm, DMERR_SUCCESS)"
      using m'(1) m(1) by (simp add: AddEntry_def good_allocD [OF alloc] sizeof_DataMapEntry_def)
    show "dm_inv ?dm"
      using m' l by (simp add: dm_inv_def hm_ready_def)
    show "dm_abs ?dm = (dm_abs dm)(k \<mapsto> e)"
      using m(8) by (simp add: dm_abs_update [OF m'(4)])
    show "dm_cap dm \<le> Suc (dm_cap ?dm)"
      using m(5,7) l m'(6) by (simp add: dm_cap_def hm_cap_def)
  qed
qed

lemma WriteEntry_spec:
  assumes inv: "dm_inv dm" and present: "dm_abs dm k \<noteq> None"
  obtains dm' where "WriteEntry dm k e = Inr dm'" and "dm_inv dm'"
    and "dm_abs dm' = (dm_abs dm)(k \<mapsto> e)" and "dm_cap dm' = dm_cap dm"
proof -
  obtain m where m: "dm_map dm = Some m" "hm_ready m" "hm_inv m" "hm_keySize m = 4" "hm_alpha m = 2"
    "hm_entrySize m = 20" "dm_cap dm = hm_cap m" "dm_abs dm = (\<lambda>k. hm_abs m (key_le k))"
    using inv by (rule dm_invE)
  have len: "length (key_le k) = unat (hm_keySize m)" and pr: "hm_abs m (key_le k) \<noteq> None"
    using m present by simp_all
  obtain m' where m': "HashMap_Put (\<lambda>_. True) m (key_le k) e = Inr (m', True)" "hm_inv m'"
    "hm_abs m' = (hm_abs m)(key_le k \<mapsto> e)" "same_shape m m'" "hm_count m' = hm_count m"
    by (rule HashMap_Put_present [where d = e, OF m(3) len pr])
  let ?dm = "dm\<lparr>dm_map := Some m'\<rparr>"
  have w: "WriteEntry dm k e = Inr ?dm"
    using hm_inv_tab [OF m(3)]
  proof (cases rule: LookupKey_cases [where key = "key_le k"])
    case (hit c fr)
    then show ?thesis
      using m'(1) m(1) by (simp add: WriteEntry_def HashMap_Put_def GetEntry_def SetEntry_def)
  next
    case (miss c fr)
    then show ?thesis
      using pr len by (simp add: hm_abs_def)
  qed
  show thesis
  proof (rule that [OF w])
    show "dm_inv ?dm"
      using m m' by (simp add: dm_inv_def hm_ready_def hm_room_def same_shape_def)
    show "dm_abs ?dm = (dm_abs dm)(k \<mapsto> e)"
      using m(8) by (simp add: dm_abs_update [OF m'(3)])
    show "dm_cap ?dm = dm_cap dm"
      using m m' by (simp add: dm_cap_def hm_cap_def same_shape_def)
  qed
qed

lemma DataMap_Create_spec:
  assumes "good_alloc malloc"
  obtains dm' where "DataMap_Create malloc (Some dm) = (Some dm', DMERR_SUCCESS)"
    and "dm_inv dm'" and "dm_abs dm' = Map.empty" and "dm_cap dm' = 2 ^ 29" and "dm_cookie dm' = magic_cookie"
proof -
  have g: "malloc n" if "n < 2 ^ 63" for n using assms that by (simp add: good_alloc_def)
  obtain m :: "DataMapEntry HashMap" where m: "HashMap_AllocMapAlpha malloc 16 2 4 8 = Some m"
    "hm_entrySize m = 20"
    using g by (simp add: hm_eval sizeof_HashMap_def Let_def)
  note s = HashMap_AllocMapAlpha_spec [OF m(1)]
  show thesis
    by (rule that [of "dm\<lparr>dm_map := Some m, dm_cookie := magic_cookie\<rparr>"])
       (use m s in \<open>auto simp: DataMap_Create_def HashMap_AllocMap_def HASHMAP_DEFAULT_ALPHA_def
          dm_inv_def hm_ready_def dm_abs_def dm_cap_def hm_cap_def\<close>)
qed

lemma DataMap_Destroy_spec:
  assumes "dm_inv dm"
  shows "DataMap_Destroy (Some dm) = Inr (Some (dm\<lparr>dm_map := None, dm_cookie := 0\<rparr>), DMERR_SUCCESS)"
proof -
  obtain m where m: "dm_map dm = Some m" "hm_ready m" "hm_inv m" using assms by (rule dm_invE)
  have shape: "shape_ok m" using m(3) by (simp add: hm_inv_def tab_ok_def)
  obtain c where "HashMap_Iterate_loop HashMapFreeEntryCb True [0 ..< length (hm_entries m)] m () =
      Inr (m\<lparr>hm_entries := map (\<lambda>e. e\<lparr>he_state := HashMapState_EMPTY\<rparr>) (hm_entries m), hm_count := c\<rparr>, ())"
    using HashMap_Iterate_clear_loop [of 0 m HashMapFreeEntryCb "\<lambda>_ _ _. ()" "()"] shape_okD(1,3) [OF shape]
    by (auto simp: HashMapFreeEntryCb_def)
  then show ?thesis
    using m(1) shape_okD(1) [OF shape] by (simp add: DataMap_Destroy_def HashMap_Iterate_def)
qed

section \<open>Signed 32-bit lengths\<close>

lemma nonneg32:
  fixes n :: i32
  assumes "0 \<le> sint n"
  shows "sint n = int (unat n)" and "unat n < 2147483648"
proof -
  have lt: "sint n < 2147483648" using sint_lt [of n] by simp
  have "unat (of_int (sint n) :: i32) = nat (sint n)"
    using assms lt by (simp only: unsigned_of_int) (simp add: take_bit_int_eq_self)
  then show e: "sint n = int (unat n)" using assms by simp
  show "unat n < 2147483648" using lt e by linarith
qed

lemma sint_of_nat32: "n < 2147483648 \<Longrightarrow> sint (of_nat n :: i32) = int n"
  by (simp add: signed_of_nat signed_take_bit_int_eq_self)

lemma sint_small32: "unat n < 2147483648 \<Longrightarrow> sint (n :: i32) = int (unat n)"
  using sint_of_nat32 [of "unat n"] by simp

lemma unat_scast:
  fixes n :: i32
  shows "0 \<le> sint n \<Longrightarrow> unat (scast n :: u64) = unat n"
    and "sint n < 0 \<Longrightarrow> unat (scast n :: u64) = 18446744073709551616 - nat (- sint n)"
proof -
  have e: "unat (scast n :: u64) = nat (sint n mod 18446744073709551616)"
    unfolding scast_eq by (simp only: unsigned_of_int) (simp add: take_bit_int_def)
  show "unat (scast n :: u64) = unat n" if "0 \<le> sint n"
  proof -
    have "sint n mod 18446744073709551616 = sint n"
      using that nonneg32 [OF that] by (intro mod_pos_pos_trivial) linarith+
    then show ?thesis using nonneg32(1) [OF that] e by linarith
  qed
  have ge: "- 2147483648 \<le> sint n" using sint_ge [of n] by simp
  show "unat (scast n :: u64) = 18446744073709551616 - nat (- sint n)" if "sint n < 0"
  proof -
    have "(sint n + 18446744073709551616) mod 18446744073709551616 = sint n + 18446744073709551616"
      using that ge by (intro mod_pos_pos_trivial) linarith+
    then have "sint n mod 18446744073709551616 = sint n + 18446744073709551616" by simp
    then show ?thesis using that e by linarith
  qed
qed

lemma size_of_int32_nonneg: "0 \<le> sint n \<Longrightarrow> size_of_int32 n = unat n"
  by (simp add: size_of_int32_def unat_scast)

lemma size_of_int32_neg: "sint n < 0 \<Longrightarrow> 9223372036854775808 \<le> size_of_int32 n"
  using sint_ge [of n] by (simp add: size_of_int32_def unat_scast)

section \<open>The reference encoding\<close>

definition enc_int64 :: "i64 \<Rightarrow> u8 list" where
  "enc_int64 v = be32 (ucast v) @ be32 (ucast (drop_bit 32 v))"

definition enc_string :: "u8 list \<Rightarrow> i32 \<Rightarrow> u8 list" where
  "enc_string s n = be32 n @ take (unat n) s"

fun enc_value :: "DataMapEntry \<Rightarrow> u8 list" where
  "enc_value (DM_Int64 v) = enc_int64 v"
| "enc_value (DM_String n s) = enc_string s n"
| "enc_value (DM_Int64List n xs) = be32 n @ concat (map enc_int64 (take (unat n) xs))"
| "enc_value (DM_StringList ss ns) = be32 (of_nat (length ss)) @ concat (map2 enc_string ss ns)"

definition enc_entry :: "DMKeyType \<Rightarrow> DataMapEntry \<Rightarrow> u8 list" where
  "enc_entry k e = be32 (DMFieldType_val (entry_type e)) @ be32 k @ enc_value e"

text \<open>Recorded lengths are not negative and within the blocks they describe.\<close>

definition string_wf :: "u8 list \<Rightarrow> i32 \<Rightarrow> bool" where
  "string_wf s n \<longleftrightarrow> 0 \<le> sint n \<and> unat n \<le> length s"

fun entry_wf :: "DataMapEntry \<Rightarrow> bool" where
  "entry_wf (DM_Int64 v) = True"
| "entry_wf (DM_String n s) = string_wf s n"
| "entry_wf (DM_Int64List n xs) = (0 \<le> sint n \<and> unat n \<le> length xs)"
| "entry_wf (DM_StringList ss ns) =
     (length ss \<le> length ns \<and> length ss < 2 ^ 31 - 1 \<and> list_all (\<lambda>(s, n). string_wf s n) (zip ss ns))"

lemma length_enc_int64 [simp]: "length (enc_int64 v) = 8"
  by (simp add: enc_int64_def)

lemma length_enc_string [simp]: "string_wf s n \<Longrightarrow> length (enc_string s n) = 4 + unat n"
  by (simp add: enc_string_def string_wf_def)

lemma length_enc_int64s [simp]: "length (concat (map enc_int64 xs)) = 8 * length xs"
  by (induction xs) simp_all

lemma EncodeInt64_put: "fits buf (enc_int64 v) \<Longrightarrow> EncodeInt64 buf v = Inr (put buf (enc_int64 v))"
  by (simp add: EncodeInt64_def EncodeInt32_def WriteBytes_put enc_int64_def)

lemma memcpy_read_wf: "0 \<le> sint n \<Longrightarrow> unat n \<le> length xs \<Longrightarrow> memcpy_read xs n = Inr (take (unat n) xs)"
  by (simp add: memcpy_read_def nonneg32)

lemma EncodeString_put:
  "string_wf s n \<Longrightarrow> fits buf (enc_string s n) \<Longrightarrow> EncodeString buf s n = Inr (put buf (enc_string s n))"
  by (simp add: EncodeString_def EncodeInt32_def WriteBytes_put memcpy_read_wf string_wf_def enc_string_def)

lemma EncodeInt64s_put:
  assumes "i + n \<le> length xs" and "length (ob_bytes buf) + 8 * n \<le> ob_size buf"
  shows "foldR (\<lambda>i b. if i < length xs then EncodeInt64 b (xs ! i) else Inl OutOfBounds) [i ..< i + n] buf =
    Inr (put buf (concat (map enc_int64 (take n (drop i xs)))))"
  using assms
proof (induction n arbitrary: i buf)
  case (Suc n)
  have d: "drop i xs = xs ! i # drop (Suc i) xs"
    using Suc.prems by (simp add: Cons_nth_drop_Suc)
  have u: "[i ..< i + Suc n] = i # [Suc i ..< Suc i + n]"
    by (simp add: upt_conv_Cons del: upt_Suc)
  show ?case
    unfolding u using Suc.prems Suc.IH [of "Suc i" "put buf (enc_int64 (xs ! i))"]
    by (simp add: EncodeInt64_put d del: upt_Suc)
qed simp

lemma EncodeStrings_put:
  assumes "length ss \<le> length ns" and "list_all (\<lambda>(s, n). string_wf s n) (zip ss ns)"
    and "fits buf (concat (map2 enc_string ss ns))"
  shows "EncodeStrings ss ns buf = Inr (put buf (concat (map2 enc_string ss ns)))"
  using assms
proof (induction ss arbitrary: ns buf)
  case (Cons s ss)
  then obtain n ns' where "ns = n # ns'" by (cases ns) auto
  with Cons show ?case by (simp add: EncodeString_put)
qed simp

lemma EncodeValue_put:
  assumes "entry_wf e" and "fits buf (enc_value e)"
  shows "EncodeValue buf e = Inr (put buf (enc_value e))"
proof (cases e)
  case (DM_Int64List n xs)
  have n: "nat (sint n) = unat n" "unat n \<le> length xs" "fits buf (be32 n)"
    "length (ob_bytes (put buf (be32 n))) + 8 * unat n \<le> ob_size (put buf (be32 n))"
    using assms DM_Int64List by (simp_all add: nonneg32)
  show ?thesis
    using n EncodeInt64s_put [of 0 "unat n" xs "put buf (be32 n)"]
    unfolding DM_Int64List EncodeValue_def by (simp add: EncodeInt64List_def EncodeInt32_def WriteBytes_put)
next
  case (DM_StringList ss ns)
  let ?bs = "concat (map2 enc_string ss ns)"
  have "EncodeStrings ss ns (put buf [0, 0, 0, 0]) = Inr (put (put buf [0, 0, 0, 0]) ?bs)"
    using assms DM_StringList by (intro EncodeStrings_put) simp_all
  moreover have "fits buf [0, 0, 0, 0]"
    using assms(2) DM_StringList by simp
  moreover have "PatchInt32 (put buf ([0, 0, 0, 0] @ ?bs)) (length (ob_bytes buf)) x = put buf (be32 x @ ?bs)" for x
    by (simp add: PatchInt32_def put_def)
  ultimately show ?thesis
    unfolding DM_StringList EncodeValue_def by (simp add: WriteBytes_put)
qed (use assms in \<open>simp_all add: EncodeValue_def EncodeInt64_put EncodeString_put\<close>)

section \<open>The encoder\<close>

lemma no_wrap32:
  fixes a :: u32
  assumes "unat a + k < 4294967296"
  shows "unat (a + of_nat k) = unat a + k" and "\<not> a + of_nat k < a"
proof -
  have "unat (of_nat k :: u32) = k" using assms by (intro unat_of_nat_bound) simp
  then show u: "unat (a + of_nat k) = unat a + k" using assms by (subst unat_add_bound) simp_all
  then show "\<not> a + of_nat k < a" by (simp add: word_less_nat_alt)
qed

lemma CalcStringListSize_spec:
  assumes "length ss \<le> length ns" and "list_all (\<lambda>(s, n). string_wf s n) (zip ss ns)"
    and "unat b + length (concat (map2 enc_string ss ns)) < 4294967296" and "\<not> b < old"
  shows "CalcStringListSize old ss ns b = Inr (b + of_nat (length (concat (map2 enc_string ss ns))), True)"
  using assms
proof (induction ss arbitrary: ns b)
  case (Cons s ss)
  then obtain n ns' where ns: "ns = n # ns'" by (cases ns) auto
  have wf: "string_wf s n" using Cons.prems ns by simp
  let ?b = "b + of_nat (4 + unat n)"
  have e: "b + 4 + n = ?b" by simp
  have lt: "unat b + (4 + unat n) < 4294967296"
    using Cons.prems(3) ns wf by simp
  note nw = no_wrap32 [OF lt]
  have "CalcStringListSize old ss ns' ?b = Inr (?b + of_nat (length (concat (map2 enc_string ss ns'))), True)"
    using Cons.prems ns wf nw by (intro Cons.IH) (simp_all only:, auto simp: word_less_nat_alt)
  then show ?case
    using Cons.prems(4) ns wf by (simp add: e [symmetric] add.assoc)
qed simp

lemma HashMapCalcEntrySizeCb_spec:
  assumes wf: "entry_wf e" and ok: "cd_result cd = DMERR_SUCCESS"
    and lt: "unat (cd_buffLen cd) + length (enc_entry k e) < 4294967296"
  shows "HashMapCalcEntrySizeCb key (Some e) cd =
         Inr (cd\<lparr>cd_buffLen := cd_buffLen cd + of_nat (length (enc_entry k e))\<rparr>)"
proof -
  let ?n = "cd_buffLen cd"
  note nw = no_wrap32(2) [OF lt]
  show ?thesis
  proof (cases e)
    case (DM_StringList ss ns)
    let ?b = "?n + of_nat 12" and ?t = "length (concat (map2 enc_string ss ns))"
    have len: "length (enc_entry k e) = 12 + ?t"
      by (simp add: enc_entry_def DM_StringList)
    have l12: "unat ?n + 12 < 4294967296" using lt len by simp
    have "CalcStringListSize ?n ss ns ?b = Inr (?b + of_nat ?t, True)"
      using wf lt len no_wrap32 [OF l12] DM_StringList by (intro CalcStringListSize_spec) simp_all
    then show ?thesis
      using nw ok unfolding len by (simp add: HashMapCalcEntrySizeCb_def DM_StringList add.assoc Let_def)
  qed (use nw ok wf in \<open>simp_all add: HashMapCalcEntrySizeCb_def enc_entry_def add.assoc Let_def\<close>)
qed

lemma HashMapSerializeEntryCb_spec:
  assumes "entry_wf e" and "fits (cd_buffer cd) (enc_entry (key_of_le key) e)"
  shows "HashMapSerializeEntryCb key (Some e) cd =
    Inr (cd\<lparr>cd_buffer := put (cd_buffer cd) (enc_entry (key_of_le key) e),
            cd_buffLen := cd_buffLen cd - of_nat (length (enc_entry (key_of_le key) e))\<rparr>)"
  using assms EncodeValue_put [OF assms(1)]
  by (simp add: HashMapSerializeEntryCb_def EncodeInt32_def WriteBytes_put enc_entry_def)

text \<open>The entries in the order of the iterator, and their encodings one after the other.\<close>

definition dm_entries :: "DataMap \<Rightarrow> (DMKeyType \<times> DataMapEntry) list" where
  "dm_entries dm = (case dm_map dm of None \<Rightarrow> [] | Some m \<Rightarrow> map (\<lambda>(k, e). (key_of_le k, e)) (hm_list m))"

definition enc_map :: "(DMKeyType \<times> DataMapEntry) list \<Rightarrow> u8 list" where
  "enc_map es = concat (map (\<lambda>(k, e). enc_entry k e) es)"

lemma enc_map_simps [simp]:
  "enc_map [] = []" "enc_map ((k, e) # es) = enc_entry k e @ enc_map es"
  by (simp_all add: enc_map_def)

lemma size_pass:
  assumes "\<forall>(k, e) \<in> set es. entry_wf e" and "cd_result cd = DMERR_SUCCESS"
    and "unat (cd_buffLen cd) + length (enc_map (map (\<lambda>(k, e). (key_of_le k, e)) es)) < 4294967296"
  shows "foldR (\<lambda>(k, v). HashMapCalcEntrySizeCb k (Some v)) es cd =
    Inr (cd\<lparr>cd_buffLen := cd_buffLen cd + of_nat (length (enc_map (map (\<lambda>(k, e). (key_of_le k, e)) es)))\<rparr>)"
  using assms
proof (induction es arbitrary: cd)
  case (Cons x es)
  obtain k e where x: "x = (k, e)" by (cases x)
  let ?n = "length (enc_entry (key_of_le k) e)"
  have lt: "unat (cd_buffLen cd) + ?n < 4294967296" using Cons.prems(3) x by simp
  have wf: "entry_wf e" using Cons.prems(1) x by simp
  note nw = no_wrap32(1) [OF lt]
  show ?case
    unfolding x using HashMapCalcEntrySizeCb_spec [OF wf Cons.prems(2) lt, of k] Cons.prems nw x
    by (subst foldR.simps, simp) (subst Cons.IH, simp_all add: add.assoc)
qed simp

lemma write_pass:
  assumes "\<forall>(k, e) \<in> set es. entry_wf e"
    and "fits (cd_buffer cd) (enc_map (map (\<lambda>(k, e). (key_of_le k, e)) es))"
  shows "foldR (\<lambda>(k, v). HashMapSerializeEntryCb k (Some v)) es cd =
    Inr (cd\<lparr>cd_buffer := put (cd_buffer cd) (enc_map (map (\<lambda>(k, e). (key_of_le k, e)) es)),
            cd_buffLen := cd_buffLen cd - of_nat (length (enc_map (map (\<lambda>(k, e). (key_of_le k, e)) es)))\<rparr>)"
  using assms
proof (induction es arbitrary: cd)
  case (Cons x es)
  obtain k e where x: "x = (k, e)" by (cases x)
  let ?bs = "enc_entry (key_of_le k) e"
  have f: "fits (cd_buffer cd) ?bs" and wf: "entry_wf e" using Cons.prems x by simp_all
  show ?case
    unfolding x using HashMapSerializeEntryCb_spec [OF wf f] Cons.prems x
    by (subst foldR.simps, simp) (subst Cons.IH, simp_all add: diff_diff_eq)
qed simp

definition dm_wf :: "DataMap \<Rightarrow> bool" where
  "dm_wf dm \<longleftrightarrow> dm_inv dm \<and> (\<forall>(k, e) \<in> set (dm_entries dm). entry_wf e)"

lemma DataMap_Serialize_enc:
  assumes wf: "dm_wf dm" and small: "length (enc_map (dm_entries dm)) + 4 < 4294967296"
    and grant: "malloc (length (enc_map (dm_entries dm)) + 4)"
  shows "DataMap_Serialize malloc (Some dm) True =
    Inr (DMERR_SUCCESS, Some (be32 (of_nat (length (enc_map (dm_entries dm)))) @ enc_map (dm_entries dm)))"
proof -
  obtain m where m: "dm_map dm = Some m" "hm_ready m" "hm_inv m"
    using wf unfolding dm_wf_def by (blast elim: dm_invE)
  let ?es = "map (\<lambda>(k, e). (key_of_le k, e)) (hm_list m)"
  have es: "dm_entries dm = ?es" using m(1) by (simp add: dm_entries_def)
  have ewf: "\<forall>(k, e) \<in> set (hm_list m). entry_wf e"
    using wf unfolding dm_wf_def es by auto
  let ?n = "length (enc_map ?es)"
  have lt: "?n + 4 < 4294967296" using small es by simp
  have u: "unat (of_nat ?n :: u32) = ?n" using lt by (intro unat_of_nat_bound) simp
  have u4: "unat (of_nat ?n + of_nat 4 :: u32) = ?n + 4" "\<not> (of_nat ?n + of_nat 4 :: u32) < of_nat ?n"
    using no_wrap32 [of "of_nat ?n" 4] lt u by simp_all
  note it = HashMap_Iterate_list(1) [OF m(3)]
  have sp: "foldR (\<lambda>(k, v). HashMapCalcEntrySizeCb k (Some v)) (hm_list m)
      \<lparr>cd_result = DMERR_SUCCESS, cd_buffer = empty_OutBuf 0, cd_buffLen = 0\<rparr> =
      Inr \<lparr>cd_result = DMERR_SUCCESS, cd_buffer = empty_OutBuf 0, cd_buffLen = of_nat ?n\<rparr>"
    using ewf lt by (subst size_pass) simp_all
  let ?b = "put (empty_OutBuf (?n + 4)) (be32 (of_nat ?n))"
  have wp: "foldR (\<lambda>(k, v). HashMapSerializeEntryCb k (Some v)) (hm_list m)
      \<lparr>cd_result = DMERR_SUCCESS, cd_buffer = ?b, cd_buffLen = of_nat ?n\<rparr> =
      Inr \<lparr>cd_result = DMERR_SUCCESS, cd_buffer = put ?b (enc_map ?es), cd_buffLen = 0\<rparr>"
    using ewf by (subst write_pass) (simp_all add: empty_OutBuf_def)
  have eb: "EncodeInt32 (empty_OutBuf (?n + 4)) (of_nat ?n) = Inr ?b"
    by (simp add: EncodeInt32_def WriteBytes_put empty_OutBuf_def)
  have e0: "ob_bytes (empty_OutBuf k) = []" for k by (simp add: empty_OutBuf_def)
  show ?thesis
    unfolding es DataMap_Serialize_def
    using m(1) u4 grant es eb e0 by (simp add: it sp wp Let_def)
qed

section \<open>The decoder on encoded input\<close>

text \<open>What survives a transfer: the blocks cut to their recorded lengths.\<close>

fun trimmed :: "DataMapEntry \<Rightarrow> DataMapEntry" where
  "trimmed (DM_Int64 v) = DM_Int64 v"
| "trimmed (DM_String n s) = DM_String n (take (unat n) s)"
| "trimmed (DM_Int64List n xs) = DM_Int64List n (take (unat n) xs)"
| "trimmed (DM_StringList ss ns) =
     DM_StringList (map2 (\<lambda>s n. take (unat n) s) ss ns) (take (length ss) ns)"

text \<open>Remaining lengths stay in the form \<open>of_nat n\<close>.\<close>

declare of_nat_diff [simp del]

lemma bindD_simps [simp]:
  "bindD (Inr (Inr (x, buf, left))) f = f x buf left"
  "bindD (Inr (Inl e)) f = Inr (Inl e)"
  "bindD (Inl y) f = Inl y"
  by (simp_all add: bindD_def)

lemma of_nat_diff32: "k \<le> n \<Longrightarrow> (of_nat n :: u32) - of_nat k = of_nat (n - k)"
  by (simp add: of_nat_diff)

lemma DecodeInt32_enc:
  assumes "4 \<le> n" and "n < 2147483648"
  shows "DecodeInt32 (be32 x @ rest) (of_nat n) = Inr (Inr (x, rest, of_nat (n - 4)))"
proof -
  have u: "unat (of_nat n :: i32) = n" using assms by (intro unat_of_nat_bound) simp
  have "size_of_int32 (of_nat n) = n"
    using assms u by (simp add: size_of_int32_nonneg sint_of_nat32)
  then show ?thesis
    using assms of_nat_diff32 [of 4 n] by (simp add: DecodeInt32_def)
qed

lemma DecodeInt64_enc:
  assumes "8 \<le> n" and "n < 2147483648"
  shows "DecodeInt64 (enc_int64 v @ rest) (of_nat n) = Inr (Inr (v, rest, of_nat (n - 8)))"
  using assms by (simp add: DecodeInt64_def enc_int64_def DecodeInt32_enc)

lemma DecodeString_enc:
  assumes "string_wf s l" and "4 + unat l \<le> n" and "n < 2147483648" and "good_alloc malloc"
  shows "DecodeString malloc (enc_string s l @ rest) (of_nat n) =
         Inr (Inr ((take (unat l) s, l), rest, of_nat (n - (4 + unat l))))"
proof -
  have l: "0 \<le> sint l" "unat l \<le> length s" using assms(1) by (simp_all add: string_wf_def)
  have s: "sint (of_nat (n - 4) :: i32) = int (n - 4)"
    using assms by (intro sint_of_nat32) simp
  have m: "malloc (size_of_int32 l)"
    using nonneg32 [OF l(1)] by (simp add: good_allocD [OF assms(4)] size_of_int32_nonneg [OF l(1)])
  have d: "(of_nat (n - 4) :: u32) - l = of_nat (n - (4 + unat l))"
    using of_nat_diff32 [of "unat l" "n - 4"] assms(2) by simp
  have le: "\<not> int (n - 4) < sint l" using nonneg32(1) [OF l(1)] assms(2) by linarith
  show ?thesis
    using assms m le d l unfolding DecodeString_def enc_string_def append_assoc
    by (subst DecodeInt32_enc) (simp_all add: s memcpy_read_wf nonneg32(1))
qed

lemma DecodeInt64s_enc:
  assumes "8 * length xs \<le> n" and "n < 2147483648"
  shows "DecodeInt64s (length xs) (concat (map enc_int64 xs) @ rest) (of_nat n) =
         Inr (Inr (xs, rest, of_nat (n - 8 * length xs)))"
  using assms
proof (induction xs arbitrary: n)
  case (Cons x xs)
  then show ?case by (simp add: DecodeInt64_enc)
qed simp

lemma DecodeStrings_enc:
  assumes "length ss \<le> length ns" and "list_all (\<lambda>(s, n). string_wf s n) (zip ss ns)"
    and "length (concat (map2 enc_string ss ns)) \<le> n" and "n < 2147483648" and "good_alloc malloc"
  shows "DecodeStrings malloc (length ss) (concat (map2 enc_string ss ns) @ rest) (of_nat n) =
         Inr (Inr (map2 (\<lambda>s n. (take (unat n) s, n)) ss ns, rest,
                   of_nat (n - length (concat (map2 enc_string ss ns)))))"
  using assms(1-4)
proof (induction ss arbitrary: ns n)
  case (Cons s ss)
  then obtain l ns' where ns: "ns = l # ns'" by (cases ns) auto
  let ?t = "length (concat (map2 enc_string ss ns'))"
  have wf: "string_wf s l" and le: "4 + unat l + ?t \<le> n" using Cons.prems ns by simp_all
  have "DecodeStrings malloc (length ss) (concat (map2 enc_string ss ns') @ rest) (of_nat (n - (4 + unat l))) =
         Inr (Inr (map2 (\<lambda>s n. (take (unat n) s, n)) ss ns', rest, of_nat (n - (4 + unat l) - ?t)))"
    using Cons.prems ns le by (intro Cons.IH) simp_all
  then show ?case
    using DecodeString_enc [OF wf _ Cons.prems(4) assms(5)] le wf ns by simp
qed simp

lemma DecodeInt64List_enc:
  assumes "entry_wf (DM_Int64List l xs)" and "length (enc_value (DM_Int64List l xs)) \<le> n"
    and "n < 2147483648" and "good_alloc malloc"
    and "AddEntry malloc dm k (trimmed (DM_Int64List l xs)) = Inr (dm', DMERR_SUCCESS)"
  shows "DecodeInt64List malloc (enc_value (DM_Int64List l xs) @ rest) (of_nat n) k dm =
         Inr (Inr (dm', rest, of_nat (n - length (enc_value (DM_Int64List l xs)))))"
proof -
  have l: "0 \<le> sint l" "unat l \<le> length xs" using assms(1) by simp_all
  have "unat (8 * scast l :: u64) = 8 * unat l"
    using nonneg32(2) [OF l(1)] by (subst unat_mult_bound) (simp_all add: unat_scast l)
  then have g: "malloc (unat (8 * scast l :: u64))"
    using nonneg32(2) [OF l(1)] by (simp add: good_allocD [OF assms(4)])
  have "DecodeInt64s (unat l) (concat (map enc_int64 (take (unat l) xs)) @ rest) (of_nat (n - 4)) =
       Inr (Inr (take (unat l) xs, rest, of_nat (n - 4 - 8 * unat l)))"
    using DecodeInt64s_enc [of "take (unat l) xs" "n - 4" rest] assms(2,3) l by simp
  then show ?thesis
    using assms g l
    by (simp add: DecodeInt64List_def DecodeInt32_enc nonneg32(1) AddEntry_Int64List_def added_def)
qed

lemma DecodeStringList_enc:
  assumes "entry_wf (DM_StringList ss ns)" and "length (enc_value (DM_StringList ss ns)) \<le> n"
    and "n < 2147483648" and "good_alloc malloc"
    and "AddEntry malloc dm k (trimmed (DM_StringList ss ns)) = Inr (dm', DMERR_SUCCESS)"
  shows "DecodeStringList malloc (enc_value (DM_StringList ss ns) @ rest) (of_nat n) k dm =
         Inr (Inr (dm', rest, of_nat (n - length (enc_value (DM_StringList ss ns)))))"
proof -
  have w: "length ss \<le> length ns" "length ss < 2147483647" "list_all (\<lambda>(s, n). string_wf s n) (zip ss ns)"
    using assms(1) by simp_all
  let ?l = "of_nat (length ss) :: i32"
  have l: "0 \<le> sint ?l" "unat ?l = length ss" "nat (sint ?l) = length ss"
    using w(2) sint_of_nat32 [of "length ss"] unat_of_nat_bound [of "length ss", where 'a = 32]
    by simp_all
  have l1: "?l + 1 = of_nat (Suc (length ss))" by simp
  have "0 \<le> sint (?l + 1)" "unat (?l + 1) = Suc (length ss)"
    unfolding l1 by (subst sint_of_nat32 unat_of_nat_bound; use w(2) in simp)+
  then have g1: "malloc (size_of_int32 (?l + 1) * 8)"
    using w(2) by (simp add: good_allocD [OF assms(4)] size_of_int32_nonneg)
  have "unat (4 * scast ?l :: u64) = 4 * length ss"
    using w(2) by (subst unat_mult_bound) (simp_all add: unat_scast l)
  then have g2: "malloc (unat (4 * scast ?l :: u64))"
    using w(2) by (simp add: good_allocD [OF assms(4)])
  let ?xs = "map2 (\<lambda>s n. (take (unat n) s, n)) ss ns"
  have "DecodeStrings malloc (length ss) (concat (map2 enc_string ss ns) @ rest) (of_nat (n - 4)) =
       Inr (Inr (?xs, rest, of_nat (n - 4 - length (concat (map2 enc_string ss ns)))))"
    using assms(2-4) w by (intro DecodeStrings_enc) simp_all
  moreover have "map (fst \<circ> (\<lambda>(s, n). (take (unat n) s, n))) (zip ss ns) = map2 (\<lambda>s n. take (unat n) s) ss ns"
    "map (snd \<circ> (\<lambda>(s, n). (take (unat n) s, n))) (zip ss ns) = take (length ss) ns"
    using w(1) map_snd_zip_take [of ss ns] by (simp_all add: case_prod_unfold comp_def min_def)
  ultimately show ?thesis
    using assms(2-) g1 g2 l
    by (simp del: map_eq_conv add: DecodeStringList_def DecodeInt32_enc AddEntry_StringList_def added_def)
qed

lemma DecodeEntry_enc:
  assumes inv: "dm_inv dm" and cap: "0 < dm_cap dm" and alloc: "good_alloc malloc"
    and new: "dm_abs dm k = None" and wf: "entry_wf e"
    and n: "length (enc_entry k e) \<le> n" "n < 2147483648"
  obtains dm' where "DecodeEntry malloc dm (enc_entry k e @ rest) (of_nat n) =
      Inr (Inr (dm', rest, of_nat (n - length (enc_entry k e))))" and "dm_inv dm'"
    and "dm_abs dm' = (dm_abs dm)(k \<mapsto> trimmed e)" and "dm_cap dm \<le> Suc (dm_cap dm')"
proof -
  obtain dm' where dm': "AddEntry malloc dm k (trimmed e) = Inr (dm', DMERR_SUCCESS)" "dm_inv dm'"
    "dm_abs dm' = (dm_abs dm)(k \<mapsto> trimmed e)" "dm_cap dm \<le> Suc (dm_cap dm')"
    by (rule AddEntry_spec [OF inv cap alloc])
  have lt: "sint (DMFieldType_val (entry_type e)) < sint (DMFieldType_val DMFIELDTYPE_MAX)"
    by (cases e) simp_all
  let ?v = "DMFieldType_val (entry_type e)" and ?n = "n - 8"
  have len: "length (enc_entry k e) = 8 + length (enc_value e)" by (simp add: enc_entry_def)
  have n8: "8 \<le> n" "length (enc_value e) \<le> ?n" "?n < 2147483648" using n len by simp_all
  have head: "DecodeEntry malloc dm (enc_entry k e @ rest) (of_nat n) =
      (if ?v = 1 then bindD (DecodeInt64 (enc_value e @ rest) (of_nat ?n)) (\<lambda>v buf3 left3.
               added (AddEntry_Int64 malloc dm k v) buf3 left3)
       else if ?v = 2 then bindD (DecodeString malloc (enc_value e @ rest) (of_nat ?n)) (\<lambda>(str, strLen) buf3 left3.
               added (AddEntry_String malloc dm k str strLen) buf3 left3)
       else if ?v = 3 then DecodeInt64List malloc (enc_value e @ rest) (of_nat ?n) k dm
       else DecodeStringList malloc (enc_value e @ rest) (of_nat ?n) k dm)"
    using n n8 lt new unfolding DecodeEntry_def enc_entry_def append_assoc
    by (cases e) (simp_all add: DecodeInt32_enc LookupEntry_abs [OF inv])
  have "DecodeEntry malloc dm (enc_entry k e @ rest) (of_nat n) =
      Inr (Inr (dm', rest, of_nat (?n - length (enc_value e))))"
  proof (cases e)
    case (DM_Int64 v)
    then show ?thesis
      unfolding head using n8 dm'(1) by (simp add: DecodeInt64_enc AddEntry_Int64_def added_def)
  next
    case (DM_String l s)
    then show ?thesis
      unfolding head using n8 dm'(1) wf DecodeString_enc [of s l ?n malloc rest] alloc
      by (simp add: AddEntry_String_def added_def)
  next
    case (DM_Int64List l xs)
    show ?thesis
      unfolding head using DecodeInt64List_enc [of l xs ?n malloc dm k dm' rest] n8 wf alloc dm'(1) DM_Int64List by simp
  next
    case (DM_StringList ss ns)
    show ?thesis
      unfolding head using DecodeStringList_enc [of ss ns ?n malloc dm k dm' rest] n8 wf alloc dm'(1) DM_StringList by simp
  qed
  with dm'(2-4) len n show thesis by (intro that [of dm']) simp_all
qed

end
