(* ===== verification/DataMap_Spec.thy ===== *)
theory DataMap_Spec
  imports DataMap_Laws
begin

text \<open>
  What \<^verbatim>\<open>dataMap.c\<close> promises: a transfer preserves the map, the decoder is safe on arbitrary input
  (up to one kind of message), and the setters and getters behave as a typed finite map.
\<close>

section \<open>Entries and contents\<close>

lemma dm_entries_abs:
  assumes "dm_inv dm"
  shows "distinct (map fst (dm_entries dm))" and "(k, e) \<in> set (dm_entries dm) \<longleftrightarrow> dm_abs dm k = Some e"
    and "map_of (dm_entries dm) = dm_abs dm"
proof -
  obtain m where m: "dm_map dm = Some m" "hm_ready m" "hm_inv m" "hm_keySize m = 4"
    "dm_abs dm = (\<lambda>k. hm_abs m (key_le k))"
    using assms by (rule dm_invE)
  have es: "dm_entries dm = map (\<lambda>(k, e). (key_of_le k, e)) (hm_list m)"
    using m(1) by (simp add: dm_entries_def)
  note it = HashMap_Iterate_list [OF m(3)]
  have len: "length k = 4" if "(k, e) \<in> set (hm_list m)" for k e
    using that it(4) [of k e] m(4) by (auto simp: hm_abs_def split: if_splits)
  have keys: "map fst (dm_entries dm) = map key_of_le (map fst (hm_list m))"
    by (simp add: es case_prod_unfold comp_def)
  have "inj_on key_of_le (fst ` set (hm_list m))"
  proof (rule inj_onI)
    fix x y
    assume x: "x \<in> fst ` set (hm_list m)" and y: "y \<in> fst ` set (hm_list m)" and e: "key_of_le x = key_of_le y"
    from x y len have "length x = 4" "length y = 4" by auto
    with e show "x = y" by (metis key_of_le_inverse)
  qed
  then show d: "distinct (map fst (dm_entries dm))"
    using it(2) keys by (simp add: distinct_map comp_inj_on)
  show mem: "(k, e) \<in> set (dm_entries dm) \<longleftrightarrow> dm_abs dm k = Some e" for k e
  proof
    assume "(k, e) \<in> set (dm_entries dm)"
    then obtain x where x: "(x, e) \<in> set (hm_list m)" "k = key_of_le x" by (auto simp: es)
    then show "dm_abs dm k = Some e"
      using it(4) [of x e] len [OF x(1)] m(5) by (simp add: key_of_le_inverse)
  next
    assume "dm_abs dm k = Some e"
    then have "(key_le k, e) \<in> set (hm_list m)" using it(4) m(5) by simp
    then show "(k, e) \<in> set (dm_entries dm)" unfolding es by force
  qed
  show "map_of (dm_entries dm) = dm_abs dm"
  proof
    fix k show "map_of (dm_entries dm) k = dm_abs dm k"
      using mem d by (cases "dm_abs dm k") (auto simp: map_of_eq_None_iff)
  qed
qed

lemma dm_wf_iff: "dm_wf dm \<longleftrightarrow> dm_inv dm \<and> (\<forall>k e. dm_abs dm k = Some e \<longrightarrow> entry_wf e)"
  using dm_entries_abs(2) by (fastforce simp: dm_wf_def)

lemma DeserializeLoop_enc:
  assumes "dm_inv dm" and "length es \<le> dm_cap dm" and "good_alloc malloc" and "distinct (map fst es)"
    and "\<forall>(k, e) \<in> set es. entry_wf e \<and> dm_abs dm k = None" and "length (enc_map es) < 2147483648"
  shows "\<exists>dm'. DeserializeLoop malloc dm (enc_map es @ rest) (of_nat (length (enc_map es))) =
      Inr (dm', DMERR_SUCCESS) \<and> dm_inv dm' \<and>
      dm_abs dm' = dm_abs dm ++ map_of (map (\<lambda>(k, e). (k, trimmed e)) es)"
  using assms(1,2,4-)
proof (induction es arbitrary: dm)
  case Nil
  then show ?case by (simp add: DeserializeLoop.simps)
next
  case (Cons x es)
  obtain k e where x: "x = (k, e)" by (cases x)
  let ?n = "length (enc_map (x # es))" and ?t = "map (\<lambda>(k, e). (k, trimmed e)) es"
  have wf: "entry_wf e" "dm_abs dm k = None" "0 < dm_cap dm" "length (enc_entry k e) \<le> ?n" "?n < 2147483648"
    using Cons.prems x by simp_all
  obtain dm1 where dm1: "DecodeEntry malloc dm (enc_entry k e @ enc_map es @ rest) (of_nat ?n) =
      Inr (Inr (dm1, enc_map es @ rest, of_nat (?n - length (enc_entry k e))))" "dm_inv dm1"
    "dm_abs dm1 = (dm_abs dm)(k \<mapsto> trimmed e)" "dm_cap dm \<le> Suc (dm_cap dm1)"
    by (rule DecodeEntry_enc [OF Cons.prems(1) wf(3) assms(3) wf(2,1,4,5)])
  have k: "k \<notin> fst ` set es" using Cons.prems(3) x by simp
  have p: "length es \<le> dm_cap dm1" "distinct (map fst es)" "length (enc_map es) < 2147483648"
    "\<forall>(k, e) \<in> set es. entry_wf e \<and> dm_abs dm1 k = None"
    using Cons.prems dm1(3,4) k x by (auto simp: case_prod_unfold)
  obtain dm2 where dm2: "DeserializeLoop malloc dm1 (enc_map es @ rest) (of_nat (length (enc_map es))) =
      Inr (dm2, DMERR_SUCCESS)" "dm_inv dm2" "dm_abs dm2 = dm_abs dm1 ++ map_of ?t"
    using Cons.IH [OF dm1(2) p(1,2,4,3)] by blast
  have pos: "0 < sint (of_nat ?n :: i32)"
    unfolding sint_of_nat32 [OF wf(5)] using x by (simp add: enc_entry_def)
  have "k \<notin> dom (map_of ?t)"
    using k by (auto simp: dom_map_of_conv_image_fst image_iff)
  then have "dm_abs dm1 ++ map_of ?t = dm_abs dm ++ map_of (map (\<lambda>(k, e). (k, trimmed e)) (x # es))"
    using x dm1(3) by (simp add: map_add_upd_left)
  then show ?case
    using dm2 dm1(1) pos x by (subst DeserializeLoop.simps) simp
qed

lemma enc_map_length: "12 * length es \<le> length (enc_map es)"
proof (induction es)
  case (Cons x es)
  obtain k e where x: "x = (k, e)" by (cases x)
  have "4 \<le> length (enc_value e)" by (cases e) (simp_all add: enc_string_def)
  with Cons x show ?case by (simp add: enc_entry_def)
qed simp

section \<open>The decoder on arbitrary input\<close>

text \<open>
  The remaining length is not negative and within the block. A decoder that succeeds has moved
  on by at least \<open>k\<close> bytes; it never faults.
\<close>

definition input_ok :: "u8 list \<Rightarrow> i32 \<Rightarrow> bool" where
  "input_ok buf left \<longleftrightarrow> 0 \<le> sint left \<and> unat left \<le> length buf"

definition consumes :: "nat \<Rightarrow> u8 list \<Rightarrow> i32 \<Rightarrow> 'a decoded \<Rightarrow> bool" where
  "consumes k buf left r \<longleftrightarrow>
     (case r of Inl f \<Rightarrow> False | Inr (Inl e) \<Rightarrow> True
      | Inr (Inr (x, buf', left')) \<Rightarrow>
          \<exists>j \<ge> k. j \<le> unat left \<and> buf' = drop j buf \<and> left' = left - of_nat j)"

lemma input_ok_drop:
  assumes "input_ok buf left" and "j \<le> unat left"
  shows "input_ok (drop j buf) (left - of_nat j)" and "unat (left - of_nat j) = unat left - j"
proof -
  have lt: "unat left < 2147483648" using assms(1) by (auto simp: input_ok_def nonneg32)
  have "unat (of_nat (unat left - j) :: i32) = unat left - j"
    using lt by (intro unat_of_nat_bound) simp
  moreover have "(of_nat (unat left - j) :: i32) = left - of_nat j"
    using of_nat_diff32 [OF assms(2)] by simp
  ultimately show u: "unat (left - of_nat j) = unat left - j" by simp
  show "input_ok (drop j buf) (left - of_nat j)"
    using assms lt u by (simp add: input_ok_def sint_small32)
qed

lemma consumes_shift:
  assumes "consumes k2 (drop j buf) (left - of_nat j) r" and "k1 \<le> j" and "j \<le> unat left"
    and "unat (left - of_nat j) = unat left - j"
  shows "consumes (k1 + k2) buf left r"
proof -
  have "\<exists>i \<ge> k1 + k2. i \<le> unat left \<and> drop n (drop j buf) = drop i buf \<and> left - of_nat j - of_nat n = left - of_nat i"
    if "k2 \<le> n" "n \<le> unat left - j" for n
    using assms(2,3) that by (intro exI [of _ "j + n"]) (simp add: add.commute diff_diff_eq)
  with assms(1,4) show ?thesis
    by (auto simp: consumes_def split: sum.splits prod.splits)
qed

lemma consumes_bind:
  assumes "input_ok buf left" and "consumes k1 buf left r"
    and "\<And>x j. r = Inr (Inr (x, drop j buf, left - of_nat j)) \<Longrightarrow> k1 \<le> j \<Longrightarrow> j \<le> unat left \<Longrightarrow>
      input_ok (drop j buf) (left - of_nat j) \<Longrightarrow>
      consumes k2 (drop j buf) (left - of_nat j) (f x (drop j buf) (left - of_nat j))"
  shows "consumes (k1 + k2) buf left (bindD r f)"
proof -
  consider e where "r = Inr (Inl e)"
    | x j where "r = Inr (Inr (x, drop j buf, left - of_nat j))" "k1 \<le> j" "j \<le> unat left"
    using assms(2) by (auto simp: consumes_def split: sum.splits prod.splits)
  then show ?thesis
  proof cases
    case 2
    note io = input_ok_drop [OF assms(1) 2(3)]
    from consumes_shift [OF assms(3) [OF 2 io(1)] 2(2,3) io(2)] 2(1) show ?thesis by simp
  qed (simp add: consumes_def)
qed

lemma DecodeInt32_safe:
  assumes "input_ok buf left"
  shows "consumes 4 buf left (DecodeInt32 buf left)"
  using assms by (auto simp: consumes_def DecodeInt32_def input_ok_def size_of_int32_nonneg intro!: exI [of _ 4])

lemma DecodeInt64_safe:
  assumes "input_ok buf left"
  shows "consumes 8 buf left (DecodeInt64 buf left)"
proof -
  have "consumes (4 + (4 + 0)) buf left (DecodeInt64 buf left)"
    unfolding DecodeInt64_def
    by (intro consumes_bind DecodeInt32_safe assms) (auto simp: consumes_def)
  then show ?thesis by simp
qed

lemma DecodeString_safe:
  assumes "input_ok buf left" and "good_alloc malloc"
  shows "consumes 4 buf left (DecodeString malloc buf left)"
proof -
  have body: "consumes 0 b l
      (if sint l < sint n then Inr (Inl DMERR_TRUNCATED_DATA)
       else if \<not> malloc (size_of_int32 n) then Inr (Inl DMERR_INSUFFICIENT_MEM)
       else bindR (memcpy_read b n) (\<lambda>str. Inr (Inr ((str, n), drop (nat (sint n)) b, l - n))))"
    if io: "input_ok b l" for b l n
  proof (cases "0 \<le> sint n")
    case True
    show ?thesis
    proof (cases "sint l < sint n")
      case False
      then have "unat n \<le> unat l" "unat l \<le> length b"
        using io nonneg32(1) [OF True] nonneg32(1) [of l] unfolding input_ok_def by linarith+
      then show ?thesis
        using False True by (auto simp: consumes_def memcpy_read_wf nonneg32(1))
    qed (simp add: consumes_def)
  next
    case False
    then have "\<not> malloc (size_of_int32 n)"
      using size_of_int32_neg [of n] by (simp add: good_allocD [OF assms(2)])
    then show ?thesis by (simp add: consumes_def)
  qed
  have "consumes (4 + 0) buf left (DecodeString malloc buf left)"
    unfolding DecodeString_def by (intro consumes_bind DecodeInt32_safe assms(1) body)
  then show ?thesis by simp
qed

lemma consumes_0:
  assumes "r = Inr (Inl e) \<or> r = Inr (Inr (x, buf, left))"
  shows "consumes 0 buf left r"
  using assms by (auto simp: consumes_def intro!: exI [of _ 0])

lemma consumes_weaken: "consumes k buf left r \<Longrightarrow> k' \<le> k \<Longrightarrow> consumes k' buf left r"
  unfolding consumes_def by (auto split: sum.splits prod.splits intro: order_trans)

lemma DecodeInt64s_safe:
  assumes "input_ok buf left"
  shows "consumes 0 buf left (DecodeInt64s n buf left)"
  using assms
proof (induction n arbitrary: buf left)
  case (Suc n)
  have "consumes (8 + (0 + 0)) buf left (DecodeInt64s (Suc n) buf left)"
    unfolding DecodeInt64s.simps
    by (intro consumes_bind DecodeInt64_safe Suc) (auto intro: consumes_0)
  then show ?case by (rule consumes_weaken) simp
qed (auto intro: consumes_0)

lemma DecodeStrings_safe:
  assumes "input_ok buf left" and "good_alloc malloc"
  shows "consumes 0 buf left (DecodeStrings malloc n buf left)"
  using assms(1)
proof (induction n arbitrary: buf left)
  case (Suc n)
  have "consumes (4 + (0 + 0)) buf left (DecodeStrings malloc (Suc n) buf left)"
    unfolding DecodeStrings.simps
    by (intro consumes_bind DecodeString_safe Suc assms(2)) (auto intro: consumes_0)
  then show ?case by (rule consumes_weaken) simp
qed (auto intro: consumes_0)

text \<open>An entry can be added, so the last step of a decoder succeeds.\<close>

definition can_add :: "allocator \<Rightarrow> DataMap \<Rightarrow> bool" where
  "can_add malloc dm \<longleftrightarrow> (\<forall>k e. \<exists>dm'. AddEntry malloc dm k e = Inr (dm', DMERR_SUCCESS))"

lemma can_addI: "dm_inv dm \<Longrightarrow> 0 < dm_cap dm \<Longrightarrow> good_alloc malloc \<Longrightarrow> can_add malloc dm"
  unfolding can_add_def by (metis AddEntry_spec)

lemma added_safe: "can_add malloc dm \<Longrightarrow> consumes 0 buf left (added (AddEntry malloc dm k e) buf left)"
proof -
  assume "can_add malloc dm"
  then obtain dm' where "AddEntry malloc dm k e = Inr (dm', DMERR_SUCCESS)"
    unfolding can_add_def by blast
  then show ?thesis by (intro consumes_0) (simp add: added_def)
qed

lemma DecodeInt64List_safe:
  assumes "input_ok buf left" and "can_add malloc dm"
  shows "consumes 4 buf left (DecodeInt64List malloc buf left k dm)"
proof -
  have body: "consumes 0 b l
      (if \<not> malloc (unat (8 * scast n :: u64)) then Inr (Inl DMERR_INSUFFICIENT_MEM)
       else bindD (DecodeInt64s (nat (sint n)) b l) (\<lambda>xs. added (AddEntry_Int64List malloc dm k xs n)))"
    if "input_ok b l" for b l n
    using consumes_bind [OF that DecodeInt64s_safe [OF that], of "nat (sint n)" 0
        "\<lambda>xs. added (AddEntry_Int64List malloc dm k xs n)"] added_safe [OF assms(2)]
    by (auto simp: AddEntry_Int64List_def intro: consumes_0)
  have "consumes (4 + 0) buf left (DecodeInt64List malloc buf left k dm)"
    unfolding DecodeInt64List_def by (intro consumes_bind DecodeInt32_safe assms(1) body)
  then show ?thesis by simp
qed

text \<open>A count of strings for which both arrays can be allocated.\<close>

definition good_count :: "i32 \<Rightarrow> bool" where
  "good_count n \<longleftrightarrow> 0 \<le> sint n \<and> sint n < 2147483647"

lemma good_count_alloc:
  assumes "good_count n" and "good_alloc malloc"
  shows "malloc (size_of_int32 (n + 1) * 8)" and "malloc (unat (4 * scast n :: u64))"
proof -
  have n: "0 \<le> sint n" "unat n < 2147483647"
    using assms(1) nonneg32(1) [of n] unfolding good_count_def by linarith+
  have u: "unat (n + 1) = unat n + 1" using n(2) by (subst unat_add_bound) simp_all
  then have "0 \<le> sint (n + 1)" using n(2) by (subst sint_small32) simp_all
  then show "malloc (size_of_int32 (n + 1) * 8)"
    using n(2) u by (simp add: good_allocD [OF assms(2)] size_of_int32_nonneg)
  have "unat (4 * scast n :: u64) = 4 * unat n"
    using n by (subst unat_mult_bound) (simp_all add: unat_scast)
  then show "malloc (unat (4 * scast n :: u64))"
    using n(2) by (simp add: good_allocD [OF assms(2)])
qed

lemma DecodeStringList_safe:
  assumes io: "input_ok buf left" and add: "can_add malloc dm" and alloc: "good_alloc malloc"
    and count: "4 \<le> unat left \<Longrightarrow> good_count (of_be32 (take 4 buf))"
  shows "consumes 4 buf left (DecodeStringList malloc buf left k dm)"
proof -
  have body: "consumes 0 b l
      (bindD (DecodeStrings malloc (nat (sint n)) b l) (\<lambda>xs. added (AddEntry_StringList malloc dm k (map fst xs) (map snd xs))))"
    if "input_ok b l" for b l n
    using consumes_bind [OF that DecodeStrings_safe [OF that alloc], of "nat (sint n)" 0
        "\<lambda>xs. added (AddEntry_StringList malloc dm k (map fst xs) (map snd xs))"] added_safe [OF add]
    by (simp add: AddEntry_StringList_def)
  have "consumes (4 + 0) buf left (DecodeStringList malloc buf left k dm)"
    unfolding DecodeStringList_def
  proof (rule consumes_bind [OF io DecodeInt32_safe [OF io]])
    fix n j
    assume "DecodeInt32 buf left = Inr (Inr (n, drop j buf, left - of_nat j))"
      and j: "4 \<le> j" "j \<le> unat left" and io1: "input_ok (drop j buf) (left - of_nat j)"
    then have "n = of_be32 (take 4 buf)" by (auto simp: DecodeInt32_def split: if_splits)
    then have "good_count n" using count j by simp
    then show "consumes 0 (drop j buf) (left - of_nat j)
        (let haveList = malloc (size_of_int32 (n + 1) * 8); haveLens = malloc (unat (4 * scast n :: u64))
         in if \<not> haveList \<or> \<not> haveLens
            then bindR (FreeStringList (if haveList then Some (size_of_int32 (n + 1)) else None)) (\<lambda>u.
                   Inr (Inl DMERR_INSUFFICIENT_MEM))
            else bindD (DecodeStrings malloc (nat (sint n)) (drop j buf) (left - of_nat j)) (\<lambda>xs.
                   added (AddEntry_StringList malloc dm k (map fst xs) (map snd xs))))"
      using body [OF io1] good_count_alloc [OF _ alloc] by (simp add: Let_def)
  qed
  then show ?thesis by simp
qed

lemma DecodeInt32_eq:
  assumes "DecodeInt32 buf left = Inr (Inr (n, buf', left'))"
  shows "n = of_be32 (take 4 buf)" and "buf' = drop 4 buf" and "left' = left - 4"
  using assms by (auto simp: DecodeInt32_def split: if_splits)

lemma DecodeEntry_safe:
  assumes io: "input_ok buf left" and inv: "dm_inv dm" and cap: "0 < dm_cap dm" and alloc: "good_alloc malloc"
    and count: "12 \<le> unat left \<Longrightarrow> of_be32 (take 4 buf) = 4 \<Longrightarrow> good_count (of_be32 (take 4 (drop 8 buf)))"
  shows "consumes 12 buf left (DecodeEntry malloc dm buf left)"
proof -
  note add = can_addI [OF inv cap alloc]
  have int: "consumes 4 b l (bindD (DecodeInt64 b l) (\<lambda>v. added (AddEntry_Int64 malloc dm k v)))"
    if "input_ok b l" for b l k
    by (rule consumes_weaken [OF consumes_bind [OF that DecodeInt64_safe [OF that], of 0]])
       (simp_all add: AddEntry_Int64_def added_safe [OF add])
  have str: "consumes 4 b l (bindD (DecodeString malloc b l)
      (\<lambda>(s, n). added (AddEntry_String malloc dm k s n)))"
    if "input_ok b l" for b l k
    by (rule consumes_weaken [OF consumes_bind [OF that DecodeString_safe [OF that alloc], of 0]])
       (auto simp: AddEntry_String_def added_safe [OF add] split: prod.split)
  have "consumes (4 + (4 + 4)) buf left (DecodeEntry malloc dm buf left)"
    unfolding DecodeEntry_def
  proof (rule consumes_bind [OF io DecodeInt32_safe [OF io]], goal_cases)
    case (1 val j)
    note e1 = DecodeInt32_eq [OF 1(1)] and io1 = 1(4)
    let ?b = "drop j buf" and ?l = "left - of_nat j"
    let ?rest = "\<lambda>k b l. bindR (LookupEntry (Some dm) k) (\<lambda>old.
           if old \<noteq> None then Inr (Inl DMERR_DUPLICATED_FIELD_IDS)
           else if val = DMFieldType_val DMFIELDTYPE_INT64 then
             bindD (DecodeInt64 b l) (\<lambda>v. added (AddEntry_Int64 malloc dm k v))
           else if val = DMFieldType_val DMFIELDTYPE_STRING then
             bindD (DecodeString malloc b l) (\<lambda>(str, strLen). added (AddEntry_String malloc dm k str strLen))
           else if val = DMFieldType_val DMFIELDTYPE_INT64LIST then DecodeInt64List malloc b l k dm
           else if val = DMFieldType_val DMFIELDTYPE_STRINGLIST then DecodeStringList malloc b l k dm
           else Inr (Inl DMERR_UNKNOWN_TYPE))"
    have "consumes (4 + 4) ?b ?l (bindD (DecodeInt32 ?b ?l) ?rest)"
    proof (rule consumes_bind [OF io1 DecodeInt32_safe [OF io1]], goal_cases)
      case (1 k j2)
      note e2 = DecodeInt32_eq [OF 1(1)] and io2 = 1(4)
      have "good_count (of_be32 (take 4 (drop j2 ?b)))" if "val = 4" "4 \<le> unat (?l - of_nat j2)"
      proof -
        have "drop j2 ?b = drop 4 ?b" by (rule e2(2))
        also have "\<dots> = drop 8 buf" unfolding e1(2) by simp
        finally have "drop j2 ?b = drop 8 buf" .
        moreover have "12 \<le> unat left"
          using that(2) input_ok_drop(2) [OF io1 1(3)] input_ok_drop(2) [OF io \<open>j \<le> unat left\<close>]
            \<open>4 \<le> j\<close> 1(2) by simp
        ultimately show ?thesis using count that(1) e1(1) by simp
      qed
      then show ?case
        using int [OF io2] str [OF io2] DecodeInt64List_safe [OF io2 add] DecodeStringList_safe [OF io2 add alloc]
        by (auto simp: LookupEntry_abs [OF inv] consumes_def [of _ _ _ "Inr (Inl _)"])
    qed
    then show ?case by (simp add: consumes_def)
  qed
  then show ?thesis by simp
qed

text \<open>What is decoded from arbitrary bytes is well formed.\<close>

lemma malloc_nonneg: "good_alloc malloc \<Longrightarrow> malloc (size_of_int32 n) \<Longrightarrow> 0 \<le> sint n"
  using size_of_int32_neg [of n] by (force simp: good_allocD)

lemma malloc_array_nonneg:
  assumes "good_alloc malloc" and "malloc (unat (k * scast n :: u64))" and "k = 4 \<or> k = 8"
  shows "0 \<le> sint (n :: i32)"
proof (rule ccontr)
  assume "\<not> 0 \<le> sint n"
  then have neg: "sint n < 0" by simp
  have ge: "- 2147483648 \<le> sint n" using sint_ge [of n] by simp
  define d where "d = nat (- sint n)"
  have d: "0 < d" "d \<le> 2147483648" using neg ge by (simp_all add: d_def)
  have "unat (k * scast n :: u64) = unat k * unat (scast n :: u64) mod 18446744073709551616"
    by (simp add: unat_word_ariths)
  also have "unat (scast n :: u64) = 18446744073709551616 - d"
    using unat_scast(2) [OF neg] by (simp add: d_def)
  also have "unat k * (18446744073709551616 - d) = (18446744073709551616 - unat k * d) + (unat k - 1) * 18446744073709551616"
    using assms(3) d by auto
  also have "\<dots> mod 18446744073709551616 = 18446744073709551616 - unat k * d"
    unfolding mod_mult_self1 using assms(3) d by (intro mod_less) auto
  finally show False
    using assms d by (auto simp: good_allocD)
qed

lemma DecodeString_wf:
  assumes "good_alloc malloc" and "DecodeString malloc buf left = Inr (Inr ((s, n), buf', left'))"
  shows "string_wf s n"
  using assms malloc_nonneg [OF assms(1)]
  by (auto simp: DecodeString_def bindD_eq_Inr bindR_eq_Inr memcpy_read_def string_wf_def nonneg32
      split: if_splits)

lemma DecodeInt64s_count: "DecodeInt64s n buf left = Inr (Inr (xs, buf', left')) \<Longrightarrow> length xs = n"
  by (induction n arbitrary: buf left xs) (auto simp: bindD_eq_Inr)

lemma DecodeStrings_wf:
  assumes "good_alloc malloc" and "DecodeStrings malloc n buf left = Inr (Inr (xs, buf', left'))"
  shows "length xs = n \<and> list_all (\<lambda>(s, n). string_wf s n) xs"
  using assms(2)
  by (induction n arbitrary: buf left xs) (auto simp: bindD_eq_Inr dest: DecodeString_wf [OF assms(1)])

lemma DecodeStringList_added:
  assumes alloc: "good_alloc malloc" and dec: "DecodeStringList malloc buf left k dm = Inr (Inr (dm', buf', left'))"
  shows "\<exists>e. AddEntry malloc dm k e = Inr (dm', DMERR_SUCCESS) \<and> entry_wf e"
proof -
  obtain n b l xs b1 l1 where n: "malloc (size_of_int32 (n + 1) * 8)" "malloc (unat (4 * scast n :: u64))"
    and xs: "DecodeStrings malloc (nat (sint n)) b l = Inr (Inr (xs, b1, l1))"
    and add: "AddEntry malloc dm k (DM_StringList (map fst xs) (map snd xs)) = Inr (dm', DMERR_SUCCESS)"
    using dec
    by (auto simp: DecodeStringList_def bindD_eq_Inr bindR_eq_Inr added_eq_Inr AddEntry_StringList_def Let_def
        split: if_splits)
  have nn: "0 \<le> sint n" using malloc_array_nonneg [OF alloc n(2)] by simp
  have "malloc (size_of_int32 (n + 1))" using n(1) by (simp add: good_allocD [OF alloc])
  then have n1: "0 \<le> sint (n + 1)" by (rule malloc_nonneg [OF alloc])
  have "unat (n + 1) = unat n + 1" using nonneg32(2) [OF nn] by (subst unat_add_bound) simp_all
  then have "unat n < 2147483647" using nonneg32(2) [OF n1] by simp
  then have "nat (sint n) < 2147483647" using nonneg32(1) [OF nn] by simp
  with DecodeStrings_wf [OF alloc xs] add show ?thesis
    by (intro exI [of _ "DM_StringList (map fst xs) (map snd xs)"]) (simp add: zip_map_fst_snd)
qed

lemma DecodeEntry_added:
  assumes alloc: "good_alloc malloc" and dec: "DecodeEntry malloc dm buf left = Inr (Inr (dm', buf', left'))"
  shows "\<exists>k e. AddEntry malloc dm k e = Inr (dm', DMERR_SUCCESS) \<and> entry_wf e"
proof -
  have nums: "entry_wf (DM_Int64List n xs)"
    if "malloc (unat (8 * scast n :: u64))" "DecodeInt64s (nat (sint n)) b l = Inr (Inr (xs, b1, l1))" for n xs b l b1 l1
    using malloc_array_nonneg [OF alloc that(1)] DecodeInt64s_count [OF that(2)] by (simp add: nonneg32(1))
  show ?thesis
    using dec DecodeString_wf [OF alloc] DecodeStringList_added [OF alloc] nums
    by (auto simp: DecodeEntry_def DecodeInt64List_def AddEntry_Int64_def AddEntry_String_def
        AddEntry_Int64List_def bindD_eq_Inr bindR_eq_Inr added_eq_Inr split: if_splits)
      (metis entry_wf.simps)+
qed

text \<open>No string list in the buffer announces a negative or unrepresentable number of strings.\<close>

definition counts_ok :: "u8 list \<Rightarrow> bool" where
  "counts_ok buf \<longleftrightarrow> (\<forall>p. p + 12 \<le> length buf \<longrightarrow> of_be32 (take 4 (drop p buf)) = 4 \<longrightarrow>
     good_count (of_be32 (take 4 (drop (p + 8) buf))))"

lemma counts_ok_drop: "counts_ok buf \<Longrightarrow> counts_ok (drop j buf)"
  unfolding counts_ok_def
proof (intro allI impI)
  fix p
  assume a: "\<forall>p. p + 12 \<le> length buf \<longrightarrow> of_be32 (take 4 (drop p buf)) = 4 \<longrightarrow>
      good_count (of_be32 (take 4 (drop (p + 8) buf)))"
    and p: "p + 12 \<le> length (drop j buf)" "of_be32 (take 4 (drop p (drop j buf))) = 4"
  show "good_count (of_be32 (take 4 (drop (p + 8) (drop j buf))))"
    using a [rule_format, of "p + j"] p by (simp add: ac_simps)
qed

lemma dm_wf_add:
  assumes "AddEntry malloc dm k e = Inr (dm', DMERR_SUCCESS)" and "dm_wf dm" and "entry_wf e"
    and "0 < dm_cap dm" and "good_alloc malloc"
  shows "dm_wf dm'" and "dm_cap dm \<le> Suc (dm_cap dm')"
proof -
  have inv: "dm_inv dm" using assms(2) by (simp add: dm_wf_def)
  obtain dm2 where "AddEntry malloc dm k e = Inr (dm2, DMERR_SUCCESS)" "dm_inv dm2"
    "dm_abs dm2 = (dm_abs dm)(k \<mapsto> e)" "dm_cap dm \<le> Suc (dm_cap dm2)"
    by (rule AddEntry_spec [OF inv assms(4,5)])
  with assms show "dm_wf dm'" "dm_cap dm \<le> Suc (dm_cap dm')"
    by (auto simp: dm_wf_iff)
qed

lemma DeserializeLoop_safe:
  assumes "good_alloc malloc" and "dm_wf dm" and "input_ok buf left" and "unat left \<le> 12 * dm_cap dm"
    and "counts_ok buf"
  shows "\<exists>dm' e. DeserializeLoop malloc dm buf left = Inr (dm', e) \<and> dm_wf dm'"
  using assms
proof (induction malloc dm buf left rule: DeserializeLoop.induct)
  case (1 malloc dm buf left)
  note alloc = 1(2) and wf = 1(3) and io = 1(4) and cap = 1(5) and counts = 1(6)
  show ?case
  proof (cases "0 < sint left")
    case False
    with wf show ?thesis by (simp add: DeserializeLoop.simps)
  next
    case True
    then have pos: "0 < unat left" using nonneg32(1) [of left] by linarith
    then have c: "0 < dm_cap dm" using cap by linarith
    have inv: "dm_inv dm" using wf by (simp add: dm_wf_def)
    have "good_count (of_be32 (take 4 (drop 8 buf)))" if "12 \<le> unat left" "of_be32 (take 4 buf) = 4"
      using counts [unfolded counts_ok_def, rule_format, of 0] that io by (simp add: input_ok_def)
    note safe = DecodeEntry_safe [OF io inv c alloc this]
    then consider e where "DecodeEntry malloc dm buf left = Inr (Inl e)"
      | dm1 j where "DecodeEntry malloc dm buf left = Inr (Inr (dm1, drop j buf, left - of_nat j))"
          "12 \<le> j" "j \<le> unat left"
      unfolding consumes_def by (auto split: sum.splits prod.splits)
    then show ?thesis
    proof cases
      case 1
      with wf True show ?thesis by (simp add: DeserializeLoop.simps)
    next
      case 2
      from DecodeEntry_added [OF alloc 2(1)]
      obtain k e where e: "AddEntry malloc dm k e = Inr (dm1, DMERR_SUCCESS)" "entry_wf e" by blast
      note add = dm_wf_add [OF e(1) wf e(2) c alloc] and io1 = input_ok_drop [OF io 2(3)]
      have "unat (left - of_nat j) \<le> 12 * dm_cap dm1"
        using io1(2) cap add(2) 2(2) by simp
      then have "\<exists>dm' e. DeserializeLoop malloc dm1 (drop j buf) (left - of_nat j) = Inr (dm', e) \<and> dm_wf dm'"
        by (rule 1(1) [OF True 2(1) refl refl refl alloc add(1) io1(1) _ counts_ok_drop [OF counts]])
      with 2(1) True show ?thesis by (subst DeserializeLoop.simps) simp
    qed
  qed
qed

section \<open>Properties of transfer\<close>

lemma header_test:
  fixes len bufLen :: i32
  assumes "0 \<le> sint bufLen" and "4 \<le> unat bufLen"
  shows "(scast len :: u64) > scast bufLen - 4 \<longleftrightarrow> \<not> (0 \<le> sint len \<and> unat len + 4 \<le> unat bufLen)"
proof -
  have b: "unat (scast bufLen - 4 :: u64) = unat bufLen - 4"
    using assms by (subst unat_sub) (simp_all add: word_le_nat_alt unat_scast)
  have lt: "unat bufLen < 2147483648" using assms(1) by (rule nonneg32(2))
  show ?thesis
  proof (cases "0 \<le> sint len")
    case True
    then show ?thesis using assms(2) by (auto simp: word_less_nat_alt b unat_scast)
  next
    case False
    then have "9223372036854775808 \<le> unat (scast len :: u64)"
      using size_of_int32_neg [of len] by (simp add: size_of_int32_def)
    with False lt show ?thesis by (simp add: word_less_nat_alt b)
  qed
qed

text \<open>A data map with one entry, for the closed instances below.\<close>

definition malloc63 :: allocator where
  "malloc63 n = (n < 2 ^ 63)"

lemma malloc63_good [simp]: "good_alloc malloc63"
  by (simp add: good_alloc_def malloc63_def)

lemma dm_entries_single:
  assumes "dm_inv dm" and "dm_abs dm = [k \<mapsto> e]"
  shows "dm_entries dm = [(k, e)]"
proof -
  have s: "set (dm_entries dm) = {(k, e)}"
    using dm_entries_abs(2) [OF assms(1)] assms(2) by (auto split: if_splits)
  have d: "distinct (dm_entries dm)"
    using dm_entries_abs(1) [OF assms(1)] by (auto simp: distinct_map)
  with s have "length (dm_entries dm) = 1" using distinct_card [OF d] by simp
  then show ?thesis using s by (auto simp: length_Suc_conv)
qed

definition one_entry :: "DMKeyType \<Rightarrow> DataMapEntry \<Rightarrow> DataMap \<Rightarrow> bool" where
  "one_entry k e dm \<longleftrightarrow>
     (case DataMap_Create malloc63 (Some \<lparr>dm_map = None, dm_cookie = 0\<rparr>) of
        (Some d, err) \<Rightarrow> SetEntryValue malloc63 d k e False = Inr (dm, DMERR_SUCCESS)
      | _ \<Rightarrow> False)"

lemma one_entry:
  assumes "entry_wf e"
  obtains dm where "one_entry k e dm" and "dm_wf dm" and "dm_abs dm = [k \<mapsto> e]" and "dm_entries dm = [(k, e)]"
proof -
  obtain d where d: "DataMap_Create malloc63 (Some \<lparr>dm_map = None, dm_cookie = 0\<rparr>) = (Some d, DMERR_SUCCESS)"
    "dm_inv d" "dm_abs d = Map.empty" "dm_cap d = 2 ^ 29"
    by (rule DataMap_Create_spec [OF malloc63_good])
  have cap: "0 < dm_cap d" using d(4) by simp
  obtain dm where dm: "AddEntry malloc63 d k e = Inr (dm, DMERR_SUCCESS)" "dm_inv dm" "dm_abs dm = (dm_abs d)(k \<mapsto> e)"
    by (rule AddEntry_spec [OF d(2) cap malloc63_good])
  have abs: "dm_abs dm = [k \<mapsto> e]" using dm(3) d(3) by simp
  have "one_entry k e dm"
    using d(1,3) dm(1) by (simp add: one_entry_def SetEntryValue_def LookupEntry_abs [OF d(2)])
  then show thesis
    using dm(2) abs assms by (intro that [of dm] dm_entries_single) (auto simp: dm_wf_iff split: if_splits)
qed

lemma entry_wf_trimmed: "entry_wf e \<Longrightarrow> entry_wf (trimmed e)"
  by (cases e) (auto simp: string_wf_def list_all_length)

lemma DataMap_Deserialize_header:
  assumes "0 \<le> sint bufLen" and "DecodeInt32 buf bufLen = Inr (Inr (len, buf1, left1))"
  shows "DataMap_Deserialize malloc (Some buf) bufLen (Some dm) =
    (if 0 \<le> sint len \<and> unat len + 4 \<le> unat bufLen then DataMap_DeserializeContent malloc buf1 len (Some dm)
     else Inr (Some dm, DMERR_TRUNCATED_DATA))"
proof -
  have "4 \<le> unat bufLen"
    using assms by (auto simp: DecodeInt32_def size_of_int32_nonneg split: if_splits)
  then show ?thesis
    using assms header_test [OF assms(1), of len] by (simp add: DataMap_Deserialize_def)
qed

text \<open>
  C3. A transfer preserves the map. For every well-formed data map whose encoding fits the signed
  32-bit length of the receiver, \<^verbatim>\<open>DataMap_Serialize\<close> returns a buffer, without a fault, of exactly the
  size it computed in its first pass, and \<^verbatim>\<open>DataMap_Deserialize\<close> of that buffer returns success and a
  map that binds the same field ids to the same values, the blocks cut to their recorded lengths.
\<close>

theorem DataMap_transfer:
  assumes "dm_wf dm" and "length (enc_map (dm_entries dm)) + 4 < 2 ^ 31" and "good_alloc malloc"
  shows "\<exists>bytes dm'. DataMap_Serialize malloc (Some dm) True = Inr (DMERR_SUCCESS, Some bytes) \<and>
    length bytes = length (enc_map (dm_entries dm)) + 4 \<and>
    DataMap_Deserialize malloc (Some bytes) (of_nat (length bytes)) (Some dm0) = Inr (Some dm', DMERR_SUCCESS) \<and>
    dm_wf dm' \<and> dm_abs dm' = (\<lambda>k. map_option trimmed (dm_abs dm k))"
proof -
  let ?es = "dm_entries dm"
  let ?n = "length (enc_map ?es)"
  let ?bytes = "be32 (of_nat ?n) @ enc_map ?es"
  have inv: "dm_inv dm" and wf: "\<forall>(k, e) \<in> set ?es. entry_wf e" using assms(1) by (simp_all add: dm_wf_def)
  have n: "?n + 4 < 2147483648" using assms(2) by simp
  have ser: "DataMap_Serialize malloc (Some dm) True = Inr (DMERR_SUCCESS, Some ?bytes)"
    using n by (intro DataMap_Serialize_enc assms(1)) (simp_all add: good_allocD [OF assms(3)])
  obtain d where d: "DataMap_Create malloc (Some dm0) = (Some d, DMERR_SUCCESS)" "dm_inv d"
    "dm_abs d = Map.empty" "dm_cap d = 2 ^ 29"
    by (rule DataMap_Create_spec [OF assms(3)])
  have "length ?es \<le> dm_cap d" "?n < 2147483648" "\<forall>(k, e) \<in> set ?es. entry_wf e \<and> dm_abs d k = None"
    using enc_map_length [of ?es] n wf d(3,4) by auto
  note p = this
  obtain dm' where dm': "DeserializeLoop malloc d (enc_map ?es @ []) (of_nat ?n) = Inr (dm', DMERR_SUCCESS)"
    "dm_inv dm'" "dm_abs dm' = dm_abs d ++ map_of (map (\<lambda>(k, e). (k, trimmed e)) ?es)"
    using DeserializeLoop_enc [OF d(2) p(1) assms(3) dm_entries_abs(1) [OF inv] p(3,2), of "[]"] by blast
  have abs: "dm_abs dm' = (\<lambda>k. map_option trimmed (dm_abs dm k))"
    using dm'(3) d(3) map_of_map [of trimmed ?es] dm_entries_abs(3) [OF inv] by (auto simp: fun_eq_iff)
  have u: "unat (of_nat (?n + 4) :: i32) = ?n + 4" "sint (of_nat (?n + 4) :: i32) = int (?n + 4)"
    "unat (of_nat ?n :: i32) = ?n" "sint (of_nat ?n :: i32) = int ?n"
    using n by (simp_all only: sint_of_nat32) (intro unat_of_nat_bound; simp)+
  have dec: "DecodeInt32 ?bytes (of_nat (?n + 4)) = Inr (Inr (of_nat ?n, enc_map ?es, of_nat ?n))"
    using DecodeInt32_enc [of "?n + 4" "of_nat ?n" "enc_map ?es"] n by simp
  have len: "length ?bytes = ?n + 4" by simp
  have "0 \<le> sint (of_nat (?n + 4) :: i32)" unfolding u by simp
  note h = DataMap_Deserialize_header [OF this dec, of malloc dm0]
  have "DataMap_Deserialize malloc (Some ?bytes) (of_nat (length ?bytes)) (Some dm0) = Inr (Some dm', DMERR_SUCCESS)"
    unfolding len h u using d(1) dm'(1) by (simp add: DataMap_DeserializeContent_def)
  moreover have "dm_wf dm'"
    using assms(1) abs dm'(2) entry_wf_trimmed by (auto simp: dm_wf_iff)
  ultimately show ?thesis using ser abs by auto
qed

theorem DataMap_transfer_witness:
  "\<exists>dm bytes dm'. one_entry 7 (DM_String 2 [104, 105, 0]) dm \<and>
     DataMap_Serialize malloc63 (Some dm) True = Inr (DMERR_SUCCESS, Some bytes) \<and> length bytes = 18 \<and>
     DataMap_Deserialize malloc63 (Some bytes) 18 (Some \<lparr>dm_map = None, dm_cookie = 0\<rparr>) = Inr (Some dm', DMERR_SUCCESS) \<and>
     dm_abs dm' 7 = Some (DM_String 2 [104, 105])"
proof -
  obtain dm where dm: "one_entry 7 (DM_String 2 [104, 105, 0]) dm" "dm_wf dm"
    "dm_abs dm = [7 \<mapsto> DM_String 2 [104, 105, 0]]" "dm_entries dm = [(7, DM_String 2 [104, 105, 0])]"
    by (rule one_entry [of "DM_String 2 [104, 105, 0]" 7]) (simp_all add: string_wf_def)
  have len: "length (enc_map (dm_entries dm)) = 14"
    by (simp add: dm(4) enc_entry_def enc_string_def)
  from DataMap_transfer [OF dm(2) _ malloc63_good, of "\<lparr>dm_map = None, dm_cookie = 0\<rparr>"] len
  obtain bytes dm' where "DataMap_Serialize malloc63 (Some dm) True = Inr (DMERR_SUCCESS, Some bytes)"
    "length bytes = 18" and
    "DataMap_Deserialize malloc63 (Some bytes) (of_nat (length bytes)) (Some \<lparr>dm_map = None, dm_cookie = 0\<rparr>) =
       Inr (Some dm', DMERR_SUCCESS)"
    "dm_abs dm' = (\<lambda>k. map_option trimmed (dm_abs dm k))" by auto
  with dm(1,3) show ?thesis by (intro exI [of _ dm] exI [of _ bytes] exI [of _ dm']) simp
qed



text \<open>
  The exception is real. A 16-byte message whose only entry is a string list that announces
  minus two strings makes \<^verbatim>\<open>DataMap_Deserialize\<close> dereference a null pointer: \<^verbatim>\<open>calloc\<close> of a negative count
  fails, and the error path passes the null list to \<^verbatim>\<open>FreeStringList\<close>, which reads through it.
\<close>

theorem DataMap_Deserialize_negative_count:
  assumes "good_alloc malloc"
  shows "DataMap_Deserialize malloc
    (Some [0, 0, 0, 12,  0, 0, 0, 4,  0, 0, 0, 1,  255, 255, 255, 254]) 16 (Some dm0) = Inl NullDeref"
proof -
  let ?b = "[0, 0, 0, 4, 0, 0, 0, 1, 255, 255, 255, 254] :: u8 list"
  have be: "of_be32 [0, 0, 0, 12] = 12" "of_be32 [0, 0, 0, 4] = 4" "of_be32 [0, 0, 0, 1] = 1"
    "of_be32 [255, 255, 255, 254] = 0xFFFFFFFE"
    by (simp_all add: of_be32_def)
  have sz: "size_of_int32 16 = 16" "size_of_int32 12 = 12" "size_of_int32 8 = 8" "size_of_int32 4 = 4"
    by (simp_all add: size_of_int32_def)
  obtain d where d: "DataMap_Create malloc (Some dm0) = (Some d, DMERR_SUCCESS)" "dm_inv d"
    "dm_abs d = Map.empty"
    by (rule DataMap_Create_spec [OF assms])
  have no: "\<not> malloc (size_of_int32 (0xFFFFFFFE + 1) * 8)"
    using size_of_int32_neg [of "0xFFFFFFFF"] by (simp add: good_allocD [OF assms])
  have "DecodeStringList malloc [255, 255, 255, 254] 4 1 d = Inl NullDeref"
    using no by (simp add: DecodeStringList_def DecodeInt32_def sz be FreeStringList_def)
  then have "DecodeEntry malloc d ?b 12 = Inl NullDeref"
    using d(3) by (simp add: DecodeEntry_def DecodeInt32_def sz be LookupEntry_abs [OF d(2)])
  then have "DataMap_DeserializeContent malloc ?b 12 (Some dm0) = Inl NullDeref"
    using d(1) by (simp add: DataMap_DeserializeContent_def DeserializeLoop.simps)
  then show ?thesis
    by (simp add: DataMap_Deserialize_def DecodeInt32_def sz be)
qed

theorem DataMap_Deserialize_negative_count_witness:
  "DataMap_Deserialize malloc63
    (Some [0, 0, 0, 12,  0, 0, 0, 4,  0, 0, 0, 1,  255, 255, 255, 254]) 16 (Some \<lparr>dm_map = None, dm_cookie = 0\<rparr>) =
   Inl NullDeref"
  using DataMap_Deserialize_negative_count [OF malloc63_good] .

text \<open>
  C38. The size pass wraps. For a number list of \<open>2 ^ 29\<close> elements it computes \<open>8 * 2 ^ 29 = 0\<close> bytes for
  the numbers, its overflow test does not see the wrap, and \<^verbatim>\<open>DataMap_Serialize\<close> writes past the end of
  its 16-byte buffer.
\<close>

theorem DataMap_Serialize_number_list_overflow:
  assumes "dm_wf dm" and "dm_entries dm = [(k, DM_Int64List 0x20000000 xs)]" and "malloc 16"
  shows "DataMap_Serialize malloc (Some dm) True = Inl OutOfBounds"
proof -
  obtain m where m: "dm_map dm = Some m" "hm_ready m" "hm_inv m"
    using assms(1) unfolding dm_wf_def by (blast elim: dm_invE)
  obtain key where l: "hm_list m = [(key, DM_Int64List 0x20000000 xs)]"
    using assms(2) m(1) by (auto simp: dm_entries_def)
  have len: "unat (0x20000000 :: i32) \<le> length xs"
    using assms(1,2) unfolding dm_wf_def by simp
  note it = HashMap_Iterate_list(1) [OF m(3)]
  have size: "foldR (\<lambda>(k, v). HashMapCalcEntrySizeCb k (Some v)) (hm_list m)
      \<lparr>cd_result = DMERR_SUCCESS, cd_buffer = empty_OutBuf 0, cd_buffLen = 0\<rparr> =
      Inr \<lparr>cd_result = DMERR_SUCCESS, cd_buffer = empty_OutBuf 0, cd_buffLen = 12\<rparr>"
    by (simp add: l HashMapCalcEntrySizeCb_def)
  have "0 < nat (sint (0x20000000 :: i32))" by simp
  then have upt: "[0 ..< nat (sint (0x20000000 :: i32))] = 0 # [Suc 0 ..< nat (sint (0x20000000 :: i32))]"
    by (rule upt_conv_Cons)
  have "0 < unat (0x20000000 :: i32)" by simp
  then have "xs \<noteq> []" using len by (metis le_zero_eq list.size(3) neq0_conv)
  then have full: "EncodeInt64List b xs 0x20000000 = Inl OutOfBounds"
    if "length (ob_bytes b) = 12" "ob_size b = 16" for b
    unfolding EncodeInt64List_def upt foldR.simps
    using that by (simp only: EncodeInt32_def WriteBytes_put) (simp add: EncodeInt64_def EncodeInt32_def WriteBytes_put)
  let ?b = "put (empty_OutBuf 16) (be32 12)"
  have wr: "foldR (\<lambda>(k, v). HashMapSerializeEntryCb k (Some v)) (hm_list m)
      \<lparr>cd_result = DMERR_SUCCESS, cd_buffer = ?b, cd_buffLen = 12\<rparr> = Inl OutOfBounds"
    by (simp add: l HashMapSerializeEntryCb_def EncodeInt32_def WriteBytes_put EncodeValue_def full empty_OutBuf_def)
  have "EncodeInt32 (empty_OutBuf 16) 12 = Inr ?b"
    by (simp add: EncodeInt32_def WriteBytes_put empty_OutBuf_def)
  then show ?thesis
    using m(1) assms(3) by (simp add: DataMap_Serialize_def it size wr Let_def)
qed

theorem DataMap_Serialize_number_list_overflow_witness:
  "\<exists>dm xs. one_entry 1 (DM_Int64List 0x20000000 xs) dm \<and> length xs = unat (0x20000000 :: i32) \<and>
     DataMap_Serialize malloc63 (Some dm) True = Inl OutOfBounds"
proof -
  obtain xs :: "i64 list" where xs: "length xs = unat (0x20000000 :: i32)"
    using Ex_list_of_length by blast
  have wf: "entry_wf (DM_Int64List 0x20000000 xs)" using xs by simp
  obtain dm where dm: "one_entry 1 (DM_Int64List 0x20000000 xs) dm" "dm_wf dm"
    "dm_entries dm = [(1, DM_Int64List 0x20000000 xs)]"
    by (rule one_entry [OF wf])
  have "malloc63 16" by (simp add: malloc63_def)
  from DataMap_Serialize_number_list_overflow [where malloc = malloc63, OF dm(2,3) this] dm(1) xs show ?thesis by blast
qed

end
