(* ===== verification/DataMap_Ops.thy ===== *)
theory DataMap_Ops
  imports DataMap_Spec
begin

text \<open>
  The setters, the getters and the copy of \<^verbatim>\<open>dataMap.c\<close>: any sequence of calls behaves as a finite
  map from field ids to typed values, with the error codes of the header.
\<close>

section \<open>Calls and their specification\<close>

datatype dm_op =
    OpSetInt64 DMKeyType i64 bool
  | OpSetString DMKeyType "u8 list option" i32 bool
  | OpSetInt64List DMKeyType "i64 list option" i32 bool
  | OpSetStringList DMKeyType "u8 list list option" "i32 list" bool
  | OpGetType DMKeyType
  | OpGetInt64 DMKeyType
  | OpGetString DMKeyType
  | OpGetInt64List DMKeyType
  | OpGetStringList DMKeyType

datatype dm_out =
    OutErr ErrorCode
  | OutType DMFieldType
  | OutInt64 "ErrorCode \<times> i64 option"
  | OutString "ErrorCode \<times> (u8 list \<times> i32) option"
  | OutInt64List "ErrorCode \<times> (i64 list \<times> i32) option"
  | OutStringList "ErrorCode \<times> (u8 list list \<times> i32 list) option"

definition set_step :: "(DataMap option \<times> ErrorCode) res \<Rightarrow> (DataMap \<times> dm_out) res" where
  "set_step r = bindR r (\<lambda>(d, e). case d of None \<Rightarrow> Inl NullDeref | Some dm \<Rightarrow> Inr (dm, OutErr e))"

definition get_step :: "DataMap \<Rightarrow> ('v \<Rightarrow> dm_out) \<Rightarrow> 'v res \<Rightarrow> (DataMap \<times> dm_out) res" where
  "get_step dm out r = bindR r (\<lambda>v. Inr (dm, out v))"

fun dm_step :: "allocator \<Rightarrow> DataMap \<Rightarrow> dm_op \<Rightarrow> (DataMap \<times> dm_out) res" where
  "dm_step malloc dm (OpSetInt64 k v r) = set_step (DataMap_SetInt64 malloc (Some dm) k v r)"
| "dm_step malloc dm (OpSetString k s n r) = set_step (DataMap_SetString malloc (Some dm) k s n r)"
| "dm_step malloc dm (OpSetInt64List k xs n r) = set_step (DataMap_SetInt64List malloc (Some dm) k xs n r)"
| "dm_step malloc dm (OpSetStringList k ss ns r) = set_step (DataMap_SetStringList malloc (Some dm) k ss ns r)"
| "dm_step malloc dm (OpGetType k) = get_step dm OutType (DataMap_GetType (Some dm) k)"
| "dm_step malloc dm (OpGetInt64 k) = get_step dm OutInt64 (DataMap_GetInt64 (Some dm) k True)"
| "dm_step malloc dm (OpGetString k) = get_step dm OutString (DataMap_GetString (Some dm) k True)"
| "dm_step malloc dm (OpGetInt64List k) = get_step dm OutInt64List (DataMap_GetInt64List (Some dm) k True)"
| "dm_step malloc dm (OpGetStringList k) = get_step dm OutStringList (DataMap_GetStringList (Some dm) k True)"

text \<open>The specification.\<close>

type_synonym typed_map = "DMKeyType \<Rightarrow> DataMapEntry option"

definition put_spec :: "typed_map \<Rightarrow> DMKeyType \<Rightarrow> DataMapEntry \<Rightarrow> bool \<Rightarrow> typed_map \<times> dm_out" where
  "put_spec a k e replace =
     (if a k \<noteq> None \<and> \<not> replace then (a, OutErr DMERR_ALREADY_EXIST)
      else (a(k \<mapsto> e), OutErr DMERR_SUCCESS))"

definition get_spec :: "typed_map \<Rightarrow> DMKeyType \<Rightarrow> (DataMapEntry \<Rightarrow> 'v option) \<Rightarrow> ErrorCode \<times> 'v option" where
  "get_spec a k pick =
     (case a k of None \<Rightarrow> (DMERR_NOT_FOUND, None)
      | Some e \<Rightarrow> (case pick e of None \<Rightarrow> (DMERR_TYPE_MISMATCH, None) | Some v \<Rightarrow> (DMERR_SUCCESS, Some v)))"

definition zero_terminated :: "u8 list \<Rightarrow> i32" where
  "zero_terminated s = of_nat (length (takeWhile (\<lambda>c. c \<noteq> 0) s))"

fun typed_map_spec :: "typed_map \<Rightarrow> dm_op \<Rightarrow> typed_map \<times> dm_out" where
  "typed_map_spec a (OpSetInt64 k v r) = put_spec a k (DM_Int64 v) r"
| "typed_map_spec a (OpSetString k s n r) =
     (case s of None \<Rightarrow> (a, OutErr DMERR_INVALID_ARGS)
      | Some str \<Rightarrow>
          if n = - 1 then put_spec a k (DM_String (zero_terminated str) str) r
          else if sint n < 0 then (a, OutErr DMERR_INVALID_ARGS)
          else put_spec a k (DM_String n str) r)"
| "typed_map_spec a (OpSetInt64List k xs n r) =
     (case xs of None \<Rightarrow> (a, OutErr DMERR_INVALID_ARGS)
      | Some nums \<Rightarrow>
          if sint n < 0 then (a, OutErr DMERR_INVALID_ARGS) else put_spec a k (DM_Int64List n nums) r)"
| "typed_map_spec a (OpSetStringList k ss ns r) =
     (case ss of None \<Rightarrow> (a, OutErr DMERR_INVALID_ARGS)
      | Some strs \<Rightarrow> put_spec a k (DM_StringList strs ns) r)"
| "typed_map_spec a (OpGetType k) =
     (a, OutType (case a k of None \<Rightarrow> DMFIELDTYPE_EMPTY | Some e \<Rightarrow> entry_type e))"
| "typed_map_spec a (OpGetInt64 k) =
     (a, OutInt64 (get_spec a k (\<lambda>e. case e of DM_Int64 v \<Rightarrow> Some v | _ \<Rightarrow> None)))"
| "typed_map_spec a (OpGetString k) =
     (a, OutString (get_spec a k (\<lambda>e. case e of DM_String n s \<Rightarrow> Some (s, n) | _ \<Rightarrow> None)))"
| "typed_map_spec a (OpGetInt64List k) =
     (a, OutInt64List (get_spec a k (\<lambda>e. case e of DM_Int64List n xs \<Rightarrow> Some (xs, n) | _ \<Rightarrow> None)))"
| "typed_map_spec a (OpGetStringList k) =
     (a, OutStringList (get_spec a k (\<lambda>e. case e of DM_StringList ss ns \<Rightarrow> Some (ss, ns) | _ \<Rightarrow> None)))"

text \<open>What the caller owes: blocks at least as long as the lengths passed with them.\<close>

fun dm_legal :: "dm_op \<Rightarrow> bool" where
  "dm_legal (OpSetString k (Some s) n r) =
     (if n = - 1 then 0 \<in> set s \<and> length s < 2 ^ 31 else 0 \<le> sint n \<longrightarrow> unat n \<le> length s)"
| "dm_legal (OpSetInt64List k (Some xs) n r) = (0 \<le> sint n \<longrightarrow> unat n \<le> length xs)"
| "dm_legal (OpSetStringList k (Some ss) ns r) = entry_wf (DM_StringList ss ns)"
| "dm_legal _ = True"

section \<open>Simulation\<close>

lemma SetEntryValue_sim:
  assumes wf: "dm_wf dm" and cap: "0 < dm_cap dm" and alloc: "good_alloc malloc" and e: "entry_wf e"
  obtains dm' err where "SetEntryValue malloc dm k e r = Inr (dm', err)" and "dm_wf dm'"
    and "put_spec (dm_abs dm) k e r = (dm_abs dm', OutErr err)" and "dm_cap dm \<le> Suc (dm_cap dm')"
proof -
  have inv: "dm_inv dm" using wf by (simp add: dm_wf_def)
  consider "dm_abs dm k = None" | "dm_abs dm k \<noteq> None" "r" | "dm_abs dm k \<noteq> None" "\<not> r" by blast
  then show thesis
  proof cases
    case 1
    obtain dm' where "AddEntry malloc dm k e = Inr (dm', DMERR_SUCCESS)" "dm_inv dm'"
      "dm_abs dm' = (dm_abs dm)(k \<mapsto> e)" "dm_cap dm \<le> Suc (dm_cap dm')"
      by (rule AddEntry_spec [OF inv cap alloc])
    with 1 wf e show thesis
      by (intro that [of dm' DMERR_SUCCESS])
         (auto simp: SetEntryValue_def LookupEntry_abs [OF inv] put_spec_def dm_wf_iff)
  next
    case 2
    obtain dm' where "WriteEntry dm k e = Inr dm'" "dm_inv dm'"
      "dm_abs dm' = (dm_abs dm)(k \<mapsto> e)" "dm_cap dm' = dm_cap dm"
      by (rule WriteEntry_spec [OF inv 2(1)])
    with 2 wf e show thesis
      by (intro that [of dm' DMERR_SUCCESS])
         (auto simp: SetEntryValue_def LookupEntry_abs [OF inv] put_spec_def dm_wf_iff)
  next
    case 3
    with wf show thesis
      by (intro that [of dm DMERR_ALREADY_EXIST])
         (auto simp: SetEntryValue_def LookupEntry_abs [OF inv] put_spec_def)
  qed
qed

lemma GetEntryValue_sim:
  assumes "dm_inv dm"
  shows "GetEntryValue (Some dm) k True pick = Inr (get_spec (dm_abs dm) k pick)"
  by (simp add: GetEntryValue_def LookupEntry_abs [OF assms] get_spec_def)

lemma zero_terminated_wf:
  assumes "0 \<in> set s" and "length s < 2 ^ 31"
  shows "c_strlen s = Inr (length (takeWhile (\<lambda>c. c \<noteq> 0) s))" and "string_wf s (zero_terminated s)"
proof -
  let ?n = "length (takeWhile (\<lambda>c. c \<noteq> 0) s)"
  have le: "?n \<le> length s" by (rule length_takeWhile_le)
  then have "unat (of_nat ?n :: i32) = ?n" using assms(2) by (intro unat_of_nat_bound) simp
  moreover have "sint (of_nat ?n :: i32) = int ?n" using assms(2) le by (intro sint_of_nat32) simp
  ultimately show "string_wf s (zero_terminated s)"
    using le by (simp add: string_wf_def zero_terminated_def)
qed (use assms(1) in \<open>simp add: c_strlen_def\<close>)

lemma set_step_sim:
  assumes "dm_wf dm" and "0 < dm_cap dm" and "good_alloc malloc" and "entry_wf e"
  shows "\<exists>dm' out. set_step (on_map (Some dm) (\<lambda>d. SetEntryValue malloc d k e r)) = Inr (dm', out) \<and> dm_wf dm' \<and>
    put_spec (dm_abs dm) k e r = (dm_abs dm', out) \<and> dm_cap dm \<le> Suc (dm_cap dm')"
  using SetEntryValue_sim [OF assms, of k r] by (fastforce simp: set_step_def on_map_def)

lemma dm_step_sim:
  assumes wf: "dm_wf dm" and cap: "0 < dm_cap dm" and legal: "dm_legal op" and alloc: "good_alloc malloc"
  shows "\<exists>dm' out. dm_step malloc dm op = Inr (dm', out) \<and> dm_wf dm' \<and>
    typed_map_spec (dm_abs dm) op = (dm_abs dm', out) \<and> dm_cap dm \<le> Suc (dm_cap dm')"
proof -
  note set = set_step_sim [OF wf cap alloc]
  have inv: "dm_inv dm" using wf by (simp add: dm_wf_def)
  have err: "set_step (Inr (Some dm, e)) = Inr (dm, OutErr e)" for e by (simp add: set_step_def)
  note get = GetEntryValue_sim [OF inv] get_step_def DataMap_GetInt64_def DataMap_GetString_def
    DataMap_GetInt64List_def DataMap_GetStringList_def
  show ?thesis
  proof (cases op)
    case (OpSetInt64 k v r)
    with set [of "DM_Int64 v" k r] show ?thesis by (simp add: DataMap_SetInt64_def)
  next
    case (OpSetString k s n r)
    show ?thesis
    proof (cases s)
      case None
      with OpSetString wf show ?thesis by (simp add: DataMap_SetString_def err)
    next
      case (Some str)
      consider "n = - 1" | "n \<noteq> - 1" "sint n < 0" | "n \<noteq> - 1" "0 \<le> sint n" by linarith
      then show ?thesis
      proof cases
        case 1
        then have "0 \<in> set str" "length str < 2 ^ 31" using legal OpSetString Some by simp_all
        note z = zero_terminated_wf [OF this]
        from z(2) have "entry_wf (DM_String (zero_terminated str) str)" by simp
        from set [OF this, of k r] show ?thesis
          using OpSetString Some 1 by (simp add: DataMap_SetString_def z(1) zero_terminated_def)
      next
        case 2
        with OpSetString Some wf show ?thesis by (simp add: DataMap_SetString_def err)
      next
        case 3
        then have "entry_wf (DM_String n str)" using legal OpSetString Some by (simp add: string_wf_def)
        from set [OF this, of k r] 3 show ?thesis
          using OpSetString Some by (simp add: DataMap_SetString_def)
      qed
    qed
  next
    case (OpSetInt64List k xs n r)
    show ?thesis
    proof (cases xs)
      case None
      with OpSetInt64List wf show ?thesis by (simp add: DataMap_SetInt64List_def err)
    next
      case (Some nums)
      show ?thesis
      proof (cases "sint n < 0")
        case True
        with OpSetInt64List Some wf show ?thesis by (simp add: DataMap_SetInt64List_def err)
      next
        case False
        then have "entry_wf (DM_Int64List n nums)" using legal OpSetInt64List Some by simp
        from set [OF this, of k r] False show ?thesis
          using OpSetInt64List Some by (simp add: DataMap_SetInt64List_def)
      qed
    qed
  next
    case (OpSetStringList k ss ns r)
    show ?thesis
    proof (cases ss)
      case None
      with OpSetStringList wf show ?thesis by (simp add: DataMap_SetStringList_def err)
    next
      case (Some strs)
      then have "entry_wf (DM_StringList strs ns)" using legal OpSetStringList by simp
      from set [OF this, of k r] show ?thesis
        using OpSetStringList Some by (simp add: DataMap_SetStringList_def)
    qed
  qed (use wf in \<open>simp_all add: get get_step_def DataMap_GetType_def LookupEntry_abs [OF inv]\<close>)
qed

text \<open>The contract of a sequence of calls, for the 64-bit allocator.\<close>

interpretation datamap: implementation "dm_step malloc63" typed_map_spec dm_wf dm_abs dm_cap "\<lambda>dm. dm_legal"
  by unfold_locales (use dm_step_sim [OF _ _ _ malloc63_good] in blast)

section \<open>Copying\<close>

text \<open>The value that arrives in the copy: a number list has the contents of a fresh block.\<close>

fun copied_entry :: "(nat \<Rightarrow> i64 list) \<Rightarrow> DataMapEntry \<Rightarrow> DataMapEntry" where
  "copied_entry uninit (DM_Int64List n xs) = DM_Int64List n (uninit (unat n))"
| "copied_entry uninit e = trimmed e"

lemma CopyStrings_spec:
  assumes "length ss \<le> length ns" and "list_all (\<lambda>(s, n). string_wf s n) (zip ss ns)" and "good_alloc malloc"
  shows "CopyStrings malloc ss ns = Inr (Inr (map2 (\<lambda>s n. take (unat n) s) ss ns))"
  using assms(1,2)
proof (induction ss arbitrary: ns)
  case (Cons s ss)
  then obtain n ns' where ns: "ns = n # ns'" by (cases ns) auto
  have n: "0 \<le> sint n" "unat n \<le> length s" using Cons.prems ns by (simp_all add: string_wf_def)
  then have "malloc (size_of_int32 n)"
    using nonneg32(2) [OF n(1)] by (simp add: good_allocD [OF assms(3)] size_of_int32_nonneg)
  with n Cons ns show ?case by (simp add: memcpy_read_wf)
qed simp

lemma CopyStringListEntry_spec:
  assumes "entry_wf (DM_StringList ss ns)" and "good_alloc malloc"
  shows "CopyStringListEntry malloc k ss ns dst = AddEntry malloc dst k (trimmed (DM_StringList ss ns))"
proof -
  let ?l = "of_nat (length ss) :: i32"
  have w: "length ss \<le> length ns" "length ss < 2147483647" "list_all (\<lambda>(s, n). string_wf s n) (zip ss ns)"
    using assms(1) by simp_all
  have l: "sint ?l = int (length ss)" "unat ?l = length ss"
    using w(2) by (intro sint_of_nat32 unat_of_nat_bound; simp)+
  have "good_count ?l" using w(2) by (simp add: good_count_def l)
  note g = good_count_alloc [OF this assms(2)]
  have lens: "memcpy_read ns ?l = Inr (take (length ss) ns)"
    using memcpy_read_wf [of ?l ns] l w(1) by simp
  have z: "zip ss (take (length ss) ns) = zip ss ns"
    using take_zip [of "length ss" ss ns] by simp
  have "CopyStrings malloc ss (take (length ss) ns) = Inr (Inr (map2 (\<lambda>s n. take (unat n) s) ss ns))"
    using CopyStrings_spec [of ss "take (length ss) ns" malloc] w assms(2) by (simp add: z)
  then show ?thesis
    using g lens by (simp add: CopyStringListEntry_def Let_def AddEntry_StringList_def)
qed

lemma HashMapCopyEntryCb_spec:
  assumes wf: "entry_wf e" and dst: "dm_inv dst" "0 < dm_cap dst" and alloc: "good_alloc malloc"
  obtains dst' where "HashMapCopyEntryCb malloc uninit key (Some e) (dst, DMERR_SUCCESS) = Inr (dst', DMERR_SUCCESS)"
    and "dm_inv dst'" and "dm_abs dst' = (dm_abs dst)(key_of_le key \<mapsto> copied_entry uninit e)"
    and "dm_cap dst \<le> Suc (dm_cap dst')"
proof -
  obtain dst' where d: "AddEntry malloc dst (key_of_le key) (copied_entry uninit e) = Inr (dst', DMERR_SUCCESS)" "dm_inv dst'"
    "dm_abs dst' = (dm_abs dst)(key_of_le key \<mapsto> copied_entry uninit e)" "dm_cap dst \<le> Suc (dm_cap dst')"
    by (rule AddEntry_spec [OF dst alloc])
  have "HashMapCopyEntryCb malloc uninit key (Some e) (dst, DMERR_SUCCESS) =
      AddEntry malloc dst (key_of_le key) (copied_entry uninit e)"
  proof (cases e)
    case (DM_String n s)
    have n: "0 \<le> sint n" "unat n \<le> length s" using wf DM_String by (simp_all add: string_wf_def)
    have "malloc (size_of_int32 n)"
      using nonneg32(2) [OF n(1)] by (simp add: good_allocD [OF alloc] size_of_int32_nonneg [OF n(1)])
    then show ?thesis
      using n DM_String by (simp add: HashMapCopyEntryCb_def memcpy_read_wf AddEntry_String_def Let_def)
  next
    case (DM_Int64List n xs)
    have n: "0 \<le> sint n" using wf DM_Int64List by simp
    have "unat (8 * scast n :: u64) = 8 * unat n"
      using nonneg32(2) [OF n] by (subst unat_mult_bound) (simp_all add: unat_scast n)
    then have "malloc (unat (8 * scast n :: u64))"
      using nonneg32(2) [OF n] by (simp add: good_allocD [OF alloc])
    then show ?thesis
      using n DM_Int64List by (simp add: HashMapCopyEntryCb_def AddEntry_Int64List_def nonneg32(1) Let_def)
  next
    case (DM_StringList ss ns)
    then show ?thesis
      using CopyStringListEntry_spec [of ss ns malloc "key_of_le key" dst] wf alloc
      by (simp add: HashMapCopyEntryCb_def Let_def)
  qed (simp add: HashMapCopyEntryCb_def AddEntry_Int64_def Let_def)
  with d show thesis by (intro that [of dst']) simp_all
qed

lemma copy_pass:
  assumes "\<forall>(k, e) \<in> set es. entry_wf e" and "dm_inv dst" and "length es \<le> dm_cap dst" and "good_alloc malloc"
    and "distinct (map fst (map (\<lambda>(k, e). (key_of_le k, e)) es))"
  shows "\<exists>dst'. foldR (\<lambda>(k, v). HashMapCopyEntryCb malloc uninit k (Some v)) es (dst, DMERR_SUCCESS) =
      Inr (dst', DMERR_SUCCESS) \<and> dm_inv dst' \<and>
      dm_abs dst' = dm_abs dst ++ map_of (map (\<lambda>(k, e). (key_of_le k, copied_entry uninit e)) es)"
  using assms(1-3,5)
proof (induction es arbitrary: dst)
  case (Cons x es)
  obtain k e where x: "x = (k, e)" by (cases x)
  have wf: "entry_wf e" "0 < dm_cap dst" using Cons.prems x by simp_all
  obtain d1 where d1: "HashMapCopyEntryCb malloc uninit k (Some e) (dst, DMERR_SUCCESS) = Inr (d1, DMERR_SUCCESS)"
    "dm_inv d1" "dm_abs d1 = (dm_abs dst)(key_of_le k \<mapsto> copied_entry uninit e)" "dm_cap dst \<le> Suc (dm_cap d1)"
    by (rule HashMapCopyEntryCb_spec [OF wf(1) Cons.prems(2) wf(2) assms(4)])
  have p: "\<forall>(k, e) \<in> set es. entry_wf e" "length es \<le> dm_cap d1"
    "distinct (map fst (map (\<lambda>(k, e). (key_of_le k, e)) es))"
    using Cons.prems d1(4) by simp_all
  obtain d2 where d2: "foldR (\<lambda>(k, v). HashMapCopyEntryCb malloc uninit k (Some v)) es (d1, DMERR_SUCCESS) =
      Inr (d2, DMERR_SUCCESS)" "dm_inv d2"
    "dm_abs d2 = dm_abs d1 ++ map_of (map (\<lambda>(k, e). (key_of_le k, copied_entry uninit e)) es)"
    using Cons.IH [OF p(1) d1(2) p(2,3)] by blast
  have "key_of_le k \<notin> dom (map_of (map (\<lambda>(k, e). (key_of_le k, copied_entry uninit e)) es))"
    using Cons.prems(4) x by (auto simp: dom_map_of_conv_image_fst image_iff case_prod_unfold)
  then have "dm_abs d2 = dm_abs dst ++ map_of (map (\<lambda>(k, e). (key_of_le k, copied_entry uninit e)) (x # es))"
    unfolding d2(3) d1(3) x by (intro ext) (auto simp: map_add_def domIff split: option.splits)
  moreover have "foldR (\<lambda>(k, v). HashMapCopyEntryCb malloc uninit k (Some v)) (x # es) (dst, DMERR_SUCCESS) =
      Inr (d2, DMERR_SUCCESS)"
    using d1(1) d2(1) x by simp
  ultimately show ?case using d2(2) by blast
qed simp

section \<open>Properties\<close>



text \<open>
  C34. \<^verbatim>\<open>DataMap_Copy\<close> of a well-formed map succeeds, and the copy binds the same field ids. Integers,
  strings and string lists arrive unchanged (cut to their lengths). A number list arrives with its
  length and the contents of the freshly allocated block: its numbers are not copied.
\<close>

theorem DataMap_Copy_contents:
  assumes "dm_wf src" and "length (dm_entries src) \<le> 2 ^ 29" and "good_alloc malloc"
  shows "\<exists>dst'. DataMap_Copy malloc uninit (Some src) (Some dst) = Inr (Some dst', DMERR_SUCCESS) \<and> dm_inv dst' \<and>
    dm_abs dst' = (\<lambda>k. map_option (copied_entry uninit) (dm_abs src k))"
proof -
  have inv: "dm_inv src" and wf: "\<forall>(k, e) \<in> set (dm_entries src). entry_wf e"
    using assms(1) by (simp_all add: dm_wf_def)
  obtain m where m: "dm_map src = Some m" "hm_ready m" "hm_inv m" using inv by (rule dm_invE)
  have es: "dm_entries src = map (\<lambda>(k, e). (key_of_le k, e)) (hm_list m)"
    using m(1) by (simp add: dm_entries_def)
  obtain d where d: "DataMap_Create malloc (Some dst) = (Some d, DMERR_SUCCESS)" "dm_inv d"
    "dm_abs d = Map.empty" "dm_cap d = 2 ^ 29"
    by (rule DataMap_Create_spec [OF assms(3)])
  have p: "\<forall>(k, e) \<in> set (hm_list m). entry_wf e" "length (hm_list m) \<le> dm_cap d"
    using wf assms(2) d(4) unfolding es by auto
  obtain d' where d': "foldR (\<lambda>(k, v). HashMapCopyEntryCb malloc uninit k (Some v)) (hm_list m) (d, DMERR_SUCCESS) =
      Inr (d', DMERR_SUCCESS)" "dm_inv d'"
    "dm_abs d' = dm_abs d ++ map_of (map (\<lambda>(k, e). (key_of_le k, copied_entry uninit e)) (hm_list m))"
    using copy_pass [OF p(1) d(2) p(2) assms(3)] dm_entries_abs(1) [OF inv] unfolding es by blast
  have "map (\<lambda>(k, e). (key_of_le k, copied_entry uninit e)) (hm_list m) =
      map (\<lambda>(k, e). (k, copied_entry uninit e)) (dm_entries src)"
    by (simp add: es case_prod_unfold)
  then have "dm_abs d' = (\<lambda>k. map_option (copied_entry uninit) (dm_abs src k))"
    using d'(3) d(3) map_of_map [of "copied_entry uninit" "dm_entries src"] dm_entries_abs(3) [OF inv]
    by (auto simp: fun_eq_iff)
  with d' show ?thesis
    using d(1) m(1) HashMap_Iterate_list(1) [OF m(3), of "HashMapCopyEntryCb malloc uninit" "(d, DMERR_SUCCESS)"]
    by (simp add: DataMap_Copy_def)
qed

theorem DataMap_Copy_contents_witness:
  "\<exists>src dst'. one_entry 3 (DM_Int64List 2 [10, 20]) src \<and>
     DataMap_Copy malloc63 (\<lambda>n. map (\<lambda>_. 0) [0 ..< n]) (Some src) (Some \<lparr>dm_map = None, dm_cookie = 0\<rparr>) =
       Inr (Some dst', DMERR_SUCCESS) \<and>
     dm_abs src 3 = Some (DM_Int64List 2 [10, 20]) \<and> dm_abs dst' 3 = Some (DM_Int64List 2 [0, 0])"
proof -
  obtain src where src: "one_entry 3 (DM_Int64List 2 [10, 20]) src" "dm_wf src"
    "dm_abs src = [3 \<mapsto> DM_Int64List 2 [10, 20]]" "dm_entries src = [(3, DM_Int64List 2 [10, 20])]"
    by (rule one_entry [of "DM_Int64List 2 [10, 20]" 3]) simp_all
  have "length (dm_entries src) \<le> 2 ^ 29" using src(4) by simp
  from DataMap_Copy_contents [OF src(2) this malloc63_good, of "\<lambda>n. map (\<lambda>_. 0) [0 ..< n]" "\<lparr>dm_map = None, dm_cookie = 0\<rparr>"]
  obtain dst' where "DataMap_Copy malloc63 (\<lambda>n. map (\<lambda>_. 0) [0 ..< n]) (Some src) (Some \<lparr>dm_map = None, dm_cookie = 0\<rparr>) =
      Inr (Some dst', DMERR_SUCCESS)"
    "dm_abs dst' = (\<lambda>k. map_option (copied_entry (\<lambda>n. map (\<lambda>_. 0) [0 ..< n])) (dm_abs src k))" by blast
  note c = this
  show ?thesis
    by (rule exI [where x = src], rule exI [where x = dst'], use c src(1,3) in \<open>simp add: upt_rec\<close>)
qed

end
