(* ===== verification/Base64.thy ===== *)
theory Base64
  imports Prelude
begin

text \<open>
  \<^verbatim>\<open>lib/misc/base64.c\<close>: the encoder, the chunk decoder that skips white space, the length functions and
  the allocating wrappers. A C string is a block of bytes that holds a zero.
\<close>

section \<open>Tables\<close>

text \<open>\<^verbatim>\<open>"A" .. "Z" "a" .. "z" "0" .. "9" "+" "/"\<close>.\<close>

definition Base64 :: "u8 list" where
  "Base64 =
     [65, 66, 67, 68, 69, 70, 71, 72, 73, 74, 75, 76, 77, 78, 79, 80,
      81, 82, 83, 84, 85, 86, 87, 88, 89, 90, 97, 98, 99, 100, 101, 102,
      103, 104, 105, 106, 107, 108, 109, 110, 111, 112, 113, 114, 115, 116, 117, 118,
      119, 120, 121, 122, 48, 49, 50, 51, 52, 53, 54, 55, 56, 57, 43, 47]"

definition Pad64 :: u8 where
  "Pad64 = 61"

definition ILLEGAL :: int where
  "ILLEGAL = - 1"

definition EOM :: int where
  "EOM = - 2"

definition WS :: int where
  "WS = - 3"

definition base64Reverse :: "int list" where
  "base64Reverse =
     [EOM, ILLEGAL, ILLEGAL, ILLEGAL, ILLEGAL, ILLEGAL, ILLEGAL, ILLEGAL,
      ILLEGAL, WS, WS, WS, WS, WS, ILLEGAL, ILLEGAL,
      ILLEGAL, ILLEGAL, ILLEGAL, ILLEGAL, ILLEGAL, ILLEGAL, ILLEGAL, ILLEGAL,
      ILLEGAL, ILLEGAL, ILLEGAL, ILLEGAL, ILLEGAL, ILLEGAL, ILLEGAL, ILLEGAL,
      WS, ILLEGAL, ILLEGAL, ILLEGAL, ILLEGAL, ILLEGAL, ILLEGAL, ILLEGAL,
      ILLEGAL, ILLEGAL, ILLEGAL, 62, ILLEGAL, ILLEGAL, ILLEGAL, 63,
      52, 53, 54, 55, 56, 57, 58, 59,
      60, 61, ILLEGAL, ILLEGAL, ILLEGAL, EOM, ILLEGAL, ILLEGAL,
      ILLEGAL, 0, 1, 2, 3, 4, 5, 6,
      7, 8, 9, 10, 11, 12, 13, 14,
      15, 16, 17, 18, 19, 20, 21, 22,
      23, 24, 25, ILLEGAL, ILLEGAL, ILLEGAL, ILLEGAL, ILLEGAL,
      ILLEGAL, 26, 27, 28, 29, 30, 31, 32,
      33, 34, 35, 36, 37, 38, 39, 40,
      41, 42, 43, 44, 45, 46, 47, 48,
      49, 50, 51, ILLEGAL, ILLEGAL, ILLEGAL, ILLEGAL, ILLEGAL,
      ILLEGAL, ILLEGAL, ILLEGAL, ILLEGAL, ILLEGAL, ILLEGAL, ILLEGAL, ILLEGAL,
      ILLEGAL, ILLEGAL, ILLEGAL, ILLEGAL, ILLEGAL, ILLEGAL, ILLEGAL, ILLEGAL,
      ILLEGAL, ILLEGAL, ILLEGAL, ILLEGAL, ILLEGAL, ILLEGAL, ILLEGAL, ILLEGAL,
      ILLEGAL, ILLEGAL, ILLEGAL, ILLEGAL, ILLEGAL, ILLEGAL, ILLEGAL, ILLEGAL,
      ILLEGAL, ILLEGAL, ILLEGAL, ILLEGAL, ILLEGAL, ILLEGAL, ILLEGAL, ILLEGAL,
      ILLEGAL, ILLEGAL, ILLEGAL, ILLEGAL, ILLEGAL, ILLEGAL, ILLEGAL, ILLEGAL,
      ILLEGAL, ILLEGAL, ILLEGAL, ILLEGAL, ILLEGAL, ILLEGAL, ILLEGAL, ILLEGAL,
      ILLEGAL, ILLEGAL, ILLEGAL, ILLEGAL, ILLEGAL, ILLEGAL, ILLEGAL, ILLEGAL,
      ILLEGAL, ILLEGAL, ILLEGAL, ILLEGAL, ILLEGAL, ILLEGAL, ILLEGAL, ILLEGAL,
      ILLEGAL, ILLEGAL, ILLEGAL, ILLEGAL, ILLEGAL, ILLEGAL, ILLEGAL, ILLEGAL,
      ILLEGAL, ILLEGAL, ILLEGAL, ILLEGAL, ILLEGAL, ILLEGAL, ILLEGAL, ILLEGAL,
      ILLEGAL, ILLEGAL, ILLEGAL, ILLEGAL, ILLEGAL, ILLEGAL, ILLEGAL, ILLEGAL,
      ILLEGAL, ILLEGAL, ILLEGAL, ILLEGAL, ILLEGAL, ILLEGAL, ILLEGAL, ILLEGAL,
      ILLEGAL, ILLEGAL, ILLEGAL, ILLEGAL, ILLEGAL, ILLEGAL, ILLEGAL, ILLEGAL,
      ILLEGAL, ILLEGAL, ILLEGAL, ILLEGAL, ILLEGAL, ILLEGAL, ILLEGAL, ILLEGAL,
      ILLEGAL, ILLEGAL, ILLEGAL, ILLEGAL, ILLEGAL, ILLEGAL, ILLEGAL, ILLEGAL]"

definition rev64 :: "u8 \<Rightarrow> int" where
  "rev64 c = base64Reverse ! unat c"

section \<open>Encoding\<close>

text \<open>
  The four characters of three bytes. The indices into \<^verbatim>\<open>Base64\<close> have six bits (lemma \<open>b64_index\<close>), so
  the table is read within its bounds.
\<close>

definition b64 :: "u8 \<Rightarrow> u8" where
  "b64 i = Base64 ! unat i"

definition enc_quad :: "u8 \<Rightarrow> u8 \<Rightarrow> u8 \<Rightarrow> u8 list" where
  "enc_quad s0 s1 s2 =
     [b64 (drop_bit 2 s0), b64 (push_bit 4 (s0 AND 0x03) OR drop_bit 4 s1),
      b64 (push_bit 2 (s1 AND 0x0f) OR drop_bit 6 s2), b64 (s2 AND 0x3f)]"

function Base64_Encode_loop :: "u8 list \<Rightarrow> u64 \<Rightarrow> OutBuf \<Rightarrow> (u8 list \<times> u64 \<times> OutBuf) res" where
  "Base64_Encode_loop src srcSize dst =
     (if srcSize > 2
      then if length src < 3 then Inl OutOfBounds
           else bindR (WriteBytes dst (enc_quad (src ! 0) (src ! 1) (src ! 2))) (\<lambda>dst1.
                  Base64_Encode_loop (drop 3 src) (srcSize - 3) dst1)
      else Inr (src, srcSize, dst))"
  by pat_completeness auto
termination
  by (relation "measure (\<lambda>(src, srcSize, dst). unat srcSize)")
     (auto simp: word_less_nat_alt unat_sub word_le_nat_alt)

declare Base64_Encode_loop.simps [simp del]

definition Base64_Encode_tail :: "u8 list \<Rightarrow> u64 \<Rightarrow> OutBuf \<Rightarrow> OutBuf res" where
  "Base64_Encode_tail src srcSize dst =
     (if srcSize = 0 then Inr dst
      else let srcSize1 = srcSize - 1
           in if length src < 1 \<or> srcSize1 \<noteq> 0 \<and> length src < 2 then Inl OutOfBounds
              else let src1 = (if srcSize1 \<noteq> 0 then src ! 1 else 0)
                   in WriteBytes dst
                        [b64 (drop_bit 2 (src ! 0)), b64 (push_bit 4 (src ! 0 AND 0x03) OR drop_bit 4 src1),
                         if srcSize1 \<noteq> 0 then b64 (push_bit 2 (src1 AND 0x0f)) else Pad64, Pad64])"

text \<open>
  \<open>dst\<close> is the destination, its block and what is written; the result also holds \<^verbatim>\<open>*dstSize\<close>, which does
  not count the terminating zero.
\<close>

definition Base64_Encode :: "u8 list \<Rightarrow> u64 \<Rightarrow> OutBuf \<Rightarrow> u64 \<Rightarrow> (bool \<times> OutBuf \<times> u64) res" where
  "Base64_Encode src srcSize dst dstMax =
     (if srcSize + 2 < srcSize \<or> dstMax < 1 \<or> (srcSize + 2) div 3 > (dstMax - 1) div 4
      then Inr (False, dst, 0)
      else bindR (Base64_Encode_loop src srcSize dst) (\<lambda>(src1, srcSize1, dst1).
             bindR (Base64_Encode_tail src1 srcSize1 dst1) (\<lambda>dst2.
               bindR (WriteBytes dst2 [0]) (\<lambda>dst3.
                 Inr (True, dst3, of_nat (length (ob_bytes dst2) - length (ob_bytes dst)))))))"

section \<open>Decoding\<close>

text \<open>
  The decoder: \<open>b\<close> collects bits, \<open>n\<close> counts those not yet written; \<^verbatim>\<open>i\<close> is the number of bytes written
  to \<open>out\<close>. The result is \<^verbatim>\<open>FALSE\<close> or \<^verbatim>\<open>TRUE\<close> with \<^verbatim>\<open>*dataLength\<close>.
\<close>

function Base64_ChunkDecode_loop :: "u8 list \<Rightarrow> u64 \<Rightarrow> u64 \<Rightarrow> u64 \<Rightarrow> u32 \<Rightarrow> nat \<Rightarrow> OutBuf \<Rightarrow> (bool \<times> OutBuf \<times> nat) res" where
  "Base64_ChunkDecode_loop inp inSize outSize inputIndex b n out =
     (if inputIndex < inSize
      then if length inp \<le> unat inputIndex then Inl OutOfBounds
           else let p = rev64 (inp ! unat inputIndex); i = length (ob_bytes out)
                in if p < 0
                   then if p = WS
                        then Base64_ChunkDecode_loop inp inSize outSize (inputIndex + 1) b n out
                        else if p = EOM then Inr (True, out, i)
                        else Inr (False, out, 0)
                   else if i \<ge> unat outSize then Inr (False, out, 0)
                   else let b1 = push_bit 6 b OR word_of_int p; n1 = n + 6
                        in if n1 \<ge> 8
                           then bindR (WriteBytes out [ucast (drop_bit (n1 - 8) b1)]) (\<lambda>out1.
                                  Base64_ChunkDecode_loop inp inSize outSize (inputIndex + 1) b1 (n1 - 8) out1)
                           else Base64_ChunkDecode_loop inp inSize outSize (inputIndex + 1) b1 n1 out
      else Inr (True, out, length (ob_bytes out)))"
  by pat_completeness auto
termination
  by (relation "measure (\<lambda>(inp, inSize, outSize, inputIndex, b, n, out). unat inSize - unat inputIndex)")
     (auto intro: count_up)

declare Base64_ChunkDecode_loop.simps [simp del]

definition Base64_ChunkDecode :: "u8 list \<Rightarrow> u64 \<Rightarrow> OutBuf \<Rightarrow> u64 \<Rightarrow> (bool \<times> OutBuf \<times> nat) res" where
  "Base64_ChunkDecode inp inSize out outSize = Base64_ChunkDecode_loop inp inSize outSize 0 0 0 out"

definition Base64_Decode :: "u8 list \<Rightarrow> OutBuf \<Rightarrow> u64 \<Rightarrow> (bool \<times> OutBuf \<times> nat) res" where
  "Base64_Decode inp out outSize = Base64_ChunkDecode inp (- 1) out outSize"

section \<open>Lengths and wrappers\<close>

text \<open>\<^verbatim>\<open>isalpha\<close> and \<^verbatim>\<open>isdigit\<close> of the C locale, and the characters \<^verbatim>\<open>+\<close>, \<^verbatim>\<open>=\<close> and \<^verbatim>\<open>/\<close>.\<close>

definition valid_char :: "u8 \<Rightarrow> bool" where
  "valid_char c \<longleftrightarrow> 65 \<le> c \<and> c \<le> 90 \<or> 97 \<le> c \<and> c \<le> 122 \<or> 48 \<le> c \<and> c \<le> 57 \<or>
     c = 43 \<or> c = 61 \<or> c = 47"

definition Base64_ValidEncoding :: "u8 list \<Rightarrow> nat \<Rightarrow> bool res" where
  "Base64_ValidEncoding src srcLength =
     (case find (\<lambda>c. \<not> valid_char c) (take srcLength src) of
        Some c \<Rightarrow> Inr False
      | None \<Rightarrow> if srcLength \<le> length src then Inr True else Inl OutOfBounds)"

definition Base64_EncodedLength :: "u64 \<Rightarrow> u64" where
  "Base64_EncodedLength srcLength = (srcLength + 2) div 3 * 4 + 1"

definition Base64_DecodedLength :: "u8 list \<Rightarrow> u64 \<Rightarrow> u64 res" where
  "Base64_DecodedLength src srcLength =
     (let len = srcLength div 4 * 3
      in if len > 2
         then if length src < unat srcLength then Inl OutOfBounds
              else let l1 = (if src ! unat (srcLength - 1) = 61 then len - 1 else len);
                       l2 = (if src ! unat (srcLength - 2) = 61 then l1 - 1 else l1)
                   in Inr l2
         else Inr len)"

definition Base64_EasyEncode :: "allocator \<Rightarrow> u8 list \<Rightarrow> u64 \<Rightarrow> u8 list option res" where
  "Base64_EasyEncode malloc src srcLength =
     (let size = Base64_EncodedLength srcLength
      in if \<not> malloc (unat size) then Inr None
         else bindR (Base64_Encode src srcLength (empty_OutBuf (unat size)) size) (\<lambda>(ok, dst, n).
                Inr (if ok then Some (ob_bytes dst) else None)))"

text \<open>The decoded data are the first \<^verbatim>\<open>*targSize\<close> bytes of \<^verbatim>\<open>*target\<close>.\<close>

definition Base64_EasyDecode :: "allocator \<Rightarrow> u8 list \<Rightarrow> u8 list option res" where
  "Base64_EasyDecode malloc src =
     bindR (c_strlen src) (\<lambda>len.
       bindR (Base64_DecodedLength src (of_nat len)) (\<lambda>size.
         if \<not> malloc (unat size) then Inr None
         else bindR (Base64_Decode src (empty_OutBuf (unat size)) size) (\<lambda>(ok, out, n).
                Inr (if ok then Some (take n (ob_bytes out)) else None))))"

text \<open>\<open>outCap\<close> is the size of the block at \<^verbatim>\<open>outBuf\<close>; the result holds the bytes written to it.\<close>

definition Base64_DecodeFixed :: "allocator \<Rightarrow> u8 list \<Rightarrow> nat \<Rightarrow> u64 \<Rightarrow> (bool \<times> u8 list) res" where
  "Base64_DecodeFixed malloc src outCap outBufSize =
     bindR (Base64_EasyDecode malloc src) (\<lambda>r.
       case r of None \<Rightarrow> Inr (False, [])
       | Some d \<Rightarrow>
           if length d \<le> unat outBufSize
           then if length d \<le> outCap then Inr (True, d) else Inl OutOfBounds
           else Inr (False, []))"

end
