(* ===== verification/Base64_Laws.thy ===== *)
theory Base64_Laws
  imports Base64
begin

text \<open>
  The encoder and the decoder of \<^verbatim>\<open>base64.c\<close> against reference functions on lists: both stay within
  their buffers, and decoding inverts encoding.
\<close>

section \<open>Tables\<close>

lemma b64_index:
  fixes a b c :: u8
  shows "unat (drop_bit 2 a) < 64" "unat (push_bit 4 (a AND 3) OR drop_bit 4 b) < 64"
    "unat (push_bit 2 (b AND 15) OR drop_bit 6 c) < 64" "unat (c AND 63) < 64"
    "unat (push_bit 2 (b AND 15)) < 64"
proof -
  have small: "unat x < 64" if "\<not> bit x 6" "\<not> bit x 7" for x :: u8
  proof -
    have "x = take_bit 6 x"
      by (rule bit_word_eqI) (use that in \<open>auto simp: bit_simps numeral_eq_Suc less_Suc_eq\<close>)
    then have "unat x = unat (take_bit 6 x)" by simp
    also have "\<dots> = take_bit 6 (unat x)" by (rule unsigned_take_bit_eq)
    also have "\<dots> < 64" using take_bit_nat_less_exp [of 6 "unat x"] by simp
    finally show ?thesis .
  qed
  show "unat (drop_bit 2 a) < 64" "unat (push_bit 4 (a AND 3) OR drop_bit 4 b) < 64"
    "unat (push_bit 2 (b AND 15) OR drop_bit 6 c) < 64" "unat (c AND 63) < 64"
    "unat (push_bit 2 (b AND 15)) < 64"
    by (rule small; auto simp: bit_simps dest: bit_imp_le_length)+
qed

lemma rev64_b64:
  assumes "unat i < 64"
  shows "rev64 (b64 i) = uint i"
proof -
  have "list_all (\<lambda>k. base64Reverse ! unat (Base64 ! k) = int k) [0 ..< 64]"
    by code_simp
  moreover have "unat i \<in> set [0 ..< 64]"
    unfolding set_upt atLeastLessThan_iff using assms by simp
  ultimately have "base64Reverse ! unat (Base64 ! unat i) = int (unat i)"
    unfolding list_all_iff by (rule bspec)
  then show ?thesis
    by (simp add: rev64_def b64_def)
qed

section \<open>The reference encoder\<close>

fun b64s :: "u8 list \<Rightarrow> u8 list" where
  "b64s [] = []"
| "b64s [a] = [b64 (drop_bit 2 a), b64 (push_bit 4 (a AND 3)), Pad64, Pad64]"
| "b64s [a, b] = [b64 (drop_bit 2 a), b64 (push_bit 4 (a AND 3) OR drop_bit 4 b), b64 (push_bit 2 (b AND 15)), Pad64]"
| "b64s (a # b # c # xs) = enc_quad a b c @ b64s xs"

lemma length_b64s: "length (b64s xs) = 4 * ((length xs + 2) div 3)"
proof (induction xs rule: b64s.induct)
  case (4 a b c xs)
  have "(Suc (Suc (Suc n)) + 2) div 3 = Suc ((n + 2) div 3)" for n :: nat by presburger
  from this [of "length xs"] 4 show ?case by (simp only: b64s.simps enc_quad_def list.size length_append) simp
qed simp_all

lemma quad_test:
  fixes m q :: nat
  assumes "0 < m"
  shows "(m - 1) div 4 < q \<longleftrightarrow> \<not> 4 * q < m"
  using assms by (subst div_less_iff_less_mult) auto

lemma b64s_short:
  assumes "length xs < 3"
  shows "Base64_Encode_tail (xs @ rest) (of_nat (length xs)) dst = WriteBytes dst (b64s xs) \<or> xs = []"
proof -
  consider "xs = []" | a where "xs = [a]" | a b where "xs = [a, b]"
    using assms by (cases xs rule: b64s.cases) auto
  then show ?thesis
    by cases (simp_all add: Base64_Encode_tail_def)
qed

lemma Base64_Encode_body:
  assumes "unat n \<le> length src" and "fits dst (b64s (take (unat n) src))"
  shows "bindR (Base64_Encode_loop src n dst) (\<lambda>(src1, n1, dst1). Base64_Encode_tail src1 n1 dst1) =
         Inr (put dst (b64s (take (unat n) src)))"
  using assms
proof (induction src n dst rule: Base64_Encode_loop.induct)
  case (1 src n dst)
  show ?case
  proof (cases "n > 2")
    case True
    then have n: "2 < unat n" "unat (n - 3) = unat n - 3"
      by (auto simp: word_less_nat_alt unat_sub word_le_nat_alt)
    obtain a b c rest where src: "src = a # b # c # rest"
      using n(1) 1(2) by (cases src rule: b64s.cases) auto
    have k: "unat n = Suc (Suc (Suc (unat n - 3)))" using n(1) by simp
    have t: "take (unat n) src = a # b # c # take (unat (n - 3)) rest"
      unfolding src n(2) by (subst k) simp
    have f: "fits dst (enc_quad a b c)" "fits (put dst (enc_quad a b c)) (b64s (take (unat (n - 3)) rest))"
      using 1(3) unfolding t by simp_all
    have "bindR (Base64_Encode_loop rest (n - 3) (put dst (enc_quad a b c))) (\<lambda>(src1, n1, dst1). Base64_Encode_tail src1 n1 dst1) =
        Inr (put (put dst (enc_quad a b c)) (b64s (take (unat (n - 3)) rest)))"
      using 1(1) [OF True, of "put dst (enc_quad a b c)"] f(2) src n(2) 1(2) by simp
    then show ?thesis
      using True src f(1) t by (subst Base64_Encode_loop.simps) (simp add: WriteBytes_put)
  next
    case False
    let ?xs = "take (unat n) src"
    have lt: "unat n < 3" using False by (simp add: word_less_nat_alt)
    have l: "length ?xs = unat n" using 1(2) by simp
    have "Base64_Encode_loop src n dst = Inr (src, n, dst)"
      using False by (subst Base64_Encode_loop.simps) simp
    moreover have "Base64_Encode_tail src n dst = Inr (put dst (b64s ?xs))"
      using b64s_short [of ?xs "drop (unat n) src" dst] l lt 1(3)
      by (auto simp: WriteBytes_put Base64_Encode_tail_def unat_eq_zero)
    ultimately show ?thesis by simp
  qed
qed

lemma bindR_assoc: "bindR (bindR r f) g = bindR r (\<lambda>x. bindR (f x) g)"
  by (cases r) simp_all

lemma Base64_Encode_spec:
  assumes "unat n \<le> length src" and "unat dstMax \<le> ob_size dst" and "ob_bytes dst = []"
  shows "Base64_Encode src n dst dstMax =
    (if unat n + 2 < 2 ^ 64 \<and> length (b64s (take (unat n) src)) < unat dstMax
     then Inr (True, put dst (b64s (take (unat n) src) @ [0]), of_nat (length (b64s (take (unat n) src))))
     else Inr (False, dst, 0))"
proof -
  let ?xs = "take (unat n) src"
  have len: "length (b64s ?xs) = 4 * ((unat n + 2) div 3)"
    using assms(1) by (simp add: length_b64s)
  have wrap: "n + 2 < n \<longleftrightarrow> \<not> unat n + 2 < 2 ^ 64"
    using unat_lt_64 [of n] by (auto simp: word_less_nat_alt unat_word_ariths mod_if)
  show ?thesis
  proof (cases "unat n + 2 < 2 ^ 64 \<and> \<not> dstMax < 1")
    case True
    then have u: "unat (n + 2) = unat n + 2" and d: "unat (dstMax - 1) = unat dstMax - 1" "0 < unat dstMax"
      by (auto simp: unat_word_ariths word_less_nat_alt unat_sub word_le_nat_alt)
    have test: "(n + 2) div 3 > (dstMax - 1) div 4 \<longleftrightarrow> \<not> length (b64s ?xs) < unat dstMax"
      unfolding len word_less_nat_alt unat_div_distrib u d(1) using quad_test [OF d(2)] by simp
    show ?thesis
    proof (cases "length (b64s ?xs) < unat dstMax")
      case fit: True
      have f: "fits dst (b64s ?xs)" "fits (put dst (b64s ?xs)) [0]" using fit assms(2,3) by simp_all
      note body = Base64_Encode_body [OF assms(1) f(1)]
      have "Base64_Encode src n dst dstMax =
        bindR (bindR (Base64_Encode_loop src n dst) (\<lambda>(src1, n1, dst1). Base64_Encode_tail src1 n1 dst1)) (\<lambda>dst2.
          bindR (WriteBytes dst2 [0]) (\<lambda>dst3. Inr (True, dst3, of_nat (length (ob_bytes dst2) - length (ob_bytes dst)))))"
        using True wrap test fit by (simp add: Base64_Encode_def bindR_assoc case_prod_unfold)
      then show ?thesis
        using True fit f(2) unfolding body by (simp add: WriteBytes_put assms(3))
    qed (use True wrap test in \<open>simp add: Base64_Encode_def\<close>)
  next
    case False
    then have "n + 2 < n \<or> dstMax < 1" using wrap by auto
    moreover have "\<not> (unat n + 2 < 2 ^ 64 \<and> length (b64s ?xs) < unat dstMax)"
      using False by (auto simp: word_less_nat_alt)
    ultimately show ?thesis by (auto simp: Base64_Encode_def)
  qed
qed

section \<open>The reference decoder\<close>

fun dec_ref :: "nat \<Rightarrow> u32 \<Rightarrow> nat \<Rightarrow> u8 list \<Rightarrow> u8 list \<Rightarrow> bool \<times> u8 list \<times> nat" where
  "dec_ref m b n acc [] = (True, acc, length acc)"
| "dec_ref m b n acc (c # cs) =
     (let p = rev64 c
      in if p < 0
         then if p = WS then dec_ref m b n acc cs
              else if p = EOM then (True, acc, length acc) else (False, acc, 0)
         else if m \<le> length acc then (False, acc, 0)
         else let b1 = push_bit 6 b OR word_of_int p; n1 = n + 6
              in if n1 \<ge> 8 then dec_ref m b1 (n1 - 8) (acc @ [ucast (drop_bit (n1 - 8) b1)]) cs
                 else dec_ref m b1 n1 acc cs)"

definition decoded :: "OutBuf \<Rightarrow> bool \<times> u8 list \<times> nat \<Rightarrow> bool \<times> OutBuf \<times> nat" where
  "decoded out r = (case r of (ok, acc, len) \<Rightarrow> (ok, out\<lparr>ob_bytes := acc\<rparr>, len))"

lemma rev64_zero: "rev64 0 = EOM"
  by (simp add: rev64_def base64Reverse_def)

lemma Base64_ChunkDecode_loop_ref:
  assumes "unat inSize \<le> length inp \<or> 0 \<in> set (drop (unat k) inp)"
    and "unat outSize \<le> ob_size out" and "length (ob_bytes out) \<le> unat outSize" and "length inp < 2 ^ 64"
  shows "Base64_ChunkDecode_loop inp inSize outSize k b n out =
    Inr (decoded out (dec_ref (unat outSize) b n (ob_bytes out) (drop (unat k) (take (unat inSize) inp))))"
  using assms
proof (induction inp inSize outSize k b n out rule: Base64_ChunkDecode_loop.induct)
  case (1 inp inSize outSize k b n out)
  note IH = 1(1-3) and prems = 1(4-7)
  show ?case
  proof (cases "k < inSize")
    case False
    then have "drop (unat k) (take (unat inSize) inp) = []" by (simp add: word_less_nat_alt)
    with False show ?thesis
      by (subst Base64_ChunkDecode_loop.simps) (simp add: decoded_def)
  next
    case True
    then have lt: "unat k < unat inSize" by (simp add: word_less_nat_alt)
    have kl: "unat k < length inp"
      using prems(1) lt by (cases "unat k < length inp") auto
    let ?c = "inp ! unat k" and ?rest = "drop (unat (k + 1)) (take (unat inSize) inp)"
    have k1: "unat (k + 1) = Suc (unat k)" using True by (rule unat_succ)
    have cs: "drop (unat k) (take (unat inSize) inp) = ?c # ?rest"
      using lt kl k1 Cons_nth_drop_Suc [of "unat k" "take (unat inSize) inp"] by simp
    have nxt: "unat inSize \<le> length inp \<or> 0 \<in> set (drop (unat (k + 1)) inp)" if "?c \<noteq> 0"
      using prems(1) that kl k1 Cons_nth_drop_Suc [of "unat k" inp] by (metis set_ConsD)
    have nz: "?c \<noteq> 0" if "rev64 ?c \<noteq> EOM" using that rev64_zero by auto
    have ext: "decoded (put out bs) r = decoded out r" for bs r
      by (simp add: decoded_def put_def split: prod.split)
    show ?thesis
      unfolding cs
      using True kl IH [OF True] nxt nz prems(2-4)
      by (subst Base64_ChunkDecode_loop.simps)
         (auto simp: Let_def WriteBytes_put decoded_def [of out "(_, _)"] ext EOM_def WS_def not_le)
  qed
qed

lemma dec_ref_whitespace:
  "dec_ref m b n acc (filter (\<lambda>c. rev64 c \<noteq> WS) cs) = dec_ref m b n acc cs"
  by (induction m b n acc cs rule: dec_ref.induct) (auto simp: Let_def WS_def)

lemma dec_ref_bounds:
  assumes "dec_ref m b n acc cs = (ok, acc', len)" and "length acc \<le> m"
  shows "length acc' \<le> m \<and> (if ok then len = length acc' else len = 0) \<and> take (length acc) acc' = acc"
  using assms
proof (induction m b n acc cs arbitrary: ok acc' len rule: dec_ref.induct)
  case (2 m b n acc c cs)
  note IH = 2(1-3) and eq = 2(4) and le = 2(5)
  let ?b = "push_bit 6 b OR word_of_int (rev64 c) :: u32"
  have neg: "rev64 c < 0" if "rev64 c = WS" using that by (simp add: WS_def)
  consider "rev64 c = WS" | "rev64 c < 0 \<and> rev64 c \<noteq> WS \<or> \<not> rev64 c < 0 \<and> m \<le> length acc"
    | "\<not> rev64 c < 0" "length acc < m" "n + 6 < 8" | "\<not> rev64 c < 0" "length acc < m" "\<not> n + 6 < 8"
    by linarith
  then show ?case
  proof cases
    case 1
    with eq neg have "dec_ref m b n acc cs = (ok, acc', len)" by (simp add: Let_def)
    from IH(1) [OF refl neg [OF 1] 1 this le] show ?thesis .
  next
    case 2
    with eq le show ?thesis by (auto simp: Let_def split: if_splits)
  next
    case 3
    with eq have "dec_ref m ?b (n + 6) acc cs = (ok, acc', len)" by (simp add: Let_def)
    with 3 le show ?thesis by (intro IH(3) [OF refl _ _ refl refl]) simp_all
  next
    case 4
    let ?acc = "acc @ [ucast (drop_bit (n + 6 - 8) ?b)]"
    have "dec_ref m ?b (n + 6 - 8) ?acc cs = (ok, acc', len)"
      using eq 4 by (simp add: Let_def)
    then have "length acc' \<le> m \<and> (if ok then len = length acc' else len = 0) \<and> take (length ?acc) acc' = ?acc"
      using 4 by (intro IH(2) [OF refl _ _ refl refl]) simp_all
    moreover have "take (length acc) acc' = acc" if "take (length ?acc) acc' = ?acc"
      using arg_cong [OF that, of "take (length acc)"] by simp
    ultimately show ?thesis by blast
  qed
qed simp

section \<open>Decoding what was encoded\<close>

lemma word_of_rev64: "unat i < 64 \<Longrightarrow> word_of_int (rev64 (b64 i)) = (ucast i :: u32)"
  by (simp only: rev64_b64 ucast_eq)

lemma rev64_nonneg: "unat i < 64 \<Longrightarrow> \<not> rev64 (b64 i) < 0"
  by (simp add: rev64_b64)

lemma quad_bytes:
  fixes x y z :: u8 and b :: u32
  defines "i0 \<equiv> drop_bit 2 x" and "i1 \<equiv> push_bit 4 (x AND 3) OR drop_bit 4 y"
    and "i2 \<equiv> push_bit 2 (y AND 15) OR drop_bit 6 z" and "i3 \<equiv> z AND 63"
  defines "b2 \<equiv> push_bit 6 (push_bit 6 b OR ucast i0) OR ucast i1"
  defines "b3 \<equiv> push_bit 6 b2 OR ucast i2"
  shows "ucast (drop_bit 4 b2) = x" and "ucast (drop_bit 2 b3) = y" and "ucast (push_bit 6 b3 OR ucast i3) = z"
proof -
  have m: "w AND 3 = take_bit 2 w" "w AND 15 = take_bit 4 w" "w AND 63 = take_bit 6 w" for w :: u8
    by (simp_all add: take_bit_eq_mask mask_eq_exp_minus_1)
  have split: "k < j \<or> (\<exists>i. k = j + i)" for k j :: nat
    by (metis le_add_diff_inverse not_less)
  note d = b3_def b2_def i0_def i1_def i2_def i3_def m
  show "ucast (drop_bit 4 b2) = x"
  proof (rule bit_word_eqI)
    fix k assume "k < LENGTH(8)"
    with split [of k 2] show "bit (ucast (drop_bit 4 b2) :: u8) k = bit x k"
      unfolding d by (auto simp: bit_simps dest: bit_imp_le_length)
  qed
  show "ucast (drop_bit 2 b3) = y"
  proof (rule bit_word_eqI)
    fix k assume "k < LENGTH(8)"
    with split [of k 4] show "bit (ucast (drop_bit 2 b3) :: u8) k = bit y k"
      unfolding d by (auto simp: bit_simps dest: bit_imp_le_length)
  qed
  show "ucast (push_bit 6 b3 OR ucast i3) = z"
  proof (rule bit_word_eqI)
    fix k assume "k < LENGTH(8)"
    with split [of k 6] show "bit (ucast (push_bit 6 b3 OR ucast i3) :: u8) k = bit z k"
      unfolding d by (auto simp: bit_simps dest: bit_imp_le_length)
  qed
qed

lemma dec_ref_steps:
  fixes b :: u32 and x y z :: u8
  defines "b1 \<equiv> push_bit 6 b OR ucast (drop_bit 2 x)"
  defines "b2 \<equiv> push_bit 6 b1 OR ucast (push_bit 4 (x AND 3) OR drop_bit 4 y)"
  defines "b3 \<equiv> push_bit 6 b2 OR ucast (push_bit 2 (y AND 15) OR drop_bit 6 z)"
  defines "b4 \<equiv> push_bit 6 b3 OR ucast (z AND 63)"
  shows "length acc < m \<Longrightarrow> dec_ref m b 0 acc (b64 (drop_bit 2 x) # cs) = dec_ref m b1 6 acc cs"
    and "length acc < m \<Longrightarrow>
      dec_ref m b1 6 acc (b64 (push_bit 4 (x AND 3) OR drop_bit 4 y) # cs) = dec_ref m b2 4 (acc @ [x]) cs"
    and "length acc < m \<Longrightarrow>
      dec_ref m b2 4 acc (b64 (push_bit 2 (y AND 15) OR drop_bit 6 z) # cs) = dec_ref m b3 2 (acc @ [y]) cs"
    and "length acc < m \<Longrightarrow> dec_ref m b3 2 acc (b64 (z AND 63) # cs) = dec_ref m b4 0 (acc @ [z]) cs"
proof -
  note r = word_of_rev64 [OF b64_index(1)] word_of_rev64 [OF b64_index(2)] word_of_rev64 [OF b64_index(3)]
    word_of_rev64 [OF b64_index(4)] rev64_nonneg [OF b64_index(1)] rev64_nonneg [OF b64_index(2)]
    rev64_nonneg [OF b64_index(3)] rev64_nonneg [OF b64_index(4)]
  note step = dec_ref.simps(2) Let_def r b4_def b3_def b2_def b1_def
  show "length acc < m \<Longrightarrow> dec_ref m b 0 acc (b64 (drop_bit 2 x) # cs) = dec_ref m b1 6 acc cs"
    by (simp only: step) simp
  show "length acc < m \<Longrightarrow>
      dec_ref m b1 6 acc (b64 (push_bit 4 (x AND 3) OR drop_bit 4 y) # cs) = dec_ref m b2 4 (acc @ [x]) cs"
    using quad_bytes(1) [of b x y] by (simp only: step) simp
  show "length acc < m \<Longrightarrow>
      dec_ref m b2 4 acc (b64 (push_bit 2 (y AND 15) OR drop_bit 6 z) # cs) = dec_ref m b3 2 (acc @ [y]) cs"
    using quad_bytes(2) [of b x y z] by (simp only: step) simp
  show "length acc < m \<Longrightarrow> dec_ref m b3 2 acc (b64 (z AND 63) # cs) = dec_ref m b4 0 (acc @ [z]) cs"
    using quad_bytes(3) [of b x y z] by (simp only: step) simp
qed

lemma dec_ref_EOM: "dec_ref m b n acc (0 # cs) = (True, acc, length acc)"
    "dec_ref m b n acc (Pad64 # cs) = (True, acc, length acc)"
proof -
  have "rev64 Pad64 = EOM" by (simp add: Pad64_def rev64_def base64Reverse_def)
  then show "dec_ref m b n acc (0 # cs) = (True, acc, length acc)"
    "dec_ref m b n acc (Pad64 # cs) = (True, acc, length acc)"
    using rev64_zero by (simp_all add: EOM_def WS_def)
qed

lemma dec_ref_b64s:
  assumes "length acc + length xs \<le> m"
  shows "dec_ref m b 0 acc (b64s xs @ 0 # rest) = (True, acc @ xs, length acc + length xs)"
  using assms
proof (induction xs arbitrary: acc b rule: b64s.induct)
  case 1
  then show ?case by (simp add: dec_ref_EOM del: dec_ref.simps)
next
  case (2 a)
  have z: "push_bit 4 (a AND 3) = push_bit 4 (a AND 3) OR drop_bit 4 (0 :: u8)" by simp
  have "length acc < m" using 2 by simp
  then show ?case
    unfolding b64s.simps by (subst z) (simp only: append_Cons append_Nil dec_ref_steps(1,2) dec_ref_EOM length_append list.size)
next
  case (3 a c)
  have z: "push_bit 2 (c AND 15) = push_bit 2 (c AND 15) OR drop_bit 6 (0 :: u8)" by simp
  have "length acc < m" "length (acc @ [a]) < m" using 3 by simp_all
  then show ?case
    unfolding b64s.simps
    by (subst z) (simp only: append_Cons append_Nil append_assoc dec_ref_steps(1-3) dec_ref_EOM length_append list.size)
next
  case (4 x y z xs)
  have l: "length acc < m" "length (acc @ [x]) < m" "length ((acc @ [x]) @ [y]) < m"
    "length (((acc @ [x]) @ [y]) @ [z]) + length xs \<le> m"
    using 4(2) by simp_all
  show ?case
    using 4(1) [OF l(4)] l(1-3)
    by (simp only: b64s.simps enc_quad_def append_Cons append_Nil dec_ref_steps) (simp del: dec_ref.simps)
qed

section \<open>Lengths\<close>

lemma b64_alphabet:
  assumes "unat i < 64"
  shows "b64 i \<noteq> 61" and "valid_char (b64 i)"
proof -
  have "list_all (\<lambda>c. c \<noteq> 61 \<and> valid_char c) Base64"
    by (simp add: Base64_def valid_char_def)
  moreover have "b64 i \<in> set Base64"
    unfolding b64_def using assms by (intro nth_mem) (simp add: Base64_def)
  ultimately show "b64 i \<noteq> 61" "valid_char (b64 i)"
    by (auto simp: list_all_iff)
qed

lemma b64s_padding:
  assumes "xs \<noteq> []"
  shows "b64s xs ! (length (b64s xs) - 1) = 61 \<longleftrightarrow> length xs mod 3 \<noteq> 0"
    and "b64s xs ! (length (b64s xs) - 2) = 61 \<longleftrightarrow> length xs mod 3 = 1"
proof -
  note al = b64_alphabet(1) [OF b64_index(1)] b64_alphabet(1) [OF b64_index(2)] b64_alphabet(1) [OF b64_index(3)]
    b64_alphabet(1) [OF b64_index(4)] b64_alphabet(1) [OF b64_index(5)]
  have "(b64s xs ! (length (b64s xs) - 1) = 61 \<longleftrightarrow> length xs mod 3 \<noteq> 0) \<and>
      (b64s xs ! (length (b64s xs) - 2) = 61 \<longleftrightarrow> length xs mod 3 = 1)"
    using assms
  proof (induction xs rule: b64s.induct)
    case (4 a b c xs)
    have "Suc (Suc (Suc n)) mod 3 = n mod 3" for n :: nat by presburger
    then have m: "length (a # b # c # xs) mod 3 = length xs mod 3" by simp
    show ?case
    proof (cases "xs = []")
      case True
      then show ?thesis using al by (simp add: enc_quad_def)
    next
      case False
      then have "4 \<le> length (b64s xs)" by (cases xs) (simp_all add: length_b64s)
      then have "b64s (a # b # c # xs) ! (length (b64s (a # b # c # xs)) - k) = b64s xs ! (length (b64s xs) - k)"
        if "k \<le> 2" for k
        using that by (simp add: enc_quad_def nth_append)
      then show ?thesis unfolding m using 4(1) [OF False] by simp
    qed
  qed (use al in \<open>simp_all add: Pad64_def\<close>)
  then show "b64s xs ! (length (b64s xs) - 1) = 61 \<longleftrightarrow> length xs mod 3 \<noteq> 0"
    and "b64s xs ! (length (b64s xs) - 2) = 61 \<longleftrightarrow> length xs mod 3 = 1" by simp_all
qed

lemma Base64_DecodedLength_b64s:
  assumes "length xs \<le> 2 ^ 60"
  shows "Base64_DecodedLength (b64s xs @ rest) (of_nat (length (b64s xs))) = Inr (of_nat (length xs))"
proof (cases "xs = []")
  case True
  then show ?thesis by (simp add: Base64_DecodedLength_def)
next
  case False
  define k where "k = (length xs + 2) div 3"
  have k: "1 \<le> k" "4 * k < 18446744073709551616" using False assms by (cases xs; simp add: k_def)+
  have len: "length (b64s xs) = 4 * k" by (simp add: length_b64s k_def)
  let ?n = "of_nat (4 * k) :: u64"
  have un: "unat ?n = 4 * k" using k(2) by (intro unat_of_nat_bound) simp
  have u: "unat (?n - 1) = 4 * k - 1" "unat (?n - 2) = 4 * k - 2"
    using k un by (subst unat_sub; simp add: word_le_nat_alt)+
  have "unat (?n div 4 * 3) = 3 * k"
    using k un by (subst unat_mult_bound) (simp_all add: unat_div_distrib)
  moreover have "unat (of_nat (3 * k) :: u64) = 3 * k" using k(2) by (intro unat_of_nat_bound) simp
  ultimately have l: "?n div 4 * 3 = of_nat (3 * k)" "?n div 4 * 3 > 2"
    using k(1) by (simp_all only: word_unat_eq_iff word_less_nat_alt) simp
  have p: "(b64s xs @ rest) ! (4 * k - 1) = 61 \<longleftrightarrow> length xs mod 3 \<noteq> 0"
    "(b64s xs @ rest) ! (4 * k - 2) = 61 \<longleftrightarrow> length xs mod 3 = 1"
    using b64s_padding [OF False] len k(1) by (simp_all add: nth_append)
  have n: "length xs mod 3 = 0 \<and> length xs = 3 * k \<or> length xs mod 3 = 1 \<and> length xs = 3 * k - 2 \<or>
      length xs mod 3 = 2 \<and> length xs = 3 * k - 1"
    unfolding k_def by presburger
  have s: "(of_nat (3 * k) :: u64) - 1 = of_nat (3 * k - 1)" "(of_nat (3 * k - 1) :: u64) - 1 = of_nat (3 * k - 2)"
    using k(1) by (simp_all add: of_nat_diff)
  show ?thesis
    unfolding len Base64_DecodedLength_def Let_def l(1) u un p
    using l(2) n len s by (auto simp: l(1) simp del: of_nat_mult)
qed

lemma b64s_valid: "\<forall>c \<in> set (b64s xs). valid_char c"
proof (induction xs rule: b64s.induct)
  have pad: "valid_char Pad64" by (simp add: Pad64_def valid_char_def)
  note v = b64_alphabet(2)
  {
    case (2 a)
    show ?case using v [OF b64_index(1) [of a]] v [OF b64_index(2) [of a 0]] pad by auto
  next
    case (3 a b)
    show ?case
      using v [OF b64_index(1) [of a]] v [OF b64_index(2) [of a b]] v [OF b64_index(5) [of b]] pad by auto
  next
    case (4 a b c xs)
    then show ?case
      using v [OF b64_index(1) [of a]] v [OF b64_index(2) [of a b]] v [OF b64_index(3) [of b c]]
        v [OF b64_index(4) [of c]] by (auto simp: enc_quad_def)
  }
qed simp

lemma b64s_no_zero: "0 \<notin> set (b64s xs)"
  using b64s_valid [of xs] by (auto simp: valid_char_def)

section \<open>Properties\<close>

text \<open>
  C22. Encoding then decoding returns the data. For every source of at most \<open>2 ^ 60\<close> bytes and an
  allocator that grants both blocks, \<^verbatim>\<open>Base64_EasyEncode\<close> returns a zero-terminated string that
  \<^verbatim>\<open>Base64_ValidEncoding\<close> accepts, and \<^verbatim>\<open>Base64_EasyDecode\<close> of it returns the source, both without a fault.
\<close>

theorem Base64_roundtrip:
  assumes "length src \<le> 2 ^ 60" and "\<forall>n < 2 ^ 63. malloc n"
  shows "\<exists>str. Base64_EasyEncode malloc src (of_nat (length src)) = Inr (Some (str @ [0])) \<and>
    Base64_ValidEncoding (str @ [0]) (length str) = Inr True \<and>
    Base64_EasyDecode malloc (str @ [0]) = Inr (Some src)"
proof -
  let ?n = "of_nat (length src) :: u64"
  have un: "unat ?n = length src" using assms(1) by (intro unat_of_nat_bound) simp
  define k where "k = (length src + 2) div 3"
  have k: "k \<le> 2 ^ 60" using assms(1) by (simp add: k_def)
  have len: "length (b64s src) = 4 * k" by (simp add: length_b64s k_def)
  have u2: "unat (?n + 2) = length src + 2" using un assms(1) by (subst unat_add_bound) simp_all
  have size: "unat (Base64_EncodedLength ?n) = 4 * k + 1"
  proof -
    have "unat ((?n + 2) div 3) = k" by (simp add: unat_div_distrib u2 k_def)
    then have m: "unat ((?n + 2) div 3 * 4) = 4 * k" using k by (subst unat_mult_bound) simp_all
    then show ?thesis using k unfolding Base64_EncodedLength_def by (subst unat_add_bound) simp_all
  qed
  have enc: "Base64_EasyEncode malloc src ?n = Inr (Some (b64s src @ [0]))"
    using Base64_Encode_spec [of ?n src "Base64_EncodedLength ?n" "empty_OutBuf (4 * k + 1)"] un len size assms k
    by (simp add: Base64_EasyEncode_def Let_def empty_OutBuf_def)
  have strlen: "c_strlen (b64s src @ [0]) = Inr (length (b64s src))"
    by (rule c_strlen_string [OF b64s_no_zero])
  have all: "take (unat (- 1 :: u64)) (b64s src @ [0]) = b64s src @ [0]" "length (b64s src) < 18446744073709551615"
    using len k by (simp_all add: unat_max_64)
  have "Base64_Decode (b64s src @ [0]) (empty_OutBuf (length src)) ?n =
      Inr (True, (empty_OutBuf (length src))\<lparr>ob_bytes := src\<rparr>, length src)"
    unfolding Base64_Decode_def Base64_ChunkDecode_def
    using Base64_ChunkDecode_loop_ref [of "- 1" "b64s src @ [0]" 0 ?n "empty_OutBuf (length src)" 0 0]
      dec_ref_b64s [of "[]" src "length src" 0 "[]"] un all
    by (simp add: empty_OutBuf_def decoded_def del: dec_ref.simps take_append)
  then have dec: "Base64_EasyDecode malloc (b64s src @ [0]) = Inr (Some src)"
    using strlen Base64_DecodedLength_b64s [OF assms(1), of "[0]"] assms un
    by (simp add: Base64_EasyDecode_def)
  have "Base64_ValidEncoding (b64s src @ [0]) (length (b64s src)) = Inr True"
    using b64s_valid [of src] find_None_iff [of "\<lambda>c. \<not> valid_char c" "b64s src"]
    by (simp add: Base64_ValidEncoding_def)
  with enc dec show ?thesis by blast
qed

theorem Base64_roundtrip_witness:
  "\<exists>str. Base64_EasyEncode (\<lambda>n. n < 2 ^ 63) [72, 105, 33, 10] (of_nat (length [72 :: u8, 105, 33, 10])) = Inr (Some (str @ [0])) \<and>
     Base64_EasyDecode (\<lambda>n. n < 2 ^ 63) (str @ [0]) = Inr (Some [72, 105, 33, 10])"
  using Base64_roundtrip [of "[72, 105, 33, 10]" "\<lambda>n. n < 2 ^ 63"] by auto

text \<open>
  C31. \<^verbatim>\<open>Base64_Encode\<close> stays within the destination. For every source size and every \<^verbatim>\<open>dstMax\<close> not larger
  than the block, the call returns \<^verbatim>\<open>TRUE\<close> exactly when the size computed by \<^verbatim>\<open>Base64_EncodedLength\<close>
  (on integers) is at most \<^verbatim>\<open>dstMax\<close>, and then exactly that many bytes are written, ending in a zero;
  otherwise it returns \<^verbatim>\<open>FALSE\<close> and writes nothing. Sizes near \<open>2 ^ 64\<close> do not get past the test.
\<close>

theorem Base64_Encode_bounds:
  assumes "unat srcSize \<le> length src" and "unat dstMax \<le> ob_size dst" and "ob_bytes dst = []"
  shows "\<exists>ok dst' n. Base64_Encode src srcSize dst dstMax = Inr (ok, dst', n) \<and>
    (ok \<longleftrightarrow> unat srcSize + 2 < 2 ^ 64 \<and> (unat srcSize + 2) div 3 * 4 + 1 \<le> unat dstMax) \<and>
    (if ok then length (ob_bytes dst') = (unat srcSize + 2) div 3 * 4 + 1 \<and> last (ob_bytes dst') = 0 else dst' = dst)"
  unfolding Base64_Encode_spec [OF assms]
  using assms(1,3) by (auto simp: length_b64s min_def)

theorem Base64_Encode_bounds_witness:
  "\<exists>ok dst' n. Base64_Encode [1, 2] 2 (empty_OutBuf 5) 5 = Inr (ok, dst', n) \<and> ok \<and> length (ob_bytes dst') = 5"
  using Base64_Encode_bounds [of 2 "[1, 2]" 5 "empty_OutBuf 5"] by (auto simp: empty_OutBuf_def split: if_splits)

text \<open>
  C23. \<^verbatim>\<open>Base64_Decode\<close> is memory-safe. For every zero-terminated input and every \<^verbatim>\<open>outSize\<close> not larger than
  the output block the call returns, reads nothing behind the terminator and writes at most
  \<^verbatim>\<open>outSize\<close> bytes; on success \<^verbatim>\<open>*dataLength\<close> is the number of bytes written. White space in the input
  makes no difference.
\<close>

theorem Base64_Decode_safe:
  assumes "0 \<in> set inp" and "length inp < 2 ^ 64" and "unat outSize \<le> ob_size out" and "ob_bytes out = []"
  shows "\<exists>ok bytes len. Base64_Decode inp out outSize = Inr (ok, put out bytes, len) \<and>
    length bytes \<le> unat outSize \<and> (if ok then len = length bytes else len = 0) \<and>
    Base64_Decode (filter (\<lambda>c. rev64 c \<noteq> WS) inp) out outSize = Inr (ok, put out bytes, len)"
proof -
  obtain ok bytes len where r: "dec_ref (unat outSize) 0 0 [] inp = (ok, bytes, len)" by (metis prod_cases3)
  have d: "Base64_Decode cs out outSize = Inr (decoded out (dec_ref (unat outSize) 0 0 [] cs))"
    if "0 \<in> set cs" "length cs < 2 ^ 64" for cs
    unfolding Base64_Decode_def Base64_ChunkDecode_def
    using Base64_ChunkDecode_loop_ref [of "- 1" cs 0 outSize out 0 0] that assms(3,4)
    by (simp add: unat_max_64)
  have "rev64 0 \<noteq> WS" by (simp add: rev64_zero EOM_def WS_def)
  then have "Base64_Decode (filter (\<lambda>c. rev64 c \<noteq> WS) inp) out outSize = Base64_Decode inp out outSize"
    using assms(1,2) le_less_trans [OF length_filter_le assms(2)] by (simp add: d dec_ref_whitespace)
  then show ?thesis
    using d [OF assms(1,2)] dec_ref_bounds [OF r] r assms(4) by (auto simp: decoded_def put_def)
qed

theorem Base64_Decode_safe_witness:
  "\<exists>ok bytes len. Base64_Decode [81, 85, 32, 74, 68, 61, 0] (empty_OutBuf 2) 2 = Inr (ok, put (empty_OutBuf 2) bytes, len) \<and>
     length bytes \<le> 2"
  using Base64_Decode_safe [of "[81, 85, 32, 74, 68, 61, 0]" 2 "empty_OutBuf 2"] by (auto simp: empty_OutBuf_def)

lemma base64Reverse_entries:
  "list_all (\<lambda>(n, p). if 0 \<le> p then nat p < 64 \<and> unat (Base64 ! nat p) = n
     else p = (if n = 0 \<or> n = 61 then - 2 else if n = 32 \<or> 9 \<le> n \<and> n \<le> 13 then - 3 else - 1))
   (enumerate 0 base64Reverse)"
  unfolding base64Reverse_def Base64_def ILLEGAL_def WS_def EOM_def by simp

lemma Base64_index:
  assumes "k < 64"
  shows "length (takeWhile (\<lambda>x. x \<noteq> Base64 ! k) Base64) = k"
proof -
  have d: "distinct Base64" "length Base64 = 64" by (simp_all add: Base64_def)
  then have "takeWhile (\<lambda>x. x \<noteq> Base64 ! k) Base64 = take k Base64"
    using assms by (intro takeWhile_eq_take_P_nth) (auto simp: nth_eq_iff_index_eq)
  then show ?thesis using assms d by simp
qed

text \<open>
  The static table \<^verbatim>\<open>base64Reverse\<close> is what the initialisation described above it would compute: the
  index in \<^verbatim>\<open>Base64\<close> for a character of the alphabet, the end marker for zero and the pad, the space
  marker for the six white-space characters, the error marker elsewhere.
\<close>

theorem base64Reverse_table:
  "length base64Reverse = 256 \<and>
   (\<forall>c :: u8. rev64 c =
     (if c \<in> set Base64 then int (length (takeWhile (\<lambda>x. x \<noteq> c) Base64))
      else if c = 0 \<or> c = Pad64 then EOM
      else if c = 32 \<or> 9 \<le> c \<and> c \<le> 13 then WS else ILLEGAL))"
proof (intro conjI allI)
  show len: "length base64Reverse = 256" by (simp add: base64Reverse_def)
  fix c :: u8
  have "unat c < length base64Reverse" using len unsigned_less [of c, where 'a = nat] by simp
  then have "(unat c, rev64 c) \<in> set (enumerate 0 base64Reverse)"
    unfolding rev64_def by (simp add: in_set_enumerate_eq)
  with base64Reverse_entries have e: "if 0 \<le> rev64 c then nat (rev64 c) < 64 \<and> unat (Base64 ! nat (rev64 c)) = unat c
      else rev64 c = (if unat c = 0 \<or> unat c = 61 then - 2 else if unat c = 32 \<or> 9 \<le> unat c \<and> unat c \<le> 13 then - 3 else - 1)"
    by (auto simp: list_all_iff)
  show "rev64 c = (if c \<in> set Base64 then int (length (takeWhile (\<lambda>x. x \<noteq> c) Base64))
      else if c = 0 \<or> c = Pad64 then EOM
      else if c = 32 \<or> 9 \<le> c \<and> c \<le> 13 then WS else ILLEGAL)"
  proof (cases "0 \<le> rev64 c")
    case True
    with e have k: "nat (rev64 c) < 64" "c = Base64 ! nat (rev64 c)" by (simp_all add: word_unat_eq_iff)
    have "length Base64 = 64" by (simp add: Base64_def)
    with k have "c \<in> set Base64" using nth_mem [of "nat (rev64 c)" Base64] by simp
    moreover have "int (length (takeWhile (\<lambda>x. x \<noteq> c) Base64)) = rev64 c"
      using Base64_index [OF k(1)] k(2) True by simp
    ultimately show ?thesis by simp
  next
    case False
    have "c \<notin> set Base64"
    proof
      assume "c \<in> set Base64"
      moreover have "length Base64 = 64" by (simp add: Base64_def)
      ultimately obtain k where k: "k < 64" "c = Base64 ! k" by (auto simp: in_set_conv_nth)
      then have "c = b64 (of_nat k)" "unat (of_nat k :: u8) < 64"
        by (simp_all add: b64_def unat_of_nat_bound)
      with rev64_b64 [of "of_nat k"] False show False by simp
    qed
    with False e show ?thesis
      by (simp add: EOM_def WS_def ILLEGAL_def Pad64_def word_unat_eq_iff word_le_nat_alt)
  qed
qed

end
