(* ===== verification/VMBlock.thy ===== *)
theory VMBlock
  imports Prelude
begin

text \<open>
  The file blocker of the vmblock driver (\<^verbatim>\<open>modules/shared/vmblock/block.c\<close>): reference-counted block
  structures on a list, threads that wait for a block to be lifted. The heap is explicit, so a
  use of a freed structure is a fault.
\<close>

section \<open>State\<close>

type_synonym addr = nat

type_synonym os_blocker_id_t = nat

text \<open>\<open>b_completed\<close> is the completion: \<^verbatim>\<open>os_complete_all\<close> sets it, a waiter returns once it is set.\<close>

record BlockInfo =
  b_refcount :: int
  b_blocker :: os_blocker_id_t
  b_completed :: bool
  b_filename :: string

text \<open>
  \<open>vb_heap\<close> holds the structures that are allocated from \<^verbatim>\<open>blockInfoCache\<close>, \<open>vb_list\<close> the addresses on
  the list \<^verbatim>\<open>blockedFiles\<close> in order. A structure is linked exactly when its address is on the list.
\<close>

record vmblock =
  vb_heap :: "addr \<Rightarrow> BlockInfo option"
  vb_list :: "addr list"

definition OS_UNKNOWN_BLOCKER :: os_blocker_id_t where
  "OS_UNKNOWN_BLOCKER = 0"

definition OS_PATH_MAX :: nat where
  "OS_PATH_MAX = 4096"

datatype os_error = OS_OK | OS_ENOMEM | OS_ENOENT | OS_EEXIST | OS_EINTR

definition BlockInit :: "bool \<Rightarrow> vmblock option \<times> os_error" where
  "BlockInit cacheCreated =
     (if cacheCreated then (Some \<lparr>vb_heap = Map.empty, vb_list = []\<rparr>, OS_OK) else (None, OS_ENOMEM))"

definition loadBlock :: "vmblock \<Rightarrow> addr \<Rightarrow> BlockInfo res" where
  "loadBlock s a = (case vb_heap s a of None \<Rightarrow> Inl UseAfterFree | Some b \<Rightarrow> Inr b)"

definition storeBlock :: "vmblock \<Rightarrow> addr \<Rightarrow> BlockInfo \<Rightarrow> vmblock" where
  "storeBlock s a b = s\<lparr>vb_heap := (vb_heap s)(a \<mapsto> b)\<rparr>"

section \<open>Structures and references\<close>

text \<open>\<open>cache\<close> is what \<^verbatim>\<open>os_kmem_cache_alloc\<close> returns. A name that does not fit is refused.\<close>

definition AllocBlock :: "vmblock \<Rightarrow> addr option \<Rightarrow> string \<Rightarrow> os_blocker_id_t \<Rightarrow> vmblock \<times> addr option" where
  "AllocBlock s cache filename blocker =
     (case cache of
        None \<Rightarrow> (s, None)
      | Some a \<Rightarrow>
          if length filename \<ge> OS_PATH_MAX then (s, None)
          else (storeBlock s a \<lparr>b_refcount = 1, b_blocker = blocker, b_completed = False, b_filename = filename\<rparr>,
                Some a))"

definition FreeBlock :: "vmblock \<Rightarrow> addr \<Rightarrow> vmblock" where
  "FreeBlock s a = (if a \<in> set (vb_list s) then s else s\<lparr>vb_heap := (vb_heap s)(a := None)\<rparr>)"

definition BlockGrabReference :: "vmblock \<Rightarrow> addr \<Rightarrow> vmblock res" where
  "BlockGrabReference s a =
     bindR (loadBlock s a) (\<lambda>b. Inr (storeBlock s a (b\<lparr>b_refcount := b_refcount b + 1\<rparr>)))"

definition BlockDropReference :: "vmblock \<Rightarrow> addr \<Rightarrow> vmblock res" where
  "BlockDropReference s a =
     bindR (loadBlock s a) (\<lambda>b.
       let s1 = storeBlock s a (b\<lparr>b_refcount := b_refcount b - 1\<rparr>)
       in Inr (if b_refcount b - 1 = 0 then FreeBlock s1 a else s1))"

definition block_matches :: "BlockInfo \<Rightarrow> string \<Rightarrow> os_blocker_id_t \<Rightarrow> bool" where
  "block_matches b filename blocker \<longleftrightarrow>
     (blocker = OS_UNKNOWN_BLOCKER \<or> b_blocker b = blocker) \<and> b_filename b = filename"

fun GetBlock_loop :: "vmblock \<Rightarrow> addr list \<Rightarrow> string \<Rightarrow> os_blocker_id_t \<Rightarrow> addr option res" where
  "GetBlock_loop s [] filename blocker = Inr None"
| "GetBlock_loop s (a # as) filename blocker =
     bindR (loadBlock s a) (\<lambda>b.
       if block_matches b filename blocker then Inr (Some a) else GetBlock_loop s as filename blocker)"

definition GetBlock :: "vmblock \<Rightarrow> string \<Rightarrow> os_blocker_id_t \<Rightarrow> addr option res" where
  "GetBlock s filename blocker = GetBlock_loop s (vb_list s) filename blocker"

definition BlockDoRemoveBlock :: "vmblock \<Rightarrow> addr \<Rightarrow> vmblock res" where
  "BlockDoRemoveBlock s a =
     bindR (loadBlock s a) (\<lambda>b.
       BlockDropReference
         (storeBlock (s\<lparr>vb_list := remove1 a (vb_list s)\<rparr>) a (b\<lparr>b_completed := True\<rparr>)) a)"

section \<open>Entry points\<close>

definition BlockAddFileBlock ::
  "vmblock \<Rightarrow> addr option \<Rightarrow> string \<Rightarrow> os_blocker_id_t \<Rightarrow> (vmblock \<times> os_error) res" where
  "BlockAddFileBlock s cache filename blocker =
     bindR (GetBlock s filename OS_UNKNOWN_BLOCKER) (\<lambda>old.
       if old \<noteq> None then Inr (s, OS_EEXIST)
       else case AllocBlock s cache filename blocker of
              (s1, None) \<Rightarrow> Inr (s1, OS_ENOMEM)
            | (s1, Some a) \<Rightarrow> Inr (s1\<lparr>vb_list := vb_list s1 @ [a]\<rparr>, OS_OK))"

definition BlockRemoveFileBlock :: "vmblock \<Rightarrow> string \<Rightarrow> os_blocker_id_t \<Rightarrow> (vmblock \<times> os_error) res" where
  "BlockRemoveFileBlock s filename blocker =
     bindR (GetBlock s filename blocker) (\<lambda>r.
       case r of None \<Rightarrow> Inr (s, OS_ENOENT)
       | Some a \<Rightarrow> bindR (BlockDoRemoveBlock s a) (\<lambda>s1. Inr (s1, OS_OK)))"

text \<open>The loop takes the successor of an element before it removes the element.\<close>

fun BlockRemoveAllBlocks_loop :: "os_blocker_id_t \<Rightarrow> addr list \<Rightarrow> vmblock \<Rightarrow> nat \<Rightarrow> (vmblock \<times> nat) res" where
  "BlockRemoveAllBlocks_loop blocker [] s removed = Inr (s, removed)"
| "BlockRemoveAllBlocks_loop blocker (a # as) s removed =
     bindR (loadBlock s a) (\<lambda>b.
       if b_blocker b = blocker \<or> blocker = OS_UNKNOWN_BLOCKER
       then bindR (BlockDoRemoveBlock s a) (\<lambda>s1. BlockRemoveAllBlocks_loop blocker as s1 (removed + 1))
       else BlockRemoveAllBlocks_loop blocker as s removed)"

definition BlockRemoveAllBlocks :: "vmblock \<Rightarrow> os_blocker_id_t \<Rightarrow> (vmblock \<times> nat) res" where
  "BlockRemoveAllBlocks s blocker = BlockRemoveAllBlocks_loop blocker (vb_list s) s 0"

definition BlockLookup :: "vmblock \<Rightarrow> string \<Rightarrow> os_blocker_id_t \<Rightarrow> (vmblock \<times> addr option) res" where
  "BlockLookup s filename blocker =
     bindR (GetBlock s filename blocker) (\<lambda>r.
       case r of None \<Rightarrow> Inr (s, None)
       | Some a \<Rightarrow> bindR (BlockGrabReference s a) (\<lambda>s1. Inr (s1, Some a)))"

text \<open>
  \<^verbatim>\<open>BlockWaitOnFile\<close> in two parts, because the thread sleeps between them: the first finds the block
  and takes a reference (\<^const>\<open>None\<close>: not blocked, the call returns zero), the second runs after
  \<^verbatim>\<open>os_wait_for_completion\<close> has returned.
\<close>

definition BlockWaitOnFile_begin :: "vmblock \<Rightarrow> string \<Rightarrow> addr option \<Rightarrow> (vmblock \<times> addr option) res" where
  "BlockWaitOnFile_begin s filename cookie =
     (case cookie of
        None \<Rightarrow>
          bindR (GetBlock s filename OS_UNKNOWN_BLOCKER) (\<lambda>r.
            case r of None \<Rightarrow> Inr (s, None)
            | Some a \<Rightarrow> bindR (BlockGrabReference s a) (\<lambda>s1. Inr (s1, Some a)))
      | Some a \<Rightarrow> Inr (s, Some a))"

definition BlockWaitOnFile_end :: "vmblock \<Rightarrow> addr \<Rightarrow> os_error \<Rightarrow> (vmblock \<times> os_error) res" where
  "BlockWaitOnFile_end s a err = bindR (BlockDropReference s a) (\<lambda>s1. Inr (s1, err))"

section \<open>Threads\<close>

text \<open>
  A thread holds a handle from \<^verbatim>\<open>BlockLookup\<close>, or sleeps in \<^verbatim>\<open>BlockWaitOnFile\<close>. The entry points run under
  \<^verbatim>\<open>blockedFilesLock\<close>, so each is one step; a sleeping thread wakes up once the completion is set, or
  is interrupted.
\<close>

type_synonym tid = nat

datatype thread = Holding addr | Waiting addr

record vmb_sys =
  sys_vb :: vmblock
  sys_thr :: "tid \<Rightarrow> thread option"

datatype vmb_action =
    AAdd "addr option" string os_blocker_id_t
  | ARemove string os_blocker_id_t
  | ARemoveAll os_blocker_id_t
  | ALookup tid string os_blocker_id_t
  | AWait tid string
  | AWaitCookie tid string
  | AWake tid
  | AInterrupt tid

text \<open>When an action can happen: the cache hands out an address that is not in use, a thread does one thing at a time.\<close>

fun vmb_enabled :: "vmb_sys \<Rightarrow> vmb_action \<Rightarrow> bool" where
  "vmb_enabled s (AAdd cache f b) = (case cache of None \<Rightarrow> True | Some a \<Rightarrow> vb_heap (sys_vb s) a = None)"
| "vmb_enabled s (ARemove f b) = True"
| "vmb_enabled s (ARemoveAll b) = True"
| "vmb_enabled s (ALookup t f b) = (sys_thr s t = None)"
| "vmb_enabled s (AWait t f) = (sys_thr s t = None)"
| "vmb_enabled s (AWaitCookie t f) = (case sys_thr s t of Some (Holding a) \<Rightarrow> True | _ \<Rightarrow> False)"
| "vmb_enabled s (AWake t) =
     (case sys_thr s t of
        Some (Waiting a) \<Rightarrow> (case vb_heap (sys_vb s) a of Some b \<Rightarrow> b_completed b | None \<Rightarrow> True)
      | _ \<Rightarrow> False)"
| "vmb_enabled s (AInterrupt t) = (case sys_thr s t of Some (Waiting a) \<Rightarrow> True | _ \<Rightarrow> False)"

definition set_thread :: "vmb_sys \<Rightarrow> tid \<Rightarrow> (addr \<Rightarrow> thread) \<Rightarrow> vmblock \<times> addr option \<Rightarrow> vmb_sys" where
  "set_thread s t how r =
     (case r of (vb, None) \<Rightarrow> s\<lparr>sys_vb := vb\<rparr>
      | (vb, Some a) \<Rightarrow> s\<lparr>sys_vb := vb, sys_thr := (sys_thr s)(t \<mapsto> how a)\<rparr>)"

definition end_wait :: "vmb_sys \<Rightarrow> tid \<Rightarrow> os_error \<Rightarrow> vmb_sys res" where
  "end_wait s t err =
     (case sys_thr s t of
        Some (Waiting a) \<Rightarrow>
          bindR (BlockWaitOnFile_end (sys_vb s) a err) (\<lambda>(vb, e).
            Inr (s\<lparr>sys_vb := vb, sys_thr := (sys_thr s)(t := None)\<rparr>))
      | _ \<Rightarrow> Inr s)"

fun vmb_exec :: "vmb_sys \<Rightarrow> vmb_action \<Rightarrow> vmb_sys res" where
  "vmb_exec s (AAdd cache f b) =
     bindR (BlockAddFileBlock (sys_vb s) cache f b) (\<lambda>(vb, e). Inr (s\<lparr>sys_vb := vb\<rparr>))"
| "vmb_exec s (ARemove f b) =
     bindR (BlockRemoveFileBlock (sys_vb s) f b) (\<lambda>(vb, e). Inr (s\<lparr>sys_vb := vb\<rparr>))"
| "vmb_exec s (ARemoveAll b) =
     bindR (BlockRemoveAllBlocks (sys_vb s) b) (\<lambda>(vb, n). Inr (s\<lparr>sys_vb := vb\<rparr>))"
| "vmb_exec s (ALookup t f b) =
     bindR (BlockLookup (sys_vb s) f b) (\<lambda>r. Inr (set_thread s t Holding r))"
| "vmb_exec s (AWait t f) =
     bindR (BlockWaitOnFile_begin (sys_vb s) f None) (\<lambda>r. Inr (set_thread s t Waiting r))"
| "vmb_exec s (AWaitCookie t f) =
     (case sys_thr s t of
        Some (Holding a) \<Rightarrow>
          bindR (BlockWaitOnFile_begin (sys_vb s) f (Some a)) (\<lambda>r. Inr (set_thread s t Waiting r))
      | _ \<Rightarrow> Inr s)"
| "vmb_exec s (AWake t) = end_wait s t OS_OK"
| "vmb_exec s (AInterrupt t) = end_wait s t OS_EINTR"

definition vmb_init :: "vmb_sys \<Rightarrow> bool" where
  "vmb_init s \<longleftrightarrow> BlockInit True = (Some (sys_vb s), OS_OK) \<and> sys_thr s = Map.empty"

definition vmb_step :: "vmb_sys \<Rightarrow> vmb_action \<Rightarrow> vmb_sys \<Rightarrow> bool" where
  "vmb_step s a s' \<longleftrightarrow> vmb_enabled s a \<and> vmb_exec s a = Inr s'"

end
