(* ===== verification/VMBlock_Laws.thy ===== *)
theory VMBlock_Laws
  imports VMBlock
begin

text \<open>
  Reference counting in \<^verbatim>\<open>block.c\<close>: the count of a structure is its place on the list plus the threads
  that hold it, so no freed structure is used, none is leaked, and a thread sleeps only while the
  file is blocked.
\<close>

section \<open>The invariant of the block list\<close>

text \<open>\<open>R\<close> counts the references held outside the list.\<close>

definition block_ok :: "(addr \<Rightarrow> nat) \<Rightarrow> vmblock \<Rightarrow> addr \<Rightarrow> bool" where
  "block_ok R s a \<longleftrightarrow>
     (case vb_heap s a of
        None \<Rightarrow> a \<notin> set (vb_list s) \<and> R a = 0
      | Some b \<Rightarrow> b_refcount b = of_bool (a \<in> set (vb_list s)) + int (R a) \<and> 0 < b_refcount b \<and>
          (b_completed b \<longleftrightarrow> a \<notin> set (vb_list s)))"

definition name_of :: "vmblock \<Rightarrow> addr \<Rightarrow> string" where
  "name_of s a = (case vb_heap s a of None \<Rightarrow> [] | Some b \<Rightarrow> b_filename b)"

definition blocker_of :: "vmblock \<Rightarrow> addr \<Rightarrow> os_blocker_id_t" where
  "blocker_of s a = (case vb_heap s a of None \<Rightarrow> 0 | Some b \<Rightarrow> b_blocker b)"

definition vb_inv :: "(addr \<Rightarrow> nat) \<Rightarrow> vmblock \<Rightarrow> bool" where
  "vb_inv R s \<longleftrightarrow> distinct (vb_list s) \<and> (\<forall>a. block_ok R s a) \<and> inj_on (name_of s) (set (vb_list s))"

lemma vb_invD:
  assumes "vb_inv R s"
  shows "distinct (vb_list s)" "block_ok R s a" "inj_on (name_of s) (set (vb_list s))"
  using assms by (simp_all add: vb_inv_def)

lemma listed_block:
  assumes "vb_inv R s" and "a \<in> set (vb_list s)"
  obtains b where "vb_heap s a = Some b" "b_refcount b = 1 + int (R a)" "\<not> b_completed b"
    "b_filename b = name_of s a" "b_blocker b = blocker_of s a"
  using vb_invD(2) [OF assms(1), of a] assms(2)
  by (cases "vb_heap s a") (auto simp: block_ok_def name_of_def blocker_of_def)

lemma held_block:
  assumes "vb_inv R s" and "0 < R a"
  obtains b where "vb_heap s a = Some b" "b_refcount b = of_bool (a \<in> set (vb_list s)) + int (R a)"
    "b_completed b \<longleftrightarrow> a \<notin> set (vb_list s)"
  using vb_invD(2) [OF assms(1), of a] assms(2) by (cases "vb_heap s a") (auto simp: block_ok_def)

text \<open>The names on the list with their blockers: what a caller sees.\<close>

definition vb_abs :: "vmblock \<Rightarrow> string \<Rightarrow> os_blocker_id_t option" where
  "vb_abs s = map_of (map (\<lambda>a. (name_of s a, blocker_of s a)) (vb_list s))"

lemma vb_abs_iff:
  assumes "vb_inv R s"
  shows "vb_abs s f = Some k \<longleftrightarrow> (\<exists>a \<in> set (vb_list s). name_of s a = f \<and> blocker_of s a = k)"
proof -
  have "distinct (map fst (map (\<lambda>a. (name_of s a, blocker_of s a)) (vb_list s)))"
    using vb_invD [OF assms] by (simp add: comp_def distinct_map)
  then show ?thesis
    unfolding vb_abs_def by (simp add: map_of_eq_Some_iff) (auto simp: image_iff)
qed

lemma vb_abs_None: "vb_abs s f = None \<longleftrightarrow> (\<forall>a \<in> set (vb_list s). name_of s a \<noteq> f)"
  by (auto simp: vb_abs_def map_of_eq_None_iff image_image)

section \<open>The helpers\<close>

lemma GetBlock_spec:
  assumes inv: "vb_inv R s"
  shows "GetBlock s f k = Inr (find (\<lambda>a. (k = OS_UNKNOWN_BLOCKER \<or> blocker_of s a = k) \<and> name_of s a = f) (vb_list s))"
proof -
  have "GetBlock_loop s as f k = Inr (find (\<lambda>a. (k = OS_UNKNOWN_BLOCKER \<or> blocker_of s a = k) \<and> name_of s a = f) as)"
    if "set as \<subseteq> set (vb_list s)" for as
    using that
  proof (induction as)
    case (Cons a as)
    then obtain b where "vb_heap s a = Some b" "b_filename b = name_of s a" "b_blocker b = blocker_of s a"
      using listed_block [OF inv, of a] by auto
    with Cons show ?case by (auto simp: loadBlock_def block_matches_def)
  qed simp
  then show ?thesis by (simp add: GetBlock_def)
qed

lemma GetBlock_cases:
  assumes inv: "vb_inv R s"
  obtains (found) a where "GetBlock s f k = Inr (Some a)" "a \<in> set (vb_list s)" "name_of s a = f"
      "k = OS_UNKNOWN_BLOCKER \<or> blocker_of s a = k"
  | (none) "GetBlock s f k = Inr None" "vb_abs s f = None \<or> k \<noteq> OS_UNKNOWN_BLOCKER \<and> vb_abs s f \<noteq> Some k"
proof (cases "find (\<lambda>a. (k = OS_UNKNOWN_BLOCKER \<or> blocker_of s a = k) \<and> name_of s a = f) (vb_list s)")
  case None
  with none show thesis
    by (auto simp: GetBlock_spec [OF inv] find_None_iff vb_abs_None vb_abs_iff [OF inv])
next
  case (Some a)
  with found [of a] show thesis
    by (auto simp: GetBlock_spec [OF inv] find_Some_iff)
qed

lemma name_of_store:
  "name_of (storeBlock s a b) x = (if x = a then b_filename b else name_of s x)"
  "blocker_of (storeBlock s a b) x = (if x = a then b_blocker b else blocker_of s x)"
  "vb_list (storeBlock s a b) = vb_list s"
  "vb_heap (storeBlock s a b) = (vb_heap s)(a \<mapsto> b)"
  by (simp_all add: name_of_def blocker_of_def storeBlock_def)

text \<open>An operation that changes only counts keeps the names on the list.\<close>

definition same_list :: "vmblock \<Rightarrow> vmblock \<Rightarrow> bool" where
  "same_list s s' \<longleftrightarrow> vb_list s' = vb_list s \<and>
     (\<forall>a \<in> set (vb_list s). name_of s' a = name_of s a \<and> blocker_of s' a = blocker_of s a)"

lemma same_list_abs: "same_list s s' \<Longrightarrow> vb_abs s' = vb_abs s"
  unfolding vb_abs_def same_list_def by (metis (no_types, lifting) map_cong)

lemma BlockGrabReference_spec:
  assumes inv: "vb_inv R s" and a: "a \<in> set (vb_list s) \<or> 0 < R a"
  obtains s' where "BlockGrabReference s a = Inr s'" "vb_inv (R(a := R a + 1)) s'" "same_list s s'"
proof -
  have ok: "block_ok R s x" for x by (rule vb_invD(2) [OF inv])
  then obtain b where b: "vb_heap s a = Some b" "b_refcount b = of_bool (a \<in> set (vb_list s)) + int (R a)"
    "b_completed b \<longleftrightarrow> a \<notin> set (vb_list s)"
    using a ok [of a] by (cases "vb_heap s a") (auto simp: block_ok_def)
  let ?s = "storeBlock s a (b\<lparr>b_refcount := b_refcount b + 1\<rparr>)"
  have names: "name_of ?s x = name_of s x" "blocker_of ?s x = blocker_of s x" for x
    using b(1) by (simp_all add: name_of_def blocker_of_def storeBlock_def)
  have "block_ok (R(a := R a + 1)) ?s x" for x
    using ok [of x] b by (cases "x = a") (auto simp: block_ok_def name_of_store split: option.splits)
  moreover have "inj_on (name_of ?s) (set (vb_list ?s))"
    using vb_invD(3) [OF inv] names by (simp add: name_of_store(3) inj_on_def)
  ultimately have "vb_inv (R(a := R a + 1)) ?s"
    using vb_invD(1) [OF inv] by (simp add: vb_inv_def name_of_store)
  with b(1) names show thesis
    by (intro that [of ?s]) (simp_all add: BlockGrabReference_def loadBlock_def same_list_def name_of_store)
qed

lemma BlockDropReference_spec:
  assumes inv: "vb_inv R s" and a: "0 < R a"
  obtains s' where "BlockDropReference s a = Inr s'" "vb_inv (R(a := R a - 1)) s'" "same_list s s'"
proof -
  have ok: "block_ok R s x" for x by (rule vb_invD(2) [OF inv])
  obtain b where b: "vb_heap s a = Some b" "b_refcount b = of_bool (a \<in> set (vb_list s)) + int (R a)"
    "b_completed b \<longleftrightarrow> a \<notin> set (vb_list s)"
    by (rule held_block [OF inv a])
  let ?s1 = "storeBlock s a (b\<lparr>b_refcount := b_refcount b - 1\<rparr>)"
  let ?s = "if b_refcount b - 1 = 0 then FreeBlock ?s1 a else ?s1"
  have free: "b_refcount b - 1 = 0 \<longleftrightarrow> a \<notin> set (vb_list s) \<and> R a = 1" using b(2) a by auto
  have names: "name_of ?s x = name_of s x" "blocker_of ?s x = blocker_of s x" if "x \<in> set (vb_list s)" for x
    using b(1) that free by (auto simp: name_of_def blocker_of_def storeBlock_def FreeBlock_def)
  have lst: "vb_list ?s = vb_list s" by (simp add: FreeBlock_def name_of_store)
  have "block_ok (R(a := R a - 1)) ?s x" for x
    using ok [of x] b free a
    by (cases "x = a") (auto simp: block_ok_def name_of_store FreeBlock_def of_nat_diff split: option.splits)
  moreover have "inj_on (name_of ?s) (set (vb_list ?s))"
    unfolding lst using vb_invD(3) [OF inv] names by (simp add: inj_on_def)
  ultimately have "vb_inv (R(a := R a - 1)) ?s"
    using vb_invD(1) [OF inv] lst by (simp add: vb_inv_def)
  with b(1) names lst show thesis
    by (intro that [of ?s]) (simp_all add: BlockDropReference_def loadBlock_def same_list_def Let_def)
qed

text \<open>Unlinking turns the reference of the list into one that is dropped at once.\<close>

lemma BlockDoRemoveBlock_spec:
  assumes inv: "vb_inv R s" and a: "a \<in> set (vb_list s)"
  obtains s' where "BlockDoRemoveBlock s a = Inr s'" "vb_inv R s'" "vb_list s' = remove1 a (vb_list s)"
    "\<forall>x \<in> set (vb_list s'). name_of s' x = name_of s x \<and> blocker_of s' x = blocker_of s x"
proof -
  obtain b where b: "vb_heap s a = Some b" "b_refcount b = 1 + int (R a)" "\<not> b_completed b"
    by (rule listed_block [OF inv a])
  let ?s1 = "storeBlock (s\<lparr>vb_list := remove1 a (vb_list s)\<rparr>) a (b\<lparr>b_completed := True\<rparr>)"
  let ?R = "R(a := R a + 1)"
  note d = vb_invD(1) [OF inv]
  have names: "name_of ?s1 x = name_of s x" "blocker_of ?s1 x = blocker_of s x" for x
    using b(1) by (simp_all add: name_of_def blocker_of_def storeBlock_def)
  have "block_ok ?R ?s1 x" for x
    using vb_invD(2) [OF inv, of x] b a d by (cases "x = a") (auto simp: block_ok_def name_of_store split: option.splits)
  moreover have "inj_on (name_of ?s1) (set (vb_list ?s1))"
    using vb_invD(3) [OF inv] names d by (auto simp: name_of_store(3) inj_on_def)
  ultimately have inv1: "vb_inv ?R ?s1"
    using d by (simp add: vb_inv_def name_of_store)
  have pos: "0 < ?R a" by simp
  obtain s' where s': "BlockDropReference ?s1 a = Inr s'" "vb_inv (?R(a := ?R a - 1)) s'" "same_list ?s1 s'"
    by (rule BlockDropReference_spec [OF inv1 pos])
  show thesis
    by (rule that [of s'])
       (use s' b(1) names in \<open>auto simp: BlockDoRemoveBlock_def loadBlock_def same_list_def name_of_store(3)\<close>)
qed

section \<open>The entry points on the names that are blocked\<close>

lemma vb_abs_cong:
  assumes "vb_list s' = vb_list s" "\<And>x. x \<in> set (vb_list s) \<Longrightarrow> name_of s' x = name_of s x \<and> blocker_of s' x = blocker_of s x"
  shows "vb_abs s' = vb_abs s"
  using assms by (intro same_list_abs) (simp add: same_list_def)

lemma BlockAddFileBlock_spec:
  assumes inv: "vb_inv R s" and fresh: "\<And>a. cache = Some a \<Longrightarrow> vb_heap s a = None"
  obtains s' err where "BlockAddFileBlock s cache f k = Inr (s', err)" "vb_inv R s'"
    "err = (if vb_abs s f \<noteq> None then OS_EEXIST
            else if cache = None \<or> OS_PATH_MAX \<le> length f then OS_ENOMEM else OS_OK)"
    "vb_abs s' = (if err = OS_OK then (vb_abs s)(f \<mapsto> k) else vb_abs s)"
  using inv
proof (cases rule: GetBlock_cases [where f = f and k = OS_UNKNOWN_BLOCKER])
  case (found a)
  then have "vb_abs s f \<noteq> None" using vb_abs_None [of s f] by auto
  with found inv show thesis by (intro that [of s OS_EEXIST]) (simp_all add: BlockAddFileBlock_def)
next
  case none
  then have free: "vb_abs s f = None" by simp
  show thesis
  proof (cases "cache = None \<or> OS_PATH_MAX \<le> length f")
    case True
    with none free inv show thesis
      by (intro that [of s OS_ENOMEM]) (auto simp: BlockAddFileBlock_def AllocBlock_def split: option.split)
  next
    case False
    then obtain a where a: "cache = Some a" "\<not> OS_PATH_MAX \<le> length f" by auto
    let ?b = "\<lparr>b_refcount = 1, b_blocker = k, b_completed = False, b_filename = f\<rparr>"
    let ?s = "(storeBlock s a ?b)\<lparr>vb_list := vb_list s @ [a]\<rparr>"
    have h: "vb_heap s a = None" by (rule fresh [OF a(1)])
    then have nl: "a \<notin> set (vb_list s)" "R a = 0"
      using vb_invD(2) [OF inv, of a] by (simp_all add: block_ok_def)
    have names: "name_of ?s x = (if x = a then f else name_of s x)" "blocker_of ?s x = (if x = a then k else blocker_of s x)" for x
      by (simp_all add: name_of_def blocker_of_def storeBlock_def)
    have "block_ok R ?s x" for x
      using vb_invD(2) [OF inv, of x] nl h by (auto simp: block_ok_def name_of_store split: option.splits)
    moreover have "inj_on (name_of ?s) (set (vb_list ?s))"
      using vb_invD(3) [OF inv] names free [unfolded vb_abs_None] nl by (auto simp: inj_on_def)
    ultimately have inv': "vb_inv R ?s"
      using vb_invD(1) [OF inv] nl by (simp add: vb_inv_def)
    have m: "map (\<lambda>x. (name_of ?s x, blocker_of ?s x)) (vb_list s) = map (\<lambda>x. (name_of s x, blocker_of s x)) (vb_list s)"
      using names nl by (intro map_cong refl) auto
    have "map (\<lambda>x. (name_of ?s x, blocker_of ?s x)) (vb_list ?s) = map (\<lambda>x. (name_of s x, blocker_of s x)) (vb_list s) @ [(f, k)]"
      using m names by (simp del: map_eq_conv)
    from arg_cong [OF this, of map_of] have "vb_abs ?s = [f \<mapsto> k] ++ vb_abs s"
      unfolding vb_abs_def by (simp only: map_of_append map_of.simps fst_conv snd_conv)
    then have "vb_abs ?s = (vb_abs s)(f \<mapsto> k)"
      using free by (auto simp: map_add_def fun_eq_iff split: option.split)
    with none a inv' free show thesis
      by (intro that [of ?s OS_OK]) (simp_all add: BlockAddFileBlock_def AllocBlock_def name_of_store)
  qed
qed

lemma BlockRemoveFileBlock_spec:
  assumes inv: "vb_inv R s"
  obtains s' err where "BlockRemoveFileBlock s f k = Inr (s', err)" "vb_inv R s'"
    "err = (if vb_abs s f \<noteq> None \<and> (k = OS_UNKNOWN_BLOCKER \<or> vb_abs s f = Some k) then OS_OK else OS_ENOENT)"
    "vb_abs s' = (if err = OS_OK then (vb_abs s)(f := None) else vb_abs s)"
  using inv
proof (cases rule: GetBlock_cases [where f = f and k = k])
  case none
  with inv show thesis by (intro that [of s OS_ENOENT]) (auto simp: BlockRemoveFileBlock_def)
next
  case (found a)
  obtain s' where s': "BlockDoRemoveBlock s a = Inr s'" "vb_inv R s'" "vb_list s' = remove1 a (vb_list s)"
    "\<forall>x \<in> set (vb_list s'). name_of s' x = name_of s x \<and> blocker_of s' x = blocker_of s x"
    by (rule BlockDoRemoveBlock_spec [OF inv found(2)])
  have abs: "vb_abs s f = Some (blocker_of s a)"
    using found vb_abs_iff [OF inv] by blast
  have set: "set (vb_list s') = set (vb_list s) - {a}"
    using s'(3) vb_invD(1) [OF inv] by simp
  have "vb_abs s' g = ((vb_abs s)(f := None)) g" for g
  proof (cases "vb_abs s' g")
    case None
    then have "\<forall>x \<in> set (vb_list s) - {a}. name_of s x \<noteq> g"
      using s'(4) set by (auto simp: vb_abs_None)
    then have "vb_abs s g = None" if "g \<noteq> f" using that found(3) by (auto simp: vb_abs_None)
    with None show ?thesis by auto
  next
    case (Some j)
    then obtain x where x: "x \<in> set (vb_list s')" "name_of s' x = g" "blocker_of s' x = j"
      using vb_abs_iff [OF s'(2)] by blast
    then have y: "x \<in> set (vb_list s)" "x \<noteq> a" "name_of s x = g" "blocker_of s x = j"
      using set s'(4) by auto
    then have "vb_abs s g = Some j" using vb_abs_iff [OF inv] by blast
    moreover have "g \<noteq> f" using y found(2,3) vb_invD(3) [OF inv] by (auto simp: inj_on_def)
    ultimately show ?thesis using Some by simp
  qed
  then have "vb_abs s' = (vb_abs s)(f := None)" ..
  with found s' abs show thesis
    by (intro that [of s' OS_OK]) (auto simp: BlockRemoveFileBlock_def)
qed

lemma BlockRemoveFileBlock_list:
  assumes inv: "vb_inv R s" and rm: "BlockRemoveFileBlock s f k = Inr (s', OS_OK)"
  shows "vb_inv R s'" and "set (vb_list s') = {x \<in> set (vb_list s). name_of s x \<noteq> f}"
proof -
  have "vb_inv R s' \<and> set (vb_list s') = {x \<in> set (vb_list s). name_of s x \<noteq> f}"
    using inv
  proof (cases rule: GetBlock_cases [where f = f and k = k])
    case none
    with rm show ?thesis by (simp add: BlockRemoveFileBlock_def)
  next
    case (found a)
    obtain s1 where s1: "BlockDoRemoveBlock s a = Inr s1" "vb_inv R s1" "vb_list s1 = remove1 a (vb_list s)"
      by (rule BlockDoRemoveBlock_spec [OF inv found(2)])
    have "s' = s1" using rm found(1) s1(1) by (simp add: BlockRemoveFileBlock_def)
    with s1 found vb_invD(1,3) [OF inv] show ?thesis by (auto simp: inj_on_def)
  qed
  then show "vb_inv R s'" and "set (vb_list s') = {x \<in> set (vb_list s). name_of s x \<noteq> f}" by simp_all
qed

lemma BlockRemoveAllBlocks_loop_spec:
  assumes "vb_inv R s" and "set as \<subseteq> set (vb_list s)" and "distinct as"
  shows "\<exists>s'. BlockRemoveAllBlocks_loop k as s n =
      Inr (s', n + length (filter (\<lambda>x. blocker_of s x = k \<or> k = OS_UNKNOWN_BLOCKER) as)) \<and> vb_inv R s' \<and>
    vb_list s' = filter (\<lambda>x. \<not> (x \<in> set as \<and> (blocker_of s x = k \<or> k = OS_UNKNOWN_BLOCKER))) (vb_list s) \<and>
    (\<forall>x \<in> set (vb_list s'). name_of s' x = name_of s x \<and> blocker_of s' x = blocker_of s x)"
  using assms
proof (induction as arbitrary: s n)
  case (Cons a as)
  have a: "a \<in> set (vb_list s)" using Cons.prems by simp
  obtain b where b: "vb_heap s a = Some b" "b_blocker b = blocker_of s a"
    by (rule listed_block [OF Cons.prems(1) a])
  have sub0: "set as \<subseteq> set (vb_list s)" "distinct as" using Cons.prems by simp_all
  show ?case
  proof (cases "blocker_of s a = k \<or> k = OS_UNKNOWN_BLOCKER")
    case False
    obtain s' where "BlockRemoveAllBlocks_loop k as s n =
        Inr (s', n + length (filter (\<lambda>x. blocker_of s x = k \<or> k = OS_UNKNOWN_BLOCKER) as))" "vb_inv R s'"
      "vb_list s' = filter (\<lambda>x. \<not> (x \<in> set as \<and> (blocker_of s x = k \<or> k = OS_UNKNOWN_BLOCKER))) (vb_list s)"
      "\<forall>x \<in> set (vb_list s'). name_of s' x = name_of s x \<and> blocker_of s' x = blocker_of s x"
      using Cons.IH [OF Cons.prems(1) sub0(1,2), of n] by blast
    with False b show ?thesis
      by (auto simp: loadBlock_def intro!: filter_cong)
  next
    case True
    obtain s1 where s1: "BlockDoRemoveBlock s a = Inr s1" "vb_inv R s1" "vb_list s1 = remove1 a (vb_list s)"
      "\<forall>x \<in> set (vb_list s1). name_of s1 x = name_of s x \<and> blocker_of s1 x = blocker_of s x"
      by (rule BlockDoRemoveBlock_spec [OF Cons.prems(1) a])
    have d: "distinct (vb_list s)" by (rule vb_invD(1) [OF Cons.prems(1)])
    have sub: "set as \<subseteq> set (vb_list s1)" using Cons.prems(2,3) s1(3) d by auto
    obtain s2 where s2: "BlockRemoveAllBlocks_loop k as s1 (n + 1) =
        Inr (s2, n + 1 + length (filter (\<lambda>x. blocker_of s1 x = k \<or> k = OS_UNKNOWN_BLOCKER) as))" "vb_inv R s2"
      "vb_list s2 = filter (\<lambda>x. \<not> (x \<in> set as \<and> (blocker_of s1 x = k \<or> k = OS_UNKNOWN_BLOCKER))) (vb_list s1)"
      "\<forall>x \<in> set (vb_list s2). name_of s2 x = name_of s1 x \<and> blocker_of s2 x = blocker_of s1 x"
      using Cons.IH [OF s1(2) sub sub0(2), of "n + 1"] by blast
    have cnt: "filter (\<lambda>x. blocker_of s1 x = k \<or> k = OS_UNKNOWN_BLOCKER) as =
        filter (\<lambda>x. blocker_of s x = k \<or> k = OS_UNKNOWN_BLOCKER) as"
      using s1(4) sub by (intro filter_cong) auto
    have "vb_list s2 = filter (\<lambda>x. \<not> (x \<in> set as \<and> (blocker_of s x = k \<or> k = OS_UNKNOWN_BLOCKER))) (remove1 a (vb_list s))"
      unfolding s2(3) s1(3) using s1(4) s1(3) by (intro filter_cong) auto
    also have "\<dots> = filter (\<lambda>x. \<not> (x \<in> set (a # as) \<and> (blocker_of s x = k \<or> k = OS_UNKNOWN_BLOCKER))) (vb_list s)"
      using True d by (auto simp: distinct_remove1_removeAll removeAll_filter_not_eq intro!: filter_cong)
    finally have lst: "vb_list s2 = \<dots>" .
    have "\<forall>x \<in> set (vb_list s2). name_of s2 x = name_of s x \<and> blocker_of s2 x = blocker_of s x"
      using s2(3,4) s1(4) by auto
    with s2(1,2) lst b s1(1) True cnt show ?thesis by (auto simp: loadBlock_def)
  qed
qed simp

lemma BlockRemoveAllBlocks_spec:
  assumes inv: "vb_inv R s"
  obtains s' n where "BlockRemoveAllBlocks s k = Inr (s', n)" "vb_inv R s'"
    "vb_abs s' = (\<lambda>f. if vb_abs s f = Some k \<or> k = OS_UNKNOWN_BLOCKER then None else vb_abs s f)"
    "n = card {f. vb_abs s f \<noteq> None \<and> (vb_abs s f = Some k \<or> k = OS_UNKNOWN_BLOCKER)}"
proof -
  let ?P = "\<lambda>x. blocker_of s x = k \<or> k = OS_UNKNOWN_BLOCKER"
  obtain s' where s': "BlockRemoveAllBlocks_loop k (vb_list s) s 0 = Inr (s', 0 + length (filter ?P (vb_list s)))" "vb_inv R s'"
    "vb_list s' = filter (\<lambda>x. \<not> (x \<in> set (vb_list s) \<and> ?P x)) (vb_list s)"
    "\<forall>x \<in> set (vb_list s'). name_of s' x = name_of s x \<and> blocker_of s' x = blocker_of s x"
    using BlockRemoveAllBlocks_loop_spec [OF inv subset_refl vb_invD(1) [OF inv], of k 0] by blast
  have "vb_abs s' f = (if vb_abs s f = Some k \<or> k = OS_UNKNOWN_BLOCKER then None else vb_abs s f)" for f
  proof (cases "vb_abs s' f")
    case None
    then have "\<forall>x \<in> set (vb_list s). name_of s x = f \<longrightarrow> ?P x"
      using s'(3,4) by (auto simp: vb_abs_None)
    with None show ?thesis
      by (cases "vb_abs s f") (auto simp: vb_abs_iff [OF inv])
  next
    case (Some j)
    then obtain x where x: "x \<in> set (vb_list s')" "name_of s' x = f" "blocker_of s' x = j"
      using vb_abs_iff [OF s'(2)] by blast
    then have "x \<in> set (vb_list s)" "\<not> ?P x" "name_of s x = f" "blocker_of s x = j"
      using s'(3,4) by auto
    moreover from this have "vb_abs s f = Some j" using vb_abs_iff [OF inv] by blast
    ultimately show ?thesis using Some by auto
  qed
  then have abs: "vb_abs s' = (\<lambda>f. if vb_abs s f = Some k \<or> k = OS_UNKNOWN_BLOCKER then None else vb_abs s f)" ..
  have "name_of s ` set (filter ?P (vb_list s)) = {f. vb_abs s f \<noteq> None \<and> (vb_abs s f = Some k \<or> k = OS_UNKNOWN_BLOCKER)}"
    using vb_abs_iff [OF inv] by (fastforce simp: image_iff)
  moreover have "inj_on (name_of s) (set (filter ?P (vb_list s)))"
    using vb_invD(3) [OF inv] by (rule inj_on_subset) auto
  ultimately have "card {f. vb_abs s f \<noteq> None \<and> (vb_abs s f = Some k \<or> k = OS_UNKNOWN_BLOCKER)} = length (filter ?P (vb_list s))"
    using card_image [of "name_of s" "set (filter ?P (vb_list s))"] distinct_card [of "filter ?P (vb_list s)"] vb_invD(1) [OF inv]
    by simp
  with s' abs show thesis by (intro that [of s']) (simp_all add: BlockRemoveAllBlocks_def)
qed

section \<open>Threads\<close>

fun held :: "thread \<Rightarrow> addr" where
  "held (Holding a) = a"
| "held (Waiting a) = a"

lemma held_iff: "held x = a \<longleftrightarrow> x = Holding a \<or> x = Waiting a"
  by (cases x) auto

definition refs :: "(tid \<Rightarrow> thread option) \<Rightarrow> addr \<Rightarrow> nat" where
  "refs thr a = card {t. map_option held (thr t) = Some a}"

lemma finite_holders: "finite (dom thr) \<Longrightarrow> finite {t. map_option held (thr t) = Some a}"
  by (rule finite_subset [of _ "dom thr"]) auto

lemma refs_new:
  assumes "finite (dom thr)" and "thr t = None"
  shows "refs (thr(t \<mapsto> x)) = (refs thr)(held x := refs thr (held x) + 1)"
proof
  fix a
  have "{u. map_option held ((thr(t \<mapsto> x)) u) = Some a} =
      (if a = held x then insert t {u. map_option held (thr u) = Some a} else {u. map_option held (thr u) = Some a})"
    using assms(2) by auto
  then show "refs (thr(t \<mapsto> x)) a = ((refs thr)(held x := refs thr (held x) + 1)) a"
    using finite_holders [OF assms(1)] assms(2) by (simp add: refs_def)
qed

lemma refs_del:
  assumes "finite (dom thr)" and "thr t = Some x"
  shows "refs (thr(t := None)) = (refs thr)(held x := refs thr (held x) - 1)" and "0 < refs thr (held x)"
proof -
  have mem: "t \<in> {u. map_option held (thr u) = Some (held x)}" using assms(2) by simp
  then show "0 < refs thr (held x)"
    unfolding refs_def using finite_holders [OF assms(1)] card_gt_0_iff by blast
  show "refs (thr(t := None)) = (refs thr)(held x := refs thr (held x) - 1)"
  proof
    fix a
    have "{u. map_option held ((thr(t := None)) u) = Some a} =
        (if a = held x then {u. map_option held (thr u) = Some a} - {t} else {u. map_option held (thr u) = Some a})"
      using assms(2) by auto
    then show "refs (thr(t := None)) a = ((refs thr)(held x := refs thr (held x) - 1)) a"
      using mem finite_holders [OF assms(1)] by (simp add: refs_def)
  qed
qed

lemma refs_swap: "thr t = Some x \<Longrightarrow> held y = held x \<Longrightarrow> refs (thr(t \<mapsto> y)) = refs thr"
  by (rule ext) (auto simp: refs_def intro!: arg_cong [of _ _ card])

lemma refs_0: "refs Map.empty = (\<lambda>a. 0)"
  by (rule ext) (simp add: refs_def)

definition sys_inv :: "vmb_sys \<Rightarrow> bool" where
  "sys_inv s \<longleftrightarrow> finite (dom (sys_thr s)) \<and> vb_inv (refs (sys_thr s)) (sys_vb s)"

lemma set_thread_inv:
  assumes "finite (dom (sys_thr s))" and "sys_thr s t = None"
    and "case r of None \<Rightarrow> vb_inv (refs (sys_thr s)) vb
         | Some a \<Rightarrow> vb_inv ((refs (sys_thr s))(a := refs (sys_thr s) a + 1)) vb"
    and "\<And>a. held (how a) = a"
  shows "sys_inv (set_thread s t how (vb, r))"
  using assms by (cases r) (auto simp: set_thread_def sys_inv_def refs_new)

lemma find_and_grab:
  assumes inv: "vb_inv R s"
  obtains s' r where "bindR (GetBlock s f k) (\<lambda>r. case r of None \<Rightarrow> Inr (s, None)
       | Some a \<Rightarrow> bindR (BlockGrabReference s a) (\<lambda>s1. Inr (s1, Some a))) = Inr (s', r)"
    "case r of None \<Rightarrow> vb_inv R s' | Some a \<Rightarrow> vb_inv (R(a := R a + 1)) s'"
  using inv
proof (cases rule: GetBlock_cases [where f = f and k = k])
  case (found a)
  have "a \<in> set (vb_list s) \<or> 0 < R a" using found(2) by simp
  then obtain s' where "BlockGrabReference s a = Inr s'" "vb_inv (R(a := R a + 1)) s'" "same_list s s'"
    by (rule BlockGrabReference_spec [OF inv])
  with found show thesis by (intro that [of s' "Some a"]) simp_all
qed (use inv that in auto)

lemma end_wait_safe:
  assumes inv: "sys_inv s" and t: "sys_thr s t = Some (Waiting a)"
  shows "\<exists>s'. end_wait s t err = Inr s' \<and> sys_inv s'"
proof -
  have f: "finite (dom (sys_thr s))" and v: "vb_inv (refs (sys_thr s)) (sys_vb s)"
    using inv by (simp_all add: sys_inv_def)
  note del = refs_del [OF f t, simplified]
  obtain vb where vb: "BlockDropReference (sys_vb s) a = Inr vb"
    "vb_inv ((refs (sys_thr s))(a := refs (sys_thr s) a - 1)) vb"
    by (rule BlockDropReference_spec [OF v del(2)])
  then show ?thesis
    using t f del(1) by (simp add: end_wait_def BlockWaitOnFile_end_def sys_inv_def)
qed

lemma vmb_exec_safe:
  assumes inv: "sys_inv s" and en: "vmb_enabled s a"
  shows "\<exists>s'. vmb_exec s a = Inr s' \<and> sys_inv s'"
proof -
  have f: "finite (dom (sys_thr s))" and v: "vb_inv (refs (sys_thr s)) (sys_vb s)"
    using inv by (simp_all add: sys_inv_def)
  show ?thesis
  proof (cases a)
    case (AAdd cache n b)
    have "\<And>x. cache = Some x \<Longrightarrow> vb_heap (sys_vb s) x = None" using en AAdd by simp
    then obtain vb err where "BlockAddFileBlock (sys_vb s) cache n b = Inr (vb, err)" "vb_inv (refs (sys_thr s)) vb"
      by (rule BlockAddFileBlock_spec [OF v])
    with AAdd f show ?thesis by (simp add: sys_inv_def)
  next
    case (ARemove n b)
    obtain vb err where "BlockRemoveFileBlock (sys_vb s) n b = Inr (vb, err)" "vb_inv (refs (sys_thr s)) vb"
      by (rule BlockRemoveFileBlock_spec [OF v])
    with ARemove f show ?thesis by (simp add: sys_inv_def)
  next
    case (ARemoveAll b)
    obtain vb n where "BlockRemoveAllBlocks (sys_vb s) b = Inr (vb, n)" "vb_inv (refs (sys_thr s)) vb"
      by (rule BlockRemoveAllBlocks_spec [OF v])
    with ARemoveAll f show ?thesis by (simp add: sys_inv_def)
  next
    case (ALookup t n b)
    obtain vb r where r: "BlockLookup (sys_vb s) n b = Inr (vb, r)"
      "case r of None \<Rightarrow> vb_inv (refs (sys_thr s)) vb
       | Some a \<Rightarrow> vb_inv ((refs (sys_thr s))(a := refs (sys_thr s) a + 1)) vb"
      unfolding BlockLookup_def by (rule find_and_grab [OF v])
    have "sys_inv (set_thread s t Holding (vb, r))"
      using en ALookup by (intro set_thread_inv f r(2)) simp_all
    with ALookup r(1) show ?thesis by simp
  next
    case (AWait t n)
    obtain vb r where r: "BlockWaitOnFile_begin (sys_vb s) n None = Inr (vb, r)"
      "case r of None \<Rightarrow> vb_inv (refs (sys_thr s)) vb
       | Some a \<Rightarrow> vb_inv ((refs (sys_thr s))(a := refs (sys_thr s) a + 1)) vb"
      unfolding BlockWaitOnFile_begin_def option.case by (rule find_and_grab [OF v])
    have "sys_inv (set_thread s t Waiting (vb, r))"
      using en AWait by (intro set_thread_inv f r(2)) simp_all
    with AWait r(1) show ?thesis by simp
  next
    case (AWaitCookie t n)
    then obtain x where x: "sys_thr s t = Some (Holding x)"
      using en by (auto split: option.splits thread.splits)
    then have "refs ((sys_thr s)(t \<mapsto> Waiting x)) = refs (sys_thr s)" by (rule refs_swap) simp
    with AWaitCookie x f v show ?thesis
      by (simp add: BlockWaitOnFile_begin_def set_thread_def sys_inv_def)
  qed (use en end_wait_safe [OF inv] in \<open>auto split: option.splits thread.splits\<close>)
qed

interpretation vmb: invariant_system vmb_init vmb_step sys_inv
proof
  show "sys_inv s" if "vmb_init s" for s
  proof -
    have "sys_thr s = Map.empty" "vb_heap (sys_vb s) = Map.empty" "vb_list (sys_vb s) = []"
      using that by (auto simp: vmb_init_def BlockInit_def) (metis vmblock.simps(1,2))+
    then show ?thesis
      by (simp add: sys_inv_def vb_inv_def block_ok_def refs_0)
  qed
  show "sys_inv s'" if "sys_inv s" "vmb_step s a s'" for s a s'
    using vmb_exec_safe [of s a] that by (auto simp: vmb_step_def)
qed

section \<open>Properties\<close>

text \<open>
  C1. Memory safety of the block list under concurrency: in every state that the entry points reach from
  \<^verbatim>\<open>BlockInit\<close>, whatever the threads do, no entry point touches a freed structure or a null pointer, and a
  thread that is woken up or interrupted still finds its structure.
\<close>

theorem vmblock_no_dangling:
  assumes "reach vmb_init vmb_step s" and "vmb_enabled s a"
  shows "\<exists>s'. vmb_exec s a = Inr s'"
  using vmb_exec_safe [OF vmb.reach_inv [OF assms(1)] assms(2)] by blast

lemma reach_idle:
  "reach vmb_init vmb_step \<lparr>sys_vb = \<lparr>vb_heap = Map.empty, vb_list = []\<rparr>, sys_thr = Map.empty\<rparr>"
  by (rule reach_init) (simp add: vmb_init_def BlockInit_def)

abbreviation "demo_block n \<equiv> \<lparr>b_refcount = n, b_blocker = 5, b_completed = False, b_filename = ''/f''\<rparr>"

lemma reach_blocked:
  "reach vmb_init vmb_step
     \<lparr>sys_vb = \<lparr>vb_heap = [7 \<mapsto> demo_block 1], vb_list = [7]\<rparr>, sys_thr = Map.empty\<rparr>"
  by (rule reach_step [OF reach_idle, where a = "AAdd (Some 7) ''/f'' 5"])
    (simp add: vmb_step_def BlockAddFileBlock_def GetBlock_def AllocBlock_def OS_PATH_MAX_def storeBlock_def)

lemma reach_waiting:
  "reach vmb_init vmb_step
     \<lparr>sys_vb = \<lparr>vb_heap = [7 \<mapsto> demo_block 2], vb_list = [7]\<rparr>, sys_thr = [1 \<mapsto> Waiting 7]\<rparr>"
  by (rule reach_step [OF reach_blocked, where a = "AWait 1 ''/f''"])
    (simp add: vmb_step_def BlockWaitOnFile_begin_def GetBlock_def block_matches_def loadBlock_def
       BlockGrabReference_def storeBlock_def set_thread_def OS_UNKNOWN_BLOCKER_def)

theorem vmblock_no_dangling_witness:
  "\<exists>s'. vmb_exec \<lparr>sys_vb = \<lparr>vb_heap = [7 \<mapsto> demo_block 2], vb_list = [7]\<rparr>, sys_thr = [1 \<mapsto> Waiting 7]\<rparr>
          (ARemove ''/f'' 5) = Inr s'"
  by (rule vmblock_no_dangling [OF reach_waiting]) simp

text \<open>
  C12. Reference counting is exact: in every reachable state a structure is allocated if and only if it is on
  the list or held by a thread, its count is one for the list plus the number of threads that hold it,
  the completion is set exactly when it has left the list, and no two structures on the list have the
  same name. So nothing is leaked and nothing is freed early.
\<close>

theorem vmblock_refcount_exact:
  assumes "reach vmb_init vmb_step s"
  shows "(\<forall>a. vb_heap (sys_vb s) a \<noteq> None \<longleftrightarrow>
             a \<in> set (vb_list (sys_vb s)) \<or> (\<exists>t. sys_thr s t = Some (Holding a) \<or> sys_thr s t = Some (Waiting a))) \<and>
         (\<forall>a b. vb_heap (sys_vb s) a = Some b \<longrightarrow>
             b_refcount b = of_bool (a \<in> set (vb_list (sys_vb s))) +
               int (card {t. sys_thr s t = Some (Holding a) \<or> sys_thr s t = Some (Waiting a)}) \<and>
             (b_completed b \<longleftrightarrow> a \<notin> set (vb_list (sys_vb s)))) \<and>
         distinct (map (name_of (sys_vb s)) (vb_list (sys_vb s)))"
proof -
  have inv: "finite (dom (sys_thr s))" "vb_inv (refs (sys_thr s)) (sys_vb s)"
    using vmb.reach_inv [OF assms] by (simp_all add: sys_inv_def)
  have holders: "{t. map_option held (sys_thr s t) = Some a} =
      {t. sys_thr s t = Some (Holding a) \<or> sys_thr s t = Some (Waiting a)}" for a
    by (auto simp: held_iff)
  have pos: "0 < refs (sys_thr s) a \<longleftrightarrow> (\<exists>t. sys_thr s t = Some (Holding a) \<or> sys_thr s t = Some (Waiting a))" for a
    using finite_holders [OF inv(1), of a] by (simp only: refs_def holders card_gt_0_iff) blast
  have ok: "block_ok (refs (sys_thr s)) (sys_vb s) a" for a using vb_invD(2) [OF inv(2)] .
  have "vb_heap (sys_vb s) a \<noteq> None \<longleftrightarrow> a \<in> set (vb_list (sys_vb s)) \<or> 0 < refs (sys_thr s) a" for a
    using ok [of a] by (cases "vb_heap (sys_vb s) a") (auto simp: block_ok_def)
  moreover have "b_refcount b = of_bool (a \<in> set (vb_list (sys_vb s))) + int (refs (sys_thr s) a) \<and>
      (b_completed b \<longleftrightarrow> a \<notin> set (vb_list (sys_vb s)))" if "vb_heap (sys_vb s) a = Some b" for a b
    using ok [of a] that by (simp add: block_ok_def)
  moreover have "distinct (map (name_of (sys_vb s)) (vb_list (sys_vb s)))"
    using vb_invD [OF inv(2)] by (simp add: distinct_map)
  ultimately show ?thesis unfolding pos unfolding refs_def holders by blast
qed

theorem vmblock_refcount_exact_witness:
  "b_refcount (demo_block 2) = 1 + int (card {t. [1 \<mapsto> Waiting 7] t = Some (Holding 7) \<or> [1::nat \<mapsto> Waiting 7] t = Some (Waiting 7)})"
  using vmblock_refcount_exact [OF reach_waiting] by simp

text \<open>
  C20. A thread asleep in \<^verbatim>\<open>BlockWaitOnFile\<close> can return, without a signal, exactly when its block has been
  lifted; and a successful \<^verbatim>\<open>BlockRemoveFileBlock\<close> of the file lets every thread that waits for it return.
\<close>

theorem vmblock_waiters_released:
  assumes "reach vmb_init vmb_step s" and "sys_thr s t = Some (Waiting a)"
  shows "(vmb_enabled s (AWake t) \<longleftrightarrow> a \<notin> set (vb_list (sys_vb s))) \<and>
         (\<forall>vb. BlockRemoveFileBlock (sys_vb s) (name_of (sys_vb s) a) k = Inr (vb, OS_OK) \<longrightarrow>
               vmb_enabled (s\<lparr>sys_vb := vb\<rparr>) (AWake t))"
proof -
  let ?R = "refs (sys_thr s)"
  have inv: "finite (dom (sys_thr s))" "vb_inv ?R (sys_vb s)"
    using vmb.reach_inv [OF assms(1)] by (simp_all add: sys_inv_def)
  have pos: "0 < ?R a" using refs_del(2) [OF inv(1) assms(2)] by simp
  have wake: "vmb_enabled (s\<lparr>sys_vb := vb\<rparr>) (AWake t) \<longleftrightarrow> a \<notin> set (vb_list vb)" if v: "vb_inv ?R vb" for vb
  proof -
    obtain b where "vb_heap vb a = Some b" "b_completed b \<longleftrightarrow> a \<notin> set (vb_list vb)"
      using held_block [OF v pos] by blast
    then show ?thesis using assms(2) by simp
  qed
  have "vmb_enabled (s\<lparr>sys_vb := vb\<rparr>) (AWake t)"
    if rm: "BlockRemoveFileBlock (sys_vb s) (name_of (sys_vb s) a) k = Inr (vb, OS_OK)" for vb
    using BlockRemoveFileBlock_list [OF inv(2) rm] wake [of vb] by auto
  moreover have "vmb_enabled s (AWake t) \<longleftrightarrow> a \<notin> set (vb_list (sys_vb s))"
    using wake [OF inv(2)] by simp
  ultimately show ?thesis by blast
qed

theorem vmblock_waiters_released_witness:
  "\<not> vmb_enabled \<lparr>sys_vb = \<lparr>vb_heap = [7 \<mapsto> demo_block 2], vb_list = [7]\<rparr>, sys_thr = [1 \<mapsto> Waiting 7]\<rparr> (AWake 1)"
  using vmblock_waiters_released [OF reach_waiting, of 1 7] by simp

text \<open>
  C26. What a caller sees is a map from file names to blockers: adding a name that is blocked is
  \<^verbatim>\<open>EEXIST\<close>, a name that does not fit or a failed allocation \<^verbatim>\<open>ENOMEM\<close>, otherwise the name is added;
  removing succeeds exactly for a name that the blocker (or, for the unknown blocker, anybody) has
  blocked; removing all blocks of a blocker returns their number. Failed operations change nothing.
\<close>

theorem vmblock_refines_map:
  assumes "reach vmb_init vmb_step s" and "vb = sys_vb s"
    and "case cache of None \<Rightarrow> True | Some a \<Rightarrow> vb_heap vb a = None"
  shows "(\<exists>vb' err. BlockAddFileBlock vb cache f k = Inr (vb', err) \<and>
            err = (if vb_abs vb f \<noteq> None then OS_EEXIST
                   else if cache = None \<or> OS_PATH_MAX \<le> length f then OS_ENOMEM else OS_OK) \<and>
            vb_abs vb' = (if err = OS_OK then (vb_abs vb)(f \<mapsto> k) else vb_abs vb)) \<and>
         (\<exists>vb' err. BlockRemoveFileBlock vb f k = Inr (vb', err) \<and>
            err = (if vb_abs vb f \<noteq> None \<and> (k = OS_UNKNOWN_BLOCKER \<or> vb_abs vb f = Some k) then OS_OK else OS_ENOENT) \<and>
            vb_abs vb' = (if err = OS_OK then (vb_abs vb)(f := None) else vb_abs vb)) \<and>
         (\<exists>vb' n. BlockRemoveAllBlocks vb k = Inr (vb', n) \<and>
            n = card {f. vb_abs vb f \<noteq> None \<and> (vb_abs vb f = Some k \<or> k = OS_UNKNOWN_BLOCKER)} \<and>
            vb_abs vb' = (\<lambda>f. if vb_abs vb f = Some k \<or> k = OS_UNKNOWN_BLOCKER then None else vb_abs vb f))"
proof -
  have inv: "vb_inv (refs (sys_thr s)) vb"
    using vmb.reach_inv [OF assms(1)] assms(2) by (simp add: sys_inv_def)
  have "\<And>a. cache = Some a \<Longrightarrow> vb_heap vb a = None" using assms(3) by simp
  then obtain v1 e1 where "BlockAddFileBlock vb cache f k = Inr (v1, e1)"
    "e1 = (if vb_abs vb f \<noteq> None then OS_EEXIST
           else if cache = None \<or> OS_PATH_MAX \<le> length f then OS_ENOMEM else OS_OK)"
    "vb_abs v1 = (if e1 = OS_OK then (vb_abs vb)(f \<mapsto> k) else vb_abs vb)"
    by (rule BlockAddFileBlock_spec [OF inv])
  moreover obtain v2 e2 where "BlockRemoveFileBlock vb f k = Inr (v2, e2)"
    "e2 = (if vb_abs vb f \<noteq> None \<and> (k = OS_UNKNOWN_BLOCKER \<or> vb_abs vb f = Some k) then OS_OK else OS_ENOENT)"
    "vb_abs v2 = (if e2 = OS_OK then (vb_abs vb)(f := None) else vb_abs vb)"
    by (rule BlockRemoveFileBlock_spec [OF inv])
  moreover obtain v3 n where "BlockRemoveAllBlocks vb k = Inr (v3, n)"
    "vb_abs v3 = (\<lambda>f. if vb_abs vb f = Some k \<or> k = OS_UNKNOWN_BLOCKER then None else vb_abs vb f)"
    "n = card {f. vb_abs vb f \<noteq> None \<and> (vb_abs vb f = Some k \<or> k = OS_UNKNOWN_BLOCKER)}"
    by (rule BlockRemoveAllBlocks_spec [OF inv])
  ultimately show ?thesis by (intro conjI) (rule exI, rule exI, intro conjI, assumption+)+
qed

theorem vmblock_refines_map_witness:
  "\<exists>vb' err. BlockAddFileBlock \<lparr>vb_heap = [7 \<mapsto> demo_block 1], vb_list = [7]\<rparr> (Some 8) ''/f'' 6 = Inr (vb', err) \<and>
     err = OS_EEXIST"
  using vmblock_refines_map [OF reach_blocked refl, of "Some 8" "''/f''" 6]
  by (auto simp: vb_abs_def name_of_def)

end
