(* ===== verification/VMCIQueue.thy ===== *)
theory VMCIQueue
  imports Prelude
begin

text \<open>
  The queue pairs of VMCI: the queue header functions of \<^verbatim>\<open>modules/linux/shared/vmci_defs.h\<close>, the copies
  between buffers and queue pages of \<^verbatim>\<open>modules/linux/vmci/linux/vmciKernelIf.c\<close> and the accessors of
  \<^verbatim>\<open>modules/linux/vmci/common/vmciQPair.c\<close>. A queue is a ring of bytes that is spread over pages; the
  producer owns the tail in the header of the queue, the consumer the head in the header of the peer
  queue. Offsets and sizes keep their 64 bits.
\<close>

section \<open>Status codes\<close>

text \<open>Functions return a size or a negative code in an \<^verbatim>\<open>int64\<close> (\<^verbatim>\<open>ssize_t\<close>).\<close>

definition VMCI_SUCCESS :: i64 where "VMCI_SUCCESS = 0"
definition VMCI_ERROR_INVALID_ARGS :: i64 where "VMCI_ERROR_INVALID_ARGS = - 2"
definition VMCI_ERROR_NO_MEM :: i64 where "VMCI_ERROR_NO_MEM = - 3"
definition VMCI_ERROR_UNAVAILABLE :: i64 where "VMCI_ERROR_UNAVAILABLE = - 20"
definition VMCI_ERROR_INVALID_SIZE :: i64 where "VMCI_ERROR_INVALID_SIZE = - 24"
definition VMCI_ERROR_QUEUEPAIR_MISMATCH :: i64 where "VMCI_ERROR_QUEUEPAIR_MISMATCH = - 31"
definition VMCI_ERROR_QUEUEPAIR_NOTATTACHED :: i64 where "VMCI_ERROR_QUEUEPAIR_NOTATTACHED = - 34"
definition VMCI_ERROR_QUEUEPAIR_NOSPACE :: i64 where "VMCI_ERROR_QUEUEPAIR_NOSPACE = - 35"
definition VMCI_ERROR_QUEUEPAIR_NODATA :: i64 where "VMCI_ERROR_QUEUEPAIR_NODATA = - 36"
definition VMCI_ERROR_QUEUEPAIR_NOT_READY :: i64 where "VMCI_ERROR_QUEUEPAIR_NOT_READY = - 40"
definition VMCI_ERROR_WOULD_BLOCK :: i64 where "VMCI_ERROR_WOULD_BLOCK = - 41"

lemmas vmci_codes = VMCI_SUCCESS_def VMCI_ERROR_INVALID_ARGS_def VMCI_ERROR_NO_MEM_def VMCI_ERROR_UNAVAILABLE_def
  VMCI_ERROR_INVALID_SIZE_def VMCI_ERROR_QUEUEPAIR_MISMATCH_def VMCI_ERROR_QUEUEPAIR_NOTATTACHED_def
  VMCI_ERROR_QUEUEPAIR_NOSPACE_def VMCI_ERROR_QUEUEPAIR_NODATA_def VMCI_ERROR_QUEUEPAIR_NOT_READY_def
  VMCI_ERROR_WOULD_BLOCK_def

definition failed :: "i64 \<Rightarrow> bool" where
  "failed r \<longleftrightarrow> sint r < sint VMCI_SUCCESS"

section \<open>Queue headers\<close>

type_synonym VMCIHandle = "u32 \<times> u32"

record VMCIQueueHeader =
  handle :: VMCIHandle
  producerTail :: u64
  consumerHead :: u64

definition QPAddPointer :: "u64 \<Rightarrow> u64 \<Rightarrow> u64 \<Rightarrow> u64" where
  "QPAddPointer var add sz =
     (let newVal = (if var \<ge> sz - add then var - sz else var) in newVal + add)"

definition VMCIQueueHeader_ProducerTail :: "VMCIQueueHeader \<Rightarrow> u64" where
  "VMCIQueueHeader_ProducerTail qHeader = producerTail qHeader"

definition VMCIQueueHeader_ConsumerHead :: "VMCIQueueHeader \<Rightarrow> u64" where
  "VMCIQueueHeader_ConsumerHead qHeader = consumerHead qHeader"

definition VMCIQueueHeader_AddProducerTail :: "VMCIQueueHeader \<Rightarrow> u64 \<Rightarrow> u64 \<Rightarrow> VMCIQueueHeader" where
  "VMCIQueueHeader_AddProducerTail qHeader add queueSize =
     qHeader\<lparr>producerTail := QPAddPointer (producerTail qHeader) add queueSize\<rparr>"

definition VMCIQueueHeader_AddConsumerHead :: "VMCIQueueHeader \<Rightarrow> u64 \<Rightarrow> u64 \<Rightarrow> VMCIQueueHeader" where
  "VMCIQueueHeader_AddConsumerHead qHeader add queueSize =
     qHeader\<lparr>consumerHead := QPAddPointer (consumerHead qHeader) add queueSize\<rparr>"

definition VMCIQueueHeader_GetPointers :: "VMCIQueueHeader \<Rightarrow> VMCIQueueHeader \<Rightarrow> u64 \<times> u64" where
  "VMCIQueueHeader_GetPointers produceQHeader consumeQHeader =
     (VMCIQueueHeader_ProducerTail produceQHeader, VMCIQueueHeader_ConsumerHead consumeQHeader)"

definition VMCIQueueHeader_ResetPointers :: "VMCIQueueHeader \<Rightarrow> VMCIQueueHeader" where
  "VMCIQueueHeader_ResetPointers qHeader = qHeader\<lparr>producerTail := 0, consumerHead := 0\<rparr>"

definition VMCIQueueHeader_Init :: "VMCIQueueHeader \<Rightarrow> VMCIHandle \<Rightarrow> VMCIQueueHeader" where
  "VMCIQueueHeader_Init qHeader h = VMCIQueueHeader_ResetPointers (qHeader\<lparr>handle := h\<rparr>)"

definition VMCIQueueHeader_FreeSpace :: "VMCIQueueHeader \<Rightarrow> VMCIQueueHeader \<Rightarrow> u64 \<Rightarrow> i64" where
  "VMCIQueueHeader_FreeSpace produceQHeader consumeQHeader produceQSize =
     (let tail = VMCIQueueHeader_ProducerTail produceQHeader;
          head = VMCIQueueHeader_ConsumerHead consumeQHeader
      in if tail \<ge> produceQSize \<or> head \<ge> produceQSize then VMCI_ERROR_INVALID_SIZE
         else if tail \<ge> head then produceQSize - (tail - head) - 1
         else head - tail - 1)"

definition VMCIQueueHeader_BufReady :: "VMCIQueueHeader \<Rightarrow> VMCIQueueHeader \<Rightarrow> u64 \<Rightarrow> i64" where
  "VMCIQueueHeader_BufReady consumeQHeader produceQHeader consumeQSize =
     (let freeSpace = VMCIQueueHeader_FreeSpace consumeQHeader produceQHeader consumeQSize
      in if failed freeSpace then freeSpace else consumeQSize - freeSpace - 1)"

section \<open>Queues and their pages\<close>

definition PAGE_SIZE :: u64 where
  "PAGE_SIZE = 4096"

text \<open>
  \<open>pages\<close> are the data pages: the array \<^verbatim>\<open>u.h.page\<close> of a host starts behind the header page, the array
  \<^verbatim>\<open>u.g.vas\<close> of a guest is indexed with \<^verbatim>\<open>pageIndex + 1\<close>. \<open>headerPage\<close> is the content of the header page
  (\<^const>\<open>None\<close>: the guest has not registered its memory), \<open>mapped\<close> tells whether \<^verbatim>\<open>qHeader\<close> points to it.
\<close>

record VMCIQueueKernelIf =
  host :: bool
  headerPage :: "VMCIQueueHeader option"
  pages :: "u8 list list"

record VMCIQueue =
  mapped :: bool
  savedHeader :: "VMCIQueueHeader option"
  kernelIf :: VMCIQueueKernelIf

definition qHeader :: "VMCIQueue \<Rightarrow> VMCIQueueHeader option" where
  "qHeader q = (if mapped q then headerPage (kernelIf q) else None)"

definition deref :: "'a option \<Rightarrow> 'a res" where
  "deref p = (case p of None \<Rightarrow> Inl NullDeref | Some x \<Rightarrow> Inr x)"

definition set_qHeader :: "VMCIQueue \<Rightarrow> VMCIQueueHeader \<Rightarrow> VMCIQueue" where
  "set_qHeader q h = q\<lparr>kernelIf := (kernelIf q)\<lparr>headerPage := Some h\<rparr>\<rparr>"

definition kmap :: "VMCIQueueKernelIf \<Rightarrow> u64 \<Rightarrow> u8 list res" where
  "kmap k pageIndex = (if unat pageIndex < length (pages k) then Inr (pages k ! unat pageIndex) else Inl OutOfBounds)"

definition toCopy_of :: "u64 \<Rightarrow> u64 \<Rightarrow> u64 \<Rightarrow> u64" where
  "toCopy_of pageOffset sz bytesCopied =
     (if sz - bytesCopied > PAGE_SIZE - pageOffset then PAGE_SIZE - pageOffset else sz - bytesCopied)"

lemma pageOffset_less: "x AND (PAGE_SIZE - 1) < PAGE_SIZE"
proof -
  have "x AND (PAGE_SIZE - 1) \<le> 4095"
    unfolding PAGE_SIZE_def by (simp add: word_and_le1)
  then show ?thesis unfolding PAGE_SIZE_def
    by (rule order.strict_trans1) simp
qed

lemma toCopy_bounds:
  assumes "bytesCopied < sz" and "pageOffset < PAGE_SIZE"
  shows "unat (toCopy_of pageOffset sz bytesCopied) =
      min (unat sz - unat bytesCopied) (4096 - unat pageOffset)"
    and "0 < unat (toCopy_of pageOffset sz bytesCopied)"
    and "unat bytesCopied + unat (toCopy_of pageOffset sz bytesCopied) \<le> unat sz"
    and "unat (bytesCopied + toCopy_of pageOffset sz bytesCopied) =
      unat bytesCopied + unat (toCopy_of pageOffset sz bytesCopied)"
proof -
  have s: "unat (sz - bytesCopied) = unat sz - unat bytesCopied"
    using assms(1) by (simp add: unat_sub word_less_nat_alt word_le_nat_alt)
  have p: "unat (PAGE_SIZE - pageOffset) = 4096 - unat pageOffset"
    using assms(2) by (simp add: unat_sub word_less_nat_alt word_le_nat_alt PAGE_SIZE_def)
  show eq: "unat (toCopy_of pageOffset sz bytesCopied) = min (unat sz - unat bytesCopied) (4096 - unat pageOffset)"
    using s p by (auto simp: toCopy_of_def word_less_nat_alt min_def)
  show "0 < unat (toCopy_of pageOffset sz bytesCopied)"
    using assms unfolding eq by (simp add: word_less_nat_alt PAGE_SIZE_def)
  show le: "unat bytesCopied + unat (toCopy_of pageOffset sz bytesCopied) \<le> unat sz"
    using assms unfolding eq by (simp add: word_less_nat_alt)
  show "unat (bytesCopied + toCopy_of pageOffset sz bytesCopied) =
      unat bytesCopied + unat (toCopy_of pageOffset sz bytesCopied)"
    using le unat_lt_64 [of sz] by (intro unat_add_bound) simp
qed

function VMCIMemcpyToQueue_loop ::
  "VMCIQueueKernelIf \<Rightarrow> u64 \<Rightarrow> u8 list \<Rightarrow> nat \<Rightarrow> u64 \<Rightarrow> u64 \<Rightarrow> VMCIQueueKernelIf res" where
  "VMCIMemcpyToQueue_loop k queueOffset src srcOffset sz bytesCopied =
     (if bytesCopied < sz then
        let pageIndex = (queueOffset + bytesCopied) div PAGE_SIZE;
            pageOffset = (queueOffset + bytesCopied) AND (PAGE_SIZE - 1);
            toCopy = toCopy_of pageOffset sz bytesCopied
        in bindR (kmap k pageIndex) (\<lambda>va.
             bindR (read_at src (srcOffset + unat bytesCopied) (unat toCopy)) (\<lambda>bs.
               bindR (write_at va (unat pageOffset) bs) (\<lambda>va'.
                 VMCIMemcpyToQueue_loop (k\<lparr>pages := (pages k)[unat pageIndex := va']\<rparr>) queueOffset src srcOffset sz
                   (bytesCopied + toCopy))))
      else Inr k)"
  by pat_completeness auto

termination
proof (relation "measure (\<lambda>(k, queueOffset, src, srcOffset, sz, bytesCopied). unat sz - unat bytesCopied)", goal_cases)
  case (2 k queueOffset src srcOffset sz bytesCopied)
  note b = toCopy_bounds [OF 2(1) pageOffset_less [of "queueOffset + bytesCopied"]]
  show ?case using b(2-4) 2(1,3,4) by (simp add: 2 word_less_nat_alt)
qed simp

function VMCIMemcpyFromQueue_loop ::
  "u8 list \<Rightarrow> nat \<Rightarrow> VMCIQueueKernelIf \<Rightarrow> u64 \<Rightarrow> u64 \<Rightarrow> u64 \<Rightarrow> u8 list res" where
  "VMCIMemcpyFromQueue_loop dest destOffset k queueOffset sz bytesCopied =
     (if bytesCopied < sz then
        let pageIndex = (queueOffset + bytesCopied) div PAGE_SIZE;
            pageOffset = (queueOffset + bytesCopied) AND (PAGE_SIZE - 1);
            toCopy = toCopy_of pageOffset sz bytesCopied
        in bindR (kmap k pageIndex) (\<lambda>va.
             bindR (read_at va (unat pageOffset) (unat toCopy)) (\<lambda>bs.
               bindR (write_at dest (destOffset + unat bytesCopied) bs) (\<lambda>dest'.
                 VMCIMemcpyFromQueue_loop dest' destOffset k queueOffset sz (bytesCopied + toCopy))))
      else Inr dest)"
  by pat_completeness auto

termination
proof (relation "measure (\<lambda>(dest, destOffset, k, queueOffset, sz, bytesCopied). unat sz - unat bytesCopied)", goal_cases)
  case (2 dest destOffset k queueOffset sz bytesCopied)
  note b = toCopy_bounds [OF 2(1) pageOffset_less [of "queueOffset + bytesCopied"]]
  show ?case using b(2-4) 2(1,3,4) by (simp add: 2 word_less_nat_alt)
qed simp

declare VMCIMemcpyToQueue_loop.simps [simp del] VMCIMemcpyFromQueue_loop.simps [simp del]

definition VMCIMemcpyToQueue :: "VMCIQueue \<Rightarrow> u64 \<Rightarrow> u8 list \<Rightarrow> u64 \<Rightarrow> u64 \<Rightarrow> (VMCIQueue \<times> i64) res" where
  "VMCIMemcpyToQueue queue queueOffset src srcOffset sz =
     bindR (VMCIMemcpyToQueue_loop (kernelIf queue) queueOffset src (unat srcOffset) sz 0) (\<lambda>k.
       Inr (queue\<lparr>kernelIf := k\<rparr>, VMCI_SUCCESS))"

definition VMCIMemcpyFromQueue :: "u8 list \<Rightarrow> u64 \<Rightarrow> VMCIQueue \<Rightarrow> u64 \<Rightarrow> u64 \<Rightarrow> (u8 list \<times> i64) res" where
  "VMCIMemcpyFromQueue dest destOffset queue queueOffset sz =
     bindR (VMCIMemcpyFromQueue_loop dest (unat destOffset) (kernelIf queue) queueOffset sz 0) (\<lambda>d.
       Inr (d, VMCI_SUCCESS))"

section \<open>Mapping the headers\<close>

text \<open>\<open>vmap\<close> tells whether \<^verbatim>\<open>vmap\<close> of the kernel finds address space for the two header pages.\<close>

definition VMCIHost_MapQueues :: "bool \<Rightarrow> VMCIQueue \<Rightarrow> VMCIQueue \<Rightarrow> (VMCIQueue \<times> VMCIQueue) \<times> i64" where
  "VMCIHost_MapQueues vmap produceQ consumeQ =
     (if \<not> mapped produceQ \<or> \<not> mapped consumeQ then
        if mapped produceQ \<noteq> mapped consumeQ then ((produceQ, consumeQ), VMCI_ERROR_QUEUEPAIR_MISMATCH)
        else if headerPage (kernelIf produceQ) = None then ((produceQ, consumeQ), VMCI_ERROR_UNAVAILABLE)
        else if vmap then ((produceQ\<lparr>mapped := True\<rparr>, consumeQ\<lparr>mapped := True\<rparr>), VMCI_SUCCESS)
        else ((produceQ, consumeQ), VMCI_ERROR_NO_MEM)
      else ((produceQ, consumeQ), VMCI_SUCCESS))"

definition VMCIHost_UnmapQueues :: "VMCIQueue \<Rightarrow> VMCIQueue \<Rightarrow> VMCIQueue \<times> VMCIQueue" where
  "VMCIHost_UnmapQueues produceQ consumeQ =
     (if mapped produceQ then (produceQ\<lparr>mapped := False\<rparr>, consumeQ\<lparr>mapped := False\<rparr>) else (produceQ, consumeQ))"

definition VMCIQPairMapQueueHeaders :: "bool \<Rightarrow> VMCIQueue \<Rightarrow> VMCIQueue \<Rightarrow> bool \<Rightarrow> (VMCIQueue \<times> VMCIQueue) \<times> i64" where
  "VMCIQPairMapQueueHeaders vmap produceQ consumeQ canBlock =
     (if \<not> mapped produceQ \<or> \<not> mapped consumeQ then
        let (qs, result) =
              (if canBlock then VMCIHost_MapQueues vmap produceQ consumeQ
               else ((produceQ, consumeQ), VMCI_ERROR_QUEUEPAIR_NOT_READY))
        in if failed result then
             (qs, if savedHeader produceQ \<noteq> None \<and> savedHeader consumeQ \<noteq> None
                  then VMCI_ERROR_QUEUEPAIR_NOT_READY else VMCI_ERROR_QUEUEPAIR_NOTATTACHED)
           else (qs, VMCI_SUCCESS)
      else ((produceQ, consumeQ), VMCI_SUCCESS))"

section \<open>Enqueue and dequeue with the mutex held\<close>

definition VMCIQueueAddProducerTail :: "VMCIQueue \<Rightarrow> u64 \<Rightarrow> u64 \<Rightarrow> VMCIQueue res" where
  "VMCIQueueAddProducerTail queue add queueSize =
     bindR (deref (qHeader queue)) (\<lambda>h. Inr (set_qHeader queue (VMCIQueueHeader_AddProducerTail h add queueSize)))"

definition VMCIQueueAddConsumerHead :: "VMCIQueue \<Rightarrow> u64 \<Rightarrow> u64 \<Rightarrow> VMCIQueue res" where
  "VMCIQueueAddConsumerHead queue add queueSize =
     bindR (deref (qHeader queue)) (\<lambda>h. Inr (set_qHeader queue (VMCIQueueHeader_AddConsumerHead h add queueSize)))"

text \<open>
  The three phases of \<^verbatim>\<open>EnqueueLocked\<close> once the headers are mapped: read the pointers, copy, move the tail.
  The first returns an error code or the number of bytes with the tail.
\<close>

definition Enqueue_reserve :: "VMCIQueue \<Rightarrow> VMCIQueue \<Rightarrow> u64 \<Rightarrow> u64 \<Rightarrow> (i64 + u64 \<times> u64) res" where
  "Enqueue_reserve produceQ consumeQ produceQSize bufSize =
     bindR (deref (qHeader produceQ)) (\<lambda>ph. bindR (deref (qHeader consumeQ)) (\<lambda>ch.
       let freeSpace = VMCIQueueHeader_FreeSpace ph ch produceQSize
       in if freeSpace = 0 then Inr (Inl VMCI_ERROR_QUEUEPAIR_NOSPACE)
          else if failed freeSpace then Inr (Inl freeSpace)
          else let written = (if freeSpace > bufSize then bufSize else freeSpace)
               in Inr (Inr (written, VMCIQueueHeader_ProducerTail ph))))"

definition Enqueue_copy :: "VMCIQueue \<Rightarrow> u64 \<Rightarrow> u8 list \<Rightarrow> u64 \<Rightarrow> u64 \<Rightarrow> (VMCIQueue \<times> i64) res" where
  "Enqueue_copy produceQ produceQSize buf written tail =
     (if tail + written < produceQSize then VMCIMemcpyToQueue produceQ tail buf 0 written
      else let tmp = produceQSize - tail
           in bindR (VMCIMemcpyToQueue produceQ tail buf 0 tmp) (\<lambda>(q1, result).
                if \<not> failed result then VMCIMemcpyToQueue q1 0 buf tmp (written - tmp)
                else Inr (q1, result)))"

definition EnqueueLocked ::
  "bool \<Rightarrow> VMCIQueue \<Rightarrow> VMCIQueue \<Rightarrow> u64 \<Rightarrow> u8 list \<Rightarrow> u64 \<Rightarrow> bool \<Rightarrow> ((VMCIQueue \<times> VMCIQueue) \<times> i64) res" where
  "EnqueueLocked vmap produceQ0 consumeQ0 produceQSize buf bufSize canBlock =
     (let ((produceQ, consumeQ), result) = VMCIQPairMapQueueHeaders vmap produceQ0 consumeQ0 canBlock
      in if result \<noteq> VMCI_SUCCESS then Inr ((produceQ, consumeQ), result)
         else bindR (Enqueue_reserve produceQ consumeQ produceQSize bufSize) (\<lambda>r.
           case r of
             Inl err \<Rightarrow> Inr ((produceQ, consumeQ), err)
           | Inr (written, tail) \<Rightarrow>
               bindR (Enqueue_copy produceQ produceQSize buf written tail) (\<lambda>(q1, result).
                 if failed result then Inr ((q1, consumeQ), result)
                 else bindR (VMCIQueueAddProducerTail q1 written produceQSize) (\<lambda>q2.
                   Inr ((q2, consumeQ), written)))))"

definition Dequeue_reserve :: "VMCIQueue \<Rightarrow> VMCIQueue \<Rightarrow> u64 \<Rightarrow> u64 \<Rightarrow> (i64 + u64 \<times> u64) res" where
  "Dequeue_reserve produceQ consumeQ consumeQSize bufSize =
     bindR (deref (qHeader consumeQ)) (\<lambda>ch. bindR (deref (qHeader produceQ)) (\<lambda>ph.
       let bufReady = VMCIQueueHeader_BufReady ch ph consumeQSize
       in if bufReady = 0 then Inr (Inl VMCI_ERROR_QUEUEPAIR_NODATA)
          else if failed bufReady then Inr (Inl bufReady)
          else let read = (if bufReady > bufSize then bufSize else bufReady)
               in Inr (Inr (read, VMCIQueueHeader_ConsumerHead ph))))"

definition Dequeue_copy :: "VMCIQueue \<Rightarrow> u64 \<Rightarrow> u8 list \<Rightarrow> u64 \<Rightarrow> u64 \<Rightarrow> (u8 list \<times> i64) res" where
  "Dequeue_copy consumeQ consumeQSize buf read head =
     (if head + read < consumeQSize then VMCIMemcpyFromQueue buf 0 consumeQ head read
      else let tmp = consumeQSize - head
           in bindR (VMCIMemcpyFromQueue buf 0 consumeQ head tmp) (\<lambda>(buf1, result).
                if \<not> failed result then VMCIMemcpyFromQueue buf1 tmp consumeQ 0 (read - tmp)
                else Inr (buf1, result)))"

definition DequeueLocked ::
  "bool \<Rightarrow> VMCIQueue \<Rightarrow> VMCIQueue \<Rightarrow> u64 \<Rightarrow> u8 list \<Rightarrow> u64 \<Rightarrow> bool \<Rightarrow> bool \<Rightarrow>
     ((VMCIQueue \<times> VMCIQueue) \<times> u8 list \<times> i64) res" where
  "DequeueLocked vmap produceQ0 consumeQ0 consumeQSize buf bufSize updateConsumer canBlock =
     (let ((produceQ, consumeQ), result) = VMCIQPairMapQueueHeaders vmap produceQ0 consumeQ0 canBlock
      in if result \<noteq> VMCI_SUCCESS then Inr ((produceQ, consumeQ), buf, result)
         else bindR (Dequeue_reserve produceQ consumeQ consumeQSize bufSize) (\<lambda>r.
           case r of
             Inl err \<Rightarrow> Inr ((produceQ, consumeQ), buf, err)
           | Inr (read, head) \<Rightarrow>
               bindR (Dequeue_copy consumeQ consumeQSize buf read head) (\<lambda>(buf1, result).
                 if failed result then Inr ((produceQ, consumeQ), buf1, result)
                 else if updateConsumer
                 then bindR (VMCIQueueAddConsumerHead produceQ read consumeQSize) (\<lambda>q2.
                   Inr ((q2, consumeQ), buf1, read))
                 else Inr ((produceQ, consumeQ), buf1, read))))"

section \<open>The accessors of a queue pair\<close>

record VMCIQPair =
  produceQ :: VMCIQueue
  consumeQ :: VMCIQueue
  produceQSize :: u64
  consumeQSize :: u64
  flags :: u32
  guestEndpoint :: bool
  blocked :: u32

definition VMCI_QPFLAG_NONBLOCK :: u32 where
  "VMCI_QPFLAG_NONBLOCK = 4"

definition qpair_canBlock :: "VMCIQPair \<Rightarrow> bool" where
  "qpair_canBlock qp \<longleftrightarrow> flags qp AND VMCI_QPFLAG_NONBLOCK = 0"

definition VMCIQPairGetQueueHeaders ::
  "bool \<Rightarrow> VMCIQPair \<Rightarrow> VMCIQPair \<times> (i64 + VMCIQueueHeader option \<times> VMCIQueueHeader option)" where
  "VMCIQPairGetQueueHeaders vmap qp =
     (let ((pq, cq), result) = VMCIQPairMapQueueHeaders vmap (produceQ qp) (consumeQ qp) (qpair_canBlock qp);
          qp1 = qp\<lparr>produceQ := pq, consumeQ := cq\<rparr>
      in if result = VMCI_SUCCESS then (qp1, Inr (qHeader pq, qHeader cq))
         else if savedHeader pq \<noteq> None \<and> savedHeader cq \<noteq> None then (qp1, Inr (savedHeader pq, savedHeader cq))
         else (qp1, Inl result))"

text \<open>
  \<^verbatim>\<open>VMCIQPairWakeupCB\<close> signals every sleeping thread: the result is the number of signals.
\<close>

function VMCIQPairWakeupCB_loop :: "VMCIQPair \<Rightarrow> nat \<Rightarrow> VMCIQPair \<times> nat" where
  "VMCIQPairWakeupCB_loop qp signals =
     (if blocked qp > 0 then VMCIQPairWakeupCB_loop (qp\<lparr>blocked := blocked qp - 1\<rparr>) (signals + 1)
      else (qp, signals))"
  by pat_completeness auto

termination
  by (relation "measure (\<lambda>(qp, signals). unat (blocked qp))") (auto simp: word_less_nat_alt unat_sub word_le_nat_alt)

declare VMCIQPairWakeupCB_loop.simps [simp del]

definition VMCIQPairWakeupCB :: "VMCIQPair \<Rightarrow> VMCIQPair \<times> nat" where
  "VMCIQPairWakeupCB qp = VMCIQPairWakeupCB_loop qp 0"

text \<open>Whether the caller may go to sleep; if so it is counted in \<open>blocked\<close> and sleeps.\<close>

definition VMCIQPairWaitForReadyQueue :: "VMCIQPair \<Rightarrow> VMCIQPair \<times> bool" where
  "VMCIQPairWaitForReadyQueue qp =
     (if guestEndpoint qp then (qp, False)
      else if \<not> qpair_canBlock qp then (qp, False)
      else (qp\<lparr>blocked := blocked qp + 1\<rparr>, True))"

definition vmci_qpair_get_produce_indexes ::
  "bool \<Rightarrow> VMCIQPair option \<Rightarrow> (VMCIQPair option \<times> (u64 \<times> u64) option \<times> i64) res" where
  "vmci_qpair_get_produce_indexes vmap qpair =
     (case qpair of None \<Rightarrow> Inr (None, None, VMCI_ERROR_INVALID_ARGS)
      | Some qp \<Rightarrow>
          (case VMCIQPairGetQueueHeaders vmap qp of
             (qp1, Inl result) \<Rightarrow> Inr (Some qp1, None, result)
           | (qp1, Inr (php, chp)) \<Rightarrow>
               bindR (deref php) (\<lambda>ph. bindR (deref chp) (\<lambda>ch.
                 let (tail, head) = VMCIQueueHeader_GetPointers ph ch
                 in Inr (Some qp1, Some (tail, head),
                         if tail \<ge> produceQSize qp \<or> head \<ge> produceQSize qp then VMCI_ERROR_INVALID_SIZE
                         else VMCI_SUCCESS)))))"

definition vmci_qpair_get_consume_indexes ::
  "bool \<Rightarrow> VMCIQPair option \<Rightarrow> (VMCIQPair option \<times> (u64 \<times> u64) option \<times> i64) res" where
  "vmci_qpair_get_consume_indexes vmap qpair =
     (case qpair of None \<Rightarrow> Inr (None, None, VMCI_ERROR_INVALID_ARGS)
      | Some qp \<Rightarrow>
          (case VMCIQPairGetQueueHeaders vmap qp of
             (qp1, Inl result) \<Rightarrow> Inr (Some qp1, None, result)
           | (qp1, Inr (php, chp)) \<Rightarrow>
               bindR (deref php) (\<lambda>ph. bindR (deref chp) (\<lambda>ch.
                 let (tail, head) = VMCIQueueHeader_GetPointers ch ph
                 in Inr (Some qp1, Some (tail, head),
                         if tail \<ge> consumeQSize qp \<or> head \<ge> consumeQSize qp then VMCI_ERROR_INVALID_SIZE
                         else VMCI_SUCCESS)))))"

text \<open>The four size queries differ in the function of the headers that they apply.\<close>

definition qpair_size_query ::
  "(VMCIQueueHeader \<Rightarrow> VMCIQueueHeader \<Rightarrow> i64) \<Rightarrow> bool \<Rightarrow> VMCIQPair option \<Rightarrow> (VMCIQPair option \<times> i64) res" where
  "qpair_size_query f vmap qpair =
     (case qpair of None \<Rightarrow> Inr (None, VMCI_ERROR_INVALID_ARGS)
      | Some qp \<Rightarrow>
          (case VMCIQPairGetQueueHeaders vmap qp of
             (qp1, Inl result) \<Rightarrow> Inr (Some qp1, 0)
           | (qp1, Inr (php, chp)) \<Rightarrow>
               bindR (deref php) (\<lambda>ph. bindR (deref chp) (\<lambda>ch. Inr (Some qp1, f ph ch)))))"

definition vmci_qpair_produce_free_space :: "bool \<Rightarrow> VMCIQPair option \<Rightarrow> (VMCIQPair option \<times> i64) res" where
  "vmci_qpair_produce_free_space vmap qpair =
     qpair_size_query (\<lambda>ph ch. VMCIQueueHeader_FreeSpace ph ch (produceQSize (the qpair))) vmap qpair"

definition vmci_qpair_consume_free_space :: "bool \<Rightarrow> VMCIQPair option \<Rightarrow> (VMCIQPair option \<times> i64) res" where
  "vmci_qpair_consume_free_space vmap qpair =
     qpair_size_query (\<lambda>ph ch. VMCIQueueHeader_FreeSpace ch ph (consumeQSize (the qpair))) vmap qpair"

definition vmci_qpair_produce_buf_ready :: "bool \<Rightarrow> VMCIQPair option \<Rightarrow> (VMCIQPair option \<times> i64) res" where
  "vmci_qpair_produce_buf_ready vmap qpair =
     qpair_size_query (\<lambda>ph ch. VMCIQueueHeader_BufReady ph ch (produceQSize (the qpair))) vmap qpair"

definition vmci_qpair_consume_buf_ready :: "bool \<Rightarrow> VMCIQPair option \<Rightarrow> (VMCIQPair option \<times> i64) res" where
  "vmci_qpair_consume_buf_ready vmap qpair =
     qpair_size_query (\<lambda>ph ch. VMCIQueueHeader_BufReady ch ph (consumeQSize (the qpair))) vmap qpair"

text \<open>
  The loop of the data accessors: one attempt, and a sleep when the queue is not ready. Each element of \<open>wakes\<close> is what
  other threads do to the pair during one sleep, with the outcome of \<^verbatim>\<open>vmap\<close> in the next attempt; when the
  list is used up the thread is still asleep, the result \<^const>\<open>None\<close>.
\<close>

definition after_attempt ::
  "(VMCIQPair \<Rightarrow> (VMCIQPair \<times> u8 list \<times> i64 option) res) \<Rightarrow> VMCIQPair \<times> u8 list \<times> i64 \<Rightarrow>
     (VMCIQPair \<times> u8 list \<times> i64 option) res" where
  "after_attempt retry r =
     (let (qp, buf, result) = r
      in if result = VMCI_ERROR_QUEUEPAIR_NOT_READY
         then case VMCIQPairWaitForReadyQueue qp of
                (qp1, False) \<Rightarrow> Inr (qp1, buf, Some VMCI_ERROR_WOULD_BLOCK)
              | (qp1, True) \<Rightarrow> retry qp1
         else Inr (qp, buf, Some result))"

fun qpair_loop ::
  "(bool \<Rightarrow> VMCIQPair \<Rightarrow> (VMCIQPair \<times> u8 list \<times> i64) res) \<Rightarrow> bool \<Rightarrow> ((VMCIQPair \<Rightarrow> VMCIQPair) \<times> bool) list \<Rightarrow>
     u8 list \<Rightarrow> VMCIQPair \<Rightarrow> (VMCIQPair \<times> u8 list \<times> i64 option) res" where
  "qpair_loop attempt vmap [] buf qp =
     bindR (attempt vmap qp) (after_attempt (\<lambda>qp1. Inr (qp1, buf, None)))"
| "qpair_loop attempt vmap ((wake, vmap') # wakes) buf qp =
     bindR (attempt vmap qp) (after_attempt (\<lambda>qp1. qpair_loop attempt vmap' wakes buf (wake qp1)))"

definition enqueue_attempt :: "u8 list \<Rightarrow> u64 \<Rightarrow> bool \<Rightarrow> VMCIQPair \<Rightarrow> (VMCIQPair \<times> u8 list \<times> i64) res" where
  "enqueue_attempt buf bufSize vmap qp =
     bindR (EnqueueLocked vmap (produceQ qp) (consumeQ qp) (produceQSize qp) buf bufSize (qpair_canBlock qp))
       (\<lambda>((pq, cq), result). Inr (qp\<lparr>produceQ := pq, consumeQ := cq\<rparr>, buf, result))"

definition dequeue_attempt :: "bool \<Rightarrow> u8 list \<Rightarrow> u64 \<Rightarrow> bool \<Rightarrow> VMCIQPair \<Rightarrow> (VMCIQPair \<times> u8 list \<times> i64) res" where
  "dequeue_attempt updateConsumer buf bufSize vmap qp =
     bindR (DequeueLocked vmap (produceQ qp) (consumeQ qp) (consumeQSize qp) buf bufSize updateConsumer (qpair_canBlock qp))
       (\<lambda>((pq, cq), buf1, result). Inr (qp\<lparr>produceQ := pq, consumeQ := cq\<rparr>, buf1, result))"

definition vmci_qpair_enqueue ::
  "bool \<Rightarrow> ((VMCIQPair \<Rightarrow> VMCIQPair) \<times> bool) list \<Rightarrow> VMCIQPair option \<Rightarrow> u8 list option \<Rightarrow> u64 \<Rightarrow>
     (VMCIQPair option \<times> u8 list option \<times> i64 option) res" where
  "vmci_qpair_enqueue vmap wakes qpair buf bufSize =
     (case (qpair, buf) of
        (Some qp, Some b) \<Rightarrow>
          bindR (qpair_loop (enqueue_attempt b bufSize) vmap wakes b qp) (\<lambda>(qp1, b1, r). Inr (Some qp1, Some b1, r))
      | _ \<Rightarrow> Inr (qpair, buf, Some VMCI_ERROR_INVALID_ARGS))"

definition vmci_qpair_dequeue ::
  "bool \<Rightarrow> ((VMCIQPair \<Rightarrow> VMCIQPair) \<times> bool) list \<Rightarrow> VMCIQPair option \<Rightarrow> u8 list option \<Rightarrow> u64 \<Rightarrow>
     (VMCIQPair option \<times> u8 list option \<times> i64 option) res" where
  "vmci_qpair_dequeue vmap wakes qpair buf bufSize =
     (case (qpair, buf) of
        (Some qp, Some b) \<Rightarrow>
          bindR (qpair_loop (dequeue_attempt True b bufSize) vmap wakes b qp) (\<lambda>(qp1, b1, r). Inr (Some qp1, Some b1, r))
      | _ \<Rightarrow> Inr (qpair, buf, Some VMCI_ERROR_INVALID_ARGS))"

definition vmci_qpair_peek ::
  "bool \<Rightarrow> ((VMCIQPair \<Rightarrow> VMCIQPair) \<times> bool) list \<Rightarrow> VMCIQPair option \<Rightarrow> u8 list option \<Rightarrow> u64 \<Rightarrow>
     (VMCIQPair option \<times> u8 list option \<times> i64 option) res" where
  "vmci_qpair_peek vmap wakes qpair buf bufSize =
     (case (qpair, buf) of
        (Some qp, Some b) \<Rightarrow>
          bindR (qpair_loop (dequeue_attempt False b bufSize) vmap wakes b qp) (\<lambda>(qp1, b1, r). Inr (Some qp1, Some b1, r))
      | _ \<Rightarrow> Inr (qpair, buf, Some VMCI_ERROR_INVALID_ARGS))"

end
