(* ===== verification/VMCIQueue_Laws.thy ===== *)
theory VMCIQueue_Laws
  imports VMCIQueue
begin

text \<open>
  The queue of VMCI as a queue of bytes: the copies over pages are copies in one flat block, the
  header arithmetic is arithmetic modulo the queue size, and enqueue and dequeue act on the list of bytes
  between head and tail.
\<close>

section \<open>Pages as one block\<close>

lemma concat_decomp:
  assumes "\<forall>p \<in> set ps. length p = P" and "i < length ps"
  shows "concat ps = concat (take i ps) @ ps ! i @ concat (drop (Suc i) ps)" and "length (concat (take i ps)) = i * P"
    and "length (ps ! i) = P"
proof -
  show "concat ps = concat (take i ps) @ ps ! i @ concat (drop (Suc i) ps)"
    using arg_cong [OF id_take_nth_drop [OF assms(2)], of concat] by simp
  have "\<forall>p \<in> set (take i ps). length p = P" using assms(1) by (meson in_set_takeD)
  then have "map length (take i ps) = replicate (length (take i ps)) P"
    by (intro nth_equalityI) (auto simp del: nth_take)
  then show "length (concat (take i ps)) = i * P" using assms(2) by (simp add: length_concat sum_list_replicate)
  show "length (ps ! i) = P" using assms by simp
qed

lemma length_concat_pages: "\<forall>p \<in> set ps. length p = P \<Longrightarrow> length (concat ps) = P * length ps"
  by (induction ps) auto

lemma concat_read:
  assumes "\<forall>p \<in> set ps. length p = P" and "i < length ps" and "o' + n \<le> P"
  shows "take n (drop o' (ps ! i)) = take n (drop (i * P + o') (concat ps))"
proof -
  have "drop (i * P + o') (concat ps) = drop o' (ps ! i) @ concat (drop (Suc i) ps)"
    unfolding concat_decomp(1) [OF assms(1,2)] using concat_decomp(2,3) [OF assms(1,2)] assms(3) by simp
  then show ?thesis using concat_decomp(3) [OF assms(1,2)] assms(3) by simp
qed

lemma concat_write:
  assumes "\<forall>p \<in> set ps. length p = P" and "i < length ps" and "o' + length bs \<le> P"
  shows "concat (ps[i := patch (ps ! i) o' bs]) = patch (concat ps) (i * P + o') bs"
proof -
  note d = concat_decomp [OF assms(1,2)]
  have "concat (ps[i := patch (ps ! i) o' bs]) = concat (take i ps) @ patch (ps ! i) o' bs @ concat (drop (Suc i) ps)"
    using assms(2) by (simp add: upd_conv_take_nth_drop)
  also have "\<dots> = patch (concat (take i ps) @ ps ! i @ concat (drop (Suc i) ps)) (i * P + o') bs"
    using d(2,3) assms(3) by (simp add: patch_def)
  finally show ?thesis using d(1) by simp
qed

abbreviation flat :: "VMCIQueueKernelIf \<Rightarrow> u8 list" where
  "flat k \<equiv> concat (pages k)"

definition pages_ok :: "VMCIQueueKernelIf \<Rightarrow> bool" where
  "pages_ok k \<longleftrightarrow> (\<forall>p \<in> set (pages k). length p = 4096)"

lemma pages_ok_header [simp]: "pages_ok (k\<lparr>headerPage := h\<rparr>) = pages_ok k"
  by (simp add: pages_ok_def)

lemma length_flat: "pages_ok k \<Longrightarrow> length (flat k) = 4096 * length (pages k)"
  unfolding pages_ok_def by (rule length_concat_pages)

lemma page_offset: "unat (x div PAGE_SIZE) * 4096 + unat (x AND (PAGE_SIZE - 1)) = unat x"
proof -
  have "x AND (PAGE_SIZE - 1) = take_bit 12 x"
    unfolding PAGE_SIZE_def by (simp add: take_bit_eq_mask mask_eq_exp_minus_1)
  then have "unat (x AND (PAGE_SIZE - 1)) = unat x mod 4096"
    by (simp add: unat_mod_distrib take_bit_eq_mod)
  moreover have "unat (x div PAGE_SIZE) = unat x div 4096"
    by (simp add: unat_div_distrib PAGE_SIZE_def)
  ultimately show ?thesis by simp
qed

text \<open>The page that the loops look up at an offset inside the block, and what they copy there.\<close>

lemma page_step:
  assumes ok: "pages_ok k" and in_block: "unat queueOffset + unat sz \<le> length (flat k)" and lt: "bytesCopied < sz"
    and off: "unat queueOffset + unat sz < 2 ^ 64"
  defines "x \<equiv> queueOffset + bytesCopied"
  defines "n \<equiv> unat (toCopy_of (x AND (PAGE_SIZE - 1)) sz bytesCopied)"
  shows "unat x = unat queueOffset + unat bytesCopied"
    and "kmap k (x div PAGE_SIZE) = Inr (pages k ! unat (x div PAGE_SIZE))"
    and "unat (x div PAGE_SIZE) < length (pages k)"
    and "unat (x AND (PAGE_SIZE - 1)) + n \<le> 4096"
    and "length (pages k ! unat (x div PAGE_SIZE)) = 4096"
    and "unat queueOffset + unat bytesCopied + n \<le> length (flat k)"
proof -
  have bc: "unat bytesCopied < unat sz" using lt by (simp add: word_less_nat_alt)
  show x: "unat x = unat queueOffset + unat bytesCopied"
    unfolding x_def using bc off by (intro unat_add_bound) simp
  have "unat x < length (flat k)" using x bc in_block by simp
  then have "unat x < 4096 * length (pages k)" using length_flat [OF ok] by simp
  then show i: "unat (x div PAGE_SIZE) < length (pages k)"
    by (simp add: unat_div_distrib PAGE_SIZE_def less_mult_imp_div_less mult.commute)
  then show "kmap k (x div PAGE_SIZE) = Inr (pages k ! unat (x div PAGE_SIZE))" by (simp add: kmap_def)
  show "length (pages k ! unat (x div PAGE_SIZE)) = 4096" using ok i by (simp add: pages_ok_def)
  note b = toCopy_bounds [OF lt pageOffset_less [of x]]
  have "unat (x AND (PAGE_SIZE - 1)) < 4096" using pageOffset_less [of x] by (simp add: word_less_nat_alt PAGE_SIZE_def)
  then show "unat (x AND (PAGE_SIZE - 1)) + n \<le> 4096" unfolding n_def b(1) by simp
  show "unat queueOffset + unat bytesCopied + n \<le> length (flat k)" using b(3) in_block unfolding n_def by simp
qed

lemma VMCIMemcpyToQueue_loop_spec:
  assumes "pages_ok k" and "unat queueOffset + unat sz \<le> length (flat k)" and "unat queueOffset + unat sz < 2 ^ 64"
    and "srcOffset + unat sz \<le> length src" and "bytesCopied \<le> sz"
  shows "\<exists>ps. VMCIMemcpyToQueue_loop k queueOffset src srcOffset sz bytesCopied = Inr (k\<lparr>pages := ps\<rparr>) \<and>
     pages_ok (k\<lparr>pages := ps\<rparr>) \<and> length ps = length (pages k) \<and>
     concat ps = patch (flat k) (unat queueOffset + unat bytesCopied)
       (take (unat sz - unat bytesCopied) (drop (srcOffset + unat bytesCopied) src))"
  using assms
proof (induction k queueOffset src srcOffset sz bytesCopied rule: VMCIMemcpyToQueue_loop.induct)
  case (1 k queueOffset src srcOffset sz bytesCopied)
  show ?case
  proof (cases "bytesCopied < sz")
    case False
    then have "bytesCopied = sz" using "1.prems"(5) by simp
    then show ?thesis using "1.prems"(1) by (auto simp: VMCIMemcpyToQueue_loop.simps intro!: exI [of _ "pages k"])
  next
    case True
    let ?x = "queueOffset + bytesCopied"
    let ?i = "?x div PAGE_SIZE" and ?o = "?x AND (PAGE_SIZE - 1)"
    let ?c = "toCopy_of ?o sz bytesCopied"
    let ?bs = "take (unat ?c) (drop (srcOffset + unat bytesCopied) src)"
    let ?k = "k\<lparr>pages := (pages k)[unat ?i := patch (pages k ! unat ?i) (unat ?o) ?bs]\<rparr>"
    note st = page_step [OF "1.prems"(1,2) True "1.prems"(3)]
    note b = toCopy_bounds [OF True pageOffset_less [of ?x]]
    have len: "length ?bs = unat ?c" using "1.prems"(4) b(3) by simp
    have rd: "read_at src (srcOffset + unat bytesCopied) (unat ?c) = Inr ?bs"
      using "1.prems"(4) b(3) by (simp add: read_at_def)
    have wr: "write_at (pages k ! unat ?i) (unat ?o) ?bs = Inr (patch (pages k ! unat ?i) (unat ?o) ?bs)"
      using st(4,5) len by (simp add: write_at_def)
    have flat: "flat ?k = patch (flat k) (unat queueOffset + unat bytesCopied) ?bs"
      using concat_write [OF "1.prems"(1) [unfolded pages_ok_def] st(3), of "unat ?o" ?bs] st(1,4) len page_offset [of ?x]
      by simp
    have ok: "pages_ok ?k"
      using "1.prems"(1) st(4,5) len unfolding pages_ok_def by (auto dest!: set_update_subset_insert [THEN subsetD])
    have l: "length (flat ?k) = length (flat k)" using length_flat [OF ok] length_flat [OF "1.prems"(1)] by simp
    have le: "bytesCopied + ?c \<le> sz" using b(3,4) by (simp add: word_le_nat_alt)
    obtain ps where ps: "VMCIMemcpyToQueue_loop ?k queueOffset src srcOffset sz (bytesCopied + ?c) = Inr (?k\<lparr>pages := ps\<rparr>)"
      "pages_ok (?k\<lparr>pages := ps\<rparr>)" "length ps = length (pages ?k)"
      "concat ps = patch (flat ?k) (unat queueOffset + unat (bytesCopied + ?c))
         (take (unat sz - unat (bytesCopied + ?c)) (drop (srcOffset + unat (bytesCopied + ?c)) src))"
      using "1.IH" [OF True refl refl refl ok] l "1.prems"(2-4) le by auto
    let ?rest = "take (unat sz - unat (bytesCopied + ?c)) (drop (srcOffset + unat (bytesCopied + ?c)) src)"
    have "concat ps = patch (flat k) (unat queueOffset + unat bytesCopied) (?bs @ ?rest)"
      unfolding ps(4) flat
      using patch_patch [of "unat queueOffset + unat bytesCopied" ?bs ?rest "flat k"] len b(3,4) "1.prems"(2)
      by (simp add: add.assoc)
    moreover have "?bs @ ?rest = take (unat sz - unat bytesCopied) (drop (srcOffset + unat bytesCopied) src)"
      using b(3,4) take_add [of "unat ?c" "unat sz - unat bytesCopied - unat ?c" "drop (srcOffset + unat bytesCopied) src"]
      by (simp add: ac_simps)
    moreover have "VMCIMemcpyToQueue_loop k queueOffset src srcOffset sz bytesCopied = Inr (k\<lparr>pages := ps\<rparr>)"
      using True ps(1) st(2) rd wr by (subst VMCIMemcpyToQueue_loop.simps) (simp add: Let_def)
    ultimately show ?thesis using ps(2,3) by auto
  qed
qed

lemma VMCIMemcpyFromQueue_loop_spec:
  assumes "pages_ok k" and "unat queueOffset + unat sz \<le> length (flat k)" and "unat queueOffset + unat sz < 2 ^ 64"
    and "destOffset + unat sz \<le> length dest" and "bytesCopied \<le> sz"
  shows "VMCIMemcpyFromQueue_loop dest destOffset k queueOffset sz bytesCopied =
     Inr (patch dest (destOffset + unat bytesCopied)
       (take (unat sz - unat bytesCopied) (drop (unat queueOffset + unat bytesCopied) (flat k))))"
  using assms
proof (induction dest destOffset k queueOffset sz bytesCopied rule: VMCIMemcpyFromQueue_loop.induct)
  case (1 dest destOffset k queueOffset sz bytesCopied)
  show ?case
  proof (cases "bytesCopied < sz")
    case False
    then have "bytesCopied = sz" using "1.prems"(5) by simp
    then show ?thesis by (auto simp: VMCIMemcpyFromQueue_loop.simps)
  next
    case True
    let ?x = "queueOffset + bytesCopied"
    let ?i = "?x div PAGE_SIZE" and ?o = "?x AND (PAGE_SIZE - 1)"
    let ?c = "toCopy_of ?o sz bytesCopied"
    let ?bs = "take (unat ?c) (drop (unat queueOffset + unat bytesCopied) (flat k))"
    let ?d = "patch dest (destOffset + unat bytesCopied) ?bs"
    note st = page_step [OF "1.prems"(1,2) True "1.prems"(3)]
    note b = toCopy_bounds [OF True pageOffset_less [of ?x]]
    have len: "length ?bs = unat ?c" using st(6) by simp
    have rd: "read_at (pages k ! unat ?i) (unat ?o) (unat ?c) = Inr ?bs"
      using st(1,4,5) concat_read [OF "1.prems"(1) [unfolded pages_ok_def] st(3,4)] page_offset [of ?x]
      by (simp add: read_at_def)
    have wr: "write_at dest (destOffset + unat bytesCopied) ?bs = Inr ?d"
      using "1.prems"(4) b(3) len by (simp add: write_at_def)
    have le: "bytesCopied + ?c \<le> sz" using b(3,4) by (simp add: word_le_nat_alt)
    have l: "length ?d = length dest" using "1.prems"(4) b(3) len by (intro length_patch) simp
    let ?rest = "take (unat sz - unat (bytesCopied + ?c)) (drop (unat queueOffset + unat (bytesCopied + ?c)) (flat k))"
    have "VMCIMemcpyFromQueue_loop ?d destOffset k queueOffset sz (bytesCopied + ?c) =
        Inr (patch ?d (destOffset + unat (bytesCopied + ?c)) ?rest)"
      using "1.IH" [OF True refl refl refl "1.prems"(1-3)] l "1.prems"(4) le by auto
    moreover have "patch ?d (destOffset + unat (bytesCopied + ?c)) ?rest = patch dest (destOffset + unat bytesCopied) (?bs @ ?rest)"
      using patch_patch [of "destOffset + unat bytesCopied" ?bs ?rest dest] len b(3,4) "1.prems"(2,4)
      by (simp add: add.assoc)
    moreover have "?bs @ ?rest = take (unat sz - unat bytesCopied) (drop (unat queueOffset + unat bytesCopied) (flat k))"
      using b(3,4) take_add [of "unat ?c" "unat sz - unat bytesCopied - unat ?c" "drop (unat queueOffset + unat bytesCopied) (flat k)"]
      by (simp add: ac_simps)
    moreover have "VMCIMemcpyFromQueue_loop dest destOffset k queueOffset sz bytesCopied =
        VMCIMemcpyFromQueue_loop ?d destOffset k queueOffset sz (bytesCopied + ?c)"
      using True st(2) rd wr by (subst VMCIMemcpyFromQueue_loop.simps) (simp add: Let_def)
    ultimately show ?thesis by simp
  qed
qed

section \<open>Rings\<close>

definition ring_count :: "nat \<Rightarrow> nat \<Rightarrow> nat \<Rightarrow> nat" where
  "ring_count n h t = (if h \<le> t then t - h else n + t - h)"

definition ring_get :: "'a list \<Rightarrow> nat \<Rightarrow> nat \<Rightarrow> nat \<Rightarrow> 'a list" where
  "ring_get xs n h c = map (\<lambda>i. xs ! ((h + i) mod n)) [0..<c]"

definition ring_put :: "'a list \<Rightarrow> nat \<Rightarrow> nat \<Rightarrow> 'a list \<Rightarrow> 'a list" where
  "ring_put xs n t bs =
     (if t + length bs < n then patch xs t bs
      else patch (patch xs t (take (n - t) bs)) 0 (drop (n - t) bs))"

lemma add_mod_ring: "h < n \<Longrightarrow> a \<le> n \<Longrightarrow> (h + a) mod n = (if h + a < n then h + a else h + a - n)" for n :: nat
  by (auto simp: mod_if)

lemma ring_inj: "h < n \<Longrightarrow> a < n \<Longrightarrow> b < n \<Longrightarrow> (h + a) mod n = (h + b) mod n \<Longrightarrow> a = b" for n :: nat
  by (simp add: add_mod_ring split: if_splits)

lemma ring_count_less: "h < n \<Longrightarrow> t < n \<Longrightarrow> ring_count n h t < n"
  by (auto simp: ring_count_def)

lemma ring_tail: "h < n \<Longrightarrow> t < n \<Longrightarrow> t = (h + ring_count n h t) mod n"
  by (auto simp: ring_count_def add_mod_ring)

lemma ring_count_eq: "h < n \<Longrightarrow> c < n \<Longrightarrow> ring_count n h ((h + c) mod n) = c"
  by (auto simp: ring_count_def add_mod_ring)

lemma ring_count_tail:
  assumes "h < n" and "t < n" and "ring_count n h t + w < n"
  shows "ring_count n h ((t + w) mod n) = ring_count n h t + w"
proof -
  have "(t + w) mod n = (h + (ring_count n h t + w)) mod n"
    using ring_tail [OF assms(1,2)] by (metis add.assoc mod_add_left_eq)
  then show ?thesis using ring_count_eq [OF assms(1,3)] by simp
qed

lemma ring_count_head:
  assumes "h < n" and "t < n" and "r \<le> ring_count n h t"
  shows "ring_count n ((h + r) mod n) t = ring_count n h t - r"
proof -
  have "t = ((h + r) mod n + (ring_count n h t - r)) mod n"
    using ring_tail [OF assms(1,2)] assms(3) by (metis add.assoc le_add_diff_inverse mod_add_left_eq)
  then show ?thesis
    using ring_count_eq [of "(h + r) mod n" n "ring_count n h t - r"] ring_count_less [OF assms(1,2)] assms by simp
qed

lemma length_ring_get [simp]: "length (ring_get xs n h c) = c"
  by (simp add: ring_get_def)

lemma take_ring_get: "r \<le> c \<Longrightarrow> take r (ring_get xs n h c) = ring_get xs n h r"
  by (simp add: ring_get_def take_map)

lemma drop_ring_get: "drop r (ring_get xs n h c) = ring_get xs n ((h + r) mod n) (c - r)"
proof (rule nth_equalityI)
  fix i assume "i < length (drop r (ring_get xs n h c))"
  then have "i < c - r" by simp
  moreover from this have "[0..<c] ! (r + i) = r + i" by simp
  ultimately show "drop r (ring_get xs n h c) ! i = ring_get xs n ((h + r) mod n) (c - r) ! i"
    by (simp add: ring_get_def mod_simps add.assoc)
qed simp

lemma ring_get_split:
  assumes "h < n" and "r \<le> n" and "n \<le> length xs"
  shows "ring_get xs n h r =
     (if h + r < n then take r (drop h xs) else take (n - h) (drop h xs) @ take (r - (n - h)) xs)"
proof -
  have "min (length xs - h) (n - h) = n - h" using assms by simp
  then show ?thesis
    using assms by (intro nth_equalityI) (auto simp: ring_get_def nth_append add_mod_ring add.commute)
qed

lemma length_ring_put [simp]:
  assumes "t < n" and "length bs \<le> n" and "n \<le> length xs"
  shows "length (ring_put xs n t bs) = length xs"
  using assms by (simp add: ring_put_def)

lemma nth_ring_put_hit:
  assumes "t < n" and "length bs \<le> n" and "n \<le> length xs" and "j < length bs"
  shows "ring_put xs n t bs ! ((t + j) mod n) = bs ! j"
  using assms by (auto simp: ring_put_def nth_patch add_mod_ring)

lemma nth_ring_put_miss:
  assumes "t < n" and "length bs \<le> n" and "n \<le> length xs" and "k < n" and "\<forall>j < length bs. k \<noteq> (t + j) mod n"
  shows "ring_put xs n t bs ! k = xs ! k"
proof (cases "t \<le> k")
  case True
  then have "\<not> k - t < length bs" using assms by (auto dest: spec [of _ "k - t"])
  with True assms show ?thesis by (auto simp: ring_put_def nth_patch)
next
  case False
  then have "\<not> k + (n - t) < length bs" using assms by (auto dest!: spec [of _ "k + (n - t)"])
  with False assms show ?thesis by (auto simp: ring_put_def nth_patch)
qed

lemma ring_get_put_free:
  assumes "h < n" and "t < n" and "n \<le> length xs" and "ring_count n h t + length bs < n" and "c \<le> ring_count n h t"
  shows "ring_get (ring_put xs n t bs) n h c = ring_get xs n h c"
proof -
  have "ring_put xs n t bs ! ((h + i) mod n) = xs ! ((h + i) mod n)" if "i < c" for i
  proof (rule nth_ring_put_miss)
    show "\<forall>j < length bs. (h + i) mod n \<noteq> (t + j) mod n"
    proof safe
      fix j assume j: "j < length bs" and eq: "(h + i) mod n = (t + j) mod n"
      have "(t + j) mod n = (h + (ring_count n h t + j)) mod n"
        using ring_tail [OF assms(1,2)] by (metis add.assoc mod_add_left_eq)
      then have "i = ring_count n h t + j"
        using ring_inj [OF assms(1), of i "ring_count n h t + j"] eq j that assms by simp
      with that assms(5) show False by simp
    qed
  qed (use assms in auto)
  then show ?thesis by (simp add: ring_get_def)
qed

lemma ring_get_put:
  assumes "h < n" and "t < n" and "n \<le> length xs" and "ring_count n h t + length bs < n"
  shows "ring_get (ring_put xs n t bs) n h (ring_count n h t + length bs) = ring_get xs n h (ring_count n h t) @ bs"
proof -
  have pos: "(h + (ring_count n h t + j)) mod n = (t + j) mod n" for j
    using ring_tail [OF assms(1,2)] by (metis add.assoc mod_add_left_eq)
  have "ring_get (ring_put xs n t bs) n h (ring_count n h t + length bs) =
      ring_get (ring_put xs n t bs) n h (ring_count n h t) @ map (\<lambda>j. ring_put xs n t bs ! ((t + j) mod n)) [0..<length bs]"
    by (rule nth_equalityI) (auto simp: ring_get_def nth_append pos [symmetric])
  moreover have "map (\<lambda>j. ring_put xs n t bs ! ((t + j) mod n)) [0..<length bs] = bs"
    using assms by (intro nth_equalityI) (simp_all add: nth_ring_put_hit)
  ultimately show ?thesis using ring_get_put_free [OF assms le_refl] by simp
qed

section \<open>Header arithmetic\<close>

lemma sint_of_nat64: "n < 9223372036854775808 \<Longrightarrow> sint (of_nat n :: i64) = int n"
  by (simp add: signed_of_nat signed_take_bit_int_eq_self)

lemma sint_small64: "unat (x :: i64) < 2 ^ 63 \<Longrightarrow> sint x = int (unat x)"
  using sint_of_nat64 [of "unat x"] by simp

lemma not_failed: "unat (x :: i64) < 2 ^ 63 \<Longrightarrow> \<not> failed x"
  by (simp add: failed_def VMCI_SUCCESS_def sint_small64)

lemma QPAddPointer_mod:
  assumes "var < sz" and "add \<le> sz" and "unat sz < 2 ^ 63"
  shows "unat (QPAddPointer var add sz) = (unat var + unat add) mod unat sz"
proof -
  have u: "unat var < unat sz" "unat add \<le> unat sz" using assms by (simp_all add: word_less_nat_alt word_le_nat_alt)
  have sum: "unat (var + add) = unat var + unat add" using u assms(3) by (intro unat_add_bound) simp
  have diff: "unat (sz - add) = unat sz - unat add" using assms(2) by (simp add: unat_sub)
  show ?thesis
  proof (cases "var \<ge> sz - add")
    case True
    then have ge: "unat sz \<le> unat var + unat add" using diff by (simp add: word_le_nat_alt)
    then have le: "sz \<le> var + add" using sum by (simp add: word_le_nat_alt)
    have "QPAddPointer var add sz = var + add - sz" using True by (simp add: QPAddPointer_def)
    then have "unat (QPAddPointer var add sz) = unat var + unat add - unat sz" using le sum by (simp add: unat_sub)
    then show ?thesis using ge u by (simp add: le_mod_geq)
  next
    case False
    then have "unat var + unat add < unat sz" using diff u by (simp add: word_le_nat_alt)
    with False show ?thesis using sum by (simp add: QPAddPointer_def)
  qed
qed

lemma FreeSpace_ring:
  assumes "producerTail ph < sz" and "consumerHead ch < sz" and "unat sz < 2 ^ 63"
  shows "unat (VMCIQueueHeader_FreeSpace ph ch sz) =
      unat sz - 1 - ring_count (unat sz) (unat (consumerHead ch)) (unat (producerTail ph))"
proof -
  let ?t = "producerTail ph" and ?h = "consumerHead ch"
  have u: "unat ?t < unat sz" "unat ?h < unat sz" using assms by (simp_all add: word_less_nat_alt)
  show ?thesis
  proof (cases "?t \<ge> ?h")
    case True
    then have d: "unat (?t - ?h) = unat ?t - unat ?h" by (simp add: unat_sub)
    then have "unat (sz - (?t - ?h)) = unat sz - (unat ?t - unat ?h)" using u by (simp add: unat_sub word_le_nat_alt)
    then have "unat (sz - (?t - ?h) - 1) = unat sz - (unat ?t - unat ?h) - 1"
      using u by (simp add: unat_sub word_le_nat_alt)
    with True assms show ?thesis
      by (simp add: VMCIQueueHeader_FreeSpace_def VMCIQueueHeader_ProducerTail_def VMCIQueueHeader_ConsumerHead_def
          Let_def ring_count_def word_le_nat_alt word_less_nat_alt)
  next
    case False
    then have d: "unat (?h - ?t) = unat ?h - unat ?t" by (simp add: unat_sub)
    have "unat (?h - ?t - 1) = unat ?h - unat ?t - 1"
      using False d by (simp add: unat_sub word_le_nat_alt)
    with False assms u show ?thesis
      by (simp add: VMCIQueueHeader_FreeSpace_def VMCIQueueHeader_ProducerTail_def VMCIQueueHeader_ConsumerHead_def
          Let_def ring_count_def word_le_nat_alt word_less_nat_alt)
  qed
qed

lemma BufReady_ring:
  assumes "producerTail ph < sz" and "consumerHead ch < sz" and "unat sz < 2 ^ 63"
  shows "unat (VMCIQueueHeader_BufReady ph ch sz) =
      ring_count (unat sz) (unat (consumerHead ch)) (unat (producerTail ph))"
proof -
  let ?f = "VMCIQueueHeader_FreeSpace ph ch sz"
  let ?c = "ring_count (unat sz) (unat (consumerHead ch)) (unat (producerTail ph))"
  have f: "unat ?f = unat sz - 1 - ?c" using FreeSpace_ring [OF assms] .
  have c: "?c < unat sz" using assms by (intro ring_count_less) (simp_all add: word_less_nat_alt)
  have "\<not> failed ?f" using f assms(3) by (intro not_failed) simp
  moreover have "unat (sz - ?f) = unat sz - unat ?f" using f by (simp add: unat_sub word_le_nat_alt)
  moreover from this have "unat (sz - ?f - 1) = unat sz - unat ?f - 1" using f c by (simp add: unat_sub word_le_nat_alt)
  ultimately show ?thesis using f c by (simp add: VMCIQueueHeader_BufReady_def Let_def)
qed

section \<open>The queue as a list of bytes\<close>

text \<open>\<open>q\<close> holds the data and the tail, the header of \<open>peer\<close> the head.\<close>

definition ring_ok :: "u64 \<Rightarrow> VMCIQueue \<Rightarrow> VMCIQueue \<Rightarrow> bool" where
  "ring_ok sz q peer \<longleftrightarrow> mapped q \<and> mapped peer \<and> pages_ok (kernelIf q) \<and>
     unat sz \<le> length (flat (kernelIf q)) \<and> unat sz < 2 ^ 63 \<and>
     (case (headerPage (kernelIf q), headerPage (kernelIf peer)) of
        (Some h, Some g) \<Rightarrow> producerTail h < sz \<and> consumerHead g < sz
      | _ \<Rightarrow> False)"

definition tail_of :: "VMCIQueue \<Rightarrow> u64" where
  "tail_of q = producerTail (the (headerPage (kernelIf q)))"

definition head_of :: "VMCIQueue \<Rightarrow> u64" where
  "head_of peer = consumerHead (the (headerPage (kernelIf peer)))"

definition count_of :: "u64 \<Rightarrow> VMCIQueue \<Rightarrow> VMCIQueue \<Rightarrow> nat" where
  "count_of sz q peer = ring_count (unat sz) (unat (head_of peer)) (unat (tail_of q))"

definition content :: "u64 \<Rightarrow> VMCIQueue \<Rightarrow> VMCIQueue \<Rightarrow> u8 list" where
  "content sz q peer = ring_get (flat (kernelIf q)) (unat sz) (unat (head_of peer)) (count_of sz q peer)"

lemma ring_okD:
  assumes "ring_ok sz q peer"
  obtains h g where "qHeader q = Some h" "qHeader peer = Some g" "producerTail h = tail_of q" "consumerHead g = head_of peer"
    "headerPage (kernelIf q) = Some h" "headerPage (kernelIf peer) = Some g"
    "tail_of q < sz" "head_of peer < sz" "unat sz < 2 ^ 63" "pages_ok (kernelIf q)" "unat sz \<le> length (flat (kernelIf q))"
    "unat (tail_of q) < unat sz" "unat (head_of peer) < unat sz" "count_of sz q peer < unat sz" "mapped q" "mapped peer"
proof -
  have ok: "case (headerPage (kernelIf q), headerPage (kernelIf peer)) of
        (Some h, Some g) \<Rightarrow> producerTail h < sz \<and> consumerHead g < sz | _ \<Rightarrow> False"
    and m: "mapped q" "mapped peer" "pages_ok (kernelIf q)" "unat sz \<le> length (flat (kernelIf q))" "unat sz < 2 ^ 63"
    using assms by (simp_all add: ring_ok_def)
  then obtain h g where hg: "headerPage (kernelIf q) = Some h" "headerPage (kernelIf peer) = Some g"
    "producerTail h < sz" "consumerHead g < sz" by (auto split: option.splits)
  moreover from this have "count_of sz q peer < unat sz"
    unfolding count_of_def by (intro ring_count_less) (simp_all add: tail_of_def head_of_def word_less_nat_alt)
  ultimately show thesis using m
    by (intro that [of h g]) (simp_all add: qHeader_def tail_of_def head_of_def word_less_nat_alt)
qed

lemma length_content [simp]: "length (content sz q peer) = count_of sz q peer"
  by (simp add: content_def)

lemma Enqueue_reserve_spec:
  assumes ok: "ring_ok sz q peer"
  shows "Enqueue_reserve q peer sz bufSize = Inr (if count_of sz q peer = unat sz - 1 then Inl VMCI_ERROR_QUEUEPAIR_NOSPACE
     else Inr (of_nat (min (unat bufSize) (unat sz - 1 - count_of sz q peer)), tail_of q))"
proof -
  obtain h g where d: "qHeader q = Some h" "qHeader peer = Some g" "producerTail h = tail_of q" "consumerHead g = head_of peer"
    "tail_of q < sz" "head_of peer < sz" "unat sz < 2 ^ 63" "count_of sz q peer < unat sz"
    by (rule ring_okD [OF ok])
  let ?f = "VMCIQueueHeader_FreeSpace h g sz"
  have f: "unat ?f = unat sz - 1 - count_of sz q peer"
    using FreeSpace_ring [of h sz g] d by (simp add: count_of_def)
  have "\<not> failed ?f" using f d(7) by (intro not_failed) simp
  moreover have "?f = 0 \<longleftrightarrow> count_of sz q peer = unat sz - 1" using f d(8) by (auto simp: unat_eq_0 [symmetric])
  moreover have "(if ?f > bufSize then bufSize else ?f) = of_nat (min (unat bufSize) (unat sz - 1 - count_of sz q peer))"
    unfolding f [symmetric] by (auto simp: word_less_nat_alt min_def)
  ultimately show ?thesis using d(1-3)
    by (simp add: Enqueue_reserve_def deref_def Let_def VMCIQueueHeader_ProducerTail_def)
qed

lemma Dequeue_reserve_spec:
  assumes ok: "ring_ok sz q peer"
  shows "Dequeue_reserve peer q sz bufSize = Inr (if count_of sz q peer = 0 then Inl VMCI_ERROR_QUEUEPAIR_NODATA
     else Inr (of_nat (min (unat bufSize) (count_of sz q peer)), head_of peer))"
proof -
  obtain h g where d: "qHeader q = Some h" "qHeader peer = Some g" "producerTail h = tail_of q" "consumerHead g = head_of peer"
    "tail_of q < sz" "head_of peer < sz" "unat sz < 2 ^ 63" "count_of sz q peer < unat sz"
    by (rule ring_okD [OF ok])
  let ?f = "VMCIQueueHeader_BufReady h g sz"
  have f: "unat ?f = count_of sz q peer"
    using BufReady_ring [of h sz g] d by (simp add: count_of_def)
  have "\<not> failed ?f" using f d(7,8) by (intro not_failed) simp
  moreover have "?f = 0 \<longleftrightarrow> count_of sz q peer = 0" using f by (auto simp: unat_eq_0 [symmetric])
  moreover have "(if ?f > bufSize then bufSize else ?f) = of_nat (min (unat bufSize) (count_of sz q peer))"
    unfolding f [symmetric] by (auto simp: word_less_nat_alt min_def)
  ultimately show ?thesis using d(1-4)
    by (simp add: Dequeue_reserve_def deref_def Let_def VMCIQueueHeader_ConsumerHead_def)
qed

lemma VMCIMemcpyToQueue_spec:
  assumes "pages_ok (kernelIf q)" and "unat off + unat n \<le> length (flat (kernelIf q))" and "unat off + unat n < 2 ^ 64"
    and "unat srcOff + unat n \<le> length src"
  obtains ps where "VMCIMemcpyToQueue q off src srcOff n = Inr (q\<lparr>kernelIf := (kernelIf q)\<lparr>pages := ps\<rparr>\<rparr>, VMCI_SUCCESS)"
    "pages_ok ((kernelIf q)\<lparr>pages := ps\<rparr>)" "length (concat ps) = length (flat (kernelIf q))"
    "concat ps = patch (flat (kernelIf q)) (unat off) (take (unat n) (drop (unat srcOff) src))"
proof -
  obtain ps where ps: "VMCIMemcpyToQueue_loop (kernelIf q) off src (unat srcOff) n 0 = Inr ((kernelIf q)\<lparr>pages := ps\<rparr>)"
    "pages_ok ((kernelIf q)\<lparr>pages := ps\<rparr>)" "length ps = length (pages (kernelIf q))"
    "concat ps = patch (flat (kernelIf q)) (unat off) (take (unat n) (drop (unat srcOff) src))"
    using VMCIMemcpyToQueue_loop_spec [OF assms, of 0] by auto
  moreover have "length (concat ps) = length (flat (kernelIf q))"
    using length_flat [OF ps(2)] length_flat [OF assms(1)] ps(3) by simp
  ultimately show thesis by (intro that [of ps]) (simp_all add: VMCIMemcpyToQueue_def)
qed

lemma VMCIMemcpyFromQueue_spec:
  assumes "pages_ok (kernelIf q)" and "unat off + unat n \<le> length (flat (kernelIf q))" and "unat off + unat n < 2 ^ 64"
    and "unat destOff + unat n \<le> length dest"
  shows "VMCIMemcpyFromQueue dest destOff q off n =
     Inr (patch dest (unat destOff) (take (unat n) (drop (unat off) (flat (kernelIf q)))), VMCI_SUCCESS)"
  using VMCIMemcpyFromQueue_loop_spec [OF assms, of 0] by (simp add: VMCIMemcpyFromQueue_def)

lemma success_not_failed [simp]: "\<not> failed VMCI_SUCCESS"
  by (simp add: failed_def)

lemma wrap_words:
  fixes t w sz :: u64
  assumes "t < sz" and "w \<le> sz" and "unat sz < 2 ^ 63"
  shows "t + w < sz \<longleftrightarrow> unat t + unat w < unat sz" and "unat (sz - t) = unat sz - unat t"
    and "\<not> t + w < sz \<Longrightarrow> unat (w - (sz - t)) = unat w - (unat sz - unat t)"
proof -
  have u: "unat t < unat sz" "unat w \<le> unat sz" using assms by (simp_all add: word_less_nat_alt word_le_nat_alt)
  have sum: "unat (t + w) = unat t + unat w" using u assms(3) by (intro unat_add_bound) simp
  show lt: "t + w < sz \<longleftrightarrow> unat t + unat w < unat sz" using sum by (simp add: word_less_nat_alt)
  show d: "unat (sz - t) = unat sz - unat t" using u by (simp add: unat_sub word_le_nat_alt)
  show "unat (w - (sz - t)) = unat w - (unat sz - unat t)" if "\<not> t + w < sz"
    using that lt d u by (simp add: unat_sub word_le_nat_alt)
qed

lemma Enqueue_copy_spec:
  assumes ok: "pages_ok (kernelIf q)" "unat sz \<le> length (flat (kernelIf q))" "unat sz < 2 ^ 63"
    and t: "tail < sz" and w: "written < sz" "unat written \<le> length buf"
  obtains ps where "Enqueue_copy q sz buf written tail = Inr (q\<lparr>kernelIf := (kernelIf q)\<lparr>pages := ps\<rparr>\<rparr>, VMCI_SUCCESS)"
    "pages_ok ((kernelIf q)\<lparr>pages := ps\<rparr>)" "length (concat ps) = length (flat (kernelIf q))"
    "concat ps = ring_put (flat (kernelIf q)) (unat sz) (unat tail) (take (unat written) buf)"
proof -
  note ww = wrap_words [OF t less_imp_le [OF w(1)] ok(3)]
  have u: "unat tail < unat sz" "unat written < unat sz" using t w by (simp_all add: word_less_nat_alt)
  have lw: "length (take (unat written) buf) = unat written" using w by simp
  show thesis
  proof (cases "tail + written < sz")
    case True
    obtain ps where "VMCIMemcpyToQueue q tail buf 0 written = Inr (q\<lparr>kernelIf := (kernelIf q)\<lparr>pages := ps\<rparr>\<rparr>, VMCI_SUCCESS)"
      "pages_ok ((kernelIf q)\<lparr>pages := ps\<rparr>)" "length (concat ps) = length (flat (kernelIf q))"
      "concat ps = patch (flat (kernelIf q)) (unat tail) (take (unat written) (drop (unat (0::u64)) buf))"
      by (rule VMCIMemcpyToQueue_spec [OF ok(1), of tail written 0 buf]) (use True ww ok u w in auto)
    with True ww lw show thesis by (intro that [of ps]) (simp_all add: Enqueue_copy_def ring_put_def)
  next
    case False
    let ?tmp = "unat sz - unat tail"
    obtain ps where ps: "VMCIMemcpyToQueue q tail buf 0 (sz - tail) = Inr (q\<lparr>kernelIf := (kernelIf q)\<lparr>pages := ps\<rparr>\<rparr>, VMCI_SUCCESS)"
      "pages_ok ((kernelIf q)\<lparr>pages := ps\<rparr>)" "length (concat ps) = length (flat (kernelIf q))"
      "concat ps = patch (flat (kernelIf q)) (unat tail) (take (unat (sz - tail)) (drop (unat (0::u64)) buf))"
      by (rule VMCIMemcpyToQueue_spec [OF ok(1), of tail "sz - tail" 0 buf]) (use False ww ok u w in auto)
    let ?q = "q\<lparr>kernelIf := (kernelIf q)\<lparr>pages := ps\<rparr>\<rparr>"
    obtain ps' where ps': "VMCIMemcpyToQueue ?q 0 buf (sz - tail) (written - (sz - tail)) =
        Inr (?q\<lparr>kernelIf := (kernelIf ?q)\<lparr>pages := ps'\<rparr>\<rparr>, VMCI_SUCCESS)"
      "pages_ok ((kernelIf ?q)\<lparr>pages := ps'\<rparr>)" "length (concat ps') = length (flat (kernelIf ?q))"
      "concat ps' = patch (flat (kernelIf ?q)) (unat (0::u64)) (take (unat (written - (sz - tail))) (drop (unat (sz - tail)) buf))"
      by (rule VMCIMemcpyToQueue_spec [of ?q 0 "written - (sz - tail)" "sz - tail" buf])
        (use False ww(1,2) ww(3) [OF False] ps ok u w in auto)
    have "concat ps' = ring_put (flat (kernelIf q)) (unat sz) (unat tail) (take (unat written) buf)"
      unfolding ring_put_def lw using False ww(1,2) ww(3) [OF False] ps(4) ps'(4)
      by (simp add: min_absorb1 drop_take)
    with False ps ps' show thesis by (intro that [of ps']) (simp_all add: Enqueue_copy_def Let_def)
  qed
qed

lemma Dequeue_copy_spec:
  assumes ok: "pages_ok (kernelIf q)" "unat sz \<le> length (flat (kernelIf q))" "unat sz < 2 ^ 63"
    and h: "head < sz" and r: "read < sz" "unat read \<le> length buf"
  shows "Dequeue_copy q sz buf read head =
     Inr (patch buf 0 (ring_get (flat (kernelIf q)) (unat sz) (unat head) (unat read)), VMCI_SUCCESS)"
proof -
  note ww = wrap_words [OF h less_imp_le [OF r(1)] ok(3)]
  have u: "unat head < unat sz" "unat read < unat sz" using h r by (simp_all add: word_less_nat_alt)
  note sp = ring_get_split [OF u(1) less_imp_le [OF u(2)] ok(2)]
  let ?f = "flat (kernelIf q)"
  show ?thesis
  proof (cases "head + read < sz")
    case True
    then have "VMCIMemcpyFromQueue buf 0 q head read = Inr (patch buf 0 (take (unat read) (drop (unat head) ?f)), VMCI_SUCCESS)"
      using VMCIMemcpyFromQueue_spec [OF ok(1), of head read 0 buf] ww ok u r by simp
    with True ww(1) sp show ?thesis by (simp add: Dequeue_copy_def)
  next
    case False
    let ?a = "take (unat sz - unat head) (drop (unat head) ?f)"
    let ?b = "take (unat read - (unat sz - unat head)) ?f"
    have 1: "VMCIMemcpyFromQueue buf 0 q head (sz - head) = Inr (patch buf 0 ?a, VMCI_SUCCESS)"
      using VMCIMemcpyFromQueue_spec [OF ok(1), of head "sz - head" 0 buf] False ww ok u r by simp
    have la: "length ?a = unat sz - unat head" using ok(2) by simp
    have l: "length (patch buf 0 ?a) = length buf" using la False ww(1) r u by (intro length_patch) simp
    have 2: "VMCIMemcpyFromQueue (patch buf 0 ?a) (sz - head) q 0 (read - (sz - head)) =
        Inr (patch (patch buf 0 ?a) (unat sz - unat head) ?b, VMCI_SUCCESS)"
      using VMCIMemcpyFromQueue_spec [OF ok(1), of 0 "read - (sz - head)" "sz - head" "patch buf 0 ?a"]
        l ww(1,2) ww(3) [OF False] False ok u r by simp
    have "patch (patch buf 0 ?a) (unat sz - unat head) ?b = patch buf 0 (?a @ ?b)"
      using patch_patch [of 0 ?a ?b buf] la r ok(2) u False ww(1) by simp
    with False 1 2 sp ww(1) show ?thesis by (simp add: Dequeue_copy_def Let_def)
  qed
qed

end
