(* ===== verification/VMCIQueue_Spec.thy ===== *)
theory VMCIQueue_Spec
  imports VMCIQueue_Laws
begin

text \<open>
  What the queue pairs promise: the accessors refine two bounded byte queues, no header content drives a copy
  outside the pages, and a producer and a consumer that share no lock deliver the bytes in order.
\<close>

section \<open>Moving the pointers\<close>

lemma advance_tail:
  assumes ok: "ring_ok sz q peer" and w: "count_of sz q peer + unat w < unat sz"
  obtains q' where "VMCIQueueAddProducerTail q w sz = Inr q'" "ring_ok sz q' peer"
    "unat (tail_of q') = (unat (tail_of q) + unat w) mod unat sz" "count_of sz q' peer = count_of sz q peer + unat w"
    "flat (kernelIf q') = flat (kernelIf q)" "head_of q' = head_of q" "mapped q' = mapped q"
    "headerPage (kernelIf q') \<noteq> None"
proof -
  obtain h g where d: "qHeader q = Some h" "producerTail h = tail_of q" "headerPage (kernelIf q) = Some h"
    "headerPage (kernelIf peer) = Some g" "consumerHead g = head_of peer"
    "tail_of q < sz" "head_of peer < sz" "unat sz < 2 ^ 63" "pages_ok (kernelIf q)" "unat sz \<le> length (flat (kernelIf q))"
    "unat (tail_of q) < unat sz" "unat (head_of peer) < unat sz" "mapped q" "mapped peer"
    by (rule ring_okD [OF ok])
  let ?h = "h\<lparr>producerTail := QPAddPointer (tail_of q) w sz\<rparr>"
  let ?q = "set_qHeader q ?h"
  have le: "w \<le> sz" using w by (simp add: word_le_nat_alt)
  have t: "unat (tail_of ?q) = (unat (tail_of q) + unat w) mod unat sz"
    using QPAddPointer_mod [OF d(6) le d(8)] by (simp add: set_qHeader_def tail_of_def)
  then have "unat (tail_of ?q) < unat sz" using d(11) by simp
  then have "ring_ok sz ?q peer"
    using ok d(3,4) by (simp add: ring_ok_def set_qHeader_def tail_of_def word_less_nat_alt)
  moreover have "count_of sz ?q peer = count_of sz q peer + unat w"
    unfolding count_of_def t using ring_count_tail [OF d(12,11)] w by (simp add: count_of_def)
  ultimately show thesis using t d(1-3)
    by (intro that [of ?q])
      (simp_all add: VMCIQueueAddProducerTail_def deref_def VMCIQueueHeader_AddProducerTail_def set_qHeader_def head_of_def)
qed

lemma advance_head:
  assumes ok: "ring_ok sz q peer" and r: "unat r \<le> count_of sz q peer"
  obtains p' where "VMCIQueueAddConsumerHead peer r sz = Inr p'" "ring_ok sz q p'"
    "unat (head_of p') = (unat (head_of peer) + unat r) mod unat sz" "count_of sz q p' = count_of sz q peer - unat r"
    "content sz q p' = drop (unat r) (content sz q peer)"
    "kernelIf p' = (kernelIf peer)\<lparr>headerPage := headerPage (kernelIf p')\<rparr>" "tail_of p' = tail_of peer" "mapped p' = mapped peer"
    "headerPage (kernelIf p') \<noteq> None"
proof -
  obtain h g where d: "qHeader peer = Some g" "producerTail h = tail_of q" "headerPage (kernelIf q) = Some h"
    "headerPage (kernelIf peer) = Some g" "consumerHead g = head_of peer"
    "tail_of q < sz" "head_of peer < sz" "unat sz < 2 ^ 63" "pages_ok (kernelIf q)" "unat sz \<le> length (flat (kernelIf q))"
    "unat (tail_of q) < unat sz" "unat (head_of peer) < unat sz" "mapped q" "mapped peer" "count_of sz q peer < unat sz"
    by (rule ring_okD [OF ok])
  let ?g = "g\<lparr>consumerHead := QPAddPointer (head_of peer) r sz\<rparr>"
  let ?p = "set_qHeader peer ?g"
  have le: "r \<le> sz" using r d(15) by (simp add: word_le_nat_alt)
  have t: "unat (head_of ?p) = (unat (head_of peer) + unat r) mod unat sz"
    using QPAddPointer_mod [OF d(7) le d(8)] by (simp add: set_qHeader_def head_of_def)
  then have "unat (head_of ?p) < unat sz" using d(11) by simp
  then have "ring_ok sz q ?p"
    using ok d(3,4) by (simp add: ring_ok_def set_qHeader_def head_of_def word_less_nat_alt)
  moreover have c: "count_of sz q ?p = count_of sz q peer - unat r"
    unfolding count_of_def t using ring_count_head [OF d(12,11)] r by (simp add: count_of_def)
  moreover have "content sz q ?p = drop (unat r) (content sz q peer)"
    unfolding content_def c t drop_ring_get ..
  ultimately show thesis using t d(1,4,5)
    by (intro that [of ?p])
      (simp_all add: VMCIQueueAddConsumerHead_def deref_def VMCIQueueHeader_AddConsumerHead_def set_qHeader_def tail_of_def)
qed

lemma copy_in:
  assumes ok: "ring_ok sz q peer" and w: "count_of sz q peer + unat w < unat sz" "unat w \<le> length buf"
  obtains q' where "Enqueue_copy q sz buf w (tail_of q) = Inr (q', VMCI_SUCCESS)" "ring_ok sz q' peer"
    "tail_of q' = tail_of q" "head_of q' = head_of q" "mapped q' = mapped q" "count_of sz q' peer = count_of sz q peer"
    "headerPage (kernelIf q') = headerPage (kernelIf q)"
    "flat (kernelIf q') = ring_put (flat (kernelIf q)) (unat sz) (unat (tail_of q)) (take (unat w) buf)"
proof -
  obtain h g where d: "headerPage (kernelIf q) = Some h" "headerPage (kernelIf peer) = Some g" "producerTail h = tail_of q"
    "consumerHead g = head_of peer" "tail_of q < sz" "head_of peer < sz" "unat sz < 2 ^ 63" "pages_ok (kernelIf q)"
    "unat sz \<le> length (flat (kernelIf q))" "mapped q" "mapped peer"
    by (rule ring_okD [OF ok])
  have lt: "w < sz" using w by (simp add: word_less_nat_alt)
  obtain ps where ps: "Enqueue_copy q sz buf w (tail_of q) = Inr (q\<lparr>kernelIf := (kernelIf q)\<lparr>pages := ps\<rparr>\<rparr>, VMCI_SUCCESS)"
    "pages_ok ((kernelIf q)\<lparr>pages := ps\<rparr>)" "length (concat ps) = length (flat (kernelIf q))"
    "concat ps = ring_put (flat (kernelIf q)) (unat sz) (unat (tail_of q)) (take (unat w) buf)"
    by (rule Enqueue_copy_spec [OF d(8,9,7,5) lt w(2)])
  show thesis
    using ps ok d(1) by (intro that [of "q\<lparr>kernelIf := (kernelIf q)\<lparr>pages := ps\<rparr>\<rparr>"])
      (simp_all add: ring_ok_def tail_of_def head_of_def count_of_def)
qed

lemma copy_out:
  assumes ok: "ring_ok sz q peer" and r: "unat r \<le> count_of sz q peer" "unat r \<le> length buf"
  shows "Dequeue_copy q sz buf r (head_of peer) = Inr (patch buf 0 (take (unat r) (content sz q peer)), VMCI_SUCCESS)"
proof -
  obtain h g where d: "pages_ok (kernelIf q)" "unat sz \<le> length (flat (kernelIf q))" "unat sz < 2 ^ 63"
    "head_of peer < sz" "count_of sz q peer < unat sz"
    by (rule ring_okD [OF ok])
  have lt: "r < sz" using r d(5) by (simp add: word_less_nat_alt)
  show ?thesis
    using Dequeue_copy_spec [OF d(1-4) lt r(2)] r(1) by (simp add: content_def take_ring_get)
qed

lemma content_copy_in:
  assumes ok: "ring_ok sz q peer" and w: "count_of sz q peer + unat w < unat sz" "unat w \<le> length buf"
    and q': "tail_of q' = tail_of q"
      "flat (kernelIf q') = ring_put (flat (kernelIf q)) (unat sz) (unat (tail_of q)) (take (unat w) buf)"
  shows "c \<le> count_of sz q peer \<Longrightarrow>
      ring_get (flat (kernelIf q')) (unat sz) (unat (head_of peer)) c = ring_get (flat (kernelIf q)) (unat sz) (unat (head_of peer)) c"
    and "content sz q' peer = content sz q peer"
    and "ring_get (flat (kernelIf q')) (unat sz) (unat (tail_of q)) (unat w) = take (unat w) buf"
    and "ring_get (flat (kernelIf q')) (unat sz) (unat (head_of peer)) (count_of sz q peer + unat w) =
      content sz q peer @ take (unat w) buf"
proof -
  obtain h g where d: "unat (tail_of q) < unat sz" "unat (head_of peer) < unat sz" "unat sz \<le> length (flat (kernelIf q))"
    by (rule ring_okD [OF ok])
  have l: "length (take (unat w) buf) = unat w" using w by simp
  have lt: "ring_count (unat sz) (unat (head_of peer)) (unat (tail_of q)) + length (take (unat w) buf) < unat sz"
    unfolding l using w by (simp add: count_of_def)
  note g = ring_get_put [OF d(2,1,3) lt] ring_get_put_free [OF d(2,1,3) lt]
  show f: "ring_get (flat (kernelIf q')) (unat sz) (unat (head_of peer)) c = ring_get (flat (kernelIf q)) (unat sz) (unat (head_of peer)) c"
    if "c \<le> count_of sz q peer" for c
    using g(2) that by (simp add: q' count_of_def)
  have c: "count_of sz q' peer = count_of sz q peer" by (simp add: count_of_def q')
  show "content sz q' peer = content sz q peer"
    unfolding content_def c using f by simp
  show "ring_get (flat (kernelIf q')) (unat sz) (unat (head_of peer)) (count_of sz q peer + unat w) =
      content sz q peer @ take (unat w) buf"
    using g(1) l by (simp add: q' content_def count_of_def)
  show "ring_get (flat (kernelIf q')) (unat sz) (unat (tail_of q)) (unat w) = take (unat w) buf"
    using d l lt by (intro nth_equalityI)
      (auto simp: q' ring_get_def nth_ring_put_hit [of _ _ "take (unat w) buf", simplified])
qed

lemma ring_get_append: "ring_get xs n h (c + w) = ring_get xs n h c @ ring_get xs n ((h + c) mod n) w"
  by (rule nth_equalityI) (auto simp: ring_get_def nth_append mod_simps)

section \<open>One call\<close>

lemma map_headers_mapped:
  "mapped q \<Longrightarrow> mapped peer \<Longrightarrow> VMCIQPairMapQueueHeaders vmap q peer canBlock = ((q, peer), VMCI_SUCCESS)"
  by (simp add: VMCIQPairMapQueueHeaders_def)

text \<open>What a call may change of the rest of a queue: nothing that the other direction looks at.\<close>

definition keeps_head :: "VMCIQueue \<Rightarrow> VMCIQueue \<Rightarrow> bool" where
  "keeps_head q q' \<longleftrightarrow> head_of q' = head_of q \<and> mapped q' = mapped q \<and> headerPage (kernelIf q') \<noteq> None"

definition keeps_tail :: "VMCIQueue \<Rightarrow> VMCIQueue \<Rightarrow> bool" where
  "keeps_tail q q' \<longleftrightarrow> tail_of q' = tail_of q \<and> mapped q' = mapped q \<and> headerPage (kernelIf q') \<noteq> None \<and>
     pages (kernelIf q') = pages (kernelIf q)"

lemma keeps_refl: "ring_ok sz q peer \<Longrightarrow> keeps_head q q" "ring_ok sz q peer \<Longrightarrow> keeps_tail peer peer"
  by (auto simp: keeps_head_def keeps_tail_def elim: ring_okD)

lemma ring_ok_keeps_head:
  assumes "ring_ok sz peer q" and "keeps_head q q'"
  shows "ring_ok sz peer q'" and "content sz peer q' = content sz peer q"
  using assms
  by (auto simp: ring_ok_def keeps_head_def head_of_def content_def count_of_def split: option.splits)

lemma ring_ok_keeps_tail:
  assumes "ring_ok sz q peer" and "keeps_tail q q'"
  shows "ring_ok sz q' peer" and "content sz q' peer = content sz q peer"
  using assms
  by (auto simp: ring_ok_def keeps_tail_def tail_of_def content_def count_of_def pages_ok_def split: option.splits)

definition enq :: "nat \<Rightarrow> u8 list \<Rightarrow> u8 list \<Rightarrow> u8 list \<times> i64" where
  "enq n xs buf =
     (if length xs = n - 1 then (xs, VMCI_ERROR_QUEUEPAIR_NOSPACE)
      else let w = min (length buf) (n - 1 - length xs) in (xs @ take w buf, of_nat w))"

definition deq :: "bool \<Rightarrow> u8 list \<Rightarrow> u8 list \<Rightarrow> u8 list \<times> u8 list \<times> i64" where
  "deq update xs buf =
     (if xs = [] then (xs, buf, VMCI_ERROR_QUEUEPAIR_NODATA)
      else let r = min (length buf) (length xs)
           in (if update then drop r xs else xs, patch buf 0 (take r xs), of_nat r))"

lemma EnqueueLocked_spec:
  assumes ok: "ring_ok sz q peer" and buf: "length buf < 2 ^ 64"
  obtains q' where "EnqueueLocked vmap q peer sz buf (of_nat (length buf)) canBlock =
      Inr ((q', peer), snd (enq (unat sz) (content sz q peer) buf))"
    "ring_ok sz q' peer" "content sz q' peer = fst (enq (unat sz) (content sz q peer) buf)" "keeps_head q q'"
proof -
  obtain h g where d: "mapped q" "mapped peer" "unat sz < 2 ^ 63" "count_of sz q peer < unat sz"
    by (rule ring_okD [OF ok])
  have len: "unat (of_nat (length buf) :: u64) = length buf" using buf by (intro unat_of_nat_bound) simp
  note rs = Enqueue_reserve_spec [OF ok, of "of_nat (length buf)", unfolded len]
  let ?w = "of_nat (min (length buf) (unat sz - 1 - count_of sz q peer)) :: u64"
  show thesis
  proof (cases "count_of sz q peer = unat sz - 1")
    case True
    then show thesis using rs d(1,2) ok keeps_refl [OF ok]
      by (intro that [of q]) (simp_all add: EnqueueLocked_def map_headers_mapped enq_def)
  next
    case False
    have w: "unat ?w = min (length buf) (unat sz - 1 - count_of sz q peer)"
      using d(3) by (intro unat_of_nat_bound) auto
    have fit: "count_of sz q peer + unat ?w < unat sz" "unat ?w \<le> length buf" using False d(4) w by simp_all
    obtain q1 where q1: "Enqueue_copy q sz buf ?w (tail_of q) = Inr (q1, VMCI_SUCCESS)" "ring_ok sz q1 peer"
      "tail_of q1 = tail_of q" "head_of q1 = head_of q" "mapped q1 = mapped q" "count_of sz q1 peer = count_of sz q peer"
      "flat (kernelIf q1) = ring_put (flat (kernelIf q)) (unat sz) (unat (tail_of q)) (take (unat ?w) buf)"
      by (rule copy_in [OF ok fit])
    note c = content_copy_in [OF ok fit q1(3,7)]
    obtain q2 where q2: "VMCIQueueAddProducerTail q1 ?w sz = Inr q2" "ring_ok sz q2 peer"
      "count_of sz q2 peer = count_of sz q1 peer + unat ?w" "flat (kernelIf q2) = flat (kernelIf q1)"
      "head_of q2 = head_of q1" "mapped q2 = mapped q1" "headerPage (kernelIf q2) \<noteq> None"
      by (rule advance_tail [OF q1(2)]) (use fit q1(6) in simp_all)
    have "content sz q2 peer = content sz q peer @ take (unat ?w) buf"
      unfolding content_def [of _ q2] q2(3,4) q1(6) by (rule c(4))
    then show thesis using False rs d(1,2) q1 q2 w
      by (intro that [of q2]) (simp_all add: EnqueueLocked_def map_headers_mapped enq_def Let_def keeps_head_def)
  qed
qed

lemma DequeueLocked_spec:
  assumes ok: "ring_ok sz q peer" and buf: "length buf < 2 ^ 64"
  obtains p' where "DequeueLocked vmap peer q sz buf (of_nat (length buf)) update canBlock =
      Inr ((p', q), snd (deq update (content sz q peer) buf))"
    "ring_ok sz q p'" "content sz q p' = fst (deq update (content sz q peer) buf)" "keeps_tail peer p'"
proof -
  obtain h g where d: "mapped q" "mapped peer" "unat sz < 2 ^ 63" "count_of sz q peer < unat sz"
    by (rule ring_okD [OF ok])
  have len: "unat (of_nat (length buf) :: u64) = length buf" using buf by (intro unat_of_nat_bound) simp
  note rs = Dequeue_reserve_spec [OF ok, of "of_nat (length buf)", unfolded len]
  let ?r = "of_nat (min (length buf) (count_of sz q peer)) :: u64"
  have nil: "content sz q peer = [] \<longleftrightarrow> count_of sz q peer = 0" by (simp flip: length_0_conv)
  show thesis
  proof (cases "count_of sz q peer = 0")
    case True
    then show thesis using rs d(1,2) ok keeps_refl [OF ok] nil
      by (intro that [of peer]) (simp_all add: DequeueLocked_def map_headers_mapped deq_def)
  next
    case False
    have r: "unat ?r = min (length buf) (count_of sz q peer)"
      using d(3,4) by (intro unat_of_nat_bound) auto
    have fit: "unat ?r \<le> count_of sz q peer" "unat ?r \<le> length buf" using r by simp_all
    note out = copy_out [OF ok fit]
    obtain p' where p': "VMCIQueueAddConsumerHead peer ?r sz = Inr p'" "ring_ok sz q p'"
      "content sz q p' = drop (unat ?r) (content sz q peer)" "kernelIf p' = (kernelIf peer)\<lparr>headerPage := headerPage (kernelIf p')\<rparr>"
      "tail_of p' = tail_of peer" "mapped p' = mapped peer" "headerPage (kernelIf p') \<noteq> None"
      by (rule advance_head [OF ok fit(1)])
    have "pages (kernelIf p') = pages (kernelIf peer)" using arg_cong [OF p'(4), of pages] by simp
    then show thesis using False rs d(1,2) out p' ok r nil keeps_refl [OF ok]
      by (intro that [of "if update then p' else peer"])
        (simp_all add: DequeueLocked_def map_headers_mapped deq_def Let_def keeps_tail_def)
  qed
qed

section \<open>The accessors refine two bounded queues\<close>

text \<open>Two endpoints share two queues: what one produces the other consumes.\<close>

datatype endpoint = EndA | EndB

datatype qp_op = QEnqueue endpoint "u8 list" | QDequeue endpoint "u8 list" | QPeek endpoint "u8 list"

record qp_sys =
  qs_a :: VMCIQueue
  qs_b :: VMCIQueue
  qs_asize :: u64
  qs_bsize :: u64

fun qp_end :: "qp_sys \<Rightarrow> endpoint \<Rightarrow> VMCIQPair" where
  "qp_end s EndA = \<lparr>produceQ = qs_a s, consumeQ = qs_b s, produceQSize = qs_asize s, consumeQSize = qs_bsize s,
     flags = 0, guestEndpoint = True, blocked = 0\<rparr>"
| "qp_end s EndB = \<lparr>produceQ = qs_b s, consumeQ = qs_a s, produceQSize = qs_bsize s, consumeQSize = qs_asize s,
     flags = 0, guestEndpoint = False, blocked = 0\<rparr>"

fun qp_store :: "qp_sys \<Rightarrow> endpoint \<Rightarrow> VMCIQPair option \<Rightarrow> qp_sys" where
  "qp_store s e None = s"
| "qp_store s EndA (Some qp) = s\<lparr>qs_a := produceQ qp, qs_b := consumeQ qp\<rparr>"
| "qp_store s EndB (Some qp) = s\<lparr>qs_a := consumeQ qp, qs_b := produceQ qp\<rparr>"

fun qp_step :: "qp_sys \<Rightarrow> qp_op \<Rightarrow> (qp_sys \<times> u8 list option \<times> i64 option) res" where
  "qp_step s (QEnqueue e buf) =
     bindR (vmci_qpair_enqueue True [] (Some (qp_end s e)) (Some buf) (of_nat (length buf)))
       (\<lambda>(qp, r). Inr (qp_store s e qp, r))"
| "qp_step s (QDequeue e buf) =
     bindR (vmci_qpair_dequeue True [] (Some (qp_end s e)) (Some buf) (of_nat (length buf)))
       (\<lambda>(qp, r). Inr (qp_store s e qp, r))"
| "qp_step s (QPeek e buf) =
     bindR (vmci_qpair_peek True [] (Some (qp_end s e)) (Some buf) (of_nat (length buf)))
       (\<lambda>(qp, r). Inr (qp_store s e qp, r))"

text \<open>The abstract pair: the sizes and the two lists of bytes in transit.\<close>

record qp_abs =
  cap_a :: nat
  cap_b :: nat
  bytes_a :: "u8 list"
  bytes_b :: "u8 list"

fun qp_spec :: "qp_abs \<Rightarrow> qp_op \<Rightarrow> qp_abs \<times> u8 list option \<times> i64 option" where
  "qp_spec a (QEnqueue EndA buf) = (let (xs, r) = enq (cap_a a) (bytes_a a) buf in (a\<lparr>bytes_a := xs\<rparr>, Some buf, Some r))"
| "qp_spec a (QEnqueue EndB buf) = (let (xs, r) = enq (cap_b a) (bytes_b a) buf in (a\<lparr>bytes_b := xs\<rparr>, Some buf, Some r))"
| "qp_spec a (QDequeue EndA buf) = (let (xs, b, r) = deq True (bytes_b a) buf in (a\<lparr>bytes_b := xs\<rparr>, Some b, Some r))"
| "qp_spec a (QDequeue EndB buf) = (let (xs, b, r) = deq True (bytes_a a) buf in (a\<lparr>bytes_a := xs\<rparr>, Some b, Some r))"
| "qp_spec a (QPeek EndA buf) = (let (xs, b, r) = deq False (bytes_b a) buf in (a, Some b, Some r))"
| "qp_spec a (QPeek EndB buf) = (let (xs, b, r) = deq False (bytes_a a) buf in (a, Some b, Some r))"

definition qp_inv :: "qp_sys \<Rightarrow> bool" where
  "qp_inv s \<longleftrightarrow> ring_ok (qs_asize s) (qs_a s) (qs_b s) \<and> ring_ok (qs_bsize s) (qs_b s) (qs_a s)"

definition qp_abs_of :: "qp_sys \<Rightarrow> qp_abs" where
  "qp_abs_of s = \<lparr>cap_a = unat (qs_asize s), cap_b = unat (qs_bsize s),
     bytes_a = content (qs_asize s) (qs_a s) (qs_b s), bytes_b = content (qs_bsize s) (qs_b s) (qs_a s)\<rparr>"

fun qp_legal :: "qp_op \<Rightarrow> bool" where
  "qp_legal (QEnqueue e buf) = (length buf < 2 ^ 64)"
| "qp_legal (QDequeue e buf) = (length buf < 2 ^ 64)"
| "qp_legal (QPeek e buf) = (length buf < 2 ^ 64)"

lemma qpair_loop_ready:
  assumes "attempt vmap qp = Inr (qp', buf', r)" and "r \<noteq> VMCI_ERROR_QUEUEPAIR_NOT_READY"
  shows "qpair_loop attempt vmap wakes buf qp = Inr (qp', buf', Some r)"
  using assms by (cases wakes) (auto simp: after_attempt_def)

lemma small_not_ready: "n < 2 ^ 63 \<Longrightarrow> of_nat n \<noteq> VMCI_ERROR_QUEUEPAIR_NOT_READY"
  using sint_of_nat64 [of n] by (auto simp: VMCI_ERROR_QUEUEPAIR_NOT_READY_def dest!: arg_cong [of _ _ sint])

lemma enq_code: "n < 2 ^ 63 \<Longrightarrow> snd (enq n xs buf) \<noteq> VMCI_ERROR_QUEUEPAIR_NOT_READY"
  using small_not_ready [of "min (length buf) (n - 1 - length xs)"]
  by (auto simp: enq_def Let_def vmci_codes)

lemma deq_code: "length xs < 2 ^ 63 \<Longrightarrow> snd (snd (deq u xs buf)) \<noteq> VMCI_ERROR_QUEUEPAIR_NOT_READY"
  using small_not_ready [of "min (length buf) (length xs)"]
  by (auto simp: deq_def Let_def vmci_codes)

lemma qpair_enqueue_ready:
  assumes ok: "ring_ok (produceQSize qp) (produceQ qp) (consumeQ qp)" and buf: "length buf < 2 ^ 64"
  obtains q' where "vmci_qpair_enqueue vmap wakes (Some qp) (Some buf) (of_nat (length buf)) =
      Inr (Some (qp\<lparr>produceQ := q'\<rparr>), Some buf,
        Some (snd (enq (unat (produceQSize qp)) (content (produceQSize qp) (produceQ qp) (consumeQ qp)) buf)))"
    "ring_ok (produceQSize qp) q' (consumeQ qp)" "keeps_head (produceQ qp) q'"
    "content (produceQSize qp) q' (consumeQ qp) =
      fst (enq (unat (produceQSize qp)) (content (produceQSize qp) (produceQ qp) (consumeQ qp)) buf)"
proof -
  let ?r = "snd (enq (unat (produceQSize qp)) (content (produceQSize qp) (produceQ qp) (consumeQ qp)) buf)"
  have small: "unat (produceQSize qp) < 2 ^ 63" by (rule ring_okD [OF ok])
  obtain q' where q': "EnqueueLocked vmap (produceQ qp) (consumeQ qp) (produceQSize qp) buf (of_nat (length buf)) (qpair_canBlock qp) =
      Inr ((q', consumeQ qp), ?r)" "ring_ok (produceQSize qp) q' (consumeQ qp)"
    "content (produceQSize qp) q' (consumeQ qp) =
      fst (enq (unat (produceQSize qp)) (content (produceQSize qp) (produceQ qp) (consumeQ qp)) buf)" "keeps_head (produceQ qp) q'"
    by (rule EnqueueLocked_spec [OF ok buf])
  then have "enqueue_attempt buf (of_nat (length buf)) vmap qp = Inr (qp\<lparr>produceQ := q'\<rparr>, buf, ?r)"
    by (simp add: enqueue_attempt_def)
  from qpair_loop_ready [where wakes = wakes and attempt = "enqueue_attempt buf (of_nat (length buf))" and vmap = vmap and qp = qp, OF this enq_code [OF small]] q' show thesis
    by (intro that [of q']) (simp_all add: vmci_qpair_enqueue_def)
qed

lemma qpair_dequeue_ready:
  assumes ok: "ring_ok (consumeQSize qp) (consumeQ qp) (produceQ qp)" and buf: "length buf < 2 ^ 64"
  obtains p' where "qpair_loop (dequeue_attempt update buf (of_nat (length buf))) vmap wakes buf qp =
      Inr (qp\<lparr>produceQ := p'\<rparr>, fst (snd (deq update (content (consumeQSize qp) (consumeQ qp) (produceQ qp)) buf)),
        Some (snd (snd (deq update (content (consumeQSize qp) (consumeQ qp) (produceQ qp)) buf))))"
    "ring_ok (consumeQSize qp) (consumeQ qp) p'" "keeps_tail (produceQ qp) p'"
    "content (consumeQSize qp) (consumeQ qp) p' = fst (deq update (content (consumeQSize qp) (consumeQ qp) (produceQ qp)) buf)"
proof -
  let ?d = "deq update (content (consumeQSize qp) (consumeQ qp) (produceQ qp)) buf"
  obtain h g where "unat (consumeQSize qp) < 2 ^ 63" "count_of (consumeQSize qp) (consumeQ qp) (produceQ qp) < unat (consumeQSize qp)"
    by (rule ring_okD [OF ok])
  then have small: "length (content (consumeQSize qp) (consumeQ qp) (produceQ qp)) < 2 ^ 63" by simp
  obtain p' where p': "DequeueLocked vmap (produceQ qp) (consumeQ qp) (consumeQSize qp) buf (of_nat (length buf)) update (qpair_canBlock qp) =
      Inr ((p', consumeQ qp), snd ?d)" "ring_ok (consumeQSize qp) (consumeQ qp) p'"
    "content (consumeQSize qp) (consumeQ qp) p' = fst ?d" "keeps_tail (produceQ qp) p'"
    by (rule DequeueLocked_spec [OF ok buf])
  then have "dequeue_attempt update buf (of_nat (length buf)) vmap qp = Inr (qp\<lparr>produceQ := p'\<rparr>, fst (snd ?d), snd (snd ?d))"
    by (simp add: dequeue_attempt_def split: prod.splits)
  from qpair_loop_ready [where wakes = wakes and attempt = "dequeue_attempt update buf (of_nat (length buf))" and vmap = vmap and qp = qp, OF this deq_code [OF small]] p' show thesis
    by (intro that [of p']) simp_all
qed

lemma qp_enqueue_sim:
  assumes inv: "qp_inv s" and buf: "length buf < 2 ^ 64"
  shows "\<exists>s' r. qp_step s (QEnqueue e buf) = Inr (s', r) \<and> qp_inv s' \<and> qp_spec (qp_abs_of s) (QEnqueue e buf) = (qp_abs_of s', r)"
proof (cases e)
  case EndA
  have ok: "ring_ok (produceQSize (qp_end s EndA)) (produceQ (qp_end s EndA)) (consumeQ (qp_end s EndA))"
    using inv by (simp add: qp_inv_def)
  show ?thesis
    by (rule qpair_enqueue_ready [OF ok buf, of True "[]"])
      (use inv EndA ring_ok_keeps_head in \<open>auto simp: qp_inv_def qp_abs_of_def split: prod.splits\<close>)
next
  case EndB
  have ok: "ring_ok (produceQSize (qp_end s EndB)) (produceQ (qp_end s EndB)) (consumeQ (qp_end s EndB))"
    using inv by (simp add: qp_inv_def)
  show ?thesis
    by (rule qpair_enqueue_ready [OF ok buf, of True "[]"])
      (use inv EndB ring_ok_keeps_head in \<open>auto simp: qp_inv_def qp_abs_of_def split: prod.splits\<close>)
qed

lemma qp_dequeue_sim:
  assumes inv: "qp_inv s" and buf: "length buf < 2 ^ 64" and op: "op = QDequeue e buf \<and> u \<or> op = QPeek e buf \<and> \<not> u"
  shows "\<exists>s' r. qp_step s op = Inr (s', r) \<and> qp_inv s' \<and> qp_spec (qp_abs_of s) op = (qp_abs_of s', r)"
proof (cases e)
  case EndA
  have ok: "ring_ok (consumeQSize (qp_end s EndA)) (consumeQ (qp_end s EndA)) (produceQ (qp_end s EndA))"
    using inv by (simp add: qp_inv_def)
  show ?thesis
    by (rule qpair_dequeue_ready [OF ok buf, of u True "[]"])
      (use inv EndA ring_ok_keeps_tail op in
        \<open>auto simp: qp_inv_def qp_abs_of_def vmci_qpair_dequeue_def vmci_qpair_peek_def deq_def Let_def split: prod.splits\<close>)
next
  case EndB
  have ok: "ring_ok (consumeQSize (qp_end s EndB)) (consumeQ (qp_end s EndB)) (produceQ (qp_end s EndB))"
    using inv by (simp add: qp_inv_def)
  show ?thesis
    by (rule qpair_dequeue_ready [OF ok buf, of u True "[]"])
      (use inv EndB ring_ok_keeps_tail op in
        \<open>auto simp: qp_inv_def qp_abs_of_def vmci_qpair_dequeue_def vmci_qpair_peek_def deq_def Let_def split: prod.splits\<close>)
qed

interpretation qpair: implementation qp_step qp_spec qp_inv qp_abs_of "\<lambda>s. n" "\<lambda>s. qp_legal" for n
proof
  fix s op
  assume inv: "qp_inv s" and legal: "qp_legal op"
  show "\<exists>s' r. qp_step s op = Inr (s', r) \<and> qp_inv s' \<and> qp_spec (qp_abs_of s) op = (qp_abs_of s', r) \<and>
      n \<le> Suc n \<and> (\<forall>o'. qp_legal o' = qp_legal o')"
  proof (cases op)
    case (QEnqueue e buf)
    then show ?thesis using qp_enqueue_sim [OF inv, of buf e] legal by auto
  next
    case (QDequeue e buf)
    then show ?thesis using qp_dequeue_sim [OF inv, of buf op e True] legal by auto
  next
    case (QPeek e buf)
    then show ?thesis using qp_dequeue_sim [OF inv, of buf op e False] legal by auto
  qed
qed

text \<open>A fresh pair: the headers after \<^verbatim>\<open>VMCIQueueHeader_Init\<close>, pages for the sizes.\<close>

definition qp_fresh :: "qp_sys \<Rightarrow> bool" where
  "qp_fresh s \<longleftrightarrow>
     (\<exists>h g x y. headerPage (kernelIf (qs_a s)) = Some (VMCIQueueHeader_Init x h) \<and>
        headerPage (kernelIf (qs_b s)) = Some (VMCIQueueHeader_Init y g)) \<and>
     mapped (qs_a s) \<and> mapped (qs_b s) \<and> pages_ok (kernelIf (qs_a s)) \<and> pages_ok (kernelIf (qs_b s)) \<and>
     0 < qs_asize s \<and> unat (qs_asize s) < 2 ^ 63 \<and> unat (qs_asize s) \<le> 4096 * length (pages (kernelIf (qs_a s))) \<and>
     0 < qs_bsize s \<and> unat (qs_bsize s) < 2 ^ 63 \<and> unat (qs_bsize s) \<le> 4096 * length (pages (kernelIf (qs_b s)))"

lemma qp_fresh_inv: "qp_fresh s \<Longrightarrow> qp_inv s"
  by (auto simp: qp_fresh_def qp_inv_def ring_ok_def length_flat VMCIQueueHeader_Init_def VMCIQueueHeader_ResetPointers_def)

lemma qp_fresh_abs: "qp_fresh s \<Longrightarrow> qp_abs_of s =
    \<lparr>cap_a = unat (qs_asize s), cap_b = unat (qs_bsize s), bytes_a = [], bytes_b = []\<rparr>"
  by (auto simp: qp_fresh_def qp_abs_of_def content_def count_of_def ring_count_def ring_get_def tail_of_def head_of_def
      VMCIQueueHeader_Init_def VMCIQueueHeader_ResetPointers_def)

section \<open>Properties\<close>

text \<open>
  C6. The two ends of a fresh queue pair see two bounded byte queues: whatever sequence of enqueue, dequeue and peek
  calls the two ends make, every call returns what the abstract queues of capacity size minus one return: the
  bytes in the order in which the peer sent them, \<^verbatim>\<open>NOSPACE\<close> exactly when the queue is full and \<^verbatim>\<open>NODATA\<close> exactly
  when it is empty. The rings wrap around and the copies cross pages.
\<close>

theorem vmci_qpair_refines_queues:
  assumes "qp_fresh s" and "\<forall>op \<in> set ops. qp_legal op"
  shows "\<exists>s' outs. run qp_step s ops = Inr (s', outs) \<and>
     outs = snd (run_spec qp_spec
       \<lparr>cap_a = unat (qs_asize s), cap_b = unat (qs_bsize s), bytes_a = [], bytes_b = []\<rparr> ops)"
proof -
  obtain s' outs where "run qp_step s ops = Inr (s', outs)"
    "run_spec qp_spec (qp_abs_of s) ops = (qp_abs_of s', outs)"
    using qpair.run_sim [OF qp_fresh_inv [OF assms(1)], of ops "length ops"] assms(2) by auto
  then show ?thesis using qp_fresh_abs [OF assms(1)] by auto
qed

definition demo_qp :: qp_sys where
  "demo_qp = (let h = VMCIQueueHeader_Init \<lparr>handle = (0, 0), producerTail = 9, consumerHead = 9\<rparr> (1, 2);
       q = \<lparr>mapped = True, savedHeader = None,
            kernelIf = \<lparr>host = False, headerPage = Some h, pages = [replicate 4096 0]\<rparr>\<rparr>
     in \<lparr>qs_a = q, qs_b = q, qs_asize = 3, qs_bsize = 3\<rparr>)"

lemma demo_qp_fresh: "qp_fresh demo_qp"
  unfolding qp_fresh_def demo_qp_def Let_def by (auto simp: pages_ok_def)

theorem vmci_qpair_refines_queues_witness:
  "\<exists>s'. run qp_step demo_qp
     [QEnqueue EndA [1, 2, 3], QEnqueue EndA [4], QDequeue EndB [0], QEnqueue EndA [5], QDequeue EndB [0, 0, 0]] =
   Inr (s', [(Some [1, 2, 3], Some 2), (Some [4], Some VMCI_ERROR_QUEUEPAIR_NOSPACE), (Some [1], Some 1),
             (Some [5], Some 1), (Some [2, 5, 0], Some 2)])"
  using vmci_qpair_refines_queues [OF demo_qp_fresh,
      of "[QEnqueue EndA [1, 2, 3], QEnqueue EndA [4], QDequeue EndB [0], QEnqueue EndA [5], QDequeue EndB [0, 0, 0]]"]
  by (auto simp: demo_qp_def Let_def enq_def deq_def patch_def)



section \<open>Producer and consumer without a common lock\<close>

text \<open>
  The two ends run on different machines and share no lock. Each of the three phases of a call is a
  step, the steps of producer and consumer interleave in any order. \<open>rs_sent\<close> and \<open>rs_recv\<close> record the bytes whose
  enqueue and dequeue have completed.
\<close>

datatype producer = PIdle | PReserved "u8 list" u64 u64 | PCopied "u8 list" u64

datatype consumer = CIdle | CReserved "u8 list" u64 u64 | CCopied "u8 list" u64

record ring_sys =
  rs_q :: VMCIQueue
  rs_peer :: VMCIQueue
  rs_prod :: producer
  rs_cons :: consumer
  rs_sent :: "u8 list"
  rs_recv :: "u8 list"

datatype ring_action = EReserve "u8 list" | ECopy | ECommit | DReserve "u8 list" | DCopy | DCommit

fun ring_enabled :: "ring_sys \<Rightarrow> ring_action \<Rightarrow> bool" where
  "ring_enabled s (EReserve buf) \<longleftrightarrow> rs_prod s = PIdle \<and> length buf < 2 ^ 64"
| "ring_enabled s ECopy \<longleftrightarrow> (\<exists>buf w t. rs_prod s = PReserved buf w t)"
| "ring_enabled s ECommit \<longleftrightarrow> (\<exists>buf w. rs_prod s = PCopied buf w)"
| "ring_enabled s (DReserve buf) \<longleftrightarrow> rs_cons s = CIdle \<and> length buf < 2 ^ 64"
| "ring_enabled s DCopy \<longleftrightarrow> (\<exists>buf r h. rs_cons s = CReserved buf r h)"
| "ring_enabled s DCommit \<longleftrightarrow> (\<exists>buf r. rs_cons s = CCopied buf r)"

fun ring_exec :: "u64 \<Rightarrow> ring_sys \<Rightarrow> ring_action \<Rightarrow> ring_sys res" where
  "ring_exec sz s (EReserve buf) =
     bindR (Enqueue_reserve (rs_q s) (rs_peer s) sz (of_nat (length buf))) (\<lambda>r.
       case r of Inl err \<Rightarrow> Inr s | Inr (w, t) \<Rightarrow> Inr (s\<lparr>rs_prod := PReserved buf w t\<rparr>))"
| "ring_exec sz s ECopy =
     (case rs_prod s of
        PReserved buf w t \<Rightarrow>
          bindR (Enqueue_copy (rs_q s) sz buf w t) (\<lambda>(q, result).
            Inr (s\<lparr>rs_q := q, rs_prod := if failed result then PIdle else PCopied buf w\<rparr>))
      | _ \<Rightarrow> Inr s)"
| "ring_exec sz s ECommit =
     (case rs_prod s of
        PCopied buf w \<Rightarrow>
          bindR (VMCIQueueAddProducerTail (rs_q s) w sz) (\<lambda>q.
            Inr (s\<lparr>rs_q := q, rs_prod := PIdle, rs_sent := rs_sent s @ take (unat w) buf\<rparr>))
      | _ \<Rightarrow> Inr s)"
| "ring_exec sz s (DReserve buf) =
     bindR (Dequeue_reserve (rs_peer s) (rs_q s) sz (of_nat (length buf))) (\<lambda>r.
       case r of Inl err \<Rightarrow> Inr s | Inr (n, h) \<Rightarrow> Inr (s\<lparr>rs_cons := CReserved buf n h\<rparr>))"
| "ring_exec sz s DCopy =
     (case rs_cons s of
        CReserved buf n h \<Rightarrow>
          bindR (Dequeue_copy (rs_q s) sz buf n h) (\<lambda>(buf1, result).
            Inr (s\<lparr>rs_cons := if failed result then CIdle else CCopied buf1 n\<rparr>))
      | _ \<Rightarrow> Inr s)"
| "ring_exec sz s DCommit =
     (case rs_cons s of
        CCopied buf n \<Rightarrow>
          bindR (VMCIQueueAddConsumerHead (rs_peer s) n sz) (\<lambda>p.
            Inr (s\<lparr>rs_peer := p, rs_cons := CIdle, rs_recv := rs_recv s @ take (unat n) buf\<rparr>))
      | _ \<Rightarrow> Inr s)"

definition ring_step :: "u64 \<Rightarrow> ring_sys \<Rightarrow> ring_action \<Rightarrow> ring_sys \<Rightarrow> bool" where
  "ring_step sz s a s' \<longleftrightarrow> ring_enabled s a \<and> ring_exec sz s a = Inr s'"

definition ring_init :: "u64 \<Rightarrow> ring_sys \<Rightarrow> bool" where
  "ring_init sz s \<longleftrightarrow> ring_ok sz (rs_q s) (rs_peer s) \<and> tail_of (rs_q s) = 0 \<and> head_of (rs_peer s) = 0 \<and>
     rs_prod s = PIdle \<and> rs_cons s = CIdle \<and> rs_sent s = [] \<and> rs_recv s = []"

text \<open>
  A reserved range stays free while the consumer moves on, and the bytes that the consumer has
  reserved stay in place while the producer copies: each side only moves its pointer towards the other's bound.
\<close>

definition prod_ok :: "u64 \<Rightarrow> VMCIQueue \<Rightarrow> VMCIQueue \<Rightarrow> producer \<Rightarrow> bool" where
  "prod_ok sz q peer p =
     (case p of
        PIdle \<Rightarrow> True
      | PReserved buf w t \<Rightarrow> t = tail_of q \<and> unat w \<le> length buf \<and> count_of sz q peer + unat w < unat sz
      | PCopied buf w \<Rightarrow> unat w \<le> length buf \<and> count_of sz q peer + unat w < unat sz \<and>
          ring_get (flat (kernelIf q)) (unat sz) (unat (tail_of q)) (unat w) = take (unat w) buf)"

definition cons_ok :: "u64 \<Rightarrow> VMCIQueue \<Rightarrow> VMCIQueue \<Rightarrow> consumer \<Rightarrow> bool" where
  "cons_ok sz q peer c =
     (case c of
        CIdle \<Rightarrow> True
      | CReserved buf r h \<Rightarrow> h = head_of peer \<and> unat r \<le> length buf \<and> unat r \<le> count_of sz q peer
      | CCopied buf r \<Rightarrow> unat r \<le> count_of sz q peer \<and>
          take (unat r) buf = ring_get (flat (kernelIf q)) (unat sz) (unat (head_of peer)) (unat r))"

definition ring_inv :: "u64 \<Rightarrow> ring_sys \<Rightarrow> bool" where
  "ring_inv sz s \<longleftrightarrow> ring_ok sz (rs_q s) (rs_peer s) \<and> prod_ok sz (rs_q s) (rs_peer s) (rs_prod s) \<and>
     cons_ok sz (rs_q s) (rs_peer s) (rs_cons s) \<and>
     rs_sent s = rs_recv s @ content sz (rs_q s) (rs_peer s)"

lemma ring_invD:
  assumes "ring_inv sz s"
  shows "ring_ok sz (rs_q s) (rs_peer s)" "prod_ok sz (rs_q s) (rs_peer s) (rs_prod s)"
    "cons_ok sz (rs_q s) (rs_peer s) (rs_cons s)" "rs_sent s = rs_recv s @ content sz (rs_q s) (rs_peer s)"
  using assms by (simp_all add: ring_inv_def)

lemma prod_reserve:
  assumes inv: "ring_inv sz s" and en: "length buf < 2 ^ 64"
  shows "\<exists>s'. ring_exec sz s (EReserve buf) = Inr s' \<and> ring_inv sz s'"
proof -
  obtain h g where d: "unat sz < 2 ^ 63" "count_of sz (rs_q s) (rs_peer s) < unat sz" by (rule ring_okD [OF ring_invD(1) [OF inv]])
  have len: "unat (of_nat (length buf) :: u64) = length buf" using en by (intro unat_of_nat_bound) simp
  let ?m = "min (length buf) (unat sz - 1 - count_of sz (rs_q s) (rs_peer s))"
  have "unat (of_nat ?m :: u64) = ?m" using d by (intro unat_of_nat_bound) auto
  then show ?thesis
    using Enqueue_reserve_spec [OF ring_invD(1) [OF inv], of "of_nat (length buf)", unfolded len] inv d(2)
    by (auto simp: ring_inv_def prod_ok_def)
qed

lemma cons_reserve:
  assumes inv: "ring_inv sz s" and en: "length buf < 2 ^ 64"
  shows "\<exists>s'. ring_exec sz s (DReserve buf) = Inr s' \<and> ring_inv sz s'"
proof -
  obtain h g where d: "unat sz < 2 ^ 63" "count_of sz (rs_q s) (rs_peer s) < unat sz" by (rule ring_okD [OF ring_invD(1) [OF inv]])
  have len: "unat (of_nat (length buf) :: u64) = length buf" using en by (intro unat_of_nat_bound) simp
  let ?m = "min (length buf) (count_of sz (rs_q s) (rs_peer s))"
  have "unat (of_nat ?m :: u64) = ?m" using d by (intro unat_of_nat_bound) auto
  then show ?thesis
    using Dequeue_reserve_spec [OF ring_invD(1) [OF inv], of "of_nat (length buf)", unfolded len] inv
    by (auto simp: ring_inv_def cons_ok_def)
qed

lemma prod_copy:
  assumes inv: "ring_inv sz s" and en: "rs_prod s = PReserved buf w t"
  shows "\<exists>s'. ring_exec sz s ECopy = Inr s' \<and> ring_inv sz s'"
proof -
  note ok = ring_invD(1) [OF inv]
  have p: "t = tail_of (rs_q s)" "unat w \<le> length buf" "count_of sz (rs_q s) (rs_peer s) + unat w < unat sz"
    using ring_invD(2) [OF inv] en by (simp_all add: prod_ok_def)
  obtain q' where q': "Enqueue_copy (rs_q s) sz buf w (tail_of (rs_q s)) = Inr (q', VMCI_SUCCESS)" "ring_ok sz q' (rs_peer s)"
    "tail_of q' = tail_of (rs_q s)" "count_of sz q' (rs_peer s) = count_of sz (rs_q s) (rs_peer s)"
    "flat (kernelIf q') = ring_put (flat (kernelIf (rs_q s))) (unat sz) (unat (tail_of (rs_q s))) (take (unat w) buf)"
    by (rule copy_in [OF ok p(3,2)])
  note c = content_copy_in [OF ok p(3,2) q'(3,5)]
  have "cons_ok sz q' (rs_peer s) (rs_cons s)"
    using ring_invD(3) [OF inv] q'(4) c(1) by (auto simp: cons_ok_def split: consumer.splits)
  moreover have "prod_ok sz q' (rs_peer s) (PCopied buf w)"
    using p q'(3,4) c(3) by (simp add: prod_ok_def)
  ultimately show ?thesis
    using q'(1,2) en p(1) c(2) ring_invD(4) [OF inv] by (simp add: ring_inv_def)
qed

lemma prod_commit:
  assumes inv: "ring_inv sz s" and en: "rs_prod s = PCopied buf w"
  shows "\<exists>s'. ring_exec sz s ECommit = Inr s' \<and> ring_inv sz s'"
proof -
  note ok = ring_invD(1) [OF inv]
  have p: "unat w \<le> length buf" "count_of sz (rs_q s) (rs_peer s) + unat w < unat sz"
    "ring_get (flat (kernelIf (rs_q s))) (unat sz) (unat (tail_of (rs_q s))) (unat w) = take (unat w) buf"
    using ring_invD(2) [OF inv] en by (simp_all add: prod_ok_def)
  obtain q' where q': "VMCIQueueAddProducerTail (rs_q s) w sz = Inr q'" "ring_ok sz q' (rs_peer s)"
    "count_of sz q' (rs_peer s) = count_of sz (rs_q s) (rs_peer s) + unat w" "flat (kernelIf q') = flat (kernelIf (rs_q s))"
    by (rule advance_tail [OF ok p(2)])
  obtain h g where "unat (tail_of (rs_q s)) < unat sz" "unat (head_of (rs_peer s)) < unat sz" by (rule ring_okD [OF ok])
  then have t: "unat (tail_of (rs_q s)) = (unat (head_of (rs_peer s)) + count_of sz (rs_q s) (rs_peer s)) mod unat sz"
    unfolding count_of_def by (intro ring_tail)
  have "content sz q' (rs_peer s) = content sz (rs_q s) (rs_peer s) @ take (unat w) buf"
    unfolding content_def q'(3,4) ring_get_append t [symmetric] p(3) ..
  moreover have "cons_ok sz q' (rs_peer s) (rs_cons s)"
    using ring_invD(3) [OF inv] q'(3,4) by (auto simp: cons_ok_def split: consumer.splits)
  ultimately show ?thesis
    using q'(1,2) en ring_invD(4) [OF inv] by (simp add: ring_inv_def prod_ok_def)
qed

lemma cons_copy:
  assumes inv: "ring_inv sz s" and en: "rs_cons s = CReserved buf r h"
  shows "\<exists>s'. ring_exec sz s DCopy = Inr s' \<and> ring_inv sz s'"
proof -
  note ok = ring_invD(1) [OF inv]
  have c: "h = head_of (rs_peer s)" "unat r \<le> length buf" "unat r \<le> count_of sz (rs_q s) (rs_peer s)"
    using ring_invD(3) [OF inv] en by (simp_all add: cons_ok_def)
  have "cons_ok sz (rs_q s) (rs_peer s) (CCopied (patch buf 0 (take (unat r) (content sz (rs_q s) (rs_peer s)))) r)"
    using c by (simp add: cons_ok_def patch_def content_def take_ring_get)
  then show ?thesis
    using copy_out [OF ok c(3,2)] c(1) en inv by (simp add: ring_inv_def)
qed

lemma cons_commit:
  assumes inv: "ring_inv sz s" and en: "rs_cons s = CCopied buf r"
  shows "\<exists>s'. ring_exec sz s DCommit = Inr s' \<and> ring_inv sz s'"
proof -
  note ok = ring_invD(1) [OF inv]
  have c: "unat r \<le> count_of sz (rs_q s) (rs_peer s)"
    "take (unat r) buf = ring_get (flat (kernelIf (rs_q s))) (unat sz) (unat (head_of (rs_peer s))) (unat r)"
    using ring_invD(3) [OF inv] en by (simp_all add: cons_ok_def)
  obtain p' where p': "VMCIQueueAddConsumerHead (rs_peer s) r sz = Inr p'" "ring_ok sz (rs_q s) p'"
    "count_of sz (rs_q s) p' = count_of sz (rs_q s) (rs_peer s) - unat r"
    "content sz (rs_q s) p' = drop (unat r) (content sz (rs_q s) (rs_peer s))"
    by (rule advance_head [OF ok c(1)])
  have "take (unat r) buf = take (unat r) (content sz (rs_q s) (rs_peer s))"
    using c by (simp add: content_def take_ring_get)
  then have "rs_sent s = (rs_recv s @ take (unat r) buf) @ content sz (rs_q s) p'"
    using ring_invD(4) [OF inv] p'(4) by simp
  moreover have "prod_ok sz (rs_q s) p' (rs_prod s)"
    using ring_invD(2) [OF inv] p'(3) by (auto simp: prod_ok_def split: producer.splits)
  ultimately show ?thesis using p'(1,2) en by (simp add: ring_inv_def cons_ok_def)
qed

lemma ring_exec_safe:
  assumes "ring_inv sz s" and "ring_enabled s a"
  shows "\<exists>s'. ring_exec sz s a = Inr s' \<and> ring_inv sz s'"
proof (cases a)
  case (EReserve buf)
  then show ?thesis using prod_reserve [OF assms(1)] assms(2) by simp
next
  case (DReserve buf)
  then show ?thesis using cons_reserve [OF assms(1)] assms(2) by simp
qed (use assms prod_copy prod_commit cons_copy cons_commit in fastforce)+

interpretation ring: invariant_system "ring_init sz" "ring_step sz" "ring_inv sz" for sz
proof
  show "ring_inv sz s" if "ring_init sz s" for s
    using that by (simp add: ring_init_def ring_inv_def prod_ok_def cons_ok_def content_def count_of_def ring_count_def ring_get_def)
  show "ring_inv sz s'" if "ring_inv sz s" "ring_step sz s a s'" for s a s'
    using ring_exec_safe [OF that(1), of a] that(2) by (auto simp: ring_step_def)
qed

text \<open>
  C2. Correctness without a common lock: in every interleaving of the phases of the two ends, the bytes received and
  the bytes between head and tail are together exactly the bytes sent, in order; and no phase of either
  end faults. The consumer never sees a byte that has not been sent, and no byte is overwritten before it is
  received.
\<close>

theorem vmci_ring_lock_free:
  assumes "reach (ring_init sz) (ring_step sz) s"
  shows "rs_sent s = rs_recv s @ content sz (rs_q s) (rs_peer s) \<and>
    (\<forall>a. ring_enabled s a \<longrightarrow> (\<exists>s'. ring_exec sz s a = Inr s'))"
proof -
  have inv: "ring_inv sz s" by (rule ring.reach_inv [OF assms])
  show ?thesis using ring_invD(4) [OF inv] ring_exec_safe [OF inv] by blast
qed

abbreviation demo_ring :: ring_sys where
  "demo_ring \<equiv> \<lparr>rs_q = qs_a demo_qp, rs_peer = qs_b demo_qp, rs_prod = PIdle, rs_cons = CIdle, rs_sent = [], rs_recv = []\<rparr>"

lemma reach_demo_ring: "reach (ring_init 3) (ring_step 3) demo_ring"
  using qp_fresh_inv [OF demo_qp_fresh]
  by (intro reach_init) (simp add: ring_init_def qp_inv_def demo_qp_def Let_def tail_of_def head_of_def
      VMCIQueueHeader_Init_def VMCIQueueHeader_ResetPointers_def)

theorem vmci_ring_lock_free_witness:
  "\<exists>s'. ring_exec 3 demo_ring (EReserve [1, 2, 3]) = Inr s'"
  using vmci_ring_lock_free [OF reach_demo_ring, THEN conjunct2, THEN spec, of "EReserve [1, 2, 3]"]
  by (simp del: ring_exec.simps)

end
