(* ===== verification/Balloon.thy ===== *)
theory Balloon
  imports Prelude
begin

text \<open>
  The memory balloon of \<^verbatim>\<open>modules/shared/vmmemctl\<close>: \<^verbatim>\<open>vmballoon.c\<close>, the monitor commands of \<^verbatim>\<open>backdoor_balloon.c\<close> and the
  batch page of \<^verbatim>\<open>balloon_def.h\<close>. The balloon reserves pages of the guest and reports them to the monitor; it keeps
  their handles in chunks. Counters of statistics are left out.
\<close>

section \<open>Codes\<close>

definition BALLOON_SUCCESS :: int where "BALLOON_SUCCESS = 0"
definition BALLOON_FAILURE :: int where "BALLOON_FAILURE = - 1"
definition BALLOON_ERROR_PPN_INVALID :: int where "BALLOON_ERROR_PPN_INVALID = 2"
definition BALLOON_ERROR_PPN_PINNED :: int where "BALLOON_ERROR_PPN_PINNED = 5"
definition BALLOON_ERROR_PPN_NOTNEEDED :: int where "BALLOON_ERROR_PPN_NOTNEEDED = 6"
definition BALLOON_ERROR_RESET :: int where "BALLOON_ERROR_RESET = 7"
definition BALLOON_SUCCESS_WITH_CAPABILITIES :: int where "BALLOON_SUCCESS_WITH_CAPABILITIES = 0x03000000"
definition BALLOON_PAGE_ALLOC_FAILURE :: int where "BALLOON_PAGE_ALLOC_FAILURE = 1000"

lemmas balloon_codes = BALLOON_SUCCESS_def BALLOON_FAILURE_def BALLOON_ERROR_PPN_INVALID_def BALLOON_ERROR_PPN_PINNED_def
  BALLOON_ERROR_PPN_NOTNEEDED_def BALLOON_ERROR_RESET_def BALLOON_SUCCESS_WITH_CAPABILITIES_def BALLOON_PAGE_ALLOC_FAILURE_def

definition BALLOON_BASIC_CMDS :: u32 where "BALLOON_BASIC_CMDS = 2"
definition BALLOON_BATCHED_CMDS :: u32 where "BALLOON_BATCHED_CMDS = 4"
definition BALLOON_BATCHED_2M_CMDS :: u32 where "BALLOON_BATCHED_2M_CMDS = 8"

definition BALLOON_CAPABILITIES :: u32 where
  "BALLOON_CAPABILITIES = BALLOON_BASIC_CMDS OR BALLOON_BATCHED_CMDS OR BALLOON_BATCHED_2M_CMDS"

datatype BalloonCmd = CMD_START | CMD_TARGET | CMD_LOCK | CMD_UNLOCK | CMD_GUEST_ID
  | CMD_BATCHED_LOCK | CMD_BATCHED_UNLOCK | CMD_BATCHED_2M_LOCK | CMD_BATCHED_2M_UNLOCK

definition BALLOON_NOSLEEP_ALLOC_MAX :: nat where "BALLOON_NOSLEEP_ALLOC_MAX = 16384"
definition BALLOON_RATE_ALLOC_MIN :: nat where "BALLOON_RATE_ALLOC_MIN = 512"
definition BALLOON_RATE_ALLOC_MAX :: nat where "BALLOON_RATE_ALLOC_MAX = 2048"
definition BALLOON_RATE_ALLOC_INC :: nat where "BALLOON_RATE_ALLOC_INC = 16"
definition BALLOON_RATE_FREE_MIN :: nat where "BALLOON_RATE_FREE_MIN = 512"
definition BALLOON_RATE_FREE_MAX :: nat where "BALLOON_RATE_FREE_MAX = 16384"
definition BALLOON_RATE_FREE_INC :: nat where "BALLOON_RATE_FREE_INC = 16"
definition SLOW_PAGE_ALLOCATION_CYCLES :: nat where "SLOW_PAGE_ALLOCATION_CYCLES = 4"
definition BALLOON_ERROR_PAGES :: nat where "BALLOON_ERROR_PAGES = 16"
definition BALLOON_CHUNK_ENTRIES :: nat where "BALLOON_CHUNK_ENTRIES = 1000"
definition BALLOON_BATCH_MAX_ENTRIES :: nat where "BALLOON_BATCH_MAX_ENTRIES = 512"
definition OS_LARGE_2_SMALL_PAGES :: nat where "OS_LARGE_2_SMALL_PAGES = 512"

lemmas balloon_consts = BALLOON_NOSLEEP_ALLOC_MAX_def BALLOON_RATE_ALLOC_MIN_def BALLOON_RATE_ALLOC_MAX_def
  BALLOON_RATE_ALLOC_INC_def BALLOON_RATE_FREE_MIN_def BALLOON_RATE_FREE_MAX_def BALLOON_RATE_FREE_INC_def
  SLOW_PAGE_ALLOCATION_CYCLES_def BALLOON_ERROR_PAGES_def BALLOON_CHUNK_ENTRIES_def BALLOON_BATCH_MAX_ENTRIES_def
  OS_LARGE_2_SMALL_PAGES_def

section \<open>The balloon and its environment\<close>

text \<open>
  A handle names a physical page; it is represented by the number of that page, and zero is \<^verbatim>\<open>PAGE_HANDLE_INVALID\<close>. In the kernels a
  handle is the address of the descriptor of the page, and \<^verbatim>\<open>OS_ReservedPageGetPA\<close> and \<^verbatim>\<open>OS_ReservedPageGetHandle\<close> of
  \<^verbatim>\<open>os.h\<close> go between the descriptor and the physical address, so the number of the page stands for either.
\<close>

type_synonym PageHandle = u64

type_synonym BalloonChunk = "PageHandle list"

datatype BalloonOps = OpsBasic | OpsBatched

datatype BalloonPageAllocType = ALLOC_LPAGE | ALLOC_NOSLEEP | ALLOC_CANSLEEP

text \<open>
  \<open>chunks l\<close> are the chunks of small (\<open>l\<close> false) or large pages, first chunk first; the last entry of a chunk is the one stored
  last. \<open>batchPage\<close> is \<^const>\<open>None\<close> while no batch page is mapped. \<open>reserved\<close> is the state of the operating
  system: the pages it has handed out, with their size. The three counters number the calls of the environment.
\<close>

record Balloon =
  chunks :: "bool \<Rightarrow> BalloonChunk list"
  nChunks :: "bool \<Rightarrow> int"
  errors :: "bool \<Rightarrow> PageHandle list"
  guestType :: u64
  nPages :: u32
  nPagesTarget :: u32
  resetFlag :: bool
  rateAlloc :: nat
  rateFree :: nat
  slowPageAllocationCycles :: nat
  hypervisorCapabilities :: u32
  balloonOps :: "BalloonOps option"
  pageHandle :: PageHandle
  batchPage :: "u64 list option"
  batchMaxEntries :: nat
  fallbackChunk :: "BalloonChunk option"
  reserved :: "PageHandle \<Rightarrow> bool option"
  n_alloc :: nat
  n_malloc :: nat
  n_mon :: nat

text \<open>
  A reply of the monitor: the status, the output register and, for batched commands, the status bits that
  it writes into the entries of the batch page.
\<close>

record mon_reply =
  r_status :: int
  r_out :: u32
  r_entries :: "nat \<Rightarrow> u64"

text \<open>
  The operating system and the monitor: page allocation (given the pages in use, whether it may sleep and the size; zero on failure),
  \<^verbatim>\<open>OS_Malloc\<close>, mapping of the batch page, the limit, and the replies of the monitor.
\<close>

record balloon_env =
  e_alloc :: "nat \<Rightarrow> PageHandle set \<Rightarrow> bool \<Rightarrow> bool \<Rightarrow> PageHandle"
  e_malloc :: "nat \<Rightarrow> bool"
  e_map :: "nat \<Rightarrow> bool"
  e_limit :: u64
  e_monitor :: "nat \<Rightarrow> BalloonCmd \<Rightarrow> u64 \<Rightarrow> u32 \<Rightarrow> mon_reply"

definition OS_ReservedPageAlloc :: "balloon_env \<Rightarrow> Balloon \<Rightarrow> bool \<Rightarrow> bool \<Rightarrow> Balloon \<times> PageHandle" where
  "OS_ReservedPageAlloc env b canSleep isLarge =
     (let h = e_alloc env (n_alloc b) (dom (reserved b)) canSleep isLarge;
          b1 = b\<lparr>n_alloc := n_alloc b + 1\<rparr>
      in if h = 0 then (b1, 0) else (b1\<lparr>reserved := (reserved b)(h \<mapsto> isLarge)\<rparr>, h))"

text \<open>Freeing a page that is not reserved in that size is a fault.\<close>

definition OS_ReservedPageFree :: "Balloon \<Rightarrow> PageHandle \<Rightarrow> bool \<Rightarrow> Balloon res" where
  "OS_ReservedPageFree b h isLarge =
     (if reserved b h = Some isLarge then Inr (b\<lparr>reserved := (reserved b)(h := None)\<rparr>) else Inl UseAfterFree)"

definition OS_ReservedPageGetPA :: "PageHandle \<Rightarrow> u64" where
  "OS_ReservedPageGetPA h = push_bit 12 h"

definition OS_ReservedPageGetHandle :: "u64 \<Rightarrow> PageHandle" where
  "OS_ReservedPageGetHandle pa = drop_bit 12 pa"

definition PA_2_PPN :: "u64 \<Rightarrow> u64" where
  "PA_2_PPN pa = drop_bit 12 pa"

section \<open>The batch page\<close>

definition deref_batch :: "Balloon \<Rightarrow> nat \<Rightarrow> u64 res" where
  "deref_batch b idx =
     (case batchPage b of
        None \<Rightarrow> Inl NullDeref
      | Some es \<Rightarrow> if idx < length es then Inr (es ! idx) else Inl OutOfBounds)"

definition Balloon_BatchGetPA :: "Balloon \<Rightarrow> nat \<Rightarrow> u64 res" where
  "Balloon_BatchGetPA b idx = bindR (deref_batch b idx) (\<lambda>e. Inr (e AND NOT (mask 12)))"

definition Balloon_BatchGetStatus :: "Balloon \<Rightarrow> nat \<Rightarrow> int res" where
  "Balloon_BatchGetStatus b idx = bindR (deref_batch b idx) (\<lambda>e. Inr (uint (e AND mask 5)))"

definition Balloon_BatchSetPA :: "Balloon \<Rightarrow> nat \<Rightarrow> u64 \<Rightarrow> Balloon res" where
  "Balloon_BatchSetPA b idx pa =
     (case batchPage b of
        None \<Rightarrow> Inl NullDeref
      | Some es \<Rightarrow> if idx < length es then Inr (b\<lparr>batchPage := Some (es[idx := pa])\<rparr>) else Inl OutOfBounds)"

text \<open>What the monitor does to the first \<open>n\<close> entries: it sets status bits and leaves the page numbers alone.\<close>

definition monitor_marks :: "(nat \<Rightarrow> u64) \<Rightarrow> nat \<Rightarrow> u64 list \<Rightarrow> u64 list" where
  "monitor_marks st n es = map (\<lambda>i. if i < n then es ! i OR take_bit 5 (st i) else es ! i) [0..<length es]"

section \<open>Monitor commands\<close>

definition BackdoorCmd :: "balloon_env \<Rightarrow> Balloon \<Rightarrow> BalloonCmd \<Rightarrow> u64 \<Rightarrow> u32 \<Rightarrow> Balloon \<times> mon_reply" where
  "BackdoorCmd env b cmd arg1 arg2 =
     (let r = e_monitor env (n_mon b) cmd arg1 arg2
      in (b\<lparr>n_mon := n_mon b + 1, resetFlag := (r_status r = BALLOON_ERROR_RESET \<or> resetFlag b)\<rparr>, r))"

definition Backdoor_MonitorStart :: "balloon_env \<Rightarrow> Balloon \<Rightarrow> u32 \<Rightarrow> Balloon \<times> int" where
  "Backdoor_MonitorStart env b protoVersion =
     (let (b1, r) = BackdoorCmd env b CMD_START (ucast protoVersion) 0
      in if r_status r = BALLOON_SUCCESS_WITH_CAPABILITIES
         then (b1\<lparr>hypervisorCapabilities := r_out r\<rparr>, BALLOON_SUCCESS)
         else if r_status r = BALLOON_SUCCESS
         then (b1\<lparr>hypervisorCapabilities := BALLOON_BASIC_CMDS\<rparr>, BALLOON_SUCCESS)
         else (b1, r_status r))"

definition Backdoor_MonitorGuestType :: "balloon_env \<Rightarrow> Balloon \<Rightarrow> Balloon \<times> int" where
  "Backdoor_MonitorGuestType env b =
     (let (b1, r) = BackdoorCmd env b CMD_GUEST_ID (guestType b) 0 in (b1, r_status r))"

text \<open>The commands return the status and, if the caller passes a pointer and the monitor is asked, the new target.\<close>

definition Backdoor_MonitorGetTarget :: "balloon_env \<Rightarrow> Balloon \<Rightarrow> Balloon \<times> int \<times> u32 option" where
  "Backdoor_MonitorGetTarget env b =
     (if ucast (ucast (e_limit env) :: u32) \<noteq> e_limit env then (b, BALLOON_FAILURE, None)
      else let (b1, r) = BackdoorCmd env b CMD_TARGET (e_limit env) 0 in (b1, r_status r, Some (r_out r)))"

definition Backdoor_MonitorLockPage :: "balloon_env \<Rightarrow> Balloon \<Rightarrow> u64 \<Rightarrow> Balloon \<times> int \<times> u32 option" where
  "Backdoor_MonitorLockPage env b ppn =
     (if ucast (ucast ppn :: u32) \<noteq> ppn then (b, BALLOON_ERROR_PPN_INVALID, None)
      else let (b1, r) = BackdoorCmd env b CMD_LOCK ppn 0 in (b1, r_status r, Some (r_out r)))"

definition Backdoor_MonitorUnlockPage :: "balloon_env \<Rightarrow> Balloon \<Rightarrow> u64 \<Rightarrow> Balloon \<times> int \<times> u32 option" where
  "Backdoor_MonitorUnlockPage env b ppn =
     (if ucast (ucast ppn :: u32) \<noteq> ppn then (b, BALLOON_ERROR_PPN_INVALID, None)
      else let (b1, r) = BackdoorCmd env b CMD_UNLOCK ppn 0 in (b1, r_status r, Some (r_out r)))"

definition batched_cmd :: "balloon_env \<Rightarrow> Balloon \<Rightarrow> BalloonCmd \<Rightarrow> u64 \<Rightarrow> nat \<Rightarrow> Balloon \<times> int \<times> u32 option" where
  "batched_cmd env b cmd ppn n =
     (let (b1, r) = BackdoorCmd env b cmd ppn (of_nat n)
      in (b1\<lparr>batchPage := map_option (monitor_marks (r_entries r) n) (batchPage b1)\<rparr>, r_status r, Some (r_out r)))"

definition Backdoor_MonitorLockPagesBatched :: "balloon_env \<Rightarrow> Balloon \<Rightarrow> u64 \<Rightarrow> nat \<Rightarrow> bool \<Rightarrow> Balloon \<times> int \<times> u32 option" where
  "Backdoor_MonitorLockPagesBatched env b ppn n isLargePage =
     batched_cmd env b (if isLargePage then CMD_BATCHED_2M_LOCK else CMD_BATCHED_LOCK) ppn n"

definition Backdoor_MonitorUnlockPagesBatched :: "balloon_env \<Rightarrow> Balloon \<Rightarrow> u64 \<Rightarrow> nat \<Rightarrow> bool \<Rightarrow> Balloon \<times> int \<times> u32 option" where
  "Backdoor_MonitorUnlockPagesBatched env b ppn n isLargePage =
     batched_cmd env b (if isLargePage then CMD_BATCHED_2M_UNLOCK else CMD_BATCHED_UNLOCK) ppn n"

section \<open>Chunks and error pages\<close>

definition BalloonChunk_Create :: "balloon_env \<Rightarrow> Balloon \<Rightarrow> Balloon \<times> bool" where
  "BalloonChunk_Create env b = (b\<lparr>n_malloc := n_malloc b + 1\<rparr>, e_malloc env (n_malloc b))"

definition BalloonErrorPageStore :: "Balloon \<Rightarrow> PageHandle \<Rightarrow> bool \<Rightarrow> Balloon \<times> int" where
  "BalloonErrorPageStore b page isLargePage =
     (if length (errors b isLargePage) \<ge> BALLOON_ERROR_PAGES then (b, BALLOON_FAILURE)
      else (b\<lparr>errors := (errors b)(isLargePage := errors b isLargePage @ [page])\<rparr>, BALLOON_SUCCESS))"

definition BalloonErrorPagesFreeInt :: "Balloon \<Rightarrow> bool \<Rightarrow> Balloon res" where
  "BalloonErrorPagesFreeInt b isLargePage =
     bindR (foldR (\<lambda>h b. OS_ReservedPageFree b h isLargePage) (errors b isLargePage) b) (\<lambda>b1.
       Inr (b1\<lparr>errors := (errors b1)(isLargePage := [])\<rparr>))"

definition BalloonErrorPagesFree :: "Balloon \<Rightarrow> Balloon res" where
  "BalloonErrorPagesFree b = bindR (BalloonErrorPagesFreeInt b False) (\<lambda>b1. BalloonErrorPagesFreeInt b1 True)"

definition linkFirst :: "Balloon \<Rightarrow> bool \<Rightarrow> BalloonChunk \<Rightarrow> Balloon" where
  "linkFirst b isLargePage c =
     b\<lparr>chunks := (chunks b)(isLargePage := c # chunks b isLargePage),
       nChunks := (nChunks b)(isLargePage := nChunks b isLargePage + 1)\<rparr>"

text \<open>On success the chunk is the first one of the list.\<close>

definition BalloonGetChunk :: "balloon_env \<Rightarrow> Balloon \<Rightarrow> bool \<Rightarrow> Balloon \<times> bool" where
  "BalloonGetChunk env b isLargePage =
     (let create = (case BalloonChunk_Create env b of
                      (b1, True) \<Rightarrow> (linkFirst b1 isLargePage [], True)
                    | (b1, False) \<Rightarrow> (b1, False))
      in case chunks b isLargePage of
           c # cs \<Rightarrow> if length c < BALLOON_CHUNK_ENTRIES then (b, True) else create
         | [] \<Rightarrow> create)"

definition BalloonGetChunkOrFallback :: "balloon_env \<Rightarrow> Balloon \<Rightarrow> bool \<Rightarrow> Balloon res" where
  "BalloonGetChunkOrFallback env b isLargePage =
     (case BalloonGetChunk env b isLargePage of
        (b1, True) \<Rightarrow> Inr b1
      | (b1, False) \<Rightarrow>
          (case fallbackChunk b1 of
             None \<Rightarrow> Inl NullDeref
           | Some c \<Rightarrow> Inr (linkFirst (b1\<lparr>fallbackChunk := None\<rparr>) isLargePage c)))"

text \<open>Store into the first chunk; an entry past the end of the array is a fault.\<close>

definition BalloonPageStore :: "Balloon \<Rightarrow> bool \<Rightarrow> PageHandle \<Rightarrow> Balloon res" where
  "BalloonPageStore b isLargePage page =
     (case chunks b isLargePage of
        [] \<Rightarrow> Inl NullDeref
      | c # cs \<Rightarrow>
          if length c < BALLOON_CHUNK_ENTRIES
          then Inr (b\<lparr>chunks := (chunks b)(isLargePage := (c @ [page]) # cs)\<rparr>) else Inl OutOfBounds)"

text \<open>The first chunk of the list is released if it is empty.\<close>

definition BalloonChunkDestroyEmpty :: "Balloon \<Rightarrow> bool \<Rightarrow> Balloon" where
  "BalloonChunkDestroyEmpty b isLargePage =
     (case chunks b isLargePage of
        [] # cs \<Rightarrow> b\<lparr>chunks := (chunks b)(isLargePage := cs), nChunks := (nChunks b)(isLargePage := nChunks b isLargePage - 1)\<rparr>
      | _ \<Rightarrow> b)"

definition BalloonPageFree :: "Balloon \<Rightarrow> bool \<Rightarrow> Balloon res" where
  "BalloonPageFree b isLargePage =
     (case chunks b isLargePage of
        [] \<Rightarrow> Inl OutOfBounds
      | c # cs \<Rightarrow>
          if c = [] then Inl OutOfBounds
          else bindR (OS_ReservedPageFree b (last c) isLargePage) (\<lambda>b1.
                 Inr (BalloonChunkDestroyEmpty
                   (b1\<lparr>chunks := (chunks b1)(isLargePage := butlast c # cs), nPages := nPages b1 - 1\<rparr>) isLargePage)))"

section \<open>Locking and unlocking\<close>

text \<open>One entry of the batch after a successful call: \<open>got\<close> tells that the local variable \<^verbatim>\<open>chunk\<close> is set.\<close>

definition lock_entry :: "balloon_env \<Rightarrow> bool \<Rightarrow> nat \<Rightarrow> Balloon \<times> bool \<times> nat \<Rightarrow> (Balloon \<times> bool \<times> nat) res" where
  "lock_entry env isLargePages i s =
     (case s of (b, got, nLocked) \<Rightarrow>
        bindR (Balloon_BatchGetPA b i) (\<lambda>pa. bindR (Balloon_BatchGetStatus b i) (\<lambda>error.
          let handle = OS_ReservedPageGetHandle pa
          in if error \<noteq> BALLOON_SUCCESS then
               if error = BALLOON_ERROR_PPN_PINNED \<or> error = BALLOON_ERROR_PPN_INVALID then
                 case BalloonErrorPageStore b handle isLargePages of (b1, st) \<Rightarrow>
                   if st = BALLOON_SUCCESS then Inr (b1, got, nLocked)
                   else bindR (OS_ReservedPageFree b1 handle isLargePages) (\<lambda>b2. Inr (b2, got, nLocked))
               else if error = BALLOON_ERROR_RESET \<or> error = BALLOON_ERROR_PPN_NOTNEEDED then
                 bindR (OS_ReservedPageFree b handle isLargePages) (\<lambda>b1. Inr (b1, got, nLocked))
               else Inr (b, got, nLocked)
             else bindR (if got then Inr b else BalloonGetChunkOrFallback env b isLargePages) (\<lambda>b1.
                    bindR (BalloonPageStore b1 isLargePages handle) (\<lambda>b2.
                      Inr (b2, length (hd (chunks b2 isLargePages)) \<noteq> BALLOON_CHUNK_ENTRIES, nLocked + 1))))))"

definition free_entry :: "bool \<Rightarrow> nat \<Rightarrow> Balloon \<Rightarrow> Balloon res" where
  "free_entry isLargePages i b =
     bindR (Balloon_BatchGetPA b i) (\<lambda>pa. OS_ReservedPageFree b (OS_ReservedPageGetHandle pa) isLargePages)"

definition pages_of :: "bool \<Rightarrow> nat \<Rightarrow> u32" where
  "pages_of isLargePages n = of_nat (if isLargePages then n * OS_LARGE_2_SMALL_PAGES else n)"

definition BalloonLockBatched :: "balloon_env \<Rightarrow> Balloon \<Rightarrow> nat \<Rightarrow> bool \<Rightarrow> (Balloon \<times> int \<times> u32 option) res" where
  "BalloonLockBatched env b nEntries isLargePages =
     (let batchPagePPN = PA_2_PPN (OS_ReservedPageGetPA (pageHandle b));
          (b1, ok) = BalloonChunk_Create env b;
          (b2, status, out) =
            (if \<not> ok then (b1\<lparr>fallbackChunk := None\<rparr>, BALLOON_PAGE_ALLOC_FAILURE, None)
             else Backdoor_MonitorLockPagesBatched env (b1\<lparr>fallbackChunk := Some []\<rparr>) batchPagePPN nEntries isLargePages)
      in if status \<noteq> BALLOON_SUCCESS
         then bindR (foldR (free_entry isLargePages) [0..<nEntries] b2) (\<lambda>b3.
                Inr (b3\<lparr>fallbackChunk := None\<rparr>, status, out))
         else bindR (foldR (lock_entry env isLargePages) [0..<nEntries] (b2, False, 0)) (\<lambda>(b3, got, nLocked).
                Inr (b3\<lparr>nPages := nPages b3 + pages_of isLargePages nLocked, fallbackChunk := None\<rparr>, status, out)))"

definition store_back :: "balloon_env \<Rightarrow> bool \<Rightarrow> nat \<Rightarrow> Balloon \<Rightarrow> Balloon res" where
  "store_back env isLargePages i b =
     bindR (Balloon_BatchGetPA b i) (\<lambda>pa.
       bindR (BalloonGetChunkOrFallback env b isLargePages) (\<lambda>b1.
         BalloonPageStore b1 isLargePages (OS_ReservedPageGetHandle pa)))"

definition unlock_entry :: "balloon_env \<Rightarrow> bool \<Rightarrow> nat \<Rightarrow> Balloon \<times> nat \<Rightarrow> (Balloon \<times> nat) res" where
  "unlock_entry env isLargePages i s =
     (case s of (b, nUnlocked) \<Rightarrow>
        bindR (Balloon_BatchGetStatus b i) (\<lambda>status.
          if status \<noteq> BALLOON_SUCCESS
          then bindR (store_back env isLargePages i b) (\<lambda>b1. Inr (b1, nUnlocked))
          else bindR (free_entry isLargePages i b) (\<lambda>b1. Inr (b1, nUnlocked + 1))))"

definition BalloonUnlockBatched :: "balloon_env \<Rightarrow> Balloon \<Rightarrow> nat \<Rightarrow> bool \<Rightarrow> (Balloon \<times> int \<times> u32 option) res" where
  "BalloonUnlockBatched env b nEntries isLargePages =
     (let batchPagePPN = PA_2_PPN (OS_ReservedPageGetPA (pageHandle b));
          (b1, status, out) = Backdoor_MonitorUnlockPagesBatched env b batchPagePPN nEntries isLargePages
      in if status \<noteq> BALLOON_SUCCESS
         then bindR (foldR (store_back env isLargePages) [0..<nEntries] b1) (\<lambda>b2.
                Inr (b2\<lparr>fallbackChunk := None\<rparr>, status, out))
         else bindR (foldR (unlock_entry env isLargePages) [0..<nEntries] (b1, 0)) (\<lambda>(b2, nUnlocked).
                Inr (b2\<lparr>nPages := nPages b2 - pages_of isLargePages nUnlocked, fallbackChunk := None\<rparr>, status, out)))"

definition BalloonAddPageBatched :: "Balloon \<Rightarrow> nat \<Rightarrow> PageHandle \<Rightarrow> Balloon res" where
  "BalloonAddPageBatched b idx page = Balloon_BatchSetPA b idx (OS_ReservedPageGetPA page)"

definition BalloonLock :: "balloon_env \<Rightarrow> Balloon \<Rightarrow> (Balloon \<times> int \<times> u32 option) res" where
  "BalloonLock env b =
     (case BalloonGetChunk env b False of
        (b1, False) \<Rightarrow>
          bindR (OS_ReservedPageFree b1 (pageHandle b1) False) (\<lambda>b2.
            Inr (b2\<lparr>pageHandle := 0\<rparr>, BALLOON_PAGE_ALLOC_FAILURE, None))
      | (b1, True) \<Rightarrow>
          let (b2, status, out) = Backdoor_MonitorLockPage env b1 (PA_2_PPN (OS_ReservedPageGetPA (pageHandle b1)))
          in if status \<noteq> BALLOON_SUCCESS then
               let b3 = BalloonChunkDestroyEmpty b2 False
               in if status = BALLOON_ERROR_RESET \<or> status = BALLOON_ERROR_PPN_NOTNEEDED
                  then bindR (OS_ReservedPageFree b3 (pageHandle b3) False) (\<lambda>b4. Inr (b4\<lparr>pageHandle := 0\<rparr>, status, out))
                  else case BalloonErrorPageStore b3 (pageHandle b3) False of (b4, st) \<Rightarrow>
                         if st \<noteq> BALLOON_SUCCESS
                         then bindR (OS_ReservedPageFree b4 (pageHandle b4) False) (\<lambda>b5. Inr (b5\<lparr>pageHandle := 0\<rparr>, st, out))
                         else Inr (b4\<lparr>pageHandle := 0\<rparr>, status, out)
             else bindR (BalloonPageStore b2 False (pageHandle b2)) (\<lambda>b3.
                    Inr (b3\<lparr>nPages := nPages b3 + 1, pageHandle := 0\<rparr>, status, out)))"

definition BalloonUnlock :: "balloon_env \<Rightarrow> Balloon \<Rightarrow> (Balloon \<times> int \<times> u32 option) res" where
  "BalloonUnlock env b =
     (let (b1, status, out) = Backdoor_MonitorUnlockPage env b (PA_2_PPN (OS_ReservedPageGetPA (pageHandle b)))
      in bindR (if status \<noteq> BALLOON_SUCCESS
                then bindR (BalloonGetChunkOrFallback env b1 False) (\<lambda>b2. BalloonPageStore b2 False (pageHandle b2))
                else bindR (OS_ReservedPageFree b1 (pageHandle b1) False) (\<lambda>b2. Inr (b2\<lparr>nPages := nPages b2 - 1\<rparr>))) (\<lambda>b3.
           Inr (b3\<lparr>pageHandle := 0, fallbackChunk := None\<rparr>, status, out)))"

definition BalloonAddPage :: "Balloon \<Rightarrow> nat \<Rightarrow> PageHandle \<Rightarrow> Balloon res" where
  "BalloonAddPage b idx page = Inr (b\<lparr>pageHandle := page\<rparr>)"

text \<open>The calls through \<^verbatim>\<open>b->balloonOps\<close>.\<close>

definition ops_addPage :: "Balloon \<Rightarrow> nat \<Rightarrow> PageHandle \<Rightarrow> Balloon res" where
  "ops_addPage b idx page =
     (case balloonOps b of None \<Rightarrow> Inl NullDeref
      | Some OpsBasic \<Rightarrow> BalloonAddPage b idx page
      | Some OpsBatched \<Rightarrow> BalloonAddPageBatched b idx page)"

definition ops_lock :: "balloon_env \<Rightarrow> Balloon \<Rightarrow> nat \<Rightarrow> bool \<Rightarrow> (Balloon \<times> int \<times> u32 option) res" where
  "ops_lock env b n isLargePages =
     (case balloonOps b of None \<Rightarrow> Inl NullDeref
      | Some OpsBasic \<Rightarrow> BalloonLock env b
      | Some OpsBatched \<Rightarrow> BalloonLockBatched env b n isLargePages)"

definition ops_unlock :: "balloon_env \<Rightarrow> Balloon \<Rightarrow> nat \<Rightarrow> bool \<Rightarrow> (Balloon \<times> int \<times> u32 option) res" where
  "ops_unlock env b n isLargePages =
     (case balloonOps b of None \<Rightarrow> Inl NullDeref
      | Some OpsBasic \<Rightarrow> BalloonUnlock env b
      | Some OpsBatched \<Rightarrow> BalloonUnlockBatched env b n isLargePages)"

section \<open>Inflating and deflating\<close>

definition new_target :: "u32 \<Rightarrow> u32 option \<Rightarrow> u32" where
  "new_target target out = (case out of None \<Rightarrow> target | Some t \<Rightarrow> t)"

fun alloc_rank :: "BalloonPageAllocType \<Rightarrow> nat" where
  "alloc_rank ALLOC_LPAGE = 2"
| "alloc_rank ALLOC_NOSLEEP = 1"
| "alloc_rank ALLOC_CANSLEEP = 0"

text \<open>
  The loop of \<^verbatim>\<open>BalloonInflate\<close>. The variable \<^verbatim>\<open>isLargePages\<close> of the code is true exactly while \<open>allocType\<close> is
  \<open>ALLOC_LPAGE\<close>. The result holds the balloon, the entries that are not locked yet, the allocations, the last
  status and the allocation type.
\<close>

function BalloonInflate_loop ::
  "balloon_env \<Rightarrow> Balloon \<Rightarrow> u32 \<Rightarrow> nat \<Rightarrow> nat \<Rightarrow> nat \<Rightarrow> int \<Rightarrow> BalloonPageAllocType \<Rightarrow>
     (Balloon \<times> nat \<times> nat \<times> int \<times> BalloonPageAllocType) res" where
  "BalloonInflate_loop env b target nEntries rate allocations status allocType =
     (let isLargePages = (allocType = ALLOC_LPAGE);
          numPagesPerEntry = (if isLargePages then OS_LARGE_2_SMALL_PAGES else 1)
      in if nPages b < target \<and> of_nat (nEntries * numPagesPerEntry) < target - nPages b then
           case OS_ReservedPageAlloc env b (allocType = ALLOC_CANSLEEP) isLargePages of (b1, handle) \<Rightarrow>
             if handle = 0 then
               (case allocType of
                  ALLOC_LPAGE \<Rightarrow>
                    (case (if nEntries > 0
                           then bindR (ops_lock env b1 nEntries True) (\<lambda>(b2, st, out). Inr (b2, 0, st, new_target target out))
                           else Inr (b1, nEntries, BALLOON_PAGE_ALLOC_FAILURE, target)) of
                       Inl e \<Rightarrow> Inl e
                     | Inr (b2, n2, st2, target2) \<Rightarrow>
                         if allocations \<ge> rateAlloc b2 then Inr (b2, n2, allocations, st2, ALLOC_NOSLEEP)
                         else BalloonInflate_loop env b2 target2 n2 rate allocations st2 ALLOC_NOSLEEP)
                | ALLOC_NOSLEEP \<Rightarrow>
                    (let b2 = b1\<lparr>slowPageAllocationCycles := SLOW_PAGE_ALLOCATION_CYCLES\<rparr>
                     in if allocations \<ge> rateAlloc b2
                        then Inr (b2, nEntries, allocations, BALLOON_PAGE_ALLOC_FAILURE, ALLOC_CANSLEEP)
                        else BalloonInflate_loop env b2 target nEntries (rateAlloc b2) allocations
                               BALLOON_PAGE_ALLOC_FAILURE ALLOC_CANSLEEP)
                | ALLOC_CANSLEEP \<Rightarrow>
                    Inr (b1\<lparr>rateAlloc := max (rateAlloc b1 div 2) BALLOON_RATE_ALLOC_MIN\<rparr>, nEntries, allocations,
                         BALLOON_PAGE_ALLOC_FAILURE, ALLOC_CANSLEEP))
             else
               (case ops_addPage b1 nEntries handle of
                  Inl e \<Rightarrow> Inl e
                | Inr b2 \<Rightarrow>
                    (case (if nEntries + 1 = batchMaxEntries b2
                           then bindR (ops_lock env b2 (nEntries + 1) isLargePages) (\<lambda>(b3, st, out).
                                  Inr (b3, 0, st, new_target target out, st \<noteq> BALLOON_SUCCESS))
                           else Inr (b2, nEntries + 1, status, target, False)) of
                       Inl e \<Rightarrow> Inl e
                     | Inr (b3, n3, st3, target3, stop) \<Rightarrow>
                         if stop \<or> allocations + 1 \<ge> rate then Inr (b3, n3, allocations + 1, st3, allocType)
                         else BalloonInflate_loop env b3 target3 n3 rate (allocations + 1) st3 allocType))
         else Inr (b, nEntries, allocations, status, allocType))"
  by pat_completeness auto

termination
  by (relation "measures [\<lambda>(env, b, target, nEntries, rate, allocations, status, allocType). alloc_rank allocType,
        \<lambda>(env, b, target, nEntries, rate, allocations, status, allocType). rate - allocations]") auto

declare BalloonInflate_loop.simps [simp del]

definition BalloonInflate :: "balloon_env \<Rightarrow> Balloon \<Rightarrow> u32 \<Rightarrow> Balloon res" where
  "BalloonInflate env b target =
     (let allocType = (if hypervisorCapabilities b AND BALLOON_BATCHED_2M_CMDS \<noteq> 0 then ALLOC_LPAGE else ALLOC_NOSLEEP);
          rate = (if slowPageAllocationCycles b > 0 then rateAlloc b else BALLOON_NOSLEEP_ALLOC_MAX)
      in bindR (BalloonInflate_loop env b target 0 rate 0 BALLOON_SUCCESS allocType)
           (\<lambda>(b1, nEntries, allocations, status, allocType1).
         bindR (if nEntries > 0 then bindR (ops_lock env b1 nEntries (allocType1 = ALLOC_LPAGE)) (\<lambda>(b2, st, out). Inr b2)
                else Inr b1) (\<lambda>b2.
           bindR (if status = BALLOON_SUCCESS \<and> allocations \<ge> rateAlloc b2
                  then if rateAlloc b2 = 0 then Inl DivByZero
                       else Inr (b2\<lparr>rateAlloc := min (rateAlloc b2 + allocations div rateAlloc b2 * BALLOON_RATE_ALLOC_INC)
                                                    BALLOON_RATE_ALLOC_MAX\<rparr>)
                  else Inr b2) (\<lambda>b3.
             BalloonErrorPagesFree b3))))"

text \<open>
  The loop of \<^verbatim>\<open>BalloonDeflateInt\<close>. The pointer \<^verbatim>\<open>chunk\<close> is represented by the number of chunks behind it in the list: chunks are
  only ever linked in front, so this number names the same chunk until it is unlinked. \<open>rate\<close> is \<^verbatim>\<open>b->rateFree\<close>, which
  the loop does not change.
\<close>

function BalloonDeflateInt_loop ::
  "balloon_env \<Rightarrow> bool \<Rightarrow> nat \<Rightarrow> Balloon \<Rightarrow> u32 \<Rightarrow> nat \<Rightarrow> nat \<Rightarrow> int \<Rightarrow> nat option \<Rightarrow> (Balloon \<times> nat \<times> int) res" where
  "BalloonDeflateInt_loop env isLargePages rate b target n deallocations status chunk =
     (if nChunks b isLargePages > 0 \<and> nPages b > target \<and> of_nat n < nPages b - target then
        let cs = chunks b isLargePages;
            k = (case chunk of None \<Rightarrow> length cs - 1 | Some k \<Rightarrow> k);
            i = length cs - 1 - k;
            c = cs ! i
        in if cs = [] \<or> k \<ge> length cs \<or> c = [] then Inl OutOfBounds
           else
             let b1 = (if butlast c = []
                       then b\<lparr>chunks := (chunks b)(isLargePages := take i cs @ drop (Suc i) cs), fallbackChunk := Some [],
                              nChunks := (nChunks b)(isLargePages := nChunks b isLargePages - 1)\<rparr>
                       else b\<lparr>chunks := (chunks b)(isLargePages := cs[i := butlast c])\<rparr>);
                 chunk1 = (if butlast c = [] then None else Some k)
             in (case ops_addPage b1 n (last c) of
                   Inl e \<Rightarrow> Inl e
                 | Inr b2 \<Rightarrow>
                     (case (if n + 1 = batchMaxEntries b2
                            then bindR (ops_unlock env b2 (n + 1) isLargePages) (\<lambda>(b3, st, out).
                                   Inr (b3, 0, st, new_target target out, st \<noteq> BALLOON_SUCCESS))
                            else Inr (b2, n + 1, status, target, False)) of
                        Inl e \<Rightarrow> Inl e
                      | Inr (b3, n3, st3, target3, stop) \<Rightarrow>
                          if stop \<or> deallocations + 1 \<ge> rate then Inr (b3, n3, st3)
                          else BalloonDeflateInt_loop env isLargePages rate b3 target3 n3 (deallocations + 1) st3 chunk1))
      else Inr (b, n, status))"
  by pat_completeness auto

termination
  by (relation "measure (\<lambda>(env, isLargePages, rate, b, target, n, deallocations, status, chunk). rate - deallocations)") auto

declare BalloonDeflateInt_loop.simps [simp del]

definition BalloonDeflateInt :: "balloon_env \<Rightarrow> Balloon \<Rightarrow> u32 \<Rightarrow> bool \<Rightarrow> Balloon res" where
  "BalloonDeflateInt env b target isLargePages =
     (if nChunks b isLargePages = 0 then Inr b
      else bindR (BalloonDeflateInt_loop env isLargePages (rateFree b) b target 0 0 BALLOON_SUCCESS None) (\<lambda>(b1, n, status).
             bindR (if n \<noteq> 0 then bindR (ops_unlock env b1 n isLargePages) (\<lambda>(b2, st, out). Inr b2) else Inr b1) (\<lambda>b2.
               Inr (if status = BALLOON_SUCCESS
                    then b2\<lparr>rateFree := min (rateFree b2 + BALLOON_RATE_FREE_INC) BALLOON_RATE_FREE_MAX\<rparr>
                    else b2\<lparr>rateFree := max (rateFree b2 div 2) BALLOON_RATE_FREE_MIN\<rparr>))))"

definition BalloonDeflate :: "balloon_env \<Rightarrow> Balloon \<Rightarrow> u32 \<Rightarrow> Balloon res" where
  "BalloonDeflate env b target =
     bindR (BalloonDeflateInt env b target False) (\<lambda>b1. BalloonDeflateInt env b1 target True)"

definition BalloonAdjustSize :: "balloon_env \<Rightarrow> Balloon \<Rightarrow> u32 \<Rightarrow> Balloon res" where
  "BalloonAdjustSize env b target =
     (if nPages b < target then BalloonInflate env b target
      else if target = 0 \<or> nPages b > target + of_nat OS_LARGE_2_SMALL_PAGES - 1 then BalloonDeflate env b target
      else Inr b)"

section \<open>Start, reset and polling\<close>

lemma BalloonPageFree_entries:
  assumes "BalloonPageFree b l = Inr b1"
  shows "length (concat (chunks b1 l)) < length (concat (chunks b l))"
proof -
  obtain c cs where c: "chunks b l = c # cs" "c \<noteq> []"
    using assms by (auto simp: BalloonPageFree_def split: list.splits if_splits)
  then obtain d x where "c = d @ [x]" by (metis append_butlast_last_id)
  with c assms show ?thesis
    by (auto simp: BalloonPageFree_def OS_ReservedPageFree_def BalloonChunkDestroyEmpty_def split: if_splits list.splits)
qed

function Balloon_DeallocateChunkList :: "Balloon \<Rightarrow> bool \<Rightarrow> Balloon res" where
  "Balloon_DeallocateChunkList b isLargePages =
     (if nChunks b isLargePages > 0
      then case BalloonPageFree b isLargePages of
             Inl e \<Rightarrow> Inl e
           | Inr b1 \<Rightarrow> Balloon_DeallocateChunkList b1 isLargePages
      else Inr b)"
  by pat_completeness auto

termination
  by (relation "measure (\<lambda>(b, l). length (concat (chunks b l)))") (use BalloonPageFree_entries in auto)

declare Balloon_DeallocateChunkList.simps [simp del]

definition Balloon_Deallocate :: "Balloon \<Rightarrow> Balloon res" where
  "Balloon_Deallocate b =
     bindR (Balloon_DeallocateChunkList b False) (\<lambda>b1.
       bindR (Balloon_DeallocateChunkList b1 True) (\<lambda>b2.
         let b3 = b2\<lparr>batchPage := None\<rparr>
         in if pageHandle b3 \<noteq> 0
            then bindR (OS_ReservedPageFree b3 (pageHandle b3) False) (\<lambda>b4. Inr (b4\<lparr>pageHandle := 0\<rparr>))
            else Inr b3))"

text \<open>The entries of a fresh batch page are written before they are read; the model fills them with zeros.\<close>

definition BalloonInitBatching :: "balloon_env \<Rightarrow> Balloon \<Rightarrow> (Balloon \<times> int) res" where
  "BalloonInitBatching env b =
     (case OS_ReservedPageAlloc env (b\<lparr>batchMaxEntries := BALLOON_BATCH_MAX_ENTRIES\<rparr>) False False of (b1, h) \<Rightarrow>
        let b2 = b1\<lparr>pageHandle := h\<rparr>
        in if h = 0 then Inr (b2, BALLOON_PAGE_ALLOC_FAILURE)
           else if \<not> e_map env (n_alloc b) then
             bindR (OS_ReservedPageFree b2 h False) (\<lambda>b3. Inr (b3\<lparr>pageHandle := 0\<rparr>, BALLOON_PAGE_ALLOC_FAILURE))
           else Inr (b2\<lparr>batchPage := Some (replicate BALLOON_BATCH_MAX_ENTRIES 0)\<rparr>, BALLOON_SUCCESS))"

definition select_ops :: "Balloon \<Rightarrow> Balloon" where
  "select_ops b =
     (if hypervisorCapabilities b AND BALLOON_BATCHED_CMDS \<noteq> 0 then b\<lparr>balloonOps := Some OpsBatched\<rparr>
      else if hypervisorCapabilities b AND BALLOON_BASIC_CMDS \<noteq> 0 then b\<lparr>balloonOps := Some OpsBasic, batchMaxEntries := 1\<rparr>
      else b)"

definition BalloonReset :: "balloon_env \<Rightarrow> Balloon \<Rightarrow> Balloon res" where
  "BalloonReset env b =
     bindR (Balloon_Deallocate b) (\<lambda>b1.
       case Backdoor_MonitorStart env b1 BALLOON_CAPABILITIES of (b2, status) \<Rightarrow>
         if status \<noteq> BALLOON_SUCCESS then Inr b2
         else bindR (if hypervisorCapabilities b2 AND BALLOON_BATCHED_CMDS \<noteq> 0 then BalloonInitBatching env b2
                     else Inr (b2, BALLOON_SUCCESS)) (\<lambda>(b3, status).
                if status \<noteq> BALLOON_SUCCESS then Inr (fst (Backdoor_MonitorStart env b3 0))
                else Inr (fst (Backdoor_MonitorGuestType env ((select_ops b3)\<lparr>resetFlag := False\<rparr>)))))"

definition Balloon_QueryAndExecute :: "balloon_env \<Rightarrow> Balloon \<Rightarrow> Balloon res" where
  "Balloon_QueryAndExecute env b =
     bindR (if resetFlag b then BalloonReset env b else Inr b) (\<lambda>b1.
       case Backdoor_MonitorGetTarget env b1 of (b2, status, out) \<Rightarrow>
         let b3 = b2\<lparr>slowPageAllocationCycles := slowPageAllocationCycles b2 - 1\<rparr>;
             target = new_target 0 out
         in if status = BALLOON_SUCCESS
            then BalloonAdjustSize env (b3\<lparr>nPagesTarget := target\<rparr>) target
            else Inr b3)"

text \<open>\<open>zero\<close> is the balloon as the loader leaves it; its operating system state is that of the guest.\<close>

definition Balloon_Init :: "Balloon \<Rightarrow> u64 \<Rightarrow> Balloon" where
  "Balloon_Init zero guest =
     zero\<lparr>chunks := (\<lambda>l. []), guestType := guest, rateAlloc := BALLOON_RATE_ALLOC_MAX, rateFree := BALLOON_RATE_FREE_MAX,
          resetFlag := True, hypervisorCapabilities := 0, pageHandle := 0, batchPage := None\<rparr>"

definition Balloon_Cleanup :: "balloon_env \<Rightarrow> Balloon \<Rightarrow> Balloon res" where
  "Balloon_Cleanup env b = Balloon_Deallocate (fst (Backdoor_MonitorStart env b BALLOON_CAPABILITIES))"

end
