(* ===== verification/Balloon_Laws.thy ===== *)
theory Balloon_Laws
  imports Balloon "HOL-Library.Multiset"
begin

text \<open>
  Accounting of the balloon: every page that the operating system has handed out is in exactly one place (a chunk, the
  list of error pages, the batch under construction, the batch page itself), and the size that the
  balloon reports is the size of its chunks.
\<close>

section \<open>Pages and who owns them\<close>

definition held_pages :: "Balloon \<Rightarrow> bool \<Rightarrow> PageHandle set" where
  "held_pages b l = {h. reserved b h = Some l}"

text \<open>\<open>P\<close> are the pages of size \<open>l0\<close> that wait in the batch, \<open>Q\<close> the page that holds the batch.\<close>

definition own_page :: "Balloon \<Rightarrow> bool \<Rightarrow> PageHandle multiset" where
  "own_page b l = (if \<not> l \<and> balloonOps b = Some OpsBatched then {#pageHandle b#} else {#})"

definition accounted :: "Balloon \<Rightarrow> PageHandle list \<Rightarrow> bool \<Rightarrow> bool" where
  "accounted b P l0 \<longleftrightarrow> (\<forall>h \<in> dom (reserved b). h \<noteq> 0 \<and> unat h < 2 ^ 52) \<and>
     (\<forall>l. mset_set (held_pages b l) =
        mset (concat (chunks b l)) + mset (errors b l) + own_page b l + (if l = l0 then mset P else {#}))"

lemma accounted_update [simp]:
  "accounted (b\<lparr>n_alloc := x_n_alloc\<rparr>) P l = accounted b P l"
  "accounted (b\<lparr>n_malloc := x_n_malloc\<rparr>) P l = accounted b P l"
  "accounted (b\<lparr>n_mon := x_n_mon\<rparr>) P l = accounted b P l"
  "accounted (b\<lparr>resetFlag := x_resetFlag\<rparr>) P l = accounted b P l"
  "accounted (b\<lparr>nPages := x_nPages\<rparr>) P l = accounted b P l"
  "accounted (b\<lparr>nPagesTarget := x_nPagesTarget\<rparr>) P l = accounted b P l"
  "accounted (b\<lparr>fallbackChunk := x_fallbackChunk\<rparr>) P l = accounted b P l"
  "accounted (b\<lparr>batchPage := x_batchPage\<rparr>) P l = accounted b P l"
  "accounted (b\<lparr>slowPageAllocationCycles := x_slowPageAllocationCycles\<rparr>) P l = accounted b P l"
  "accounted (b\<lparr>rateAlloc := x_rateAlloc\<rparr>) P l = accounted b P l"
  "accounted (b\<lparr>rateFree := x_rateFree\<rparr>) P l = accounted b P l"
  "accounted (b\<lparr>nChunks := x_nChunks\<rparr>) P l = accounted b P l"
  "accounted (b\<lparr>hypervisorCapabilities := x_hypervisorCapabilities\<rparr>) P l = accounted b P l"
  "accounted (b\<lparr>batchMaxEntries := x_batchMaxEntries\<rparr>) P l = accounted b P l"
  by (simp_all add: accounted_def held_pages_def own_page_def)

text \<open>Moving pages between places keeps the account.\<close>

lemma accounted_move:
  assumes "accounted b P l0" and "reserved b' = reserved b" and "balloonOps b' = balloonOps b" "pageHandle b' = pageHandle b"
    and "\<And>l. mset (concat (chunks b' l)) + mset (errors b' l) + (if l = l0 then mset P' else {#}) =
      mset (concat (chunks b l)) + mset (errors b l) + (if l = l0 then mset P else {#})"
  shows "accounted b' P' l0"
proof -
  have "mset_set (held_pages b' l) = mset (concat (chunks b' l)) + mset (errors b' l) + own_page b' l + (if l = l0 then mset P' else {#})" for l
  proof -
    have "mset_set (held_pages b' l) = mset (concat (chunks b l)) + mset (errors b l) + own_page b l + (if l = l0 then mset P else {#})"
      using assms(1,2) by (simp add: accounted_def held_pages_def)
    also have "own_page b l = own_page b' l" by (simp add: own_page_def assms(3,4))
    finally show ?thesis using assms(5) [of l] by (metis (no_types, lifting) add.assoc add.commute)
  qed
  then show ?thesis using assms(1,2) by (simp add: accounted_def)
qed

lemma accounted_pending:
  assumes "accounted b P l" and "h \<in> set P"
  shows "reserved b h = Some l"
proof -
  have "h \<in># mset_set (held_pages b l)" using assms by (auto simp: accounted_def)
  then have "h \<in> held_pages b l" by simp
  then show ?thesis by (simp add: held_pages_def)
qed

lemma free_pending:
  assumes acc: "accounted b (h # P) l"
  shows "\<exists>b'. OS_ReservedPageFree b h l = Inr b' \<and> accounted b' P l \<and> b' = b\<lparr>reserved := (reserved b)(h := None)\<rparr>"
proof -
  let ?b = "b\<lparr>reserved := (reserved b)(h := None)\<rparr>"
  have r: "reserved b h = Some l" using accounted_pending [OF acc] by simp
  have held: "held_pages ?b l' = held_pages b l' - (if l' = l then {h} else {})" for l'
    using r by (auto simp: held_pages_def)
  have "mset_set (held_pages ?b l') = mset (concat (chunks ?b l')) + mset (errors ?b l') + own_page ?b l' + (if l' = l then mset P else {#})" for l'
  proof -
    have "mset_set (held_pages b l') = mset (concat (chunks b l')) + mset (errors b l') + own_page b l' + (if l' = l then mset (h # P) else {#})"
      using acc by (simp add: accounted_def)
    moreover have "h \<in> held_pages b l" using r by (simp add: held_pages_def)
    ultimately show ?thesis
      by (auto simp: held mset_set_Diff own_page_def)
  qed
  then have "accounted ?b P l" using acc by (auto simp: accounted_def)
  with r show ?thesis by (simp add: OS_ReservedPageFree_def)
qed

text \<open>What the allocator promises: it hands out no page twice, and page numbers have 52 bits.\<close>

definition allocator_ok :: "balloon_env \<Rightarrow> bool" where
  "allocator_ok env \<longleftrightarrow> (\<forall>n U s l. e_alloc env n U s l \<noteq> 0 \<longrightarrow> e_alloc env n U s l \<notin> U \<and> unat (e_alloc env n U s l) < 2 ^ 52)"

lemma allocator_okD:
  assumes "allocator_ok env" and "e_alloc env n U s l \<noteq> 0"
  shows "e_alloc env n U s l \<notin> U" and "unat (e_alloc env n U s l) < 2 ^ 52"
proof -
  have "e_alloc env n U s l \<noteq> 0 \<longrightarrow> e_alloc env n U s l \<notin> U \<and> unat (e_alloc env n U s l) < 2 ^ 52"
    using assms(1) unfolding allocator_ok_def by (elim allE)
  with assms(2) show "e_alloc env n U s l \<notin> U" and "unat (e_alloc env n U s l) < 2 ^ 52" by simp_all
qed

lemma alloc_pending:
  assumes acc: "accounted b P l" and env: "allocator_ok env" and al: "OS_ReservedPageAlloc env b s l = (b1, h)"
  shows "h = 0 \<Longrightarrow> accounted b1 P l \<and> b1 = b\<lparr>n_alloc := n_alloc b + 1\<rparr>"
    and "h \<noteq> 0 \<Longrightarrow> accounted b1 (P @ [h]) l \<and> unat h < 2 ^ 52 \<and>
      b1 = b\<lparr>n_alloc := n_alloc b + 1, reserved := (reserved b)(h \<mapsto> l)\<rparr>"
proof -
  let ?h = "e_alloc env (n_alloc b) (dom (reserved b)) s l"
  have h: "?h = h" using al by (simp add: OS_ReservedPageAlloc_def Let_def split: if_splits)
  have b1: "b1 = (if h = 0 then b\<lparr>n_alloc := n_alloc b + 1\<rparr>
      else b\<lparr>n_alloc := n_alloc b + 1, reserved := (reserved b)(h \<mapsto> l)\<rparr>)"
    using al unfolding OS_ReservedPageAlloc_def h Let_def by (auto split: if_splits)
  show "h = 0 \<Longrightarrow> accounted b1 P l \<and> b1 = b\<lparr>n_alloc := n_alloc b + 1\<rparr>"
    using b1 acc by simp
  assume nz: "h \<noteq> 0"
  then have b1: "b1 = b\<lparr>n_alloc := n_alloc b + 1, reserved := (reserved b)(h \<mapsto> l)\<rparr>"
    using b1 by simp
  have fresh: "h \<notin> dom (reserved b)" and lt: "unat h < 2 ^ 52"
    using allocator_okD [OF env, of "n_alloc b" "dom (reserved b)" s l] nz unfolding h by auto
  have held: "held_pages b1 l' = (if l' = l then insert h (held_pages b l') else held_pages b l')" for l'
    using fresh by (auto simp: held_pages_def b1)
  have notin: "h \<notin> held_pages b l'" for l' using fresh by (auto simp: held_pages_def)
  have "mset_set (held_pages b1 l') = mset (concat (chunks b1 l')) + mset (errors b1 l') + own_page b1 l' + (if l' = l then mset (P @ [h]) else {#})" for l'
  proof -
    have eq: "mset_set (held_pages b l') = mset (concat (chunks b l')) + mset (errors b l') + own_page b l' + (if l' = l then mset P else {#})"
      using acc by (simp add: accounted_def)
    have same: "chunks b1 l' = chunks b l'" "errors b1 l' = errors b l'" "own_page b1 l' = own_page b l'"
      by (simp_all add: b1 own_page_def)
    show ?thesis unfolding held same using eq notin [of l'] by (cases "l' = l") simp_all
  qed
  with acc nz lt b1 show "accounted b1 (P @ [h]) l \<and> unat h < 2 ^ 52 \<and>
      b1 = b\<lparr>n_alloc := n_alloc b + 1, reserved := (reserved b)(h \<mapsto> l)\<rparr>"
    by (auto simp: accounted_def)
qed

section \<open>Chunks\<close>

definition chunk_list_ok :: "Balloon \<Rightarrow> bool \<Rightarrow> bool" where
  "chunk_list_ok b l \<longleftrightarrow> nChunks b l = int (length (chunks b l)) \<and> (\<forall>c \<in> set (chunks b l). c \<noteq> [] \<and> length c \<le> 1000)"

definition chunks_ok :: "Balloon \<Rightarrow> bool" where
  "chunks_ok b \<longleftrightarrow> (\<forall>l. chunk_list_ok b l)"

definition total :: "Balloon \<Rightarrow> bool \<Rightarrow> nat" where
  "total b l = length (concat (chunks b l))"

text \<open>The fields that storing and freeing pages leaves alone.\<close>

definition rest :: "Balloon \<Rightarrow> u32 \<times> u32 \<times> nat \<times> nat \<times> nat \<times> u32 \<times> BalloonOps option \<times> PageHandle \<times> u64 list option \<times> nat" where
  "rest b = (nPages b, nPagesTarget b, rateAlloc b, rateFree b, slowPageAllocationCycles b, hypervisorCapabilities b,
     balloonOps b, pageHandle b, batchPage b, batchMaxEntries b)"

text \<open>A list whose first chunk has room for one more page (it may be empty).\<close>

definition room :: "Balloon \<Rightarrow> bool \<Rightarrow> bool" where
  "room b l \<longleftrightarrow> chunk_list_ok b (\<not> l) \<and> nChunks b l = int (length (chunks b l)) \<and> chunks b l \<noteq> [] \<and>
     length (hd (chunks b l)) < 1000 \<and> (\<forall>c \<in> set (tl (chunks b l)). c \<noteq> [] \<and> length c \<le> 1000)"

lemma chunks_ok_room:
  "chunks_ok b \<Longrightarrow> chunks b l \<noteq> [] \<Longrightarrow> length (hd (chunks b l)) < 1000 \<Longrightarrow> room b l"
  unfolding chunks_ok_def room_def chunk_list_ok_def by (metis list.set_sel(2))

lemma room_linkFirst: "chunks_ok b \<Longrightarrow> room (linkFirst b l []) l"
  by (simp add: chunks_ok_def chunk_list_ok_def room_def linkFirst_def)

lemma room_ignores [simp]:
  "room (b\<lparr>n_malloc := x\<rparr>) l = room b l" "room (b\<lparr>fallbackChunk := y\<rparr>) l = room b l"
  "chunks_ok (b\<lparr>n_malloc := x\<rparr>) = chunks_ok b" "chunks_ok (b\<lparr>fallbackChunk := y\<rparr>) = chunks_ok b"
  by (simp_all add: room_def chunks_ok_def chunk_list_ok_def)

lemma accounted_linkFirst [simp]: "accounted b P l0 \<Longrightarrow> accounted (linkFirst b l []) P l0"
  by (erule accounted_move) (simp_all add: linkFirst_def)

definition same_pages :: "Balloon \<Rightarrow> Balloon \<Rightarrow> bool \<Rightarrow> bool" where
  "same_pages b b' l \<longleftrightarrow> rest b' = rest b \<and> total b' l = total b l \<and> chunks b' (\<not> l) = chunks b (\<not> l) \<and>
     errors b' = errors b \<and> reserved b' = reserved b"

lemma same_pages_linkFirst: "same_pages b (linkFirst b l []) l"
  by (simp add: same_pages_def linkFirst_def rest_def total_def)

lemma get_chunk:
  assumes ok: "chunks_ok b" and acc: "accounted b P l0" and g: "BalloonGetChunk env b l = (b1, r)"
  shows "same_pages b b1 l" "accounted b1 P l0" "fallbackChunk b1 = fallbackChunk b"
    and "r \<Longrightarrow> room b1 l" and "\<not> r \<Longrightarrow> chunks_ok b1"
    and "\<not> r \<Longrightarrow> \<exists>n. \<not> e_malloc env n" and "\<not> r \<Longrightarrow> \<not> (chunks b l \<noteq> [] \<and> length (hd (chunks b l)) < 1000)"
    and "\<not> r \<Longrightarrow> chunks b1 = chunks b"
    and "r \<Longrightarrow> length (hd (chunks b1 l)) = 0 \<or> chunks b1 l = chunks b l"
    and "length (chunks b l) \<le> length (chunks b1 l)"
proof -
  have cases: "(b1 = b \<and> r \<and> chunks b l \<noteq> [] \<and> length (hd (chunks b l)) < 1000) \<or>
      (\<not> (chunks b l \<noteq> [] \<and> length (hd (chunks b l)) < 1000) \<and>
       (b1 = linkFirst (b\<lparr>n_malloc := n_malloc b + 1\<rparr>) l [] \<and> r \<or>
        b1 = b\<lparr>n_malloc := n_malloc b + 1\<rparr> \<and> \<not> r \<and> \<not> e_malloc env (n_malloc b)))"
    using g by (auto simp: BalloonGetChunk_def BalloonChunk_Create_def BALLOON_CHUNK_ENTRIES_def Let_def
        split: list.splits if_splits bool.splits)
  show "same_pages b b1 l" using cases by (auto simp: same_pages_def linkFirst_def rest_def total_def)
  show "accounted b1 P l0" using cases acc by auto
  show "fallbackChunk b1 = fallbackChunk b" using cases by (auto simp: linkFirst_def)
  show "r \<Longrightarrow> room b1 l" using cases ok chunks_ok_room [of b l] room_linkFirst [of "b\<lparr>n_malloc := n_malloc b + 1\<rparr>" l] by auto
  show "\<not> r \<Longrightarrow> chunks_ok b1" using cases ok by auto
  show "\<not> r \<Longrightarrow> \<exists>n. \<not> e_malloc env n" using cases by auto
  show "\<not> r \<Longrightarrow> \<not> (chunks b l \<noteq> [] \<and> length (hd (chunks b l)) < 1000)" using cases by auto
  show "\<not> r \<Longrightarrow> chunks b1 = chunks b" using cases by auto
  show "r \<Longrightarrow> length (hd (chunks b1 l)) = 0 \<or> chunks b1 l = chunks b l" using cases by (auto simp: linkFirst_def)
  show "length (chunks b l) \<le> length (chunks b1 l)" using cases by (auto simp: linkFirst_def)
qed

text \<open>A chunk can be had when memory can be had, when there is a fallback, or when the first chunk has room.\<close>

definition chunk_supply :: "balloon_env \<Rightarrow> Balloon \<Rightarrow> bool \<Rightarrow> bool" where
  "chunk_supply env b l \<longleftrightarrow> (\<forall>n. e_malloc env n) \<or> fallbackChunk b = Some [] \<or>
     chunks b l \<noteq> [] \<and> length (hd (chunks b l)) < 1000"

lemma get_chunk_or_fallback:
  assumes ok: "chunks_ok b" and acc: "accounted b P l0" and sup: "chunk_supply env b l"
  obtains b1 where "BalloonGetChunkOrFallback env b l = Inr b1" "room b1 l" "same_pages b b1 l" "accounted b1 P l0"
    "fallbackChunk b1 = fallbackChunk b \<or> length (hd (chunks b1 l)) = 0"
    "length (hd (chunks b1 l)) = 0 \<or> chunks b1 l = chunks b l" "length (chunks b l) \<le> length (chunks b1 l)"
proof -
  obtain b2 r where g: "BalloonGetChunk env b l = (b2, r)" by fastforce
  note gc = get_chunk [OF ok acc g]
  show thesis
  proof (cases r)
    case True
    then show thesis using g gc by (intro that [of b2]) (simp_all add: BalloonGetChunkOrFallback_def)
  next
    case False
    then have fb: "fallbackChunk b2 = Some []" using sup gc(3,6,7) by (auto simp: chunk_supply_def)
    have ok2: "chunks_ok b2" using gc(5) False by simp
    let ?b = "linkFirst (b2\<lparr>fallbackChunk := None\<rparr>) l []"
    have "room ?b l" using room_linkFirst [of "b2\<lparr>fallbackChunk := None\<rparr>" l] ok2 by simp
    moreover have "same_pages b ?b l"
      using gc(1) by (simp add: same_pages_def linkFirst_def rest_def total_def)
    moreover have "accounted ?b P l0" using gc(2) by simp
    moreover have "length (chunks b l) \<le> length (chunks ?b l)" using gc(10) by (simp add: linkFirst_def)
    ultimately show thesis using False g fb
      by (intro that [of ?b]) (simp_all add: BalloonGetChunkOrFallback_def linkFirst_def)
  qed
qed

lemma store_page:
  assumes rm: "room b l" and acc: "accounted b (h # P) l"
  obtains b' where "BalloonPageStore b l h = Inr b'" "chunks_ok b'" "accounted b' P l" "rest b' = rest b"
    "total b' l = Suc (total b l)" "chunks b' (\<not> l) = chunks b (\<not> l)" "fallbackChunk b' = fallbackChunk b"
    "length (hd (chunks b' l)) = Suc (length (hd (chunks b l)))" "chunks b' l \<noteq> []" "errors b' = errors b"
    "length (chunks b' l) = length (chunks b l)"
proof -
  obtain c cs where c: "chunks b l = c # cs" "length c < 1000" using rm by (cases "chunks b l") (auto simp: room_def)
  let ?b = "b\<lparr>chunks := (chunks b)(l := (c @ [h]) # cs)\<rparr>"
  have "chunks_ok ?b"
    using rm c unfolding chunks_ok_def chunk_list_ok_def room_def by (cases l) (auto split: if_splits)
  moreover have "accounted ?b P l"
    using acc by (rule accounted_move) (simp_all add: c)
  ultimately show thesis
    using c by (intro that [of ?b]) (simp_all add: BalloonPageStore_def BALLOON_CHUNK_ENTRIES_def rest_def total_def)
qed

section \<open>The batch\<close>

definition batch_holds :: "Balloon \<Rightarrow> PageHandle list \<Rightarrow> bool" where
  "batch_holds b P \<longleftrightarrow> (\<exists>es. batchPage b = Some es \<and> length es = 512 \<and> length P \<le> 512 \<and>
     (\<forall>i < length P. drop_bit 12 (es ! i) = P ! i))"

text \<open>A batch whose status bits are still zero, as \<^verbatim>\<open>BalloonAddPageBatched\<close> leaves it.\<close>

definition batch_clean :: "Balloon \<Rightarrow> PageHandle list \<Rightarrow> bool" where
  "batch_clean b P \<longleftrightarrow> (\<exists>es. batchPage b = Some es \<and> length es = 512 \<and> length P \<le> 512 \<and>
     (\<forall>i < length P. es ! i = push_bit 12 (P ! i) \<and> unat (P ! i) < 2 ^ 52))"

lemma handle_of_entry: "drop_bit 12 (e AND NOT (mask 12)) = drop_bit 12 (e :: u64)"
  by (rule bit_eqI) (auto simp: bit_simps dest: bit_imp_le_length)

lemma drop_push_52: "unat h < 2 ^ 52 \<Longrightarrow> drop_bit 12 (push_bit 12 h) = (h :: u64)"
proof -
  assume lt: "unat h < 2 ^ 52"
  have hi: "bit h i \<Longrightarrow> i < 52" for i
  proof (rule ccontr)
    assume b: "bit h i" and "\<not> i < 52"
    then have "(2::nat) ^ 52 \<le> 2 ^ i" by (intro power_increasing) simp_all
    also have "2 ^ i \<le> unat h"
    proof (rule ccontr)
      assume "\<not> 2 ^ i \<le> unat h"
      then have "unat h div 2 ^ i = 0" by simp
      moreover have "bit (unat h) i" using b by (simp add: bit_unsigned_iff bit_imp_le_length)
      ultimately show False by (simp add: bit_iff_odd)
    qed
    finally show False using lt by simp
  qed
  show ?thesis by (rule bit_eqI) (auto simp: bit_simps dest: hi)
qed

lemma marks_entry:
  assumes "unat h < 2 ^ 52"
  shows "drop_bit 12 (push_bit 12 h OR take_bit 5 st) = (h :: u64)"
    and "(push_bit 12 h OR take_bit 5 st) AND mask 5 = take_bit 5 (st :: u64)"
proof -
  have "drop_bit 12 (take_bit 5 st) = (0 :: u64)" by (rule bit_eqI) (auto simp: bit_simps)
  then show "drop_bit 12 (push_bit 12 h OR take_bit 5 st) = h"
    using drop_push_52 [OF assms] by (simp add: drop_bit_or)
  show "(push_bit 12 h OR take_bit 5 st) AND mask 5 = take_bit 5 st"
    by (rule bit_eqI) (auto simp: bit_simps)
qed

lemma batch_get:
  assumes "batch_holds b P" and "i < length P"
  obtains pa where "Balloon_BatchGetPA b i = Inr pa" "OS_ReservedPageGetHandle pa = P ! i"
  using assms by (auto simp: batch_holds_def Balloon_BatchGetPA_def deref_batch_def OS_ReservedPageGetHandle_def handle_of_entry simp del: drop_bit_and)

lemma batch_clean_holds: "batch_clean b P \<Longrightarrow> batch_holds b P"
  by (auto simp: batch_clean_def batch_holds_def drop_push_52)

lemma marked_batch:
  assumes "batch_clean b P" and "batchPage b' = map_option (monitor_marks st (length P)) (batchPage b)"
  shows "batch_holds b' P" and "i < length P \<Longrightarrow> Balloon_BatchGetStatus b' i = Inr (uint (take_bit 5 (st i)))"
  using assms
  by (auto simp: batch_clean_def batch_holds_def monitor_marks_def marks_entry Balloon_BatchGetStatus_def deref_batch_def
      simp del: drop_bit_or)

lemma batch_holds_cong: "batchPage b' = batchPage b \<Longrightarrow> batch_holds b' P = batch_holds b P"
  by (simp add: batch_holds_def)

lemma free_entries:
  assumes "accounted b P l" and "batch_holds b P"
  shows "\<exists>b'. foldR (free_entry l) [0..<length P] b = Inr b' \<and> accounted b' [] l \<and> b' = b\<lparr>reserved := reserved b'\<rparr>"
proof -
  let ?I = "\<lambda>i b'. accounted b' (drop i P) l \<and> b' = b\<lparr>reserved := reserved b'\<rparr>"
  have "\<exists>b2. free_entry l i b1 = Inr b2 \<and> ?I (Suc i) b2" if i: "i < length P" and I: "?I i b1" for i b1
  proof -
    have "batchPage b1 = batchPage b" using arg_cong [OF conjunct2 [OF I], of batchPage] by simp
    then obtain pa where pa: "Balloon_BatchGetPA b1 i = Inr pa" "OS_ReservedPageGetHandle pa = P ! i"
      using batch_get [of b1 P i] batch_holds_cong assms(2) i by blast
    have "accounted b1 (P ! i # drop (Suc i) P) l" using I i by (simp add: Cons_nth_drop_Suc)
    from free_pending [OF this] obtain b2 where b2: "OS_ReservedPageFree b1 (P ! i) l = Inr b2" "accounted b2 (drop (Suc i) P) l"
      "b2 = b1\<lparr>reserved := (reserved b1)(P ! i := None)\<rparr>" by blast
    have "b2 = b\<lparr>reserved := reserved b2\<rparr>" unfolding b2(3) by (subst conjunct2 [OF I]) simp
    with b2(1,2) pa show ?thesis by (auto simp: free_entry_def)
  qed
  from foldR_upt [of ?I b "length P" "free_entry l", OF _ this] assms(1) show ?thesis by auto
qed

text \<open>What the monitor promises for the entries of a batch that it has locked.\<close>

definition lock_status_ok :: "balloon_env \<Rightarrow> bool" where
  "lock_status_ok env \<longleftrightarrow> (\<forall>n cmd a k i. uint (take_bit 5 (r_entries (e_monitor env n cmd a k) i)) \<in>
     {BALLOON_SUCCESS, BALLOON_ERROR_PPN_INVALID, BALLOON_ERROR_PPN_PINNED, BALLOON_ERROR_PPN_NOTNEEDED, BALLOON_ERROR_RESET})"

definition lock_inv :: "Balloon \<Rightarrow> PageHandle list \<Rightarrow> bool \<Rightarrow> nat \<Rightarrow> Balloon \<times> bool \<times> nat \<Rightarrow> bool" where
  "lock_inv b0 P l i s = (case s of (b, got, n) \<Rightarrow>
     accounted b (drop i P) l \<and> chunks_ok b \<and> rest b = rest b0 \<and> chunks b (\<not> l) = chunks b0 (\<not> l) \<and>
     errors b (\<not> l) = errors b0 (\<not> l) \<and> total b l = total b0 l + n \<and>
     (got \<longrightarrow> chunks b l \<noteq> [] \<and> length (hd (chunks b l)) < 1000) \<and>
     (fallbackChunk b = Some [] \<or> got \<and> length (hd (chunks b l)) \<le> i))"

lemma lock_entry_error:
  assumes I: "lock_inv b0 P l i (b, got, n)" and i: "i < length P" and hold: "batch_holds b P"
    and st: "Balloon_BatchGetStatus b i = Inr e"
    and e: "e = BALLOON_ERROR_PPN_INVALID \<or> e = BALLOON_ERROR_PPN_PINNED \<or> e = BALLOON_ERROR_PPN_NOTNEEDED \<or> e = BALLOON_ERROR_RESET"
  shows "\<exists>b'. lock_entry env l i (b, got, n) = Inr (b', got, n) \<and> lock_inv b0 P l (Suc i) (b', got, n)"
proof -
  obtain pa where pa: "Balloon_BatchGetPA b i = Inr pa" "OS_ReservedPageGetHandle pa = P ! i"
    using batch_get [OF hold i] by blast
  have acc: "accounted b (P ! i # drop (Suc i) P) l" using I i by (simp add: lock_inv_def Cons_nth_drop_Suc)
  obtain b1 where b1: "OS_ReservedPageFree b (P ! i) l = Inr b1" "accounted b1 (drop (Suc i) P) l"
    "b1 = b\<lparr>reserved := (reserved b)(P ! i := None)\<rparr>"
    using free_pending [OF acc] by blast
  have I1: "lock_inv b0 P l (Suc i) (b1, got, n)"
    using I b1(2) by (auto simp: lock_inv_def b1(3) chunks_ok_def chunk_list_ok_def rest_def total_def)
  have nz: "e \<noteq> BALLOON_SUCCESS" using e by (auto simp: balloon_codes)
  show ?thesis
  proof (cases "(e = BALLOON_ERROR_PPN_INVALID \<or> e = BALLOON_ERROR_PPN_PINNED) \<and> length (errors b l) < 16")
    case True
    let ?b = "b\<lparr>errors := (errors b)(l := errors b l @ [P ! i])\<rparr>"
    have "accounted ?b (drop (Suc i) P) l" using acc by (rule accounted_move) simp_all
    then have "lock_inv b0 P l (Suc i) (?b, got, n)"
      using I by (auto simp: lock_inv_def chunks_ok_def chunk_list_ok_def rest_def total_def)
    with True pa st nz show ?thesis
      by (auto simp: lock_entry_def BalloonErrorPageStore_def BALLOON_ERROR_PAGES_def Let_def)
  next
    case False
    with pa st nz e b1(1) I1 show ?thesis
      by (auto simp: lock_entry_def BalloonErrorPageStore_def BALLOON_ERROR_PAGES_def Let_def balloon_codes)
  qed
qed

lemma lock_entry_success:
  assumes I: "lock_inv b0 P l i (b, got, n)" and i: "i < length P" and hold: "batch_holds b P"
    and st: "Balloon_BatchGetStatus b i = Inr BALLOON_SUCCESS"
  shows "\<exists>s'. lock_entry env l i (b, got, n) = Inr s' \<and> lock_inv b0 P l (Suc i) s'"
proof -
  obtain pa where pa: "Balloon_BatchGetPA b i = Inr pa" "OS_ReservedPageGetHandle pa = P ! i"
    using batch_get [OF hold i] by blast
  have len: "length P \<le> 512" using hold by (auto simp: batch_holds_def)
  have acc: "accounted b (P ! i # drop (Suc i) P) l" using I i by (simp add: lock_inv_def Cons_nth_drop_Suc)
  have ok: "chunks_ok b" using I by (simp add: lock_inv_def)
  have "chunk_supply env b l" using I i len by (auto simp: lock_inv_def chunk_supply_def)
  then obtain b1 where b1: "(if got then Inr b else BalloonGetChunkOrFallback env b l) = Inr b1" "room b1 l" "same_pages b b1 l"
    "accounted b1 (P ! i # drop (Suc i) P) l" "fallbackChunk b1 = fallbackChunk b \<or> length (hd (chunks b1 l)) = 0"
    "got \<Longrightarrow> b1 = b"
  proof (cases got)
    case True
    then have "room b l" using I chunks_ok_room [OF ok] by (simp add: lock_inv_def)
    with True acc that [of b] show ?thesis by (simp add: same_pages_def)
  next
    case False
    from get_chunk_or_fallback [OF ok acc \<open>chunk_supply env b l\<close>] False that show ?thesis
      by (metis (no_types, lifting))
  qed
  obtain b2 where b2: "BalloonPageStore b1 l (P ! i) = Inr b2" "chunks_ok b2" "accounted b2 (drop (Suc i) P) l" "rest b2 = rest b1"
    "total b2 l = Suc (total b1 l)" "chunks b2 (\<not> l) = chunks b1 (\<not> l)" "fallbackChunk b2 = fallbackChunk b1"
    "length (hd (chunks b2 l)) = Suc (length (hd (chunks b1 l)))" "chunks b2 l \<noteq> []" "errors b2 = errors b1"
    by (rule store_page [OF b1(2,4)])
  have le: "length (hd (chunks b2 l)) \<le> 1000"
    using b2(2) hd_in_set [OF b2(9)] by (simp add: chunks_ok_def chunk_list_ok_def)
  have "lock_inv b0 P l (Suc i) (b2, length (hd (chunks b2 l)) \<noteq> 1000, n + 1)"
    using I b1(3,5,6) b2 le i len unfolding lock_inv_def same_pages_def by auto
  with pa st b1(1) b2(1) show ?thesis
    by (simp add: lock_entry_def Let_def BALLOON_CHUNK_ENTRIES_def)
qed

section \<open>One lock call\<close>

definition size_ok :: "Balloon \<Rightarrow> bool" where
  "size_ok b \<longleftrightarrow> nPages b = of_nat (total b False + 512 * total b True)"

text \<open>The operations fit the mode, and the pages \<open>P\<close> are where the mode keeps them.\<close>

definition ops_ok :: "Balloon \<Rightarrow> PageHandle list \<Rightarrow> bool \<Rightarrow> bool" where
  "ops_ok b P l \<longleftrightarrow>
     balloonOps b = Some OpsBasic \<and> batchMaxEntries b = 1 \<and> hypervisorCapabilities b AND BALLOON_BATCHED_2M_CMDS = 0 \<and>
       chunks b True = [] \<and>
       (P = [] \<and> pageHandle b = 0 \<or> P = [pageHandle b] \<and> \<not> l) \<or>
     balloonOps b = Some OpsBatched \<and> batchMaxEntries b = 512 \<and> batch_clean b P"

definition rates_ok :: "Balloon \<Rightarrow> bool" where
  "rates_ok b \<longleftrightarrow> 512 \<le> rateAlloc b \<and> rateAlloc b \<le> 2048 \<and> 512 \<le> rateFree b \<and> rateFree b \<le> 16384"

definition mid :: "Balloon \<Rightarrow> PageHandle list \<Rightarrow> bool \<Rightarrow> bool" where
  "mid b P l \<longleftrightarrow> accounted b P l \<and> chunks_ok b \<and> size_ok b \<and> ops_ok b P l \<and> rates_ok b"

text \<open>What lock and unlock leave alone.\<close>

definition settings :: "Balloon \<Rightarrow> u32 \<times> nat \<times> nat \<times> nat \<times> u32 \<times> BalloonOps option \<times> nat" where
  "settings b = (nPagesTarget b, rateAlloc b, rateFree b, slowPageAllocationCycles b, hypervisorCapabilities b, balloonOps b,
     batchMaxEntries b)"

lemma settings_ops:
  assumes "settings b' = settings b"
  shows "rates_ok b' = rates_ok b" "balloonOps b' = balloonOps b" "batchMaxEntries b' = batchMaxEntries b"
    "hypervisorCapabilities b' = hypervisorCapabilities b" "rateAlloc b' = rateAlloc b" "rateFree b' = rateFree b"
  using assms by (simp_all add: settings_def rates_ok_def)

lemma accounted_Nil: "accounted b [] l \<Longrightarrow> accounted b [] l'"
  by (simp add: accounted_def)

lemma size_ok_grow:
  assumes "size_ok b" and "total b' l = total b l + k" and "chunks b' (\<not> l) = chunks b (\<not> l)"
    and "nPages b' = nPages b + pages_of l k"
  shows "size_ok b'"
proof -
  have "total b' (\<not> l) = total b (\<not> l)" using assms(3) by (simp add: total_def)
  then show ?thesis using assms(1,2,4)
    by (cases l) (simp_all add: size_ok_def pages_of_def OS_LARGE_2_SMALL_PAGES_def algebra_simps)
qed

lemma size_ok_shrink:
  assumes "nPages b = of_nat (total b False + 512 * total b True) + pages_of l k" and "nPages b' = nPages b - pages_of l k"
    and "chunks b' = chunks b"
  shows "size_ok b'"
  using assms by (simp add: size_ok_def total_def)

lemma BalloonLockBatched_spec:
  assumes acc: "accounted b P l" and ok: "chunks_ok b" and clean: "batch_clean b P" and ops: "balloonOps b = Some OpsBatched"
    and env: "lock_status_ok env" and sz: "size_ok b"
  obtains b' st out where "BalloonLockBatched env b (length P) l = Inr (b', st, out)" "accounted b' [] l" "chunks_ok b'" "size_ok b'"
    "batch_clean b' []" "settings b' = settings b" "fallbackChunk b' = None"
proof -
  let ?b1 = "b\<lparr>n_malloc := n_malloc b + 1\<rparr>"
  let ?fail = "\<lambda>c st out. bindR (foldR (free_entry l) [0..<length P] c) (\<lambda>b3. Inr (b3\<lparr>fallbackChunk := None\<rparr>, st, out :: u32 option))"
  have fail: "\<exists>b'. ?fail c st out = Inr (b', st, out) \<and> accounted b' [] l \<and> chunks_ok b' \<and> size_ok b' \<and> batch_clean b' [] \<and>
      settings b' = settings b \<and> fallbackChunk b' = None"
    if c: "accounted c P l" "batch_holds c P" "chunks c = chunks b" "nChunks c = nChunks b" "nPages c = nPages b"
      "settings c = settings b" for c st out
  proof -
    obtain b3 where b3: "foldR (free_entry l) [0..<length P] c = Inr b3" "accounted b3 [] l" "b3 = c\<lparr>reserved := reserved b3\<rparr>"
      using free_entries [OF c(1,2)] by blast
    have f: "chunks b3 = chunks c" "nChunks b3 = nChunks c" "nPages b3 = nPages c" "batchPage b3 = batchPage c" "settings b3 = settings c"
      by (subst b3(3), simp add: settings_def)+
    let ?b = "b3\<lparr>fallbackChunk := None\<rparr>"
    have "chunks_ok ?b" using ok f c by (simp add: chunks_ok_def chunk_list_ok_def)
    moreover have "size_ok ?b" using sz f c by (simp add: size_ok_def total_def)
    moreover have "batch_clean ?b []" using f(4) c(2) by (auto simp: batch_clean_def batch_holds_def)
    moreover have "settings ?b = settings b" using f(5) c(6) by (simp add: settings_def)
    ultimately show ?thesis using b3(1,2) by auto
  qed
  show thesis
  proof (cases "e_malloc env (n_malloc b)")
    case False
    let ?c = "b\<lparr>n_malloc := n_malloc b + 1, fallbackChunk := None\<rparr>"
    have "batch_holds ?c P" using batch_clean_holds [OF clean] by (simp add: batch_holds_def)
    with fail [of ?c BALLOON_PAGE_ALLOC_FAILURE None] acc obtain b' where
      "?fail ?c BALLOON_PAGE_ALLOC_FAILURE None = Inr (b', BALLOON_PAGE_ALLOC_FAILURE, None)" "accounted b' [] l" "chunks_ok b'"
      "size_ok b'" "batch_clean b' []" "settings b' = settings b" "fallbackChunk b' = None"
      by (auto simp: settings_def)
    with False show thesis
      by (intro that [of b']) (simp_all add: BalloonLockBatched_def BalloonChunk_Create_def Let_def BALLOON_PAGE_ALLOC_FAILURE_def BALLOON_SUCCESS_def)
  next
    case True
    let ?r = "e_monitor env (n_mon b) (if l then CMD_BATCHED_2M_LOCK else CMD_BATCHED_LOCK)
      (PA_2_PPN (OS_ReservedPageGetPA (pageHandle b))) (of_nat (length P))"
    let ?c = "b\<lparr>n_malloc := n_malloc b + 1, fallbackChunk := Some [], n_mon := n_mon b + 1,
      resetFlag := (r_status ?r = BALLOON_ERROR_RESET \<or> resetFlag b),
      batchPage := map_option (monitor_marks (r_entries ?r) (length P)) (batchPage b)\<rparr>"
    have cmd: "Backdoor_MonitorLockPagesBatched env (?b1\<lparr>fallbackChunk := Some []\<rparr>) (PA_2_PPN (OS_ReservedPageGetPA (pageHandle b))) (length P) l =
        (?c, r_status ?r, Some (r_out ?r))"
      by (simp add: Backdoor_MonitorLockPagesBatched_def batched_cmd_def BackdoorCmd_def Let_def)
    have accc: "accounted ?c P l" using acc by simp
    have bp: "batchPage ?c = map_option (monitor_marks (r_entries ?r) (length P)) (batchPage b)" by simp
    note mb = marked_batch [OF clean bp]
    show thesis
    proof (cases "r_status ?r = BALLOON_SUCCESS")
      case False
      obtain b' where "?fail ?c (r_status ?r) (Some (r_out ?r)) = Inr (b', r_status ?r, Some (r_out ?r))" "accounted b' [] l" "chunks_ok b'"
        "size_ok b'" "batch_clean b' []" "settings b' = settings b" "fallbackChunk b' = None"
        using fail [OF accc mb(1), of "r_status ?r" "Some (r_out ?r)"] by (auto simp: settings_def)
      with False True cmd show thesis
        by (intro that [of b']) (simp_all add: BalloonLockBatched_def BalloonChunk_Create_def Let_def)
    next
      case succ: True
      have "\<exists>s'. lock_entry env l i s = Inr s' \<and> lock_inv ?c P l (Suc i) s'" if i: "i < length P" and I: "lock_inv ?c P l i s" for i s
      proof -
        obtain d got n where s: "s = (d, got, n)" by (cases s)
        have "batchPage d = batchPage ?c" using I by (simp add: s lock_inv_def rest_def)
        then have h: "batch_holds d P" and g: "Balloon_BatchGetStatus d i = Inr (uint (take_bit 5 (r_entries ?r i)))"
          using mb(1) mb(2) [OF i] batch_holds_cong by (blast, simp add: Balloon_BatchGetStatus_def deref_batch_def)
        have "uint (take_bit 5 (r_entries ?r i)) \<in> {BALLOON_SUCCESS, BALLOON_ERROR_PPN_INVALID, BALLOON_ERROR_PPN_PINNED, BALLOON_ERROR_PPN_NOTNEEDED, BALLOON_ERROR_RESET}"
          using env unfolding lock_status_ok_def by (elim allE)
        then consider "uint (take_bit 5 (r_entries ?r i)) = BALLOON_SUCCESS"
          | "uint (take_bit 5 (r_entries ?r i)) \<in> {BALLOON_ERROR_PPN_INVALID, BALLOON_ERROR_PPN_PINNED, BALLOON_ERROR_PPN_NOTNEEDED, BALLOON_ERROR_RESET}"
          by blast
        then show ?thesis
        proof cases
          case 1
          then show ?thesis using lock_entry_success [OF I [unfolded s] i h] g unfolding s by simp
        next
          case 2
          then show ?thesis using lock_entry_error [OF I [unfolded s] i h g] unfolding s by blast
        qed
      qed
      moreover have "lock_inv ?c P l 0 (?c, False, 0)"
        using accc ok by (simp add: lock_inv_def chunks_ok_def chunk_list_ok_def)
      ultimately obtain d got n where d: "foldR (lock_entry env l) [0..<length P] (?c, False, 0) = Inr (d, got, n)"
        "lock_inv ?c P l (length P) (d, got, n)"
        using foldR_upt [of "lock_inv ?c P l" "(?c, False, 0)" "length P" "lock_entry env l"] by auto
      let ?b = "d\<lparr>nPages := nPages d + pages_of l n, fallbackChunk := None\<rparr>"
      have I: "accounted d [] l" "chunks_ok d" "rest d = rest ?c" "chunks d (\<not> l) = chunks b (\<not> l)" "total d l = total b l + n"
        using d(2) by (simp_all add: lock_inv_def total_def)
      have "size_ok ?b"
        using I(3-5) by (intro size_ok_grow [OF sz, of _ l n]) (simp_all add: rest_def total_def)
      moreover have "settings ?b = settings b" using I(3) by (simp add: settings_def rest_def)
      moreover have "batch_clean ?b []" using I(3) mb(1) by (auto simp: batch_clean_def batch_holds_def rest_def)
      moreover have "chunks_ok ?b" using I(2) by (simp add: chunks_ok_def chunk_list_ok_def)
      ultimately show thesis using True cmd succ d(1) I(1)
        by (intro that [of ?b]) (simp_all add: BalloonLockBatched_def BalloonChunk_Create_def Let_def)
    qed
  qed
qed

lemma free_single:
  assumes "accounted b [pageHandle b] False" and "balloonOps b = Some OpsBasic"
  obtains b' where "OS_ReservedPageFree b (pageHandle b) False = Inr b'" "accounted (b'\<lparr>pageHandle := 0\<rparr>) [] False"
    "b' = b\<lparr>reserved := (reserved b)(pageHandle b := None)\<rparr>"
proof -
  obtain b' where b': "OS_ReservedPageFree b (pageHandle b) False = Inr b'" "accounted b' [] False"
    "b' = b\<lparr>reserved := (reserved b)(pageHandle b := None)\<rparr>"
    using free_pending [OF assms(1)] by blast
  have "accounted (b'\<lparr>pageHandle := 0\<rparr>) [] False"
    using b'(2,3) assms(2) by (simp add: accounted_def held_pages_def own_page_def)
  with b' show thesis by (intro that [of b']) simp_all
qed

lemma accounted_basic: "balloonOps b = Some OpsBasic \<Longrightarrow> accounted (b\<lparr>pageHandle := x\<rparr>) P l = accounted b P l"
  by (simp add: accounted_def held_pages_def own_page_def)

lemma destroy_empty:
  assumes "room b l" and "accounted b P l0"
  shows "chunks_ok (BalloonChunkDestroyEmpty b l)" "accounted (BalloonChunkDestroyEmpty b l) P l0"
    "rest (BalloonChunkDestroyEmpty b l) = rest b" "total (BalloonChunkDestroyEmpty b l) k = total b k"
    "fallbackChunk (BalloonChunkDestroyEmpty b l) = fallbackChunk b"
    "chunks (BalloonChunkDestroyEmpty b l) (\<not> l) = chunks b (\<not> l)"
proof -
  obtain c cs where c: "chunks b l = c # cs" using assms(1) by (cases "chunks b l") (auto simp: room_def)
  show "chunks_ok (BalloonChunkDestroyEmpty b l)"
    using assms(1) c unfolding chunks_ok_def chunk_list_ok_def room_def BalloonChunkDestroyEmpty_def
    by (cases l; cases c) (auto simp: all_bool_eq)
  show "accounted (BalloonChunkDestroyEmpty b l) P l0"
    using assms(2) by (rule accounted_move) (auto simp: BalloonChunkDestroyEmpty_def c split: list.splits)
  show "rest (BalloonChunkDestroyEmpty b l) = rest b"
    by (simp add: BalloonChunkDestroyEmpty_def rest_def c split: list.splits)
  show "total (BalloonChunkDestroyEmpty b l) k = total b k"
    by (auto simp: BalloonChunkDestroyEmpty_def total_def c split: list.splits)
  show "fallbackChunk (BalloonChunkDestroyEmpty b l) = fallbackChunk b"
    "chunks (BalloonChunkDestroyEmpty b l) (\<not> l) = chunks b (\<not> l)"
    by (simp_all add: BalloonChunkDestroyEmpty_def c split: list.splits)
qed

lemma room_mon [simp]: "room (b\<lparr>n_mon := x, resetFlag := y\<rparr>) l = room b l"
  by (simp add: room_def chunk_list_ok_def)

lemma lock_page_frame:
  assumes "Backdoor_MonitorLockPage env b ppn = (b', st, out)"
  obtains x y where "b' = b\<lparr>n_mon := x, resetFlag := y\<rparr>"
proof (cases "ucast (ucast ppn :: u32) = ppn")
  case True
  with assms show thesis by (auto simp: Backdoor_MonitorLockPage_def BackdoorCmd_def Let_def intro: that)
next
  case False
  with assms show thesis by (intro that [where x = "n_mon b" and y = "resetFlag b"]) (simp add: Backdoor_MonitorLockPage_def)
qed

lemma BalloonLock_spec:
  assumes m: "mid b [pageHandle b] False" and ops: "balloonOps b = Some OpsBasic"
  obtains b' st out where "BalloonLock env b = Inr (b', st, out)" "mid b' [] False" "settings b' = settings b"
    "fallbackChunk b' = fallbackChunk b"
proof -
  have acc: "accounted b [pageHandle b] False" and ok: "chunks_ok b" and sz: "size_ok b"
    and oo: "batchMaxEntries b = 1" "hypervisorCapabilities b AND BALLOON_BATCHED_2M_CMDS = 0" "chunks b True = []" and rt: "rates_ok b"
    using m ops by (auto simp: mid_def ops_ok_def)
  have fin: "mid (c\<lparr>pageHandle := 0\<rparr>) [] False \<and> settings (c\<lparr>pageHandle := 0\<rparr>) = settings b"
    if "accounted (c\<lparr>pageHandle := 0\<rparr>) [] False" "chunks_ok c" "size_ok c" "settings c = settings b" "chunks c True = []" for c
    using that ops oo settings_ops [OF that(4)] rt
    by (simp add: mid_def ops_ok_def settings_def chunks_ok_def chunk_list_ok_def size_ok_def total_def rates_ok_def)
  obtain b1 r where g: "BalloonGetChunk env b False = (b1, r)" by fastforce
  note gc = get_chunk [OF ok acc g]
  have b1: "pageHandle b1 = pageHandle b" "balloonOps b1 = Some OpsBasic" "settings b1 = settings b" "nPages b1 = nPages b"
    "total b1 l = total b l" and ch1: "chunks b1 True = []" for l
    using gc(1) ops oo(3) by (cases l; simp add: same_pages_def rest_def settings_def total_def)+
  have acc1: "accounted b1 [pageHandle b1] False" using gc(2) b1(1) by simp
  have sz1: "size_ok b1" using sz b1(4,5) by (simp add: size_ok_def)
  show thesis
  proof (cases r)
    case False
    obtain b2 where b2: "OS_ReservedPageFree b1 (pageHandle b1) False = Inr b2" "accounted (b2\<lparr>pageHandle := 0\<rparr>) [] False"
      "b2 = b1\<lparr>reserved := (reserved b1)(pageHandle b1 := None)\<rparr>"
      by (rule free_single [OF acc1 b1(2)])
    have "mid (b2\<lparr>pageHandle := 0\<rparr>) [] False \<and> settings (b2\<lparr>pageHandle := 0\<rparr>) = settings b"
      using b2(2) gc(5) False sz1 b1(3) ch1
      by (intro fin) (simp_all add: b2(3) chunks_ok_def chunk_list_ok_def size_ok_def total_def settings_def)
    with False g b2(1,3) gc(3) show thesis
      by (intro that [of "b2\<lparr>pageHandle := 0\<rparr>"]) (simp_all add: BalloonLock_def)
  next
    case True
    then have rm: "room b1 False" using gc(4) by simp
    obtain b2 st out where lk: "Backdoor_MonitorLockPage env b1 (PA_2_PPN (OS_ReservedPageGetPA (pageHandle b1))) = (b2, st, out)"
      by (metis prod_cases3)
    obtain x y where b2: "b2 = b1\<lparr>n_mon := x, resetFlag := y\<rparr>" by (rule lock_page_frame [OF lk])
    have rm2: "room b2 False" and acc2: "accounted b2 [pageHandle b2] False" and sz2: "size_ok b2" and ph: "pageHandle b2 = pageHandle b1"
      and ops2: "balloonOps b2 = Some OpsBasic" and se2: "settings b2 = settings b" and fb2: "fallbackChunk b2 = fallbackChunk b"
      and ch2: "chunks b2 True = []"
      using rm acc1 sz1 b1 gc(3) ch1 by (simp_all add: b2 size_ok_def total_def settings_def)
    show thesis
    proof (cases "st = BALLOON_SUCCESS")
      case succ: True
      obtain b3 where b3: "BalloonPageStore b2 False (pageHandle b2) = Inr b3" "chunks_ok b3" "accounted b3 [] False" "rest b3 = rest b2"
        "total b3 False = Suc (total b2 False)" "chunks b3 (\<not> False) = chunks b2 (\<not> False)" "fallbackChunk b3 = fallbackChunk b2"
        by (rule store_page [OF rm2 acc2])
      let ?c = "b3\<lparr>nPages := nPages b3 + 1\<rparr>"
      have o3: "balloonOps b3 = Some OpsBasic" using b3(4) ops2 by (simp add: rest_def)
      have "size_ok ?c"
        using b3(4-6) by (intro size_ok_grow [OF sz2, of _ False 1]) (simp_all add: rest_def total_def pages_of_def)
      moreover have "settings ?c = settings b" using b3(4) se2 by (simp add: rest_def settings_def)
      ultimately have "mid (?c\<lparr>pageHandle := 0\<rparr>) [] False \<and> settings (?c\<lparr>pageHandle := 0\<rparr>) = settings b"
        using b3(2,3,6) o3 ch2 by (intro fin) (simp_all add: accounted_basic chunks_ok_def chunk_list_ok_def)
      with True succ g lk b3(1,7) fb2 show thesis
        by (intro that [of "?c\<lparr>pageHandle := 0\<rparr>"]) (simp_all add: BalloonLock_def)
    next
      case err: False
      let ?d = "BalloonChunkDestroyEmpty b2 False"
      note de = destroy_empty [OF rm2 acc2]
      have d: "pageHandle ?d = pageHandle b2" "balloonOps ?d = Some OpsBasic" "settings ?d = settings b" "size_ok ?d" "fallbackChunk ?d = fallbackChunk b"
        "chunks ?d True = []"
        using de(3,4,5,6) ops2 se2 sz2 fb2 ch2 by (simp_all add: rest_def settings_def size_ok_def)
      have accd: "accounted ?d [pageHandle ?d] False" using de(2) d(1) by simp
      obtain b4 where b4: "OS_ReservedPageFree ?d (pageHandle ?d) False = Inr b4" "accounted (b4\<lparr>pageHandle := 0\<rparr>) [] False"
        "b4 = ?d\<lparr>reserved := (reserved ?d)(pageHandle ?d := None)\<rparr>"
        by (rule free_single [OF accd d(2)])
      have m4: "mid (b4\<lparr>pageHandle := 0\<rparr>) [] False \<and> settings (b4\<lparr>pageHandle := 0\<rparr>) = settings b"
        using b4(2) de(1) d by (intro fin) (simp_all add: b4(3) chunks_ok_def chunk_list_ok_def size_ok_def total_def settings_def)
      let ?e = "?d\<lparr>errors := (errors ?d)(False := errors ?d False @ [pageHandle ?d])\<rparr>"
      have "accounted ?e [] False" using accd by (rule accounted_move) simp_all
      then have me: "mid (?e\<lparr>pageHandle := 0\<rparr>) [] False \<and> settings (?e\<lparr>pageHandle := 0\<rparr>) = settings b"
        using de(1) d by (intro fin) (simp_all add: accounted_basic chunks_ok_def chunk_list_ok_def size_ok_def total_def settings_def)
      show thesis
      proof (cases "st \<noteq> BALLOON_ERROR_RESET \<and> st \<noteq> BALLOON_ERROR_PPN_NOTNEEDED \<and> length (errors ?d False) < 16")
        case True
        with \<open>r\<close> err g lk me d(5) show thesis
          by (intro that [of "?e\<lparr>pageHandle := 0\<rparr>"])
            (simp_all add: BalloonLock_def Let_def BalloonErrorPageStore_def BALLOON_ERROR_PAGES_def BALLOON_SUCCESS_def)
      next
        case False
        then consider "st = BALLOON_ERROR_RESET \<or> st = BALLOON_ERROR_PPN_NOTNEEDED"
          | "st \<noteq> BALLOON_ERROR_RESET" "st \<noteq> BALLOON_ERROR_PPN_NOTNEEDED" "\<not> length (errors ?d False) < 16" by blast
        then show thesis
        proof cases
          case 1
          with \<open>r\<close> err g lk m4 b4(1) d(5) show thesis
            by (intro that [of "b4\<lparr>pageHandle := 0\<rparr>" st out]) (auto simp: BalloonLock_def Let_def b4(3))
        next
          case 2
          with \<open>r\<close> err g lk m4 b4(1) d(5) show thesis
            by (intro that [of "b4\<lparr>pageHandle := 0\<rparr>" BALLOON_FAILURE out])
              (auto simp: BalloonLock_def Let_def BalloonErrorPageStore_def BALLOON_ERROR_PAGES_def BALLOON_SUCCESS_def
                BALLOON_FAILURE_def b4(3))
        qed
      qed
    qed
  qed
qed

lemma mid_update [simp]:
  "mid (b\<lparr>n_alloc := x1\<rparr>) P l = mid b P l" "mid (b\<lparr>slowPageAllocationCycles := x2\<rparr>) P l = mid b P l"
  "mid (b\<lparr>nPagesTarget := x3\<rparr>) P l = mid b P l" "mid (b\<lparr>n_mon := x4\<rparr>) P l = mid b P l" "mid (b\<lparr>resetFlag := x5\<rparr>) P l = mid b P l"
  "mid (b\<lparr>fallbackChunk := x6\<rparr>) P l = mid b P l"
  by (simp_all add: mid_def chunks_ok_def chunk_list_ok_def size_ok_def total_def ops_ok_def batch_clean_def rates_ok_def)

lemma mid_Nil: "mid b [] l \<Longrightarrow> mid b [] l'"
  using accounted_Nil by (auto simp: mid_def ops_ok_def)

lemma ops_lock_spec:
  assumes m: "mid b P l" and P: "P \<noteq> []" and env: "lock_status_ok env" and fb: "fallbackChunk b = None"
  obtains b' st out where "ops_lock env b (length P) l = Inr (b', st, out)" "mid b' [] l'" "settings b' = settings b" "fallbackChunk b' = None"
proof (cases "balloonOps b")
  case None
  then show thesis using m by (simp add: mid_def ops_ok_def)
next
  case (Some x)
  show thesis
  proof (cases x)
    case OpsBasic
    then have Pb: "P = [pageHandle b]" "\<not> l" using m Some P by (auto simp: mid_def ops_ok_def)
    have ops: "balloonOps b = Some OpsBasic" using Some OpsBasic by simp
    obtain b' st out where b': "BalloonLock env b = Inr (b', st, out)" "mid b' [] False" "settings b' = settings b"
      "fallbackChunk b' = fallbackChunk b"
      by (rule BalloonLock_spec [OF _ ops]) (use m Pb in auto)
    then show thesis using ops fb by (intro that [of b' st out]) (simp_all add: ops_lock_def mid_Nil)
  next
    case OpsBatched
    then have ops: "balloonOps b = Some OpsBatched" using Some by simp
    then have c: "accounted b P l" "chunks_ok b" "batch_clean b P" "size_ok b" "rates_ok b" "batchMaxEntries b = 512"
      using m by (auto simp: mid_def ops_ok_def)
    obtain b' st out where b': "BalloonLockBatched env b (length P) l = Inr (b', st, out)" "accounted b' [] l" "chunks_ok b'" "size_ok b'"
      "batch_clean b' []" "settings b' = settings b" "fallbackChunk b' = None"
      by (rule BalloonLockBatched_spec [OF c(1-3) ops env c(4)])
    have "mid b' [] l" using b' c settings_ops [OF b'(6)] ops by (simp add: mid_def ops_ok_def)
    then show thesis using ops b' by (intro that [of b' st out]) (simp_all add: ops_lock_def mid_Nil)
  qed
qed

lemma ops_addPage_spec:
  assumes m: "ops_ok b P l" and cs: "cs (\<not> l) = chunks b (\<not> l)" and len: "length P < batchMaxEntries b" and h: "unat h < 2 ^ 52"
    and b1: "b1 = b\<lparr>chunks := cs, nChunks := nc, fallbackChunk := fb, n_alloc := n, reserved := r\<rparr>"
    and acc: "accounted b1 (P @ [h]) l" and ok: "chunks_ok b1"
    and basic: "l \<Longrightarrow> balloonOps b = Some OpsBatched"
  obtains b2 where "ops_addPage b1 (length P) h = Inr b2" "accounted b2 (P @ [h]) l" "chunks_ok b2" "ops_ok b2 (P @ [h]) l"
    "settings b2 = settings b" "b2 = b1\<lparr>pageHandle := pageHandle b2, batchPage := batchPage b2\<rparr>"
proof (cases "balloonOps b")
  case None
  then show thesis using m by (simp add: ops_ok_def)
next
  case (Some x)
  show thesis
  proof (cases x)
    case OpsBasic
    then have Pb: "P = []" using m Some len by (auto simp: ops_ok_def)
    let ?b = "b1\<lparr>pageHandle := h\<rparr>"
    have "accounted ?b (P @ [h]) l" using acc Some OpsBasic by (simp add: accounted_basic b1)
    moreover have "ops_ok ?b (P @ [h]) l" using m Some OpsBasic basic Pb cs by (cases l) (auto simp: ops_ok_def b1)
    ultimately show thesis using Some OpsBasic ok
      by (intro that [of ?b]) (simp_all add: ops_addPage_def BalloonAddPage_def b1 settings_def chunks_ok_def chunk_list_ok_def)
  next
    case OpsBatched
    then obtain es where es: "batchPage b = Some es" "length es = 512" "batchMaxEntries b = 512"
      "\<forall>i < length P. es ! i = push_bit 12 (P ! i) \<and> unat (P ! i) < 2 ^ 52"
      using m Some by (auto simp: ops_ok_def batch_clean_def)
    let ?b = "b1\<lparr>batchPage := Some (es[length P := push_bit 12 h])\<rparr>"
    have "batch_clean ?b (P @ [h])"
      using es len h by (auto simp: batch_clean_def nth_append nth_list_update less_Suc_eq)
    then have "ops_ok ?b (P @ [h]) l" using Some OpsBatched es by (simp add: ops_ok_def b1)
    then show thesis using Some OpsBatched ok acc es len
      by (intro that [of ?b])
        (simp_all add: ops_addPage_def BalloonAddPageBatched_def Balloon_BatchSetPA_def OS_ReservedPageGetPA_def b1 settings_def
          chunks_ok_def chunk_list_ok_def accounted_def held_pages_def own_page_def)
  qed
qed

section \<open>Inflating\<close>

lemma inflate_alloc_failed:
  assumes "mid b P l" and "allocator_ok env" and "OS_ReservedPageAlloc env b s l = (b1, 0)"
  shows "b1 = b\<lparr>n_alloc := n_alloc b + 1\<rparr>"
  using assms alloc_pending(1) [of b P l env s b1 0] by (simp add: mid_def)

lemma inflate_add:
  assumes m: "mid b P l" and env: "allocator_ok env" and al: "OS_ReservedPageAlloc env b s l = (b1, h)" "h \<noteq> 0"
    and len: "length P < batchMaxEntries b" and basic: "l \<Longrightarrow> balloonOps b = Some OpsBatched" and fb: "fallbackChunk b = None"
  obtains b2 where "ops_addPage b1 (length P) h = Inr b2" "mid b2 (P @ [h]) l" "settings b2 = settings b" "fallbackChunk b2 = None"
proof -
  have c: "accounted b P l" "chunks_ok b" "size_ok b" "rates_ok b" using m by (simp_all add: mid_def)
  have a: "accounted b1 (P @ [h]) l" "unat h < 2 ^ 52" and b1: "b1 = b\<lparr>n_alloc := n_alloc b + 1, reserved := (reserved b)(h \<mapsto> l)\<rparr>"
    using alloc_pending(2) [OF c(1) env al(1) al(2)] by blast+
  have b1': "b1 = b\<lparr>chunks := chunks b, nChunks := nChunks b, fallbackChunk := None, n_alloc := n_alloc b + 1, reserved := (reserved b)(h \<mapsto> l)\<rparr>"
    using fb by (simp add: b1)
  have ok: "chunks_ok b1" using c(2) by (simp add: b1 chunks_ok_def chunk_list_ok_def)
  obtain b2 where b2: "ops_addPage b1 (length P) h = Inr b2" "accounted b2 (P @ [h]) l" "chunks_ok b2" "ops_ok b2 (P @ [h]) l"
    "settings b2 = settings b" "b2 = b1\<lparr>pageHandle := pageHandle b2, batchPage := batchPage b2\<rparr>"
    by (rule ops_addPage_spec [OF _ refl len a(2) b1' a(1) ok basic]) (use m in \<open>simp_all add: mid_def\<close>)
  have f: "chunks b2 = chunks b" "nPages b2 = nPages b" "fallbackChunk b2 = None"
    by (subst b2(6), simp add: b1 fb)+
  have "mid b2 (P @ [h]) l"
    using b2(2-4) c(3,4) f settings_ops [OF b2(5)] by (simp add: mid_def size_ok_def total_def)
  with b2(1,5) f(3) show thesis by (intro that [of b2])
qed

lemma mid_rate: "mid b P l \<Longrightarrow> 512 \<le> r \<Longrightarrow> r \<le> 2048 \<Longrightarrow> mid (b\<lparr>rateAlloc := r\<rparr>) P l"
  by (simp add: mid_def chunks_ok_def chunk_list_ok_def size_ok_def total_def ops_ok_def batch_clean_def rates_ok_def)

definition inflate_post :: "(Balloon \<times> nat \<times> nat \<times> int \<times> BalloonPageAllocType) res \<Rightarrow> bool" where
  "inflate_post r = (case r of Inl e \<Rightarrow> False
     | Inr (b, n, allocations, status, allocType) \<Rightarrow>
         (\<exists>P. n = length P \<and> mid b P (allocType = ALLOC_LPAGE)) \<and> fallbackChunk b = None)"

lemma BalloonInflate_loop_spec:
  assumes "mid b P (allocType = ALLOC_LPAGE)" and "length P = nEntries" and "nEntries < batchMaxEntries b"
    and "allocType = ALLOC_LPAGE \<Longrightarrow> balloonOps b = Some OpsBatched" and "fallbackChunk b = None"
    and "allocator_ok env" and "lock_status_ok env"
  shows "inflate_post (BalloonInflate_loop env b target nEntries rate allocations status allocType)"
  using assms
proof (induction env b target nEntries rate allocations status allocType arbitrary: P rule: BalloonInflate_loop.induct)
  case (1 env b target nEntries rate allocations status allocType)
  let ?l = "allocType = ALLOC_LPAGE"
  note m = "1.prems"(1) and len = "1.prems"(2) and lt = "1.prems"(3) and basic = "1.prems"(4) and fb = "1.prems"(5)
    and env = "1.prems"(6,7)
  let ?c = "nPages b < target \<and> of_nat (nEntries * (if ?l then OS_LARGE_2_SMALL_PAGES else 1)) < target - nPages b"
  note unfold = BalloonInflate_loop.simps [of env b target nEntries rate allocations status allocType]
  show ?case
  proof (cases ?c)
    case False
    then show ?thesis using m len fb by (subst unfold) (auto simp: inflate_post_def Let_def)
  next
    case c: True
    obtain b1 h where al: "OS_ReservedPageAlloc env b (allocType = ALLOC_CANSLEEP) ?l = (b1, h)" by fastforce
    show ?thesis
    proof (cases "h = 0")
      case h: True
      have b1: "b1 = b\<lparr>n_alloc := n_alloc b + 1\<rparr>" using inflate_alloc_failed [OF m env(1)] al h by blast
      have m1: "mid b1 P ?l" and fb1: "fallbackChunk b1 = None" and lt1: "nEntries < batchMaxEntries b1" and ops1: "balloonOps b1 = balloonOps b"
        using m fb lt by (simp_all add: b1)
      show ?thesis
      proof (cases allocType)
        case ALLOC_LPAGE
        have "\<exists>b2 st2 t2 n2. (if nEntries > 0
               then bindR (ops_lock env b1 nEntries True) (\<lambda>(b2, st, out). Inr (b2, 0, st, new_target target out))
               else Inr (b1, nEntries, BALLOON_PAGE_ALLOC_FAILURE, target)) = Inr (b2, n2, st2, t2) \<and>
            n2 = 0 \<and> mid b2 [] False \<and> fallbackChunk b2 = None \<and> batchMaxEntries b2 = batchMaxEntries b1"
        proof (cases "nEntries > 0")
          case True
          then have "P \<noteq> []" using len by auto
          then obtain b2 st out where "ops_lock env b1 (length P) ?l = Inr (b2, st, out)" "mid b2 [] False" "settings b2 = settings b1"
            "fallbackChunk b2 = None"
            by (rule ops_lock_spec [OF m1 _ env(2) fb1])
          with True len ALLOC_LPAGE settings_ops(3) [of b2 b1] show ?thesis by auto
        next
          case False
          then have "mid b1 [] False" using m1 len mid_Nil by auto
          with False fb1 show ?thesis by auto
        qed
        then obtain b2 st2 t2 where b2: "(if nEntries > 0
               then bindR (ops_lock env b1 nEntries True) (\<lambda>(b2, st, out). Inr (b2, 0, st, new_target target out))
               else Inr (b1, nEntries, BALLOON_PAGE_ALLOC_FAILURE, target)) = Inr (b2, 0, st2, t2)"
          "mid b2 [] False" "fallbackChunk b2 = None" "batchMaxEntries b2 = batchMaxEntries b1" by blast
        have ih: "inflate_post (BalloonInflate_loop env b2 t2 0 rate allocations st2 ALLOC_NOSLEEP)" if "\<not> allocations \<ge> rateAlloc b2"
          using "1.IH"(1) [OF refl refl c al [symmetric] h ALLOC_LPAGE b2(1) refl refl refl that, of "[]"]
            b2 lt1 env by simp
        show ?thesis
          using c al h ALLOC_LPAGE b2 ih
          by (subst unfold) (auto simp: Let_def inflate_post_def)
      next
        case ALLOC_NOSLEEP
        let ?b2 = "b1\<lparr>slowPageAllocationCycles := SLOW_PAGE_ALLOCATION_CYCLES\<rparr>"
        have m2: "mid ?b2 P False" using m1 ALLOC_NOSLEEP by simp
        have ih: "inflate_post (BalloonInflate_loop env ?b2 target nEntries (rateAlloc ?b2) allocations BALLOON_PAGE_ALLOC_FAILURE ALLOC_CANSLEEP)"
          if "\<not> allocations \<ge> rateAlloc ?b2"
          using "1.IH"(2) [OF refl refl c al [symmetric] h ALLOC_NOSLEEP refl that, of P] m2 len lt1 fb1 env by simp
        show ?thesis
          using c al h ALLOC_NOSLEEP m2 ih len fb1
          by (subst unfold) (auto simp: Let_def inflate_post_def)
      next
        case ALLOC_CANSLEEP
        have "rates_ok b1" using m1 by (simp add: mid_def)
        then have "mid (b1\<lparr>rateAlloc := max (rateAlloc b1 div 2) BALLOON_RATE_ALLOC_MIN\<rparr>) P False"
          using m1 ALLOC_CANSLEEP div_le_dividend [of "rateAlloc b1" 2]
          by (intro mid_rate) (auto simp: rates_ok_def BALLOON_RATE_ALLOC_MIN_def)
        then show ?thesis
          using c al h ALLOC_CANSLEEP len fb1 by (subst unfold) (auto simp: Let_def inflate_post_def)
      qed
    next
      case h: False
      obtain b2 where b2: "ops_addPage b1 (length P) h = Inr b2" "mid b2 (P @ [h]) ?l" "settings b2 = settings b" "fallbackChunk b2 = None"
        by (rule inflate_add [OF m env(1) al h _ basic fb]) (use len lt in auto)
      note s2 = settings_ops [OF b2(3)]
      let ?next = "if nEntries + 1 = batchMaxEntries b2
                   then bindR (ops_lock env b2 (nEntries + 1) ?l) (\<lambda>(b3, st, out).
                          Inr (b3, 0, st, new_target target out, st \<noteq> BALLOON_SUCCESS))
                   else Inr (b2, nEntries + 1, status, target, False)"
      have "\<exists>b3 n3 st3 t3 stop P3. ?next = Inr (b3, n3, st3, t3, stop) \<and> mid b3 P3 ?l \<and> length P3 = n3 \<and> n3 < batchMaxEntries b3 \<and>
          fallbackChunk b3 = None \<and> balloonOps b3 = balloonOps b"
      proof (cases "nEntries + 1 = batchMaxEntries b2")
        case True
        obtain b3 st out where b3: "ops_lock env b2 (length (P @ [h])) ?l = Inr (b3, st, out)" "mid b3 [] ?l" "settings b3 = settings b2"
          "fallbackChunk b3 = None"
          by (rule ops_lock_spec [OF b2(2) _ env(2) b2(4)]) simp_all
        with True len s2 settings_ops [OF b3(3)] show ?thesis by (auto intro!: exI [of _ "[]"])
      next
        case False
        with b2 len lt s2 show ?thesis by (auto intro!: exI [of _ "P @ [h]"])
      qed
      then obtain b3 n3 st3 t3 stop P3 where b3: "?next = Inr (b3, n3, st3, t3, stop)" "mid b3 P3 ?l" "length P3 = n3"
        "n3 < batchMaxEntries b3" "fallbackChunk b3 = None" "balloonOps b3 = balloonOps b" by blast
      have b2': "ops_addPage b1 nEntries h = Inr b2" using b2(1) len by simp
      have ih: "inflate_post (BalloonInflate_loop env b3 t3 n3 rate (allocations + 1) st3 allocType)"
        if "\<not> (stop \<or> allocations + 1 \<ge> rate)"
        using "1.IH"(3) [OF refl refl c al [symmetric] h b2' b3(1) refl refl refl refl that b3(2,3,4) _ b3(5) env] b3(6) basic by simp
      show ?thesis
        using c al h b2' b3 ih by (subst unfold) (auto simp: Let_def inflate_post_def)
    qed
  qed
qed

lemma free_list:
  assumes "accounted b P l"
  shows "\<exists>b'. foldR (\<lambda>h b. OS_ReservedPageFree b h l) P b = Inr b' \<and> accounted b' [] l \<and> b' = b\<lparr>reserved := reserved b'\<rparr>"
  using assms
proof (induction P arbitrary: b)
  case (Cons h P)
  obtain b1 where b1: "OS_ReservedPageFree b h l = Inr b1" "accounted b1 P l" "b1 = b\<lparr>reserved := (reserved b)(h := None)\<rparr>"
    using free_pending [OF Cons.prems] by blast
  from Cons.IH [OF b1(2)] obtain b2 where b2: "foldR (\<lambda>h b. OS_ReservedPageFree b h l) P b1 = Inr b2" "accounted b2 [] l"
    "b2 = b1\<lparr>reserved := reserved b2\<rparr>" by blast
  have "b2 = b\<lparr>reserved := reserved b2\<rparr>" by (subst b2(3)) (simp add: b1(3))
  with b1(1) b2(1,2) show ?case by auto
qed simp

lemma free_list_errors:
  "foldR (\<lambda>h b. OS_ReservedPageFree b h l) P b = Inr b' \<Longrightarrow>
   foldR (\<lambda>h b. OS_ReservedPageFree b h l) P (b\<lparr>errors := E\<rparr>) = Inr (b'\<lparr>errors := E\<rparr>)"
proof (induction P arbitrary: b)
  case (Cons h P)
  then obtain b1 where b1: "OS_ReservedPageFree b h l = Inr b1" "foldR (\<lambda>h b. OS_ReservedPageFree b h l) P b1 = Inr b'"
    by (auto simp: bindR_eq_Inr)
  then have "OS_ReservedPageFree (b\<lparr>errors := E\<rparr>) h l = Inr (b1\<lparr>errors := E\<rparr>)"
    by (auto simp: OS_ReservedPageFree_def split: if_splits)
  with Cons.IH [OF b1(2)] show ?case by simp
qed simp

lemma BalloonErrorPagesFreeInt_spec:
  assumes m: "mid b [] k" and fb: "fallbackChunk b = None"
  obtains b' where "BalloonErrorPagesFreeInt b l = Inr b'" "mid b' [] k" "errors b' = (errors b)(l := [])" "settings b' = settings b"
    "fallbackChunk b' = None"
proof -
  let ?c = "b\<lparr>errors := (errors b)(l := [])\<rparr>"
  have "accounted b [] l" using m accounted_Nil by (auto simp: mid_def)
  then have "accounted ?c (errors b l) l" by (rule accounted_move) simp_all
  from free_list [OF this] obtain c' where c': "foldR (\<lambda>h b. OS_ReservedPageFree b h l) (errors b l) ?c = Inr c'" "accounted c' [] l"
    "c' = ?c\<lparr>reserved := reserved c'\<rparr>" by blast
  have "foldR (\<lambda>h b. OS_ReservedPageFree b h l) (errors b l) b = Inr (c'\<lparr>errors := errors b\<rparr>)"
    using free_list_errors [OF c'(1), of "errors b"] by simp
  moreover have f: "errors c' = (errors b)(l := [])" "settings c' = settings b" "fallbackChunk c' = None" "chunks c' = chunks b"
      "nChunks c' = nChunks b" "nPages c' = nPages b" "pageHandle c' = pageHandle b" "batchPage c' = batchPage b"
    by (subst c'(3), simp add: settings_def fb)+
  moreover have "c'\<lparr>errors := (errors b)(l := [])\<rparr> = c'" by (subst (2) c'(3), subst c'(3)) simp
  moreover have "mid c' [] k"
    using m c'(2) accounted_Nil f settings_ops [OF f(2)]
    by (auto simp: mid_def chunks_ok_def chunk_list_ok_def size_ok_def total_def ops_ok_def batch_clean_def)
  ultimately show thesis by (intro that [of c']) (simp_all add: BalloonErrorPagesFreeInt_def)
qed

definition bal_inv :: "Balloon \<Rightarrow> bool" where
  "bal_inv b \<longleftrightarrow> mid b [] False \<and> (\<forall>l. errors b l = []) \<and> fallbackChunk b = None"

lemma BalloonErrorPagesFree_spec:
  assumes "mid b [] l" and "fallbackChunk b = None"
  obtains b' where "BalloonErrorPagesFree b = Inr b'" "bal_inv b'" "settings b' = settings b"
proof -
  obtain b1 where b1: "BalloonErrorPagesFreeInt b False = Inr b1" "mid b1 [] l" "errors b1 = (errors b)(False := [])"
    "settings b1 = settings b" "fallbackChunk b1 = None"
    by (rule BalloonErrorPagesFreeInt_spec [OF assms])
  obtain b2 where b2: "BalloonErrorPagesFreeInt b1 True = Inr b2" "mid b2 [] l" "errors b2 = (errors b1)(True := [])"
    "settings b2 = settings b1" "fallbackChunk b2 = None"
    by (rule BalloonErrorPagesFreeInt_spec [OF b1(2,5)])
  have "errors b2 k = []" for k using b1(3) b2(3) by (cases k) simp_all
  with b1 b2 mid_Nil [OF b2(2)] show thesis
    by (intro that [of b2]) (simp_all add: BalloonErrorPagesFree_def bal_inv_def)
qed

lemma BalloonInflate_spec:
  assumes inv: "bal_inv b" and env: "allocator_ok env" "lock_status_ok env"
  obtains b' where "BalloonInflate env b target = Inr b'" "bal_inv b'"
proof -
  let ?at = "if hypervisorCapabilities b AND BALLOON_BATCHED_2M_CMDS \<noteq> 0 then ALLOC_LPAGE else ALLOC_NOSLEEP"
  let ?rate = "if slowPageAllocationCycles b > 0 then rateAlloc b else BALLOON_NOSLEEP_ALLOC_MAX"
  have m: "mid b [] False" "fallbackChunk b = None" using inv by (simp_all add: bal_inv_def)
  have ops: "?at = ALLOC_LPAGE \<Longrightarrow> balloonOps b = Some OpsBatched" and pos: "0 < batchMaxEntries b"
    using m(1) by (auto simp: mid_def ops_ok_def split: if_splits)
  have "inflate_post (BalloonInflate_loop env b target 0 ?rate 0 BALLOON_SUCCESS ?at)"
    using mid_Nil [OF m(1)] pos ops m(2) env by (intro BalloonInflate_loop_spec [where P = "[]"]) simp_all
  then obtain b1 n a st at' P where lp: "BalloonInflate_loop env b target 0 ?rate 0 BALLOON_SUCCESS ?at = Inr (b1, n, a, st, at')"
    "n = length P" "mid b1 P (at' = ALLOC_LPAGE)" "fallbackChunk b1 = None"
    by (auto simp: inflate_post_def split: sum.splits)
  obtain b2 where b2: "(if n > 0 then bindR (ops_lock env b1 n (at' = ALLOC_LPAGE)) (\<lambda>(b2, st, out). Inr b2) else Inr b1) = Inr b2"
    "mid b2 [] False" "fallbackChunk b2 = None"
  proof (cases "P = []")
    case True
    then show ?thesis using lp mid_Nil that by auto
  next
    case False
    obtain b2 st out where "ops_lock env b1 (length P) (at' = ALLOC_LPAGE) = Inr (b2, st, out)" "mid b2 [] False" "settings b2 = settings b1"
      "fallbackChunk b2 = None"
      by (rule ops_lock_spec [OF lp(3) False env(2) lp(4)])
    with False lp(2) show ?thesis by (intro that [of b2]) simp_all
  qed
  have r: "512 \<le> rateAlloc b2" "rateAlloc b2 \<le> 2048" using b2(2) by (simp_all add: mid_def rates_ok_def)
  obtain b3 where b3: "(if st = BALLOON_SUCCESS \<and> a \<ge> rateAlloc b2
        then if rateAlloc b2 = 0 then Inl DivByZero
             else Inr (b2\<lparr>rateAlloc := min (rateAlloc b2 + a div rateAlloc b2 * BALLOON_RATE_ALLOC_INC) BALLOON_RATE_ALLOC_MAX\<rparr>)
        else Inr b2) = Inr b3" "mid b3 [] False" "fallbackChunk b3 = None"
  proof (cases "st = BALLOON_SUCCESS \<and> a \<ge> rateAlloc b2")
    case True
    let ?r = "min (rateAlloc b2 + a div rateAlloc b2 * BALLOON_RATE_ALLOC_INC) BALLOON_RATE_ALLOC_MAX"
    have "mid (b2\<lparr>rateAlloc := ?r\<rparr>) [] False" using b2(2) r by (intro mid_rate) (auto simp: BALLOON_RATE_ALLOC_MAX_def)
    with True r b2(3) show ?thesis by (intro that [of "b2\<lparr>rateAlloc := ?r\<rparr>"]) auto
  qed (use b2 that in auto)
  obtain b4 where "BalloonErrorPagesFree b3 = Inr b4" "bal_inv b4"
    by (rule BalloonErrorPagesFree_spec [OF b3(2,3)])
  with lp(1) b2(1) b3(1) show thesis
    by (intro that [of b4]) (simp_all add: BalloonInflate_def Let_def)
qed

end
