(* ===== verification/Balloon_Deflate.thy ===== *)
theory Balloon_Deflate
  imports Balloon_Laws
begin

text \<open>
  Deflating the balloon: pages are taken off the chunk lists, collected in the batch and given back to the guest when the monitor
  agrees, or stored again when it does not. The lemmas show that a deflation keeps the invariant of the balloon, and the theory
  closes with the properties of a whole polling cycle and of the release of all pages.
\<close>

section \<open>Storing back and releasing the entries of a batch\<close>

text \<open>Between two unlock calls the pages of the batch are off the lists but still counted.\<close>

definition defl :: "Balloon \<Rightarrow> PageHandle list \<Rightarrow> bool \<Rightarrow> bool" where
  "defl b P l \<longleftrightarrow> accounted b P l \<and> chunks_ok b \<and> ops_ok b P l \<and> rates_ok b \<and>
     nPages b = of_nat (total b False + 512 * total b True) + pages_of l (length P)"

lemma defl_Nil: "defl b [] l \<longleftrightarrow> mid b [] l"
  by (auto simp: defl_def mid_def size_ok_def pages_of_def)

lemma size_ok_unlock:
  assumes "nPages b = of_nat (total b False + 512 * total b True) + pages_of l k" and "nPages b' = nPages b - pages_of l n"
    and t: "total b' l + n = total b l + k" and c: "chunks b' (\<not> l) = chunks b (\<not> l)"
  shows "size_ok b'"
proof -
  have "of_nat (total b' l + n) = (of_nat (total b l + k) :: u32)" by (simp only: t)
  then have "of_nat (total b' l) = (of_nat (total b l) + (of_nat k - of_nat n) :: u32)" by (simp add: algebra_simps)
  moreover have "total b' (\<not> l) = total b (\<not> l)" using c by (simp add: total_def)
  ultimately show ?thesis using assms(1,2)
    by (cases l) (simp_all add: size_ok_def pages_of_def OS_LARGE_2_SMALL_PAGES_def ring_distribs)
qed

definition unlock_inv :: "Balloon \<Rightarrow> PageHandle list \<Rightarrow> bool \<Rightarrow> nat \<Rightarrow> Balloon \<times> nat \<Rightarrow> bool" where
  "unlock_inv b0 P l i s = (case s of (b, n) \<Rightarrow>
     accounted b (drop i P) l \<and> chunks_ok b \<and> rest b = rest b0 \<and> chunks b (\<not> l) = chunks b0 (\<not> l) \<and> errors b = errors b0 \<and>
     total b l + n = total b0 l + i \<and> length (chunks b0 l) \<le> length (chunks b l))"

lemma store_back_inv:
  assumes I: "unlock_inv b0 P l i (b, n)" and i: "i < length P" and hold: "batch_holds b P" and mem: "\<forall>n. e_malloc env n"
  shows "\<exists>b'. store_back env l i b = Inr b' \<and> unlock_inv b0 P l (Suc i) (b', n)"
proof -
  obtain pa where pa: "Balloon_BatchGetPA b i = Inr pa" "OS_ReservedPageGetHandle pa = P ! i"
    using batch_get [OF hold i] by blast
  have acc: "accounted b (P ! i # drop (Suc i) P) l" using I i by (simp add: unlock_inv_def Cons_nth_drop_Suc)
  have ok: "chunks_ok b" and sup: "chunk_supply env b l" using I mem by (simp_all add: unlock_inv_def chunk_supply_def)
  obtain b1 where b1: "BalloonGetChunkOrFallback env b l = Inr b1" "room b1 l" "same_pages b b1 l"
    "accounted b1 (P ! i # drop (Suc i) P) l" "length (chunks b l) \<le> length (chunks b1 l)"
    by (rule get_chunk_or_fallback [OF ok acc sup])
  obtain b2 where b2: "BalloonPageStore b1 l (P ! i) = Inr b2" "chunks_ok b2" "accounted b2 (drop (Suc i) P) l" "rest b2 = rest b1"
    "total b2 l = Suc (total b1 l)" "chunks b2 (\<not> l) = chunks b1 (\<not> l)" "errors b2 = errors b1"
    "length (chunks b2 l) = length (chunks b1 l)"
    by (rule store_page [OF b1(2,4)])
  have "unlock_inv b0 P l (Suc i) (b2, n)"
    using I b1(3,5) b2 by (simp add: unlock_inv_def same_pages_def)
  with pa b1(1) b2(1) show ?thesis by (simp add: store_back_def)
qed

lemma unlock_entry_inv:
  assumes I: "unlock_inv b0 P l i (b, n)" and i: "i < length P" and hold: "batch_holds b P" and mem: "\<forall>n. e_malloc env n"
    and st: "Balloon_BatchGetStatus b i = Inr e"
  shows "\<exists>s'. unlock_entry env l i (b, n) = Inr s' \<and> unlock_inv b0 P l (Suc i) s'"
proof (cases "e = BALLOON_SUCCESS")
  case True
  obtain pa where pa: "Balloon_BatchGetPA b i = Inr pa" "OS_ReservedPageGetHandle pa = P ! i"
    using batch_get [OF hold i] by blast
  have acc: "accounted b (P ! i # drop (Suc i) P) l" using I i by (simp add: unlock_inv_def Cons_nth_drop_Suc)
  obtain b1 where b1: "OS_ReservedPageFree b (P ! i) l = Inr b1" "accounted b1 (drop (Suc i) P) l"
    "b1 = b\<lparr>reserved := (reserved b)(P ! i := None)\<rparr>"
    using free_pending [OF acc] by blast
  have "unlock_inv b0 P l (Suc i) (b1, n + 1)"
    using I b1(2) by (simp add: unlock_inv_def b1(3) chunks_ok_def chunk_list_ok_def rest_def total_def)
  with True pa st b1(1) show ?thesis by (simp add: unlock_entry_def free_entry_def)
next
  case False
  with store_back_inv [OF I i hold mem] st show ?thesis by (auto simp: unlock_entry_def)
qed

lemma unlock_fold:
  assumes f: "\<And>i s. i < length P \<Longrightarrow> unlock_inv b0 P l i s \<Longrightarrow> batch_holds (fst s) P \<Longrightarrow> batchPage (fst s) = batchPage b0 \<Longrightarrow>
      \<exists>s'. g i s = Inr s' \<and> unlock_inv b0 P l (Suc i) s'"
    and b0: "accounted b0 P l" "chunks_ok b0" "batch_holds b0 P"
  obtains b n where "foldR g [0..<length P] (b0, 0) = Inr (b, n)" "unlock_inv b0 P l (length P) (b, n)"
proof -
  have "\<exists>s'. g i s = Inr s' \<and> unlock_inv b0 P l (Suc i) s'" if i: "i < length P" and I: "unlock_inv b0 P l i s" for i s
  proof -
    have "batchPage (fst s) = batchPage b0" using I by (cases s) (simp add: unlock_inv_def rest_def)
    with f [OF i I] batch_holds_cong b0(3) show ?thesis by blast
  qed
  moreover have "unlock_inv b0 P l 0 (b0, 0)" using b0 by (simp add: unlock_inv_def)
  ultimately show thesis
    using foldR_upt [of "unlock_inv b0 P l" "(b0, 0)" "length P" g] that by auto
qed

text \<open>Storing back everything is the fold above with a count that stays zero.\<close>

lemma store_back_fold:
  "foldR (store_back env l) is b = Inr b' \<longleftrightarrow>
   foldR (\<lambda>i (b, n :: nat). bindR (store_back env l i b) (\<lambda>b1. Inr (b1, n))) is (b, n) = Inr (b', n)"
proof (induction "is" arbitrary: b)
  case (Cons i "is")
  then show ?case by (cases "store_back env l i b") simp_all
qed simp

section \<open>One unlock call\<close>

lemma BalloonUnlockBatched_spec:
  assumes m: "defl b P l" and ops: "balloonOps b = Some OpsBatched" and mem: "\<forall>n. e_malloc env n"
  obtains b' st out where "BalloonUnlockBatched env b (length P) l = Inr (b', st, out)" "mid b' [] l'" "settings b' = settings b"
    "fallbackChunk b' = None" "length (chunks b l) \<le> length (chunks b' l)" "errors b' = errors b"
proof -
  have c: "accounted b P l" "chunks_ok b" "batch_clean b P" "rates_ok b" "batchMaxEntries b = 512"
    and np: "nPages b = of_nat (total b False + 512 * total b True) + pages_of l (length P)"
    using m ops by (auto simp: defl_def ops_ok_def)
  let ?r = "e_monitor env (n_mon b) (if l then CMD_BATCHED_2M_UNLOCK else CMD_BATCHED_UNLOCK)
      (PA_2_PPN (OS_ReservedPageGetPA (pageHandle b))) (of_nat (length P))"
  let ?c = "b\<lparr>n_mon := n_mon b + 1, resetFlag := (r_status ?r = BALLOON_ERROR_RESET \<or> resetFlag b),
      batchPage := map_option (monitor_marks (r_entries ?r) (length P)) (batchPage b)\<rparr>"
  have cmd: "Backdoor_MonitorUnlockPagesBatched env b (PA_2_PPN (OS_ReservedPageGetPA (pageHandle b))) (length P) l =
      (?c, r_status ?r, Some (r_out ?r))"
    by (simp add: Backdoor_MonitorUnlockPagesBatched_def batched_cmd_def BackdoorCmd_def Let_def)
  have bp: "batchPage ?c = map_option (monitor_marks (r_entries ?r) (length P)) (batchPage b)" by simp
  note mb = marked_batch [OF c(3) bp]
  have c0: "accounted ?c P l" "chunks_ok ?c" using c(1,2) by (simp_all add: chunks_ok_def chunk_list_ok_def)
  have fin: "mid (d\<lparr>nPages := nPages d - pages_of l n, fallbackChunk := None\<rparr>) [] l' \<and> settings d = settings b \<and>
      length (chunks b l) \<le> length (chunks d l) \<and> errors d = errors b"
    if I: "unlock_inv ?c P l (length P) (d, n)" for d n
  proof -
    let ?b = "d\<lparr>nPages := nPages d - pages_of l n, fallbackChunk := None\<rparr>"
    have se: "settings d = settings b" using I by (simp add: unlock_inv_def rest_def settings_def)
    have "size_ok ?b"
      by (rule size_ok_unlock [OF np, of _ n]) (use I in \<open>simp_all add: unlock_inv_def rest_def total_def\<close>)
    moreover have "batch_clean ?b []" using I mb(1) by (auto simp: unlock_inv_def batch_clean_def batch_holds_def rest_def)
    ultimately have "mid ?b [] l"
      using I ops c(4,5) settings_ops [OF se]
      by (simp add: mid_def ops_ok_def unlock_inv_def chunks_ok_def chunk_list_ok_def rates_ok_def)
    then show ?thesis using mid_Nil se I by (auto simp: unlock_inv_def)
  qed
  show thesis
  proof (cases "r_status ?r = BALLOON_SUCCESS")
    case True
    obtain d n where d: "foldR (unlock_entry env l) [0..<length P] (?c, 0) = Inr (d, n)" "unlock_inv ?c P l (length P) (d, n)"
    proof (rule unlock_fold [OF _ c0 mb(1)])
      fix i s
      assume a: "i < length P" "unlock_inv ?c P l i s" "batch_holds (fst s) P" "batchPage (fst s) = batchPage ?c"
      obtain d n where s: "s = (d, n)" by (cases s)
      have "Balloon_BatchGetStatus d i = Inr (uint (take_bit 5 (r_entries ?r i)))"
        using mb(2) [OF a(1)] a(4) by (simp add: s Balloon_BatchGetStatus_def deref_batch_def)
      with unlock_entry_inv [OF a(2) [unfolded s] a(1) _ mem] a(3)
      show "\<exists>s'. unlock_entry env l i s = Inr s' \<and> unlock_inv ?c P l (Suc i) s'" by (simp add: s)
    qed
    let ?b = "d\<lparr>nPages := nPages d - pages_of l n, fallbackChunk := None\<rparr>"
    have "BalloonUnlockBatched env b (length P) l = Inr (?b, r_status ?r, Some (r_out ?r))"
      unfolding BalloonUnlockBatched_def Let_def cmd using True d(1) by simp
    with fin [OF d(2)] show thesis by (intro that [of ?b]) (simp_all add: settings_def)
  next
    case False
    let ?g = "\<lambda>i (b, n :: nat). bindR (store_back env l i b) (\<lambda>b1. Inr (b1, n))"
    obtain d n where d: "foldR ?g [0..<length P] (?c, 0) = Inr (d, n)" "unlock_inv ?c P l (length P) (d, n)"
      by (rule unlock_fold [OF _ c0 mb(1), of ?g]) (use store_back_inv [OF _ _ _ mem] in fastforce)
    have "n = 0"
    proof -
      have "foldR ?g is (x, k) = Inr (y, k') \<Longrightarrow> k' = k" for "is" x y k k'
        by (induction "is" arbitrary: x) (auto simp: bindR_eq_Inr)
      with d(1) show ?thesis by blast
    qed
    then have f: "foldR (store_back env l) [0..<length P] ?c = Inr d" using d(1) store_back_fold by simp
    let ?b = "d\<lparr>fallbackChunk := None\<rparr>"
    have "BalloonUnlockBatched env b (length P) l = Inr (?b, r_status ?r, Some (r_out ?r))"
      unfolding BalloonUnlockBatched_def Let_def cmd using False f by simp
    moreover have "d\<lparr>nPages := nPages d - pages_of l n, fallbackChunk := None\<rparr> = ?b" using \<open>n = 0\<close> by (simp add: pages_of_def)
    ultimately show thesis using fin [OF d(2)] by (intro that [of ?b]) (simp_all add: settings_def)
  qed
qed

lemma unlock_page_frame:
  assumes "Backdoor_MonitorUnlockPage env b ppn = (b', st, out)"
  obtains x y where "b' = b\<lparr>n_mon := x, resetFlag := y\<rparr>"
proof (cases "ucast (ucast ppn :: u32) = ppn")
  case True
  with assms show thesis by (auto simp: Backdoor_MonitorUnlockPage_def BackdoorCmd_def Let_def intro: that)
next
  case False
  with assms show thesis by (intro that [where x = "n_mon b" and y = "resetFlag b"]) (simp add: Backdoor_MonitorUnlockPage_def)
qed

lemma BalloonUnlock_spec:
  assumes m: "defl b [pageHandle b] False" and ops: "balloonOps b = Some OpsBasic" and mem: "\<forall>n. e_malloc env n"
  obtains b' st out where "BalloonUnlock env b = Inr (b', st, out)" "mid b' [] False" "settings b' = settings b"
    "fallbackChunk b' = None" "length (chunks b False) \<le> length (chunks b' False)" "errors b' = errors b"
proof -
  have c: "accounted b [pageHandle b] False" "chunks_ok b" "rates_ok b"
    and oo: "batchMaxEntries b = 1" "hypervisorCapabilities b AND BALLOON_BATCHED_2M_CMDS = 0" "chunks b True = []"
    and np: "nPages b = of_nat (total b False + 512 * total b True) + pages_of False 1"
    using m ops by (auto simp: defl_def ops_ok_def)
  obtain b1 st out where ul: "Backdoor_MonitorUnlockPage env b (PA_2_PPN (OS_ReservedPageGetPA (pageHandle b))) = (b1, st, out)"
    by (metis prod_cases3)
  obtain x y where b1: "b1 = b\<lparr>n_mon := x, resetFlag := y\<rparr>" by (rule unlock_page_frame [OF ul])
  have c1: "accounted b1 [pageHandle b1] False" "chunks_ok b1" using c(1,2) by (simp_all add: b1 chunks_ok_def chunk_list_ok_def)
  have fin: "mid (d\<lparr>pageHandle := 0, fallbackChunk := None\<rparr>) [] False"
    if "accounted (d\<lparr>pageHandle := 0\<rparr>) [] False" "chunks_ok d" "settings d = settings b" "chunks d True = []"
      "total d False + n = total b False + 1" "nPages d = nPages b - pages_of False n" for d n
  proof -
    have "size_ok d" by (rule size_ok_unlock [OF np that(6,5)]) (simp add: that(4) oo(3))
    with that settings_ops [OF that(3)] ops oo c(3) show ?thesis
      by (simp add: mid_def ops_ok_def chunks_ok_def chunk_list_ok_def size_ok_def total_def rates_ok_def)
  qed
  show thesis
  proof (cases "st = BALLOON_SUCCESS")
    case True
    obtain b2 where b2: "OS_ReservedPageFree b1 (pageHandle b1) False = Inr b2" "accounted (b2\<lparr>pageHandle := 0\<rparr>) [] False"
      "b2 = b1\<lparr>reserved := (reserved b1)(pageHandle b1 := None)\<rparr>"
      by (rule free_single [OF c1(1)]) (simp add: b1 ops)
    let ?d = "b2\<lparr>nPages := nPages b2 - 1\<rparr>"
    have "mid (?d\<lparr>pageHandle := 0, fallbackChunk := None\<rparr>) [] False"
    proof (rule fin [of ?d 1])
      show "accounted (?d\<lparr>pageHandle := 0\<rparr>) [] False"
        using b2(2) by (simp add: accounted_def held_pages_def own_page_def)
    qed (use c(2) oo in \<open>simp_all add: b2(3) b1 chunks_ok_def chunk_list_ok_def settings_def total_def pages_of_def\<close>)
    with True ul b2(1) show thesis
      by (intro that [of "?d\<lparr>pageHandle := 0, fallbackChunk := None\<rparr>"]) (simp_all add: BalloonUnlock_def Let_def b2(3) b1 settings_def)
  next
    case False
    have sup: "chunk_supply env b1 False" using mem by (simp add: chunk_supply_def)
    obtain b2 where b2: "BalloonGetChunkOrFallback env b1 False = Inr b2" "room b2 False" "same_pages b1 b2 False"
      "accounted b2 [pageHandle b1] False" "length (chunks b1 False) \<le> length (chunks b2 False)"
      by (rule get_chunk_or_fallback [OF c1(2,1) sup])
    have ph: "pageHandle b2 = pageHandle b1" using b2(3) by (simp add: same_pages_def rest_def)
    obtain b3 where b3: "BalloonPageStore b2 False (pageHandle b1) = Inr b3" "chunks_ok b3" "accounted b3 [] False" "rest b3 = rest b2"
      "total b3 False = Suc (total b2 False)" "chunks b3 (\<not> False) = chunks b2 (\<not> False)" "length (chunks b3 False) = length (chunks b2 False)"
      "errors b3 = errors b2"
      by (rule store_page [OF b2(2,4)])
    have f: "settings b3 = settings b" "balloonOps b3 = Some OpsBasic" "nPages b3 = nPages b" "total b2 False = total b False"
      "chunks b3 True = []" "errors b3 = errors b"
      using b2(3) b3(4,6,8) ops oo(3) by (simp_all add: same_pages_def rest_def settings_def b1 total_def)
    have "mid (b3\<lparr>pageHandle := 0, fallbackChunk := None\<rparr>) [] False"
      by (rule fin [of b3 0]) (use b3 f in \<open>simp_all add: accounted_basic pages_of_def\<close>)
    with False ul b2(1) b3(1) ph f(1,6) b2(5) b3(7) show thesis
      by (intro that [of "b3\<lparr>pageHandle := 0, fallbackChunk := None\<rparr>"]) (simp_all add: BalloonUnlock_def Let_def b1 settings_def)
  qed
qed

lemma ops_unlock_spec:
  assumes m: "defl b P l" and P: "P \<noteq> []" and mem: "\<forall>n. e_malloc env n"
  obtains b' st out where "ops_unlock env b (length P) l = Inr (b', st, out)" "mid b' [] l'" "settings b' = settings b"
    "fallbackChunk b' = None" "length (chunks b l) \<le> length (chunks b' l)" "errors b' = errors b"
proof -
  consider (basic) "balloonOps b = Some OpsBasic" "P = [pageHandle b]" "\<not> l" | (batched) "balloonOps b = Some OpsBatched"
    using m P by (auto simp: defl_def ops_ok_def)
  then show thesis
  proof cases
    case basic
    obtain b' st out where b': "BalloonUnlock env b = Inr (b', st, out)" "mid b' [] False" "settings b' = settings b"
      "fallbackChunk b' = None" "length (chunks b False) \<le> length (chunks b' False)" "errors b' = errors b"
      by (rule BalloonUnlock_spec [OF _ basic(1) mem]) (use m basic in auto)
    then show thesis using basic by (intro that [of b' st out]) (simp_all add: ops_unlock_def mid_Nil)
  next
    case batched
    obtain b' st out where "BalloonUnlockBatched env b (length P) l = Inr (b', st, out)" "mid b' [] l'" "settings b' = settings b"
      "fallbackChunk b' = None" "length (chunks b l) \<le> length (chunks b' l)" "errors b' = errors b"
      by (rule BalloonUnlockBatched_spec [OF m batched mem])
    then show thesis using batched by (intro that [of b' st out]) (simp_all add: ops_unlock_def)
  qed
qed

section \<open>The deflation loop\<close>

text \<open>Taking the last page out of chunk \<open>i\<close>.\<close>

definition pop_page :: "Balloon \<Rightarrow> bool \<Rightarrow> nat \<Rightarrow> Balloon" where
  "pop_page b l i =
     (let cs = chunks b l; c = cs ! i
      in if butlast c = []
         then b\<lparr>chunks := (chunks b)(l := take i cs @ drop (Suc i) cs), fallbackChunk := Some [],
                nChunks := (nChunks b)(l := nChunks b l - 1)\<rparr>
         else b\<lparr>chunks := (chunks b)(l := cs[i := butlast c])\<rparr>)"

lemma pop_page_spec:
  assumes acc: "accounted b P l" and ok: "chunks_ok b" and i: "i < length (chunks b l)"
  defines "h \<equiv> last (chunks b l ! i)"
  shows "accounted (pop_page b l i) (P @ [h]) l" "chunks_ok (pop_page b l i)" "unat h < 2 ^ 52"
    "total b l = Suc (total (pop_page b l i) l)" "chunks (pop_page b l i) (\<not> l) = chunks b (\<not> l)"
proof -
  let ?cs = "chunks b l" and ?b = "pop_page b l i"
  obtain c ds es where cs: "?cs = ds @ c # es" "length ds = i" "c = ?cs ! i"
    by (rule that [OF id_take_nth_drop [OF i]]) (use i in simp_all)
  have "c \<in> set ?cs" by (simp add: cs(1))
  then have c: "c \<noteq> []" "length c \<le> 1000" using ok by (simp_all add: chunks_ok_def chunk_list_ok_def)
  then obtain d where d: "c = d @ [h]" using cs(3) by (metis append_butlast_last_id h_def)
  have e: "?cs = ds @ (d @ [h]) # es" "i = length ds" using cs d by simp_all
  have new: "chunks ?b l = ds @ (if d = [] then [] else [d]) @ es" "chunks ?b (\<not> l) = chunks b (\<not> l)"
    "reserved ?b = reserved b" "errors ?b = errors b" "balloonOps ?b = balloonOps b" "pageHandle ?b = pageHandle b"
    by (simp_all add: pop_page_def Let_def e butlast_append)
  have nc: "nChunks ?b l = nChunks b l - (if d = [] then 1 else 0)" "nChunks ?b (\<not> l) = nChunks b (\<not> l)"
    by (simp_all add: pop_page_def Let_def e butlast_append)
  show a: "accounted ?b (P @ [h]) l"
  proof (rule accounted_move [OF acc new(3,5,6)])
    fix k
    show "mset (concat (chunks ?b k)) + mset (errors ?b k) + (if k = l then mset (P @ [h]) else {#}) =
        mset (concat (chunks b k)) + mset (errors b k) + (if k = l then mset P else {#})"
    proof (cases "k = l")
      case True
      then show ?thesis using new(1,4) cs(1) d by simp
    next
      case False
      then have "k = (\<not> l)" by auto
      then show ?thesis using new(2,4) by simp
    qed
  qed
  show "chunks_ok ?b"
  proof -
    have both: "chunk_list_ok b l" "chunk_list_ok b (\<not> l)" using ok by (simp_all add: chunks_ok_def)
    then have "chunk_list_ok ?b l" using new(1) nc(1) e(1) c(2) d by (auto simp: chunk_list_ok_def)
    moreover have "chunk_list_ok ?b (\<not> l)" using both(2) new(2) nc(2) by (simp add: chunk_list_ok_def)
    ultimately show ?thesis by (cases l) (simp_all add: chunks_ok_def all_bool_eq)
  qed
  have "reserved ?b h = Some l" using accounted_pending [OF a] by simp
  then show "unat h < 2 ^ 52" using a unfolding accounted_def by blast
  show "total b l = Suc (total ?b l)" "chunks ?b (\<not> l) = chunks b (\<not> l)" using new(1,2) cs(1) d by (auto simp: total_def)
qed

lemma pop_page_shape:
  obtains cs nc fb where "pop_page b l i =
      b\<lparr>chunks := cs, nChunks := nc, fallbackChunk := fb, n_alloc := n_alloc b, reserved := reserved b\<rparr>"
    "cs (\<not> l) = chunks b (\<not> l)" "butlast (chunks b l ! i) \<noteq> [] \<Longrightarrow> length (cs l) = length (chunks b l)"
proof (cases "butlast (chunks b l ! i) = []")
  case True
  then show thesis
    by (intro that [where cs = "(chunks b)(l := take i (chunks b l) @ drop (Suc i) (chunks b l))" and
          nc = "(nChunks b)(l := nChunks b l - 1)" and fb = "Some []"])
      (simp_all add: pop_page_def Let_def)
next
  case False
  then show thesis
    by (intro that [where cs = "(chunks b)(l := (chunks b l)[i := butlast (chunks b l ! i)])" and nc = "nChunks b" and
          fb = "fallbackChunk b"])
      (simp_all add: pop_page_def Let_def)
qed

lemma deflate_add:
  assumes m: "defl b P l" and i: "i < length (chunks b l)" and len: "length P < batchMaxEntries b"
  obtains b2 where "ops_addPage (pop_page b l i) (length P) (last (chunks b l ! i)) = Inr b2"
    "defl b2 (P @ [last (chunks b l ! i)]) l" "settings b2 = settings b"
    "butlast (chunks b l ! i) \<noteq> [] \<Longrightarrow> length (chunks b2 l) = length (chunks b l)" "errors b2 = errors b"
proof -
  let ?h = "last (chunks b l ! i)" and ?b = "pop_page b l i"
  have c: "accounted b P l" "chunks_ok b" "ops_ok b P l" "rates_ok b"
    and np: "nPages b = of_nat (total b False + 512 * total b True) + pages_of l (length P)"
    using m by (simp_all add: defl_def)
  note pp = pop_page_spec [OF c(1,2) i]
  have "total ?b (\<not> l) = total b (\<not> l)" using pp(5) by (simp add: total_def)
  then have np': "nPages b = of_nat (total ?b False + 512 * total ?b True) + pages_of l (Suc (length P))"
    using np pp(4) by (cases l) (simp_all add: pages_of_def OS_LARGE_2_SMALL_PAGES_def algebra_simps)
  have basic: "l \<Longrightarrow> balloonOps b = Some OpsBatched" using c(3) i by (auto simp: ops_ok_def)
  obtain cs nc fb where sh: "?b = b\<lparr>chunks := cs, nChunks := nc, fallbackChunk := fb, n_alloc := n_alloc b, reserved := reserved b\<rparr>"
    "cs (\<not> l) = chunks b (\<not> l)" "butlast (chunks b l ! i) \<noteq> [] \<Longrightarrow> length (cs l) = length (chunks b l)"
    by (rule pop_page_shape [of b l i]) blast
  obtain b2 where b2: "ops_addPage ?b (length P) ?h = Inr b2" "accounted b2 (P @ [?h]) l" "chunks_ok b2" "ops_ok b2 (P @ [?h]) l"
    "settings b2 = settings b" "b2 = ?b\<lparr>pageHandle := pageHandle b2, batchPage := batchPage b2\<rparr>"
    by (rule ops_addPage_spec [OF c(3) sh(2) len pp(3) sh(1) pp(1,2) basic])
  have f: "chunks b2 = chunks ?b" "nPages b2 = nPages b" "errors b2 = errors b" by (subst b2(6), simp add: sh(1))+
  have "defl b2 (P @ [?h]) l"
    using b2(2-4) c(4) np' settings_ops [OF b2(5)] by (simp add: defl_def f total_def)
  with b2(1,5) sh(3) f(1,3) show thesis by (intro that [of b2]) (simp_all add: sh(1))
qed

definition deflate_post :: "Balloon \<Rightarrow> bool \<Rightarrow> (Balloon \<times> nat \<times> int) res \<Rightarrow> bool" where
  "deflate_post b0 l r = (case r of Inl e \<Rightarrow> False
     | Inr (b, n, status) \<Rightarrow> (\<exists>P. n = length P \<and> defl b P l \<and> (P = [] \<longrightarrow> fallbackChunk b = None)) \<and>
         settings b = settings b0 \<and> errors b = errors b0)"

lemma BalloonDeflateInt_loop_spec:
  assumes "defl b P l" and "length P = n" and "n < batchMaxEntries b" and "P = [] \<Longrightarrow> fallbackChunk b = None"
    and "\<forall>k. chunk = Some k \<longrightarrow> k < length (chunks b l)" and "\<forall>n. e_malloc env n"
  shows "deflate_post b l (BalloonDeflateInt_loop env l rate b target n deallocations status chunk)"
  using assms
proof (induction env l rate b target n deallocations status chunk arbitrary: P rule: BalloonDeflateInt_loop.induct)
  case (1 env l rate b target n deallocations status chunk)
  note m = "1.prems"(1) and len = "1.prems"(2) and lt = "1.prems"(3) and fb = "1.prems"(4) and ck = "1.prems"(5) and mem = "1.prems"(6)
  let ?c = "nChunks b l > 0 \<and> nPages b > target \<and> of_nat n < nPages b - target"
  let ?k = "case chunk of None \<Rightarrow> length (chunks b l) - 1 | Some k \<Rightarrow> k"
  let ?i = "length (chunks b l) - 1 - ?k"
  note unfold = BalloonDeflateInt_loop.simps [of env l rate b target n deallocations status chunk]
  show ?case
  proof (cases ?c)
    case False
    then show ?thesis using m len fb by (subst unfold) (auto simp: deflate_post_def)
  next
    case c: True
    have "chunk_list_ok b l" using m by (simp add: defl_def chunks_ok_def)
    then have ne: "chunks b l \<noteq> []" and all: "\<forall>d \<in> set (chunks b l). d \<noteq> []" using c by (auto simp: chunk_list_ok_def)
    have k: "?k < length (chunks b l)" using ck ne by (cases chunk) auto
    then have i: "?i < length (chunks b l)" by linarith
    then have cne: "chunks b l ! ?i \<noteq> []" using all nth_mem by blast
    have guard: "\<not> (chunks b l = [] \<or> length (chunks b l) \<le> ?k \<or> chunks b l ! ?i = [])" using ne k cne by simp
    let ?h = "last (chunks b l ! ?i)"
    obtain b2 where b2: "ops_addPage (pop_page b l ?i) (length P) ?h = Inr b2" "defl b2 (P @ [?h]) l" "settings b2 = settings b"
      "butlast (chunks b l ! ?i) \<noteq> [] \<Longrightarrow> length (chunks b2 l) = length (chunks b l)" "errors b2 = errors b"
      by (rule deflate_add [OF m i]) (use len lt in auto)
    note s2 = settings_ops [OF b2(3)]
    let ?next = "if n + 1 = batchMaxEntries b2
                 then bindR (ops_unlock env b2 (n + 1) l) (\<lambda>(b3, st, out).
                        Inr (b3, 0, st, new_target target out, st \<noteq> BALLOON_SUCCESS))
                 else Inr (b2, n + 1, status, target, False)"
    have "\<exists>b3 n3 st3 t3 stop P3. ?next = Inr (b3, n3, st3, t3, stop) \<and> defl b3 P3 l \<and> length P3 = n3 \<and> n3 < batchMaxEntries b3 \<and>
        (P3 = [] \<longrightarrow> fallbackChunk b3 = None) \<and> length (chunks b2 l) \<le> length (chunks b3 l) \<and> settings b3 = settings b \<and> errors b3 = errors b"
    proof (cases "n + 1 = batchMaxEntries b2")
      case True
      obtain b3 st out where b3: "ops_unlock env b2 (length (P @ [?h])) l = Inr (b3, st, out)" "mid b3 [] l" "settings b3 = settings b2"
        "fallbackChunk b3 = None" "length (chunks b2 l) \<le> length (chunks b3 l)" "errors b3 = errors b2"
        by (rule ops_unlock_spec [OF b2(2) _ mem]) simp_all
      with True len s2 b2(3,5) settings_ops [OF b3(3)] defl_Nil [of b3 l] show ?thesis by (auto intro!: exI [of _ "[]"])
    next
      case False
      with b2 len lt s2 show ?thesis by (auto intro!: exI [of _ "P @ [?h]"])
    qed
    then obtain b3 n3 st3 t3 stop P3 where b3: "?next = Inr (b3, n3, st3, t3, stop)" "defl b3 P3 l" "length P3 = n3"
      "n3 < batchMaxEntries b3" "P3 = [] \<longrightarrow> fallbackChunk b3 = None" "length (chunks b2 l) \<le> length (chunks b3 l)"
      "settings b3 = settings b" "errors b3 = errors b" by blast
    let ?ck = "if butlast (chunks b l ! ?i) = [] then None else Some ?k"
    have ck3: "\<forall>k. ?ck = Some k \<longrightarrow> k < length (chunks b3 l)" using b2(4) b3(6) k by auto
    have pop: "(if butlast (chunks b l ! ?i) = []
          then b\<lparr>chunks := (chunks b)(l := take ?i (chunks b l) @ drop (Suc ?i) (chunks b l)), fallbackChunk := Some [],
                 nChunks := (nChunks b)(l := nChunks b l - 1)\<rparr>
          else b\<lparr>chunks := (chunks b)(l := (chunks b l)[?i := butlast (chunks b l ! ?i)])\<rparr>) = pop_page b l ?i"
      by (simp add: pop_page_def Let_def)
    have b2': "ops_addPage (pop_page b l ?i) n ?h = Inr b2" using b2(1) len by simp
    have halt: "deflate_post b l (Inr (b3, n3, st3))" using b3 by (auto simp: deflate_post_def)
    have ih: "deflate_post b l (BalloonDeflateInt_loop env l rate b3 t3 n3 (deallocations + 1) st3 ?ck)"
      if "\<not> (stop \<or> deallocations + 1 \<ge> rate)"
      using "1.IH" [OF c refl refl refl refl guard refl refl b2' [folded pop] b3(1) refl refl refl refl that b3(2,3,4) _ ck3 mem] b3(5)
      unfolding deflate_post_def b3(7,8) by blast
    show ?thesis
      using c guard b2' b3(1) halt ih unfolding pop [symmetric] by (subst unfold) (auto simp: Let_def)
  qed
qed

lemma mid_rateFree: "mid b P l \<Longrightarrow> 512 \<le> r \<Longrightarrow> r \<le> 16384 \<Longrightarrow> mid (b\<lparr>rateFree := r\<rparr>) P l"
  by (simp add: mid_def chunks_ok_def chunk_list_ok_def size_ok_def total_def ops_ok_def batch_clean_def rates_ok_def)

lemma BalloonDeflateInt_spec:
  assumes inv: "bal_inv b" and mem: "\<forall>n. e_malloc env n"
  obtains b' where "BalloonDeflateInt env b target l = Inr b'" "bal_inv b'"
proof (cases "nChunks b l = 0")
  case True
  with inv show thesis by (intro that [of b]) (simp_all add: BalloonDeflateInt_def)
next
  case False
  have m: "defl b [] l" "fallbackChunk b = None" and er: "\<forall>k. errors b k = []"
    using inv mid_Nil by (auto simp: bal_inv_def defl_Nil)
  have pos: "0 < batchMaxEntries b" using m(1) by (auto simp: defl_def ops_ok_def)
  have "deflate_post b l (BalloonDeflateInt_loop env l (rateFree b) b target 0 0 BALLOON_SUCCESS None)"
    using m pos mem by (intro BalloonDeflateInt_loop_spec [where P = "[]"]) simp_all
  then obtain b1 n st P where lp: "BalloonDeflateInt_loop env l (rateFree b) b target 0 0 BALLOON_SUCCESS None = Inr (b1, n, st)"
    "n = length P" "defl b1 P l" "P = [] \<Longrightarrow> fallbackChunk b1 = None" "errors b1 = errors b"
    by (auto simp: deflate_post_def split: sum.splits)
  obtain b2 where b2: "(if n \<noteq> 0 then bindR (ops_unlock env b1 n l) (\<lambda>(b2, st, out). Inr b2) else Inr b1) = Inr b2"
    "mid b2 [] False" "fallbackChunk b2 = None" "errors b2 = errors b"
  proof (cases "P = []")
    case True
    then show ?thesis using lp mid_Nil defl_Nil that by auto
  next
    case False
    obtain b2 st out where "ops_unlock env b1 (length P) l = Inr (b2, st, out)" "mid b2 [] False" "settings b2 = settings b1"
      "fallbackChunk b2 = None" "length (chunks b1 l) \<le> length (chunks b2 l)" "errors b2 = errors b1"
      by (rule ops_unlock_spec [OF lp(3) False mem])
    with False lp(2,5) show ?thesis by (intro that [of b2]) simp_all
  qed
  have "512 \<le> rateFree b2" "rateFree b2 \<le> 16384" using b2(2) by (simp_all add: mid_def rates_ok_def)
  then have "mid (b2\<lparr>rateFree := min (rateFree b2 + BALLOON_RATE_FREE_INC) BALLOON_RATE_FREE_MAX\<rparr>) [] False"
    "mid (b2\<lparr>rateFree := max (rateFree b2 div 2) BALLOON_RATE_FREE_MIN\<rparr>) [] False"
    using b2(2) div_le_dividend [of "rateFree b2" 2]
    by (auto intro!: mid_rateFree simp: BALLOON_RATE_FREE_MAX_def BALLOON_RATE_FREE_MIN_def)
  with False lp(1) b2 er show thesis
    by (intro that [of "if st = BALLOON_SUCCESS then b2\<lparr>rateFree := min (rateFree b2 + BALLOON_RATE_FREE_INC) BALLOON_RATE_FREE_MAX\<rparr>
        else b2\<lparr>rateFree := max (rateFree b2 div 2) BALLOON_RATE_FREE_MIN\<rparr>"])
      (simp_all add: BalloonDeflateInt_def bal_inv_def)
qed

lemma BalloonDeflate_spec:
  assumes "bal_inv b" and mem: "\<forall>n. e_malloc env n"
  obtains b' where "BalloonDeflate env b target = Inr b'" "bal_inv b'"
proof -
  obtain b1 where b1: "BalloonDeflateInt env b target False = Inr b1" "bal_inv b1"
    by (rule BalloonDeflateInt_spec [OF assms])
  obtain b2 where "BalloonDeflateInt env b1 target True = Inr b2" "bal_inv b2"
    by (rule BalloonDeflateInt_spec [OF b1(2) mem])
  with b1 show thesis by (intro that [of b2]) (simp_all add: BalloonDeflate_def)
qed

lemma BalloonAdjustSize_spec:
  assumes inv: "bal_inv b" and env: "allocator_ok env" "lock_status_ok env" "\<forall>n. e_malloc env n"
  shows "\<exists>b'. BalloonAdjustSize env b target = Inr b' \<and> bal_inv b'"
  using BalloonInflate_spec [OF inv env(1,2)] BalloonDeflate_spec [OF inv env(3)] inv
  by (auto simp: BalloonAdjustSize_def) metis+

section \<open>Releasing everything\<close>

lemma BalloonPageFree_spec:
  assumes acc: "accounted b [] l" and ok: "chunks_ok b" and ne: "chunks b l \<noteq> []"
  obtains b' where "BalloonPageFree b l = Inr b'" "accounted b' [] l" "chunks_ok b'" "total b l = Suc (total b' l)"
    "chunks b' (\<not> l) = chunks b (\<not> l)" "errors b' = errors b" "rest b' = rest (b\<lparr>nPages := nPages b - 1\<rparr>)"
    "fallbackChunk b' = fallbackChunk b" "resetFlag b' = resetFlag b"
proof -
  have i: "0 < length (chunks b l)" using ne by simp
  let ?h = "last (chunks b l ! 0)" and ?p = "pop_page b l 0"
  note pp = pop_page_spec [OF acc ok i]
  obtain b2 where b2: "OS_ReservedPageFree ?p ?h l = Inr b2" "accounted b2 [] l" "b2 = ?p\<lparr>reserved := (reserved ?p)(?h := None)\<rparr>"
    using free_pending [of ?p ?h "[]" l] pp(1) by auto
  have r: "reserved ?p = reserved b" by (simp add: pop_page_def Let_def)
  have "OS_ReservedPageFree b ?h l = Inr (b\<lparr>reserved := (reserved b)(?h := None)\<rparr>)"
    using b2(1) r by (simp add: OS_ReservedPageFree_def split: if_splits)
  let ?b = "b2\<lparr>nPages := nPages b - 1, fallbackChunk := fallbackChunk b\<rparr>"
  obtain c cs where c: "chunks b l = c # cs" using ne by (cases "chunks b l") auto
  have "chunk_list_ok b l" using ok by (simp add: chunks_ok_def)
  then have "c \<noteq> []" using c by (simp add: chunk_list_ok_def)
  have "BalloonPageFree b l = Inr ?b"
    using \<open>OS_ReservedPageFree b ?h l = _\<close> c \<open>c \<noteq> []\<close> r
    by (simp add: BalloonPageFree_def b2(3) pop_page_def Let_def BalloonChunkDestroyEmpty_def split: list.splits)
  moreover have "chunks_ok ?b" using pp(2) by (simp add: b2(3) chunks_ok_def chunk_list_ok_def)
  moreover have "rest ?b = rest (b\<lparr>nPages := nPages b - 1\<rparr>)" "errors ?b = errors b" "resetFlag ?b = resetFlag b"
    by (simp_all add: b2(3) pop_page_def Let_def rest_def)
  ultimately show thesis using b2(2) pp(4,5) by (intro that [of ?b]) (simp_all add: b2(3) total_def)
qed

lemma Balloon_DeallocateChunkList_spec:
  assumes "accounted b [] l" and "chunks_ok b"
  shows "\<exists>b'. Balloon_DeallocateChunkList b l = Inr b' \<and> accounted b' [] l \<and> chunks_ok b' \<and> chunks b' l = [] \<and>
    chunks b' (\<not> l) = chunks b (\<not> l) \<and> errors b' = errors b \<and> rest b' = rest (b\<lparr>nPages := nPages b - of_nat (total b l)\<rparr>) \<and>
    fallbackChunk b' = fallbackChunk b \<and> resetFlag b' = resetFlag b"
  using assms
proof (induction b l rule: Balloon_DeallocateChunkList.induct)
  case (1 b l)
  note unfold = Balloon_DeallocateChunkList.simps [of b l]
  have n: "nChunks b l = int (length (chunks b l))" using "1.prems"(2) by (simp add: chunks_ok_def chunk_list_ok_def)
  show ?case
  proof (cases "chunks b l = []")
    case True
    then show ?thesis using "1.prems" n by (simp add: unfold rest_def total_def)
  next
    case False
    obtain b1 where b1: "BalloonPageFree b l = Inr b1" "accounted b1 [] l" "chunks_ok b1" "total b l = Suc (total b1 l)"
      "chunks b1 (\<not> l) = chunks b (\<not> l)" "errors b1 = errors b" "rest b1 = rest (b\<lparr>nPages := nPages b - 1\<rparr>)"
      "fallbackChunk b1 = fallbackChunk b" "resetFlag b1 = resetFlag b"
      by (rule BalloonPageFree_spec [OF "1.prems" False])
    have pos: "nChunks b l > 0" using n False by simp
    obtain b2 where b2: "Balloon_DeallocateChunkList b1 l = Inr b2" "accounted b2 [] l" "chunks_ok b2" "chunks b2 l = []"
      "chunks b2 (\<not> l) = chunks b1 (\<not> l)" "errors b2 = errors b1" "rest b2 = rest (b1\<lparr>nPages := nPages b1 - of_nat (total b1 l)\<rparr>)"
      "fallbackChunk b2 = fallbackChunk b1" "resetFlag b2 = resetFlag b1"
      using "1.IH" [OF pos b1(1-3)] by blast
    have "rest b2 = rest (b\<lparr>nPages := nPages b - of_nat (total b l)\<rparr>)"
      using b1(4,7) b2(7) by (simp add: rest_def algebra_simps)
    with pos b1 b2 show ?thesis by (simp add: unfold)
  qed
qed

end
