(* ===== verification/Balloon_Poll.thy ===== *)
theory Balloon_Poll
  imports Balloon_Deflate
begin

text \<open>
  The balloon as the driver uses it: the release of all pages (\<^verbatim>\<open>Balloon_Deallocate\<close>), the reset that starts the
  protocol over, and the polling cycle \<^verbatim>\<open>Balloon_QueryAndExecute\<close>. The theory ends with the properties of the
  memory balloon.
\<close>

section \<open>Releasing everything\<close>

text \<open>
  The balloon before a reset: the pages are accounted for as in the invariant, but no mode need have been
  chosen yet.
\<close>

definition quiet :: "Balloon \<Rightarrow> bool" where
  "quiet b \<longleftrightarrow> accounted b [] False \<and> chunks_ok b \<and> size_ok b \<and> rates_ok b \<and> (\<forall>l. errors b l = []) \<and> fallbackChunk b = None \<and>
     (balloonOps b = Some OpsBatched \<or> pageHandle b = 0)"

lemma bal_inv_quiet: "bal_inv b \<Longrightarrow> quiet b"
  by (auto simp: bal_inv_def mid_def quiet_def ops_ok_def)

lemma held_none:
  assumes "accounted b [] False" and "\<And>l. chunks b l = []" and "\<And>l. errors b l = []"
  shows "held_pages b l = set_mset (own_page b l)"
proof -
  have "mset_set (held_pages b l) = own_page b l" using assms by (simp add: accounted_def)
  from arg_cong [OF this, of set_mset] show ?thesis by simp
qed

lemma reserved_empty: "(\<And>l. held_pages b l = {}) \<Longrightarrow> reserved b = Map.empty"
proof
  fix h
  assume none: "\<And>l. held_pages b l = {}"
  show "reserved b h = None" using none by (cases "reserved b h") (auto simp: held_pages_def)
qed

definition empty_balloon :: "Balloon \<Rightarrow> bool" where
  "empty_balloon b \<longleftrightarrow> reserved b = Map.empty \<and> (\<forall>l. chunks b l = [] \<and> nChunks b l = 0 \<and> errors b l = []) \<and> pageHandle b = 0 \<and>
     batchPage b = None \<and> fallbackChunk b = None"

lemma Balloon_Deallocate_spec:
  assumes inv: "quiet b"
  obtains b' where "Balloon_Deallocate b = Inr b'" "empty_balloon b'" "settings b' = settings b" "nPages b' = 511 * of_nat (total b True)"
    "resetFlag b' = resetFlag b"
proof -
  have q: "accounted b [] False" "chunks_ok b" "size_ok b" "\<And>l. errors b l = []" "fallbackChunk b = None"
    "balloonOps b = Some OpsBatched \<or> pageHandle b = 0"
    using inv by (simp_all add: quiet_def)
  obtain b1 where b1: "Balloon_DeallocateChunkList b False = Inr b1" "accounted b1 [] False" "chunks_ok b1" "chunks b1 False = []"
    "chunks b1 True = chunks b True" "errors b1 = errors b" "rest b1 = rest (b\<lparr>nPages := nPages b - of_nat (total b False)\<rparr>)"
    "fallbackChunk b1 = fallbackChunk b" "resetFlag b1 = resetFlag b"
    using Balloon_DeallocateChunkList_spec [OF q(1,2)] by auto
  obtain b2 where b2: "Balloon_DeallocateChunkList b1 True = Inr b2" "accounted b2 [] True" "chunks_ok b2" "chunks b2 True = []"
    "chunks b2 False = chunks b1 False" "errors b2 = errors b1" "rest b2 = rest (b1\<lparr>nPages := nPages b1 - of_nat (total b1 True)\<rparr>)"
    "fallbackChunk b2 = fallbackChunk b1" "resetFlag b2 = resetFlag b1"
    using Balloon_DeallocateChunkList_spec [OF accounted_Nil [OF b1(2), of True] b1(3)] by auto
  have ch: "chunks b2 l = []" "errors b2 l = []" for l using b1(4,6) b2(4-6) q(4) by (cases l; simp)+
  then have nc: "nChunks b2 l = 0" for l using b2(3) by (simp add: chunks_ok_def chunk_list_ok_def)
  have held: "held_pages b2 l = set_mset (own_page b2 l)" for l by (rule held_none [OF accounted_Nil [OF b2(2)] ch])
  have f: "settings b2 = settings b" "pageHandle b2 = pageHandle b" "balloonOps b2 = balloonOps b"
    "nPages b2 = nPages b - of_nat (total b False) - of_nat (total b True)"
    using b1(5,7) b2(7) by (simp_all add: rest_def settings_def total_def)
  have np: "nPages b2 = 511 * of_nat (total b True)" using q(3) f(4) by (simp add: size_ok_def algebra_simps)
  let ?c = "b2\<lparr>batchPage := None\<rparr>"
  show thesis
  proof (cases "balloonOps b = Some OpsBatched")
    case True
    let ?h = "pageHandle b2"
    have own: "held_pages b2 False = {?h}" "held_pages b2 True = {}" using held True f(3) by (simp_all add: own_page_def)
    then have r: "reserved b2 ?h = Some False" by (auto simp: held_pages_def)
    then have nz: "?h \<noteq> 0" using b2(2) unfolding accounted_def by blast
    let ?d = "?c\<lparr>reserved := (reserved b2)(?h := None), pageHandle := 0\<rparr>"
    have "reserved ?d = Map.empty"
    proof (rule reserved_empty)
      fix l
      show "held_pages ?d l = {}" using own by (cases l) (auto simp: held_pages_def)
    qed
    then have "empty_balloon ?d" using ch nc q(5) b1(8) b2(8) by (simp add: empty_balloon_def)
    then show thesis using b1(1) b2(1) nz r f np b1(9) b2(9)
      by (intro that [of ?d]) (simp_all add: Balloon_Deallocate_def Let_def OS_ReservedPageFree_def settings_def)
  next
    case False
    then have "held_pages ?c l = {}" for l using held [of l] f(3) by (simp add: held_pages_def own_page_def)
    then have "reserved ?c = Map.empty" by (rule reserved_empty)
    then have "empty_balloon ?c" using ch nc q(5,6) b1(8) b2(8) False f(2) by (simp add: empty_balloon_def)
    then show thesis using b1(1) b2(1) q(6) False f np b1(9) b2(9)
      by (intro that [of ?c]) (simp_all add: Balloon_Deallocate_def Let_def settings_def)
  qed
qed

section \<open>Reset\<close>

text \<open>What the driver relies on when the monitor accepts the start command: it offers batched or basic commands, and two-megabyte
  commands only together with batched ones.\<close>

definition start_ok :: "balloon_env \<Rightarrow> bool" where
  "start_ok env \<longleftrightarrow> (\<forall>n a k. let r = e_monitor env n CMD_START a k in r_status r = BALLOON_SUCCESS_WITH_CAPABILITIES \<longrightarrow>
     r_out r AND BALLOON_BATCHED_CMDS \<noteq> 0 \<or> r_out r AND BALLOON_BASIC_CMDS \<noteq> 0 \<and> r_out r AND BALLOON_BATCHED_2M_CMDS = 0)"

lemma start_frame:
  assumes "Backdoor_MonitorStart env b v = (b', st)"
  obtains x y z where "b' = b\<lparr>n_mon := x, resetFlag := y, hypervisorCapabilities := z\<rparr>" "resetFlag b \<Longrightarrow> y"
    "st = BALLOON_SUCCESS \<Longrightarrow> start_ok env \<Longrightarrow>
       z AND BALLOON_BATCHED_CMDS \<noteq> 0 \<or> z AND BALLOON_BASIC_CMDS \<noteq> 0 \<and> z AND BALLOON_BATCHED_2M_CMDS = 0"
proof -
  let ?r = "e_monitor env (n_mon b) CMD_START (ucast v) 0"
  let ?y = "r_status ?r = BALLOON_ERROR_RESET \<or> resetFlag b"
  have s: "r_status ?r = BALLOON_SUCCESS_WITH_CAPABILITIES \<longrightarrow>
     r_out ?r AND BALLOON_BATCHED_CMDS \<noteq> 0 \<or> r_out ?r AND BALLOON_BASIC_CMDS \<noteq> 0 \<and> r_out ?r AND BALLOON_BATCHED_2M_CMDS = 0"
    if "start_ok env" using that unfolding start_ok_def Let_def by (elim allE)
  consider "r_status ?r = BALLOON_SUCCESS_WITH_CAPABILITIES" | "r_status ?r = BALLOON_SUCCESS"
    | "r_status ?r \<noteq> BALLOON_SUCCESS_WITH_CAPABILITIES" "r_status ?r \<noteq> BALLOON_SUCCESS" by blast
  then show thesis
  proof cases
    case 1
    with assms s show thesis
      by (intro that [where x = "n_mon b + 1" and y = ?y and z = "r_out ?r"]) (auto simp: Backdoor_MonitorStart_def BackdoorCmd_def Let_def)
  next
    case 2
    with assms show thesis
      by (intro that [where x = "n_mon b + 1" and y = ?y and z = BALLOON_BASIC_CMDS])
        (auto simp: Backdoor_MonitorStart_def BackdoorCmd_def Let_def balloon_codes BALLOON_BASIC_CMDS_def BALLOON_BATCHED_CMDS_def
          BALLOON_BATCHED_2M_CMDS_def)
  next
    case 3
    with assms show thesis
      by (intro that [where x = "n_mon b + 1" and y = ?y and z = "hypervisorCapabilities b"]) (auto simp: Backdoor_MonitorStart_def BackdoorCmd_def Let_def)
  qed
qed

lemma BalloonInitBatching_spec:
  assumes e: "empty_balloon b" and env: "allocator_ok env"
  obtains (ok) b' h where "BalloonInitBatching env b = Inr (b', BALLOON_SUCCESS)" "h \<noteq> 0" "unat h < 2 ^ 52"
      "b' = b\<lparr>batchMaxEntries := 512, n_alloc := n_alloc b + 1, reserved := [h \<mapsto> False], pageHandle := h,
        batchPage := Some (replicate 512 0)\<rparr>"
  | (fail) b' where "BalloonInitBatching env b = Inr (b', BALLOON_PAGE_ALLOC_FAILURE)" "empty_balloon b'" "nPages b' = nPages b"
      "resetFlag b' = resetFlag b"
proof -
  let ?h = "e_alloc env (n_alloc b) {} False False"
  let ?b = "b\<lparr>batchMaxEntries := 512, n_alloc := n_alloc b + 1\<rparr>"
  have r: "reserved b = Map.empty" "pageHandle b = 0" using e by (simp_all add: empty_balloon_def)
  show thesis
  proof (cases "?h = 0")
    case True
    then show thesis using e r
      by (intro fail [of ?b]) (simp_all add: BalloonInitBatching_def OS_ReservedPageAlloc_def Let_def empty_balloon_def BALLOON_BATCH_MAX_ENTRIES_def)
  next
    case False
    show thesis
    proof (cases "e_map env (n_alloc b)")
      case True
      have "unat ?h < 2 ^ 52" by (rule allocator_okD(2) [OF env False])
      with True False r show thesis
        by (intro ok [OF _ False])
          (simp_all add: BalloonInitBatching_def OS_ReservedPageAlloc_def Let_def BALLOON_BATCH_MAX_ENTRIES_def)
    next
      case unmapped: False
      then show thesis using e r False
        by (intro fail [of ?b])
          (simp_all add: BalloonInitBatching_def OS_ReservedPageAlloc_def OS_ReservedPageFree_def Let_def empty_balloon_def BALLOON_BATCH_MAX_ENTRIES_def)
    qed
  qed
qed

lemma empty_total: "empty_balloon b \<Longrightarrow> total b l = 0"
  by (simp add: empty_balloon_def total_def)

lemma start_batched:
  assumes "empty_balloon b" and "nPages b = 0" and "rates_ok b" and "h \<noteq> 0" "unat h < 2 ^ 52"
  shows "bal_inv (b\<lparr>batchMaxEntries := 512, n_alloc := x, reserved := [h \<mapsto> False], pageHandle := h, batchPage := Some (replicate 512 0),
    balloonOps := Some OpsBatched, resetFlag := y, n_mon := z\<rparr>)" (is "bal_inv ?b")
proof -
  have "held_pages ?b l = (if l then {} else {h})" for l by (auto simp: held_pages_def)
  then have "accounted ?b [] False" using assms(1,4,5) by (simp add: accounted_def own_page_def empty_balloon_def)
  moreover have "ops_ok ?b [] False" by (simp add: ops_ok_def batch_clean_def)
  ultimately show ?thesis using assms(1-3)
    by (simp add: bal_inv_def mid_def chunks_ok_def chunk_list_ok_def size_ok_def total_def rates_ok_def empty_balloon_def)
qed

lemma start_basic:
  assumes "empty_balloon b" and "nPages b = 0" and "rates_ok b" and "hypervisorCapabilities b AND BALLOON_BATCHED_2M_CMDS = 0"
  shows "bal_inv (b\<lparr>balloonOps := Some OpsBasic, batchMaxEntries := 1, resetFlag := y, n_mon := z\<rparr>)" (is "bal_inv ?b")
proof -
  have "accounted ?b [] False" using assms(1) by (simp add: accounted_def own_page_def empty_balloon_def held_pages_def)
  moreover have "ops_ok ?b [] False" using assms(1,4) by (simp add: ops_ok_def empty_balloon_def)
  ultimately show ?thesis using assms(1-3)
    by (simp add: bal_inv_def mid_def chunks_ok_def chunk_list_ok_def size_ok_def total_def rates_ok_def empty_balloon_def)
qed

lemma bal_inv_update [simp]:
  "bal_inv (b\<lparr>n_mon := x, resetFlag := y\<rparr>) = bal_inv b" "bal_inv (b\<lparr>slowPageAllocationCycles := z\<rparr>) = bal_inv b"
  "bal_inv (b\<lparr>nPagesTarget := t\<rparr>) = bal_inv b"
  by (simp_all add: bal_inv_def)

lemma guest_type_frame:
  obtains x y where "fst (Backdoor_MonitorGuestType env b) = b\<lparr>resetFlag := x, n_mon := y\<rparr>"
proof (rule that)
  show "fst (Backdoor_MonitorGuestType env b) =
      b\<lparr>resetFlag := (r_status (e_monitor env (n_mon b) CMD_GUEST_ID (guestType b) 0) = BALLOON_ERROR_RESET \<or> resetFlag b), n_mon := n_mon b + 1\<rparr>"
    by (simp add: Backdoor_MonitorGuestType_def BackdoorCmd_def Let_def)
qed

lemma empty_balloon_start:
  "empty_balloon (b\<lparr>n_mon := x, resetFlag := y, hypervisorCapabilities := z\<rparr>) = empty_balloon b"
  by (simp add: empty_balloon_def)

lemma BalloonReset_spec:
  assumes q: "quiet b" and rf: "resetFlag b" and small: "total b True = 0" and env: "allocator_ok env" "start_ok env"
  obtains b' where "BalloonReset env b = Inr b'" "bal_inv b' \<or> empty_balloon b' \<and> nPages b' = 0 \<and> resetFlag b'"
proof -
  obtain b1 where b1: "Balloon_Deallocate b = Inr b1" "empty_balloon b1" "settings b1 = settings b" "nPages b1 = 511 * of_nat (total b True)"
    "resetFlag b1 = resetFlag b" by (rule Balloon_Deallocate_spec [OF q])
  have r1: "rates_ok b1" using q settings_ops [OF b1(3)] by (simp add: quiet_def)
  obtain b2 st where st: "Backdoor_MonitorStart env b1 BALLOON_CAPABILITIES = (b2, st)" by fastforce
  obtain x y z where b2: "b2 = b1\<lparr>n_mon := x, resetFlag := y, hypervisorCapabilities := z\<rparr>" "resetFlag b1 \<Longrightarrow> y"
    and z: "st = BALLOON_SUCCESS \<Longrightarrow> start_ok env \<Longrightarrow>
       z AND BALLOON_BATCHED_CMDS \<noteq> 0 \<or> z AND BALLOON_BASIC_CMDS \<noteq> 0 \<and> z AND BALLOON_BATCHED_2M_CMDS = 0"
    by (rule start_frame [OF st]) blast
  have e2: "empty_balloon b2" "nPages b2 = 0" "resetFlag b2" "rates_ok b2" "hypervisorCapabilities b2 = z"
    using b1(2,4,5) b2 small rf r1 by (simp_all add: empty_balloon_start rates_ok_def)
  show thesis
  proof (cases "st = BALLOON_SUCCESS")
    case False
    with b1(1) st e2 show thesis by (intro that [of b2]) (simp_all add: BalloonReset_def)
  next
    case succ: True
    show thesis
    proof (cases "z AND BALLOON_BATCHED_CMDS = 0")
      case True
      then have zz: "z AND BALLOON_BASIC_CMDS \<noteq> 0" "z AND BALLOON_BATCHED_2M_CMDS = 0" using z [OF succ env(2)] by auto
      let ?c = "b2\<lparr>balloonOps := Some OpsBasic, batchMaxEntries := 1, resetFlag := False\<rparr>"
      obtain u v where gt: "fst (Backdoor_MonitorGuestType env ?c) = ?c\<lparr>resetFlag := u, n_mon := v\<rparr>" by (rule guest_type_frame)
      have "bal_inv (b2\<lparr>balloonOps := Some OpsBasic, batchMaxEntries := 1, resetFlag := u, n_mon := v\<rparr>)"
        by (rule start_basic [OF e2(1,2,4)]) (simp add: e2(5) zz)
      with b1(1) st succ True zz e2(5) gt show thesis
        by (intro that [of "?c\<lparr>resetFlag := u, n_mon := v\<rparr>"]) (simp_all add: BalloonReset_def select_ops_def)
    next
      case False
      show thesis
      proof (rule BalloonInitBatching_spec [OF e2(1) env(1)])
        fix b3 h
        assume i: "BalloonInitBatching env b2 = Inr (b3, BALLOON_SUCCESS)" "h \<noteq> 0" "unat h < 2 ^ 52"
          "b3 = b2\<lparr>batchMaxEntries := 512, n_alloc := n_alloc b2 + 1, reserved := [h \<mapsto> False], pageHandle := h,
            batchPage := Some (replicate 512 0)\<rparr>"
        let ?c = "b3\<lparr>balloonOps := Some OpsBatched, resetFlag := False\<rparr>"
        obtain u v where gt: "fst (Backdoor_MonitorGuestType env ?c) = ?c\<lparr>resetFlag := u, n_mon := v\<rparr>" by (rule guest_type_frame)
        have "bal_inv (?c\<lparr>resetFlag := u, n_mon := v\<rparr>)"
          using start_batched [OF e2(1,2,4) i(2,3), where x = "n_alloc b2 + 1" and y = u and z = v] by (simp add: i(4))
        with b1(1) st succ False i(1) e2(5) gt show thesis
          by (intro that [of "?c\<lparr>resetFlag := u, n_mon := v\<rparr>"]) (simp_all add: BalloonReset_def select_ops_def i(4))
      next
        fix b3
        assume f: "BalloonInitBatching env b2 = Inr (b3, BALLOON_PAGE_ALLOC_FAILURE)" "empty_balloon b3" "nPages b3 = nPages b2"
          "resetFlag b3 = resetFlag b2"
        obtain b4 st4 where s4: "Backdoor_MonitorStart env b3 0 = (b4, st4)" by fastforce
        obtain x y z where "b4 = b3\<lparr>n_mon := x, resetFlag := y, hypervisorCapabilities := z\<rparr>" "resetFlag b3 \<Longrightarrow> y"
          by (rule start_frame [OF s4]) blast
        with b1(1) st succ False f e2 s4 show thesis
          by (intro that [of b4]) (simp_all add: BalloonReset_def empty_balloon_start BALLOON_PAGE_ALLOC_FAILURE_def BALLOON_SUCCESS_def)
      qed
    qed
  qed
qed

section \<open>A poll\<close>

lemma get_target_frame:
  assumes "Backdoor_MonitorGetTarget env b = (b', st, out)"
  obtains x y where "b' = b\<lparr>n_mon := x, resetFlag := y\<rparr>"
proof (cases "ucast (ucast (e_limit env) :: u32) = e_limit env")
  case True
  with assms show thesis by (auto simp: Backdoor_MonitorGetTarget_def BackdoorCmd_def Let_def intro: that)
next
  case False
  with assms show thesis by (intro that [where x = "n_mon b" and y = "resetFlag b"]) (simp add: Backdoor_MonitorGetTarget_def)
qed

lemma poll_spec:
  assumes inv: "bal_inv b" and nr: "\<not> resetFlag b" and env: "allocator_ok env" "lock_status_ok env" "\<forall>n. e_malloc env n"
  shows "\<exists>b'. Balloon_QueryAndExecute env b = Inr b' \<and> bal_inv b'"
proof -
  obtain b2 st out where gt: "Backdoor_MonitorGetTarget env b = (b2, st, out)" by (metis prod_cases3)
  obtain x y where b2: "b2 = b\<lparr>n_mon := x, resetFlag := y\<rparr>" by (rule get_target_frame [OF gt])
  let ?b = "b2\<lparr>slowPageAllocationCycles := slowPageAllocationCycles b2 - 1\<rparr>"
  have i3: "bal_inv ?b" using inv by (simp add: b2)
  then have "bal_inv (?b\<lparr>nPagesTarget := t\<rparr>)" for t by simp
  with i3 BalloonAdjustSize_spec [OF _ env] nr gt show ?thesis by (simp add: Balloon_QueryAndExecute_def Let_def)
qed

section \<open>Properties of the memory balloon\<close>

text \<open>An environment for examples: one page can be had, the monitor accepts every command and asks for one page.\<close>

definition demo_env :: balloon_env where
  "demo_env = \<lparr>e_alloc = (\<lambda>n U s l. if 5 \<in> U then 0 else 5), e_malloc = (\<lambda>n. True), e_map = (\<lambda>n. True), e_limit = 100,
     e_monitor = (\<lambda>n cmd a k. \<lparr>r_status = BALLOON_SUCCESS, r_out = 1, r_entries = (\<lambda>i. 0)\<rparr>)\<rparr>"

definition demo_zero :: Balloon where
  "demo_zero = \<lparr>chunks = (\<lambda>l. []), nChunks = (\<lambda>l. 0), errors = (\<lambda>l. []), guestType = 0, nPages = 0, nPagesTarget = 0, resetFlag = True,
     rateAlloc = 2048, rateFree = 16384, slowPageAllocationCycles = 0, hypervisorCapabilities = 0, balloonOps = None, pageHandle = 0,
     batchPage = None, batchMaxEntries = 0, fallbackChunk = None, reserved = Map.empty, n_alloc = 0, n_malloc = 0, n_mon = 0\<rparr>"

definition demo_batched :: Balloon where
  "demo_batched = demo_zero\<lparr>batchMaxEntries := 512, n_alloc := 1, reserved := [9 \<mapsto> False], pageHandle := 9,
     batchPage := Some (replicate 512 0), balloonOps := Some OpsBatched, resetFlag := False, n_mon := 2\<rparr>"

lemma demo_env_ok: "allocator_ok demo_env" "lock_status_ok demo_env" "\<forall>n. e_malloc demo_env n" "start_ok demo_env"
  by (simp_all add: allocator_ok_def lock_status_ok_def start_ok_def demo_env_def balloon_codes)

lemma demo_zero_quiet: "quiet demo_zero" "total demo_zero True = 0"
  by (simp_all add: quiet_def demo_zero_def accounted_def held_pages_def own_page_def chunks_ok_def chunk_list_ok_def size_ok_def total_def
      rates_ok_def)

lemma demo_batched_inv: "bal_inv demo_batched"
  unfolding demo_batched_def
  by (rule start_batched) (simp_all add: empty_balloon_def demo_zero_def rates_ok_def)

text \<open>
  C8. A poll of the balloon keeps its books. Take a balloon that satisfies the invariant: every page the operating system has
  reserved for it is stored exactly once, in a chunk or as the batch page, chunks are neither empty nor overfull, \<^verbatim>\<open>nPages\<close> is the number of
  small pages plus 512 times the number of large ones, and the rates are within their limits. Then
  \<^verbatim>\<open>Balloon_QueryAndExecute\<close> without a pending reset reaches no fault -- no page is freed twice or in the wrong size, no null pointer
  is followed and no array is overrun -- and ends in such a balloon again, whatever target and statuses the monitor answers and whenever
  page allocation fails, in both modes. The operating system is assumed to hand out pages that are not in use, the monitor to write a known
  status into the entries of a batch, and the allocation of chunks to succeed.
\<close>

theorem balloon_poll_keeps_account:
  assumes "bal_inv b" and "\<not> resetFlag b" and "allocator_ok env" and "lock_status_ok env" and "\<forall>n. e_malloc env n"
  shows "\<exists>b'. Balloon_QueryAndExecute env b = Inr b' \<and> bal_inv b'"
  by (rule poll_spec [OF assms])

theorem balloon_poll_keeps_account_witness: "\<exists>b'. Balloon_QueryAndExecute demo_env demo_batched = Inr b' \<and> bal_inv b'"
  by (rule balloon_poll_keeps_account [OF demo_batched_inv _ demo_env_ok(1-3)]) (simp add: demo_batched_def)

text \<open>
  C30. Inflating copes with every allocation failure: even if the allocation of chunks fails at any moment,
  \<^verbatim>\<open>BalloonInflate\<close> reaches no fault and keeps the invariant, so that no reserved page is lost and no page that the monitor refused
  stays reserved.
\<close>

theorem balloon_inflate_any_failure:
  assumes "bal_inv b" and "allocator_ok env" and "lock_status_ok env"
  shows "\<exists>b'. BalloonInflate env b target = Inr b' \<and> bal_inv b'"
  using BalloonInflate_spec [OF assms] by blast

theorem balloon_inflate_any_failure_witness:
  "\<exists>b'. BalloonInflate (demo_env\<lparr>e_malloc := \<lambda>n. False\<rparr>) demo_batched 7 = Inr b' \<and> bal_inv b'"
proof (rule balloon_inflate_any_failure [OF demo_batched_inv])
  show "allocator_ok (demo_env\<lparr>e_malloc := \<lambda>n. False\<rparr>)" "lock_status_ok (demo_env\<lparr>e_malloc := \<lambda>n. False\<rparr>)"
    using demo_env_ok(1,2) by (simp_all add: allocator_ok_def lock_status_ok_def)
qed

text \<open>
  C36. Releasing the balloon gives back everything: \<^verbatim>\<open>Balloon_Deallocate\<close> reaches no fault and leaves no reserved page, no
  chunk and no batch page. It counts a large page as one page, though: 511 pages per large page remain in \<^verbatim>\<open>nPages\<close> of an empty balloon,
  which should be zero.
\<close>

theorem balloon_deallocate_releases:
  assumes "bal_inv b"
  shows "\<exists>b'. Balloon_Deallocate b = Inr b' \<and> reserved b' = Map.empty \<and> (\<forall>l. chunks b' l = [] \<and> nChunks b' l = 0) \<and>
    pageHandle b' = 0 \<and> batchPage b' = None \<and> nPages b' = 511 * of_nat (total b True)"
  using Balloon_Deallocate_spec [OF bal_inv_quiet [OF assms]] unfolding empty_balloon_def by metis

theorem balloon_deallocate_releases_witness:
  "\<exists>b'. Balloon_Deallocate demo_batched = Inr b' \<and> reserved b' = Map.empty \<and> (\<forall>l. chunks b' l = [] \<and> nChunks b' l = 0) \<and>
    pageHandle b' = 0 \<and> batchPage b' = None \<and> nPages b' = 511 * of_nat (total demo_batched True)"
  by (rule balloon_deallocate_releases [OF demo_batched_inv])

text \<open>
  C35. A reset of a balloon without large pages either succeeds, with the invariant established in the mode the monitor
  offered, or leaves an empty balloon with nothing reserved and the reset still pending. The monitor is assumed to offer
  two-megabyte commands only together with batched ones.
\<close>

theorem balloon_reset_result:
  assumes "quiet b" and "resetFlag b" and "total b True = 0" and "allocator_ok env" and "start_ok env"
  shows "\<exists>b'. BalloonReset env b = Inr b' \<and> (bal_inv b' \<or> empty_balloon b' \<and> nPages b' = 0 \<and> resetFlag b')"
  using BalloonReset_spec [OF assms] by metis

theorem balloon_reset_result_witness:
  "\<exists>b'. BalloonReset demo_env demo_zero = Inr b' \<and> (bal_inv b' \<or> empty_balloon b' \<and> nPages b' = 0 \<and> resetFlag b')"
  by (rule balloon_reset_result [OF demo_zero_quiet(1) _ demo_zero_quiet(2) demo_env_ok(1,4)]) (simp add: demo_zero_def)

text \<open>
  C39. A poll goes on after a reset that failed. \<^verbatim>\<open>BalloonReset\<close> has then released the batch page while the
  balloon still uses the batched operations, and if the monitor answers the next command with a target, the first page of the
  inflation is written through the null pointer \<^verbatim>\<open>batchPage\<close>.
\<close>

theorem balloon_failed_reset_faults:
  assumes q: "quiet b" and small: "total b True = 0" and ops: "balloonOps b = Some OpsBatched" and rf: "resetFlag b"
    and start: "\<forall>n a k. r_status (e_monitor env n CMD_START a k) = BALLOON_FAILURE"
    and lim: "ucast (ucast (e_limit env) :: u32) = e_limit env"
    and target: "\<forall>n a k. r_status (e_monitor env n CMD_TARGET a k) = BALLOON_SUCCESS \<and> 0 < r_out (e_monitor env n CMD_TARGET a k)"
    and alloc: "\<forall>n U s l. e_alloc env n U s l \<noteq> 0"
  shows "Balloon_QueryAndExecute env b = Inl NullDeref"
proof -
  obtain b1 where b1: "Balloon_Deallocate b = Inr b1" "empty_balloon b1" "settings b1 = settings b" "nPages b1 = 511 * of_nat (total b True)"
    by (rule Balloon_Deallocate_spec [OF q])
  have r: "BalloonReset env b = Inr (b1\<lparr>n_mon := n_mon b1 + 1\<rparr>)"
    using b1(1) start by (simp add: BalloonReset_def Backdoor_MonitorStart_def BackdoorCmd_def Let_def balloon_codes)
  let ?r = "e_monitor env (n_mon b1 + 1) CMD_TARGET (e_limit env) 0"
  let ?b = "b1\<lparr>n_mon := n_mon b1 + 2, resetFlag := (r_status ?r = BALLOON_ERROR_RESET \<or> resetFlag b1),
     slowPageAllocationCycles := slowPageAllocationCycles b1 - 1, nPagesTarget := r_out ?r\<rparr>"
  have t: "r_status ?r = BALLOON_SUCCESS" "0 < r_out ?r" using target by blast+
  have ops1: "balloonOps ?b = Some OpsBatched" "nPages ?b = 0" "batchPage ?b = None"
    using b1(2,4) settings_ops(2) [OF b1(3)] ops small by (simp_all add: empty_balloon_def)
  have loop: "BalloonInflate_loop env ?b (r_out ?r) 0 rate 0 st at = Inl NullDeref" for rate st at
    using ops1 t(2) alloc
    by (subst BalloonInflate_loop.simps)
      (simp add: Let_def OS_ReservedPageAlloc_def ops_addPage_def BalloonAddPageBatched_def Balloon_BatchSetPA_def)
  have "Balloon_QueryAndExecute env b = BalloonAdjustSize env ?b (r_out ?r)"
    using rf r lim t(1) by (simp add: Balloon_QueryAndExecute_def Backdoor_MonitorGetTarget_def BackdoorCmd_def Let_def new_target_def)
  also have "\<dots> = BalloonInflate env ?b (r_out ?r)" using ops1(2) t(2) by (simp add: BalloonAdjustSize_def)
  also have "\<dots> = Inl NullDeref" using loop by (simp add: BalloonInflate_def Let_def)
  finally show ?thesis .
qed

definition refusing_env :: balloon_env where
  "refusing_env = demo_env\<lparr>e_alloc := (\<lambda>n U s l. 5), e_monitor := (\<lambda>n cmd a k. \<lparr>r_status =
     (if cmd = CMD_START then BALLOON_FAILURE else BALLOON_SUCCESS), r_out = 1, r_entries = (\<lambda>i. 0)\<rparr>)\<rparr>"

theorem balloon_failed_reset_faults_witness:
  "Balloon_QueryAndExecute refusing_env (demo_batched\<lparr>resetFlag := True\<rparr>) = Inl NullDeref"
proof (rule balloon_failed_reset_faults)
  show "quiet (demo_batched\<lparr>resetFlag := True\<rparr>)"
    using bal_inv_quiet [OF demo_batched_inv]
    by (simp add: quiet_def chunks_ok_def chunk_list_ok_def size_ok_def total_def rates_ok_def)
qed (simp_all add: demo_batched_def demo_zero_def total_def refusing_env_def demo_env_def)

definition two_large_pages :: "u64 list \<Rightarrow> Balloon" where
  "two_large_pages es = demo_batched\<lparr>chunks := (\<lambda>l. if l then [[512, 1024]] else []), nChunks := (\<lambda>l. if l then 1 else 0),
     nPages := 1024, hypervisorCapabilities := 14, batchPage := Some es, reserved := [9 \<mapsto> False, 512 \<mapsto> True, 1024 \<mapsto> True]\<rparr>"

definition agreeing_env :: balloon_env where
  "agreeing_env = demo_env\<lparr>e_monitor := \<lambda>n cmd a k. \<lparr>r_status = BALLOON_SUCCESS, r_out = 512, r_entries = (\<lambda>i. 0)\<rparr>\<rparr>"

lemma monitor_marks_zero: "monitor_marks (\<lambda>i. 0) n es = es"
proof -
  have "monitor_marks (\<lambda>i. 0) n es = map ((!) es) [0..<length es]" unfolding monitor_marks_def by (rule map_cong) simp_all
  then show ?thesis by (simp add: map_nth)
qed

lemmas add_page_simps = Let_def ops_addPage_def BalloonAddPageBatched_def Balloon_BatchSetPA_def OS_ReservedPageGetPA_def

lemma deflate_two_large_loop:
  assumes "length es = 512"
  shows "BalloonDeflateInt_loop agreeing_env True 16384 (two_large_pages es) 512 0 0 BALLOON_SUCCESS None =
    Inr ((two_large_pages es)\<lparr>chunks := (\<lambda>l. []), nChunks := (\<lambda>l. 0), fallbackChunk := Some [],
      batchPage := Some (es[0 := push_bit 12 1024, 1 := push_bit 12 512])\<rparr>, 2, BALLOON_SUCCESS)"
  using assms
  apply (simp add: two_large_pages_def demo_batched_def demo_zero_def)
  apply (subst BalloonDeflateInt_loop.simps, simp add: add_page_simps)
  apply (subst BalloonDeflateInt_loop.simps, simp add: add_page_simps)
  apply (subst BalloonDeflateInt_loop.simps, simp add: add_page_simps fun_eq_iff)
  done

lemma deflate_two_large_unlock:
  assumes "length es = 512" and "b = (two_large_pages es)\<lparr>chunks := (\<lambda>l. []), nChunks := (\<lambda>l. 0), fallbackChunk := Some [],
      batchPage := Some (es[0 := push_bit 12 1024, 1 := push_bit 12 512])\<rparr>"
  shows "\<exists>b' out. ops_unlock agreeing_env b 2 True = Inr (b', BALLOON_SUCCESS, out) \<and> nPages b' = 0 \<and> chunks b' True = []"
proof -
  have u: "[0..<2] = [0, 1 :: nat]" by (simp add: upt_rec)
  have m: "(4194304 AND mask 5 :: u64) = 0" "(2097152 AND mask 5 :: u64) = 0" by (simp_all add: mask_eq_exp_minus_1)
  have h: "drop_bit 12 (4194304 AND NOT (mask 12)) = (1024 :: u64)" "drop_bit 12 (2097152 AND NOT (mask 12)) = (512 :: u64)"
    unfolding handle_of_entry by simp_all
  show ?thesis using assms(1)
    by (simp add: m h assms(2) two_large_pages_def demo_batched_def demo_zero_def ops_unlock_def BalloonUnlockBatched_def
      Backdoor_MonitorUnlockPagesBatched_def batched_cmd_def BackdoorCmd_def Let_def agreeing_env_def monitor_marks_zero
      u unlock_entry_def Balloon_BatchGetStatus_def deref_batch_def free_entry_def Balloon_BatchGetPA_def
      OS_ReservedPageGetHandle_def OS_ReservedPageFree_def pages_of_def OS_LARGE_2_SMALL_PAGES_def balloon_codes
      del: drop_bit_and)
qed

text \<open>
  Deflation counts a large page as one page: with two large pages in the balloon (1024 pages) and a target of 512 it releases
  both, so that the balloon ends empty, below its target, instead of keeping one large page.
\<close>

theorem balloon_deflate_overshoots:
  "\<exists>b'. BalloonAdjustSize agreeing_env (two_large_pages (replicate 512 0)) 512 = Inr b' \<and> nPages b' = 0 \<and> chunks b' True = []"
proof -
  define es :: "u64 list" where "es = replicate 512 0"
  have len: "length es = 512" by (simp add: es_def)
  let ?b = "two_large_pages es"
  have f: "nPages ?b = 1024" "nChunks ?b False = 0" "nChunks ?b True = 1" "rateFree ?b = 16384"
    by (simp_all add: two_large_pages_def demo_batched_def demo_zero_def)
  obtain b' out where "ops_unlock agreeing_env (?b\<lparr>chunks := (\<lambda>l. []), nChunks := (\<lambda>l. 0), fallbackChunk := Some [],
      batchPage := Some (es[0 := push_bit 12 1024, 1 := push_bit 12 512])\<rparr>) 2 True = Inr (b', BALLOON_SUCCESS, out)"
    "nPages b' = 0" "chunks b' True = []"
    using deflate_two_large_unlock [OF len refl] by blast
  then show ?thesis unfolding es_def [symmetric]
    by (simp add: BalloonAdjustSize_def f OS_LARGE_2_SMALL_PAGES_def BalloonDeflate_def BalloonDeflateInt_def deflate_two_large_loop [OF len])
qed

end
