(* ===== verification/HgfsEscape.thy ===== *)
theory HgfsEscape
  imports Prelude
begin

text \<open>
  Names of the shared-folder protocol (HGFS). A cross-platform name is a sequence of components with zero bytes between them. This theory
  models \<^verbatim>\<open>lib/hgfs/hgfsEscape.c\<close>, which replaces the characters that a file system does not allow and reverses the replacement, and
  \<^verbatim>\<open>CPName_GetComponent\<close> of \<^verbatim>\<open>lib/hgfs/cpName.c\<close>, on which it rests. Memory is a list of bytes and a pointer an
  offset; reads and writes outside the list are faults. Lengths are natural numbers where the code converts between \<^verbatim>\<open>size_t\<close>,
  \<^verbatim>\<open>uint32\<close> and \<^verbatim>\<open>int\<close> values that stay below \<open>2 ^ 31\<close>; counters that the code can drive below zero keep their width.
\<close>

section \<open>Platforms and characters\<close>

datatype platform = Windows | Apple | Linux

text \<open>\<open>"/\*?:"<>|"\<close>, \<open>"/:"\<close> and \<open>"/"\<close>, with their substitutes \<open>"!@#$^&(){}"\<close>, \<open>"!&"\<close> and \<open>"!"\<close>.\<close>

fun HGFS_ILLEGAL_CHARS :: "platform \<Rightarrow> u8 list" where
  "HGFS_ILLEGAL_CHARS Windows = [47, 92, 42, 63, 58, 34, 60, 62, 124]"
| "HGFS_ILLEGAL_CHARS Apple = [47, 58]"
| "HGFS_ILLEGAL_CHARS Linux = [47]"

fun HGFS_SUBSTITUTE_CHARS :: "platform \<Rightarrow> u8 list" where
  "HGFS_SUBSTITUTE_CHARS Windows = [33, 64, 35, 36, 94, 38, 40, 41, 123, 125]"
| "HGFS_SUBSTITUTE_CHARS Apple = [33, 38]"
| "HGFS_SUBSTITUTE_CHARS Linux = [33]"

definition HGFS_ILLEGAL_LAST_CHARS :: "u8 list" where "HGFS_ILLEGAL_LAST_CHARS = [46, 32]"

definition HGFS_ESCAPE_CHAR :: u8 where "HGFS_ESCAPE_CHAR = 37"
definition HGFS_ESCAPE_SUBSTITUE_CHAR :: u8 where "HGFS_ESCAPE_SUBSTITUE_CHAR = 93"

text \<open>\<open>"CON"\<close>, \<open>"PRN"\<close>, \<open>"AUX"\<close>, \<open>"NUL"\<close> and \<open>"COM"\<close>, \<open>"LPT"\<close>.\<close>

definition HgfsReservedNames :: "u8 list list" where
  "HgfsReservedNames = [[67, 79, 78], [80, 82, 78], [65, 85, 88], [78, 85, 76]]"

definition HgfsReservedNamesWithNumber :: "u8 list list" where
  "HgfsReservedNamesWithNumber = [[67, 79, 77], [76, 80, 84]]"

text \<open>\<^verbatim>\<open>strchr\<close> on a string constant: the position of the character; the terminating zero counts as part of the string.\<close>

definition strchr :: "u8 list \<Rightarrow> u8 \<Rightarrow> nat option" where
  "strchr s c = (let k = length (takeWhile (\<lambda>x. x \<noteq> c) (s @ [0])) in if k \<le> length s then Some k else None)"

text \<open>\<^verbatim>\<open>strchr\<close> on a string in memory.\<close>

function c_strchr :: "u8 list \<Rightarrow> nat \<Rightarrow> u8 \<Rightarrow> nat option res" where
  "c_strchr mem p c =
     (if p < length mem then
        if mem ! p = c then Inr (Some p) else if mem ! p = 0 then Inr None else c_strchr mem (p + 1) c
      else Inl OutOfBounds)"
  by pat_completeness auto

termination
  by (relation "measure (\<lambda>(mem, p, c). length mem - p)") auto

declare c_strchr.simps [simp del]

section \<open>Components of a name\<close>

function GetComponent_walk :: "u8 list \<Rightarrow> nat \<Rightarrow> nat \<Rightarrow> nat res" where
  "GetComponent_walk mem endp walk =
     (if walk = endp then Inr walk
      else if walk < length mem then
        if mem ! walk = 0 then Inr walk else GetComponent_walk mem endp (walk + 1)
      else Inl OutOfBounds)"
  by pat_completeness auto

termination
  by (relation "measure (\<lambda>(mem, endp, walk). length mem - walk)") auto

declare GetComponent_walk.simps [simp del]

text \<open>The byte is read before the pointer is compared.\<close>

function GetComponent_skip :: "u8 list \<Rightarrow> nat \<Rightarrow> nat \<Rightarrow> nat res" where
  "GetComponent_skip mem endp myNext =
     (if myNext < length mem then
        if mem ! myNext = 0 \<and> myNext \<noteq> endp then GetComponent_skip mem endp (myNext + 1) else Inr myNext
      else Inl OutOfBounds)"
  by pat_completeness auto

termination
  by (relation "measure (\<lambda>(mem, endp, myNext). length mem - myNext)") auto

declare GetComponent_skip.simps [simp del]

text \<open>The length of the component at \<open>begin\<close> and the start of the next one; \<^const>\<open>None\<close> stands for the result \<open>-1\<close>.\<close>

definition CPName_GetComponent :: "u8 list \<Rightarrow> nat \<Rightarrow> nat \<Rightarrow> (nat \<times> nat) option res" where
  "CPName_GetComponent mem begin endp =
     bindR (GetComponent_walk mem endp begin) (\<lambda>walk.
       if walk = endp then Inr (Some (walk - begin, endp))
       else if walk = begin then Inr None
       else bindR (GetComponent_skip mem endp (walk + 1)) (\<lambda>myNext.
              if myNext = endp then Inr None else Inr (Some (walk - begin, myNext))))"

section \<open>Escape sequences\<close>

definition HgfsLetterToUpper :: "u8 \<Rightarrow> u8" where
  "HgfsLetterToUpper letter = (if letter \<ge> 97 \<and> letter \<le> 122 then letter - (97 - 65) else letter)"

text \<open>The comparison stops at the first difference, so a shorter string that ends in a zero byte is not overrun; the callers pass strings
  that are long enough.\<close>

fun HgfsIsEqualPrefix :: "u8 list \<Rightarrow> u8 list \<Rightarrow> bool" where
  "HgfsIsEqualPrefix [] string = True"
| "HgfsIsEqualPrefix (p # prefix) [] = False"
| "HgfsIsEqualPrefix (p # prefix) (c # string) = (p = HgfsLetterToUpper c \<and> HgfsIsEqualPrefix prefix string)"

definition HgfsIsReservedPrefix :: "u8 list \<Rightarrow> bool" where
  "HgfsIsReservedPrefix bufIn = (\<exists>n \<in> set HgfsReservedNames. HgfsIsEqualPrefix n bufIn)"

definition HgfsIsReservedPrefixWithNumber :: "u8 list \<Rightarrow> bool" where
  "HgfsIsReservedPrefixWithNumber bufIn =
     (\<exists>n \<in> set HgfsReservedNamesWithNumber. HgfsIsEqualPrefix n bufIn \<and> bufIn ! 3 \<ge> 49 \<and> bufIn ! 3 \<le> 57)"

definition HgfsIsSpecialCaseEscape :: "u8 list \<Rightarrow> nat \<Rightarrow> nat \<Rightarrow> bool" where
  "HgfsIsSpecialCaseEscape bufIn offset len =
     (if offset + 1 = len \<and> strchr HGFS_ILLEGAL_LAST_CHARS (bufIn ! (offset - 1)) \<noteq> None then True
      else if offset = 3 \<and> (len = 4 \<or> bufIn ! (offset + 1) = 46) then HgfsIsReservedPrefix bufIn
      else if offset = 4 \<and> (len = 5 \<or> bufIn ! (offset + 1) = 46) then HgfsIsReservedPrefixWithNumber bufIn
      else False)"

definition HgfsIsEscapeSequence :: "platform \<Rightarrow> u8 list \<Rightarrow> nat \<Rightarrow> nat \<Rightarrow> bool" where
  "HgfsIsEscapeSequence plat bufIn offset len =
     (if bufIn ! offset = HGFS_ESCAPE_CHAR \<and> offset > 0 then
        if bufIn ! (offset - 1) = HGFS_ESCAPE_SUBSTITUE_CHAR \<and> offset > 1 \<and>
           (bufIn ! (offset - 2) = HGFS_ESCAPE_SUBSTITUE_CHAR \<or>
            strchr (HGFS_SUBSTITUTE_CHARS plat) (bufIn ! (offset - 2)) \<noteq> None) then True
        else if strchr (HGFS_SUBSTITUTE_CHARS plat) (bufIn ! (offset - 1)) \<noteq> None then True
        else plat = Windows \<and> HgfsIsSpecialCaseEscape bufIn offset len
      else False)"

datatype HgfsEscapeReason =
    HGFS_ESCAPE_ILLEGAL_CHARACTER
  | HGFS_ESCAPE_RESERVED_NAME
  | HGFS_ESCAPE_ILLEGAL_LAST_CHARACTER
  | HGFS_ESCAPE_ESCAPE_SEQUENCE
  | HGFS_ESCAPE_COMPLETE

text \<open>The callbacks take the name, an offset, the reason and their context; a result of false stops the enumeration.\<close>

type_synonym 'c callback = "u8 list \<Rightarrow> nat \<Rightarrow> HgfsEscapeReason \<Rightarrow> 'c \<Rightarrow> (bool \<times> 'c) res"

definition HgfsProcessReservedName :: "u8 list \<Rightarrow> 'c callback \<Rightarrow> 'c \<Rightarrow> (bool \<times> nat \<times> 'c) res" where
  "HgfsProcessReservedName bufIn processEscape ctx =
     bindR (if length bufIn \<ge> 3 \<and> HgfsIsReservedPrefix bufIn \<and> (length bufIn = 3 \<or> bufIn ! 3 = 46)
            then bindR (processEscape bufIn 3 HGFS_ESCAPE_RESERVED_NAME ctx) (\<lambda>(ok, ctx1). Inr (ok, if ok then 3 else 0, ctx1))
            else Inr (True, 0, ctx)) (\<lambda>(ok, offset, ctx1).
       if \<not> ok then Inr (False, offset, ctx1)
       else if length bufIn \<ge> 4 \<and> HgfsIsReservedPrefixWithNumber bufIn \<and> (length bufIn = 4 \<or> bufIn ! 4 = 46)
       then bindR (processEscape bufIn 4 HGFS_ESCAPE_RESERVED_NAME ctx1) (\<lambda>(ok, ctx2). Inr (ok, if ok then 4 else offset, ctx2))
       else Inr (True, offset, ctx1))"

definition HgfsProcessLastCharacter :: "u8 list \<Rightarrow> 'c callback \<Rightarrow> 'c \<Rightarrow> (bool \<times> 'c) res" where
  "HgfsProcessLastCharacter bufIn processEscape ctx =
     (if bufIn = [46] \<or> bufIn = [46, 46] then Inr (True, ctx)
      else if strchr HGFS_ILLEGAL_LAST_CHARS (last bufIn) \<noteq> None
      then processEscape bufIn (length bufIn) HGFS_ESCAPE_ILLEGAL_LAST_CHARACTER ctx
      else Inr (True, ctx))"

function HgfsEscapeEnumerate_loop :: "platform \<Rightarrow> u8 list \<Rightarrow> 'c callback \<Rightarrow> nat \<Rightarrow> 'c \<Rightarrow> (bool \<times> 'c) res" where
  "HgfsEscapeEnumerate_loop plat bufIn processEscape i ctx =
     (if i < length bufIn then
        case (if strchr (HGFS_ILLEGAL_CHARS plat) (bufIn ! i) \<noteq> None
              then processEscape bufIn i HGFS_ESCAPE_ILLEGAL_CHARACTER ctx
              else if HgfsIsEscapeSequence plat bufIn i (length bufIn)
              then processEscape bufIn i HGFS_ESCAPE_ESCAPE_SEQUENCE ctx
              else Inr (True, ctx)) of
          Inl e \<Rightarrow> Inl e
        | Inr (ok, ctx1) \<Rightarrow>
            if ok then HgfsEscapeEnumerate_loop plat bufIn processEscape (i + 1) ctx1 else Inr (False, ctx1)
      else Inr (True, ctx))"
  by pat_completeness auto

termination
  by (relation "measure (\<lambda>(plat, bufIn, processEscape, i, ctx). length bufIn - i)") auto

declare HgfsEscapeEnumerate_loop.simps [simp del]

definition HgfsEscapeEnumerate :: "platform \<Rightarrow> u8 list \<Rightarrow> 'c callback \<Rightarrow> 'c \<Rightarrow> (bool \<times> 'c) res" where
  "HgfsEscapeEnumerate plat bufIn processEscape ctx =
     (if bufIn = [] then Inr (True, ctx)
      else bindR (if plat = Windows then HgfsProcessReservedName bufIn processEscape ctx else Inr (True, 0, ctx)) (\<lambda>(ok, offset, ctx1).
        if \<not> ok then Inr (False, ctx1)
        else bindR (HgfsEscapeEnumerate_loop plat bufIn processEscape offset ctx1) (\<lambda>(ok, ctx2).
          if \<not> ok then Inr (False, ctx2)
          else bindR (if plat = Windows then HgfsProcessLastCharacter bufIn processEscape ctx2 else Inr (True, ctx2)) (\<lambda>(ok, ctx3).
            if \<not> ok then Inr (False, ctx3)
            else processEscape bufIn (length bufIn) HGFS_ESCAPE_COMPLETE ctx3))))"

section \<open>Escaping\<close>

text \<open>\<open>outputBuffer\<close> is the memory that holds the output and the offset of the output in it.\<close>

record HgfsEscapeContext =
  processedOffset :: nat
  outputBufferLength :: nat
  outputOffset :: nat
  outputBuffer :: "u8 list \<times> nat"

definition emit :: "HgfsEscapeContext \<Rightarrow> u8 list \<Rightarrow> HgfsEscapeContext res" where
  "emit ctx bs =
     (case outputBuffer ctx of (mem, base) \<Rightarrow>
        bindR (write_at mem (base + outputOffset ctx) bs) (\<lambda>mem1.
          Inr (ctx\<lparr>outputBuffer := (mem1, base), outputOffset := outputOffset ctx + length bs\<rparr>)))"

definition HgfsAddEscapeCharacter :: "platform \<Rightarrow> HgfsEscapeContext callback" where
  "HgfsAddEscapeCharacter plat bufIn offset reason ctx =
     (let charactersToCopy = offset - processedOffset ctx
      in if outputOffset ctx + charactersToCopy > outputBufferLength ctx then Inr (False, ctx)
         else bindR (read_at bufIn (processedOffset ctx) charactersToCopy) (\<lambda>bs.
           bindR (emit ctx bs) (\<lambda>ctx1.
             let ctx2 = ctx1\<lparr>processedOffset := processedOffset ctx + charactersToCopy\<rparr>;
                 outputSpace = outputBufferLength ctx2 - outputOffset ctx2;
                 out = (\<lambda>bs k. bindR (emit ctx2 bs) (\<lambda>ctx3. Inr (True, ctx3\<lparr>processedOffset := processedOffset ctx2 + k\<rparr>)))
             in case reason of
                  HGFS_ESCAPE_ILLEGAL_CHARACTER \<Rightarrow>
                    if outputSpace < 2 then Inr (False, ctx2)
                    else (case strchr (HGFS_ILLEGAL_CHARS plat) (bufIn ! processedOffset ctx2) of
                            None \<Rightarrow> Inl NullDeref
                          | Some k \<Rightarrow> out [(HGFS_SUBSTITUTE_CHARS plat @ [0]) ! k, HGFS_ESCAPE_CHAR] 1)
                | HGFS_ESCAPE_RESERVED_NAME \<Rightarrow> if outputSpace < 1 then Inr (False, ctx2) else out [HGFS_ESCAPE_CHAR] 0
                | HGFS_ESCAPE_ILLEGAL_LAST_CHARACTER \<Rightarrow> if outputSpace < 1 then Inr (False, ctx2) else out [HGFS_ESCAPE_CHAR] 0
                | HGFS_ESCAPE_ESCAPE_SEQUENCE \<Rightarrow>
                    if outputSpace < 2 then Inr (False, ctx2) else out [HGFS_ESCAPE_SUBSTITUE_CHAR, HGFS_ESCAPE_CHAR] 1
                | HGFS_ESCAPE_COMPLETE \<Rightarrow>
                    if outputSpace < 1 then Inr (False, ctx2)
                    else bindR (emit ctx2 [0]) (\<lambda>ctx3. Inr (True, ctx3\<lparr>outputOffset := outputOffset ctx2\<rparr>)))))"

definition HgfsCountEscapeChars :: "nat callback" where
  "HgfsCountEscapeChars bufIn offset reason counter =
     Inr (True, if reason \<noteq> HGFS_ESCAPE_COMPLETE then counter + 1 else counter)"

text \<open>The length of the escaped component, or \<^const>\<open>None\<close> for \<open>-1\<close>, and the memory after the call.\<close>

definition HgfsEscapeDoComponent :: "platform \<Rightarrow> u8 list \<Rightarrow> u32 \<Rightarrow> u8 list \<Rightarrow> nat \<Rightarrow> (nat option \<times> u8 list) res" where
  "HgfsEscapeDoComponent plat bufIn sizeBufOut mem base =
     bindR (HgfsEscapeEnumerate plat bufIn (HgfsAddEscapeCharacter plat)
              \<lparr>processedOffset = 0, outputBufferLength = unat sizeBufOut, outputOffset = 0, outputBuffer = (mem, base)\<rparr>) (\<lambda>(ok, ctx).
       Inr (if ok then Some (outputOffset ctx) else None, fst (outputBuffer ctx)))"

definition HgfsEscapeGetComponentSize :: "platform \<Rightarrow> u8 list \<Rightarrow> nat res" where
  "HgfsEscapeGetComponentSize plat bufIn = bindR (HgfsEscapeEnumerate plat bufIn HgfsCountEscapeChars 0) (\<lambda>(ok, n). Inr n)"

function HgfsEscape_Do_leading :: "u8 list \<Rightarrow> nat \<Rightarrow> nat \<Rightarrow> u32 \<Rightarrow> nat \<Rightarrow> u8 list \<Rightarrow> (nat \<times> u32 \<times> nat \<times> u8 list) res" where
  "HgfsEscape_Do_leading bufIn sizeIn cur sizeLeft outPointer mem =
     (if cur < length bufIn then
        if bufIn ! cur = 0 \<and> cur < sizeIn then
          case write_at mem outPointer [0] of
            Inl e \<Rightarrow> Inl e
          | Inr mem1 \<Rightarrow> HgfsEscape_Do_leading bufIn sizeIn (cur + 1) (sizeLeft - 1) (outPointer + 1) mem1
        else Inr (cur, sizeLeft, outPointer, mem)
      else Inl OutOfBounds)"
  by pat_completeness auto

termination
  by (relation "measure (\<lambda>(bufIn, sizeIn, cur, sizeLeft, outPointer, mem). length bufIn - cur)") auto

declare HgfsEscape_Do_leading.simps [simp del]

lemma GetComponent_walk_ge: "GetComponent_walk mem endp walk = Inr w \<Longrightarrow> walk \<le> w"
proof (induction mem endp walk rule: GetComponent_walk.induct)
  case (1 mem endp walk)
  then show ?case by (subst (asm) (2) GetComponent_walk.simps) (auto split: if_splits)
qed

lemma GetComponent_skip_ge: "GetComponent_skip mem endp n = Inr m \<Longrightarrow> n \<le> m \<and> m < length mem"
proof (induction mem endp n rule: GetComponent_skip.induct)
  case (1 mem endp n)
  then show ?case by (subst (asm) (2) GetComponent_skip.simps) (auto split: if_splits)
qed

lemma GetComponent_advances:
  assumes "CPName_GetComponent mem begin endp = Inr (Some (len, nxt))"
  shows "begin + len \<le> nxt" and "begin \<noteq> endp \<Longrightarrow> begin < nxt" and "len = 0 \<Longrightarrow> begin = endp"
  using assms GetComponent_walk_ge GetComponent_skip_ge
  by (fastforce simp: CPName_GetComponent_def bindR_eq_Inr split: if_splits)+

function HgfsEscape_Do_loop :: "platform \<Rightarrow> u8 list \<Rightarrow> nat \<Rightarrow> nat \<Rightarrow> u32 \<Rightarrow> nat \<Rightarrow> u8 list \<Rightarrow> (nat option \<times> u8 list) res" where
  "HgfsEscape_Do_loop plat bufIn sizeIn cur sizeLeft outPointer mem =
     (if cur < sizeIn then
        case CPName_GetComponent bufIn cur sizeIn of
          Inl e \<Rightarrow> Inl e
        | Inr None \<Rightarrow> Inr (None, mem)
        | Inr (Some (componentSize, nxt)) \<Rightarrow>
            (case HgfsEscapeDoComponent plat (take componentSize (drop cur bufIn)) sizeLeft mem outPointer of
               Inl e \<Rightarrow> Inl e
             | Inr (None, mem1) \<Rightarrow> Inr (None, mem1)
             | Inr (Some escapedLength, mem1) \<Rightarrow>
                 HgfsEscape_Do_loop plat bufIn sizeIn nxt (sizeLeft - of_nat (escapedLength + 1)) (outPointer + escapedLength + 1) mem1)
      else Inr (Some outPointer, mem))"
  by pat_completeness auto

termination
  by (relation "measure (\<lambda>(plat, bufIn, sizeIn, cur, sizeLeft, outPointer, mem). sizeIn - cur)")
    (auto dest!: GetComponent_advances(2))

declare HgfsEscape_Do_loop.simps [simp del]

text \<open>
  \<open>sizeIn\<close> bytes of \<open>bufIn\<close> are escaped into the memory \<open>mem\<close> from offset \<open>base\<close> on. The result is \<^verbatim>\<open>int\<close>:
  the length of the output, or \<open>-1\<close>.
\<close>

definition HgfsEscape_Do :: "platform \<Rightarrow> u8 list \<Rightarrow> nat \<Rightarrow> u32 \<Rightarrow> u8 list \<Rightarrow> nat \<Rightarrow> (int \<times> u8 list) res" where
  "HgfsEscape_Do plat bufIn sizeIn sizeBufOut mem base =
     bindR (read_at bufIn (sizeIn - 1) 1) (\<lambda>c.
       let sizeIn = (if c = [0] then sizeIn - 1 else sizeIn)
       in bindR (HgfsEscape_Do_leading bufIn sizeIn 0 sizeBufOut base mem) (\<lambda>(cur, sizeLeft, outPointer, mem1).
            bindR (HgfsEscape_Do_loop plat bufIn sizeIn cur sizeLeft outPointer mem1) (\<lambda>(r, mem2).
              Inr (case r of None \<Rightarrow> - 1 | Some outPointer1 \<Rightarrow> int outPointer1 - int base - 1, mem2))))"

section \<open>The size of an escaped name\<close>

function HgfsEscape_GetSize_leading :: "u8 list \<Rightarrow> nat \<Rightarrow> nat \<Rightarrow> nat res" where
  "HgfsEscape_GetSize_leading bufIn sizeIn cur =
     (if cur < length bufIn then
        if bufIn ! cur = 0 \<and> cur < sizeIn then HgfsEscape_GetSize_leading bufIn sizeIn (cur + 1) else Inr cur
      else Inl OutOfBounds)"
  by pat_completeness auto

termination
  by (relation "measure (\<lambda>(bufIn, sizeIn, cur). length bufIn - cur)") auto

declare HgfsEscape_GetSize_leading.simps [simp del]

function HgfsEscape_GetSize_loop :: "platform \<Rightarrow> u8 list \<Rightarrow> nat \<Rightarrow> nat \<Rightarrow> nat \<Rightarrow> nat option res" where
  "HgfsEscape_GetSize_loop plat bufIn sizeIn cur result =
     (if cur < sizeIn then
        case CPName_GetComponent bufIn cur sizeIn of
          Inl e \<Rightarrow> Inl e
        | Inr None \<Rightarrow> Inr None
        | Inr (Some (componentSize, nxt)) \<Rightarrow>
            (case HgfsEscapeGetComponentSize plat (take componentSize (drop cur bufIn)) of
               Inl e \<Rightarrow> Inl e
             | Inr n \<Rightarrow> HgfsEscape_GetSize_loop plat bufIn sizeIn nxt (result + n))
      else Inr (Some result))"
  by pat_completeness auto

termination
  by (relation "measure (\<lambda>(plat, bufIn, sizeIn, cur, result). sizeIn - cur)") (auto dest!: GetComponent_advances(2))

declare HgfsEscape_GetSize_loop.simps [simp del]

definition HgfsEscape_GetSize :: "platform \<Rightarrow> u8 list \<Rightarrow> nat \<Rightarrow> int res" where
  "HgfsEscape_GetSize plat bufIn sizeIn =
     (if sizeIn = 0 then Inr 0
      else bindR (read_at bufIn (sizeIn - 1) 1) (\<lambda>c.
        let sizeIn = (if c = [0] then sizeIn - 1 else sizeIn)
        in bindR (HgfsEscape_GetSize_leading bufIn sizeIn 0) (\<lambda>cur.
             bindR (HgfsEscape_GetSize_loop plat bufIn sizeIn cur 0) (\<lambda>r.
               Inr (case r of None \<Rightarrow> - 1 | Some result \<Rightarrow> if result = 0 then 0 else int (result + sizeIn))))))"

section \<open>Unescaping\<close>

text \<open>The removal of the escape character at \<open>p\<close> in the component that starts at \<open>base\<close>.\<close>

definition Undo_remove :: "platform \<Rightarrow> u8 list \<Rightarrow> nat \<Rightarrow> nat \<Rightarrow> u32 \<Rightarrow> u8 list res" where
  "Undo_remove plat mem base p unprocessed =
     (let prev = mem ! (p - 1);
          mem1 = (case strchr (HGFS_SUBSTITUTE_CHARS plat) prev of
                    Some k \<Rightarrow> mem[p - 1 := (HGFS_ILLEGAL_CHARS plat @ [0]) ! k]
                  | None \<Rightarrow> if prev = HGFS_ESCAPE_SUBSTITUE_CHAR then mem[p - 1 := HGFS_ESCAPE_CHAR] else mem)
      in if unat unprocessed < p - base + 1 then Inl OutOfBounds
         else bindR (read_at mem1 (p + 1) (unat unprocessed - (p - base) - 1)) (\<lambda>bs. write_at mem1 p bs))"

lemma Undo_remove_length: "Undo_remove plat mem base p u = Inr mem1 \<Longrightarrow> length mem1 = length mem"
  by (auto simp: Undo_remove_def Let_def bindR_eq_Inr write_at_def split: if_splits option.splits)

lemma c_strchr_ge: "c_strchr mem p c = Inr (Some q) \<Longrightarrow> p \<le> q \<and> q < length mem"
proof (induction mem p c rule: c_strchr.induct)
  case (1 mem p c)
  then show ?case by (subst (asm) (2) c_strchr.simps) (auto split: if_splits)
qed

function HgfsEscapeUndoComponent_loop :: "platform \<Rightarrow> u8 list \<Rightarrow> nat \<Rightarrow> nat option \<Rightarrow> u32 \<Rightarrow> nat \<Rightarrow> (u8 list \<times> u32 \<times> nat) res" where
  "HgfsEscapeUndoComponent_loop plat mem base None unprocessed sizeIn = Inr (mem, unprocessed, sizeIn)"
| "HgfsEscapeUndoComponent_loop plat mem base (Some p) unprocessed sizeIn =
     (if HgfsIsEscapeSequence plat (drop base mem) (p - base) sizeIn then
        case Undo_remove plat mem base p unprocessed of
          Inl e \<Rightarrow> Inl e
        | Inr mem1 \<Rightarrow>
            if sizeIn - 1 > 0 then
              case c_strchr mem1 p HGFS_ESCAPE_CHAR of
                Inl e \<Rightarrow> Inl e
              | Inr q \<Rightarrow> HgfsEscapeUndoComponent_loop plat mem1 base q (unprocessed - 1) (sizeIn - 1)
            else Inr (mem1, unprocessed - 1, sizeIn - 1)
      else case c_strchr mem (p + 1) HGFS_ESCAPE_CHAR of
             Inl e \<Rightarrow> Inl e
           | Inr q \<Rightarrow> HgfsEscapeUndoComponent_loop plat mem base q unprocessed sizeIn)"
  by pat_completeness auto

termination
proof (relation "measures [\<lambda>(plat, mem, base, esc, unprocessed, sizeIn). sizeIn,
    \<lambda>(plat, mem, base, esc, unprocessed, sizeIn). case esc of None \<Rightarrow> 0 | Some p \<Rightarrow> Suc (length mem - p)]", goal_cases)
  case (3 plat mem base p unprocessed sizeIn q)
  then show ?case by (cases q) (auto dest!: c_strchr_ge)
qed auto

declare HgfsEscapeUndoComponent_loop.simps [simp del]

definition HgfsEscapeUndoComponent :: "platform \<Rightarrow> u8 list \<Rightarrow> nat \<Rightarrow> u32 \<Rightarrow> (u8 list \<times> u32) res" where
  "HgfsEscapeUndoComponent plat mem base unprocessed =
     bindR (c_strlen (drop base mem)) (\<lambda>sizeIn.
       bindR (c_strchr mem base HGFS_ESCAPE_CHAR) (\<lambda>esc.
         bindR (HgfsEscapeUndoComponent_loop plat mem base esc unprocessed sizeIn) (\<lambda>(mem1, unprocessed1, sizeIn1).
           Inr (mem1, unprocessed1 - of_nat (sizeIn1 + 1)))))"

lemma UndoComponent_loop_length:
  "HgfsEscapeUndoComponent_loop plat mem base esc u n = Inr (mem1, u1, n1) \<Longrightarrow> length mem1 = length mem"
proof (induction plat mem base esc u n rule: HgfsEscapeUndoComponent_loop.induct)
  case (1 plat mem base u n)
  then show ?case by (simp add: HgfsEscapeUndoComponent_loop.simps)
next
  case (2 plat mem base p u n)
  from "2.prems" show ?case
    by (subst (asm) HgfsEscapeUndoComponent_loop.simps)
      (auto split: if_splits sum.splits dest: Undo_remove_length "2.IH" dest!: "2.IH"(1) [simplified])
qed

lemma UndoComponent_length:
  "HgfsEscapeUndoComponent plat mem base u = Inr (mem1, u1) \<Longrightarrow> length mem1 = length mem \<and> base < length mem"
  by (cases "base < length mem") (auto simp: HgfsEscapeUndoComponent_def bindR_eq_Inr c_strlen_def split: if_splits dest: UndoComponent_loop_length)

function HgfsEscape_Undo_loop :: "platform \<Rightarrow> u8 list \<Rightarrow> nat \<Rightarrow> u32 \<Rightarrow> u32 \<Rightarrow> (u8 list \<times> u32) res" where
  "HgfsEscape_Undo_loop plat mem cur unprocessed result =
     (case HgfsEscapeUndoComponent plat mem cur unprocessed of
        Inl e \<Rightarrow> Inl e
      | Inr (mem1, unprocessed1) \<Rightarrow>
          (case c_strlen (drop cur mem1) of
             Inl e \<Rightarrow> Inl e
           | Inr n \<Rightarrow>
               if unprocessed1 > 1 then
                 (case c_strlen (drop (cur + n + 1) mem1) of
                    Inl e \<Rightarrow> Inl e
                  | Inr n' \<Rightarrow> HgfsEscape_Undo_loop plat mem1 (cur + n + 1) unprocessed1 (result + of_nat (n + 1)))
               else Inr (mem1, result + of_nat (n + 1))))"
  by pat_completeness auto

termination
  by (relation "measure (\<lambda>(plat, mem, cur, unprocessed, result). length mem - cur)") (auto dest!: UndoComponent_length)

declare HgfsEscape_Undo_loop.simps [simp del]

text \<open>The name of \<open>sizeIn\<close> bytes at \<open>base\<close> is unescaped in place; the result is its new size.\<close>

definition HgfsEscape_Undo :: "platform \<Rightarrow> u8 list \<Rightarrow> nat \<Rightarrow> u32 \<Rightarrow> (u32 \<times> u8 list) res" where
  "HgfsEscape_Undo plat mem base sizeIn =
     bindR (HgfsEscape_Undo_loop plat mem base (sizeIn + 1) 0) (\<lambda>(mem1, result). Inr (result - 1, mem1))"

end
