(* ===== verification/HgfsName.thy ===== *)
theory HgfsName
  imports HgfsEscape
begin

text \<open>
  Conversion of names between the local file system and the cross-platform form of HGFS: \<^verbatim>\<open>cpName.c\<close>, \<^verbatim>\<open>cpNameLinux.c\<close>,
  \<^verbatim>\<open>cpNameLite.c\<close>, \<^verbatim>\<open>cpNameUtil.c\<close> and \<^verbatim>\<open>cpNameUtilLinux.c\<close> of \<^verbatim>\<open>lib/hgfs\<close>.
\<close>

section \<open>From cross-platform names to paths\<close>

text \<open>
  The loop of \<^verbatim>\<open>CPNameConvertFrom\<close>. In place, the input is read from the output buffer. \<^const>\<open>None\<close> stands for a negative
  result; otherwise the input position, the room left, the output position and the output are returned.
\<close>

definition convert_source :: "u8 list option \<Rightarrow> u8 list \<Rightarrow> u8 list" where
  "convert_source src mem = (case src of None \<Rightarrow> mem | Some bufIn \<Rightarrow> bufIn)"

lemma convert_source_write:
  "write_at mem p bs = Inr mem1 \<Longrightarrow> length (convert_source src mem1) = length (convert_source src mem)"
  by (auto simp: convert_source_def write_at_def split: option.splits if_splits)

definition convert_copy :: "u8 list option \<Rightarrow> nat \<Rightarrow> nat \<Rightarrow> u8 \<Rightarrow> nat \<Rightarrow> u8 list \<Rightarrow> u8 list res" where
  "convert_copy src inp len pathSep out mem =
     (case src of
        None \<Rightarrow> write_at mem out [pathSep]
      | Some bufIn \<Rightarrow> bindR (read_at bufIn inp len) (\<lambda>bs. write_at mem out (pathSep # bs)))"

lemma convert_copy_length:
  "convert_copy src inp len pathSep out mem = Inr mem1 \<Longrightarrow>
   length mem1 = length mem \<and> length (convert_source src mem1) = length (convert_source src mem)"
  by (auto simp: convert_copy_def convert_source_def bindR_eq_Inr write_at_def split: option.splits if_splits)

definition is_dots :: "u8 list \<Rightarrow> nat \<Rightarrow> nat \<Rightarrow> bool" where
  "is_dots m inp len \<longleftrightarrow> len = 1 \<and> m ! inp = 46 \<or> len = 2 \<and> m ! inp = 46 \<and> m ! (inp + 1) = 46"

lemma GetComponent_below:
  assumes "CPName_GetComponent mem begin endp = Inr (Some (len, nxt))" and "len \<noteq> 0"
  shows "begin < length mem"
proof -
  have "begin \<noteq> endp \<Longrightarrow> \<not> begin < length mem \<Longrightarrow> GetComponent_walk mem endp begin = Inl OutOfBounds"
    by (subst GetComponent_walk.simps) simp
  moreover have "begin = endp \<Longrightarrow> GetComponent_walk mem endp begin = Inr begin" by (subst GetComponent_walk.simps) simp
  ultimately show ?thesis using assms by (fastforce simp: CPName_GetComponent_def bindR_eq_Inr split: if_splits)
qed

function CPNameConvertFrom_loop ::
  "u8 list option \<Rightarrow> u8 \<Rightarrow> nat \<Rightarrow> nat \<Rightarrow> nat \<Rightarrow> nat \<Rightarrow> u8 list \<Rightarrow> ((nat \<times> nat \<times> nat) option \<times> u8 list) res" where
  "CPNameConvertFrom_loop src pathSep inEnd inp myOutSize out mem =
     (case CPName_GetComponent (convert_source src mem) inp inEnd of
        Inl e \<Rightarrow> Inl e
      | Inr None \<Rightarrow> Inr (None, mem)
      | Inr (Some (len, nxt)) \<Rightarrow>
          if is_dots (convert_source src mem) inp len then Inr (None, mem)
          else if len = 0 then Inr (Some (inp, myOutSize, out), mem)
          else if int myOutSize - int len - 1 < 0 then Inr (None, mem)
          else case convert_copy src inp len pathSep out mem of
                 Inl e \<Rightarrow> Inl e
               | Inr mem1 \<Rightarrow> CPNameConvertFrom_loop src pathSep inEnd nxt (myOutSize - len - 1) (out + 1 + len) mem1)"
  by pat_completeness auto

termination
proof (relation "measure (\<lambda>(src, pathSep, inEnd, inp, myOutSize, out, mem). length (convert_source src mem) - inp)", goal_cases)
  case (2 src pathSep inEnd inp myOutSize out mem x2 x2a len nxt mem1)
  then show ?case
    using GetComponent_below [of "convert_source src mem" inp inEnd len nxt]
      GetComponent_advances(1) [of "convert_source src mem" inp inEnd len nxt] convert_copy_length [of src inp len pathSep out mem mem1]
    by auto
qed simp

declare CPNameConvertFrom_loop.simps [simp del]

text \<open>
  The state that the pointer arguments of the conversion refer to: the offset of \<^verbatim>\<open>*bufIn\<close> in the input, \<^verbatim>\<open>*inSize\<close>, \<^verbatim>\<open>*outSize\<close>, the
  offset of \<^verbatim>\<open>*bufOut\<close> in the output buffer and the output buffer.
\<close>

record cp_state =
  cp_in :: nat
  cp_inSize :: u64
  cp_outSize :: nat
  cp_out :: nat
  cp_mem :: "u8 list"

text \<open>The sum of a pointer and a size wraps around at 64 bits.\<close>

definition CPNameConvertFrom :: "u8 list option \<Rightarrow> u8 \<Rightarrow> cp_state \<Rightarrow> (int \<times> cp_state) res" where
  "CPNameConvertFrom src pathSep s =
     (let inp = (if src = None then cp_in s + 1 else cp_in s);
          inEnd = (inp + unat (cp_inSize s)) mod 2 ^ 64
      in bindR (CPNameConvertFrom_loop src pathSep inEnd inp (cp_outSize s) (cp_out s) (cp_mem s)) (\<lambda>(r, mem).
           case r of
             None \<Rightarrow> Inr (- 1, s\<lparr>cp_mem := mem\<rparr>)
           | Some (inp1, myOutSize, out) \<Rightarrow>
               if myOutSize < 1 then Inr (- 1, s\<lparr>cp_mem := mem\<rparr>)
               else bindR (write_at mem out [0]) (\<lambda>mem1.
                      Inr (0, \<lparr>cp_in = inp1, cp_inSize = cp_inSize s - of_nat (inp1 - cp_in s), cp_outSize = myOutSize,
                               cp_out = out, cp_mem = mem1\<rparr>))))"

definition CPNameEscapeAndConvertFrom :: "platform \<Rightarrow> u8 list \<Rightarrow> u8 \<Rightarrow> cp_state \<Rightarrow> (int \<times> cp_state) res" where
  "CPNameEscapeAndConvertFrom plat bufIn pathSep s =
     bindR (HgfsEscape_GetSize plat (drop (cp_in s) bufIn) (unat (cp_inSize s))) (\<lambda>inputSize.
       if inputSize < 0 then Inr (- 1, s)
       else if inputSize \<noteq> 0 then
         if inputSize > int (cp_outSize s) then Inr (- 1, s)
         else bindR (HgfsEscape_Do plat (drop (cp_in s) bufIn) (unat (cp_inSize s)) (of_nat (cp_outSize s)) (cp_mem s) (cp_out s + 1)) (\<lambda>(n, mem).
                bindR (CPNameConvertFrom None pathSep (s\<lparr>cp_in := cp_out s, cp_inSize := of_int n, cp_mem := mem\<rparr>)) (\<lambda>(result, s1).
                  Inr (result, s1\<lparr>cp_in := cp_in s + unat (cp_inSize s1), cp_inSize := 0\<rparr>)))
       else CPNameConvertFrom (Some bufIn) pathSep s)"

definition CPName_ConvertFrom :: "platform \<Rightarrow> u8 list \<Rightarrow> cp_state \<Rightarrow> (int \<times> cp_state) res" where
  "CPName_ConvertFrom plat bufIn s = CPNameEscapeAndConvertFrom plat bufIn 47 s"

datatype HgfsNameStatus = HGFS_NAME_STATUS_COMPLETE | HGFS_NAME_STATUS_FAILURE | HGFS_NAME_STATUS_INCOMPLETE_BASE
  | HGFS_NAME_STATUS_INCOMPLETE_ROOT | HGFS_NAME_STATUS_INCOMPLETE_DRIVE | HGFS_NAME_STATUS_INCOMPLETE_UNC
  | HGFS_NAME_STATUS_INCOMPLETE_UNC_MACH | HGFS_NAME_STATUS_DOES_NOT_EXIST | HGFS_NAME_STATUS_ACCESS_DENIED
  | HGFS_NAME_STATUS_SYMBOLIC_LINK | HGFS_NAME_STATUS_OUT_OF_MEMORY | HGFS_NAME_STATUS_TOO_LONG | HGFS_NAME_STATUS_NOT_A_DIRECTORY

definition CPName_ConvertFromRoot :: "u8 list \<Rightarrow> cp_state \<Rightarrow> (HgfsNameStatus \<times> cp_state) res" where
  "CPName_ConvertFromRoot bufIn s =
     bindR (CPName_GetComponent bufIn (cp_in s) (cp_in s + unat (cp_inSize s))) (\<lambda>r.
       case r of
         None \<Rightarrow> Inr (HGFS_NAME_STATUS_FAILURE, s)
       | Some (len, nxt) \<Rightarrow>
           if cp_outSize s < len + 2 then Inr (HGFS_NAME_STATUS_FAILURE, s)
           else bindR (read_at bufIn (cp_in s) len) (\<lambda>bs.
                  bindR (write_at (cp_mem s) (cp_out s) (47 # bs @ [0])) (\<lambda>mem.
                    Inr (HGFS_NAME_STATUS_COMPLETE,
                         \<lparr>cp_in = nxt, cp_inSize = cp_inSize s - of_nat (nxt - cp_in s), cp_outSize = cp_outSize s - (len + 1),
                          cp_out = cp_out s + len + 1, cp_mem = mem\<rparr>))))"

text \<open>The static buffer of 128 bytes that \<^verbatim>\<open>CPName_Print\<close> returns, up to its terminating zero.\<close>

definition CPName_Print :: "u8 list \<Rightarrow> nat \<Rightarrow> u8 list res" where
  "CPName_Print inp size_in =
     (let n = (if size_in > 127 then 124 else size_in);
          tail = (if size_in > 127 then [46, 46, 46, 0] else [0])
      in bindR (read_at inp 0 n) (\<lambda>bs. Inr (map (\<lambda>c. if c \<noteq> 0 then c else 124) bs @ tail)))"

section \<open>From paths to cross-platform names\<close>

text \<open>Strings are read byte by byte; reading past the end of the memory that holds a string is a fault.\<close>

fun skip_seps :: "u8 \<Rightarrow> u8 list \<Rightarrow> u8 list res" where
  "skip_seps sep [] = Inl OutOfBounds"
| "skip_seps sep (c # cs) = (if c = sep then skip_seps sep cs else Inr (c # cs))"

lemma skip_seps_length: "skip_seps sep cs = Inr ds \<Longrightarrow> length ds \<le> length cs"
  by (induction cs) (auto split: if_splits)

function CPNameConvertTo_loop :: "u8 \<Rightarrow> u8 list \<Rightarrow> nat \<Rightarrow> nat \<Rightarrow> u8 list \<Rightarrow> (nat \<times> u8 list) res" where
  "CPNameConvertTo_loop sep [] out endOut mem = Inl OutOfBounds"
| "CPNameConvertTo_loop sep (c # cs) out endOut mem =
     (if c \<noteq> 0 \<and> out < endOut then
        case write_at mem out [if c = sep then 0 else c] of
          Inl e \<Rightarrow> Inl e
        | Inr mem1 \<Rightarrow>
            (case (if c = sep then skip_seps sep cs else Inr cs) of
               Inl e \<Rightarrow> Inl e
             | Inr ds \<Rightarrow> CPNameConvertTo_loop sep ds (out + 1) endOut mem1)
      else Inr (out, mem))"
  by pat_completeness auto

termination
  by (relation "measure (\<lambda>(sep, cs, out, endOut, mem). length cs)") (auto split: if_splits dest!: skip_seps_length)

fun trim_zeros :: "u8 list \<Rightarrow> nat \<Rightarrow> nat \<Rightarrow> nat" where
  "trim_zeros mem base 0 = 0"
| "trim_zeros mem base (Suc n) = (if mem ! (base + n) = 0 then trim_zeros mem base n else Suc n)"

text \<open>The output goes to \<open>bufOutSize\<close> bytes of \<open>mem\<close> from offset \<open>base\<close> on.\<close>

definition CPNameConvertTo :: "platform \<Rightarrow> u8 list \<Rightarrow> nat \<Rightarrow> u8 list \<Rightarrow> nat \<Rightarrow> u8 \<Rightarrow> (int \<times> u8 list) res" where
  "CPNameConvertTo plat nameIn bufOutSize mem base pathSep =
     bindR (skip_seps pathSep nameIn) (\<lambda>name.
       bindR (CPNameConvertTo_loop pathSep name base (base + bufOutSize) mem) (\<lambda>(out, mem1).
         if out = base + bufOutSize then Inr (- 1, mem1)
         else bindR (write_at mem1 out [0]) (\<lambda>mem2.
                bindR (HgfsEscape_Undo plat mem2 base (of_nat (trim_zeros mem2 base (out - base)))) (\<lambda>(n, mem3).
                  Inr (uint n, mem3)))))"

definition CPName_LinuxConvertTo :: "platform \<Rightarrow> u8 list \<Rightarrow> nat \<Rightarrow> u8 list \<Rightarrow> nat \<Rightarrow> (int \<times> u8 list) res" where
  "CPName_LinuxConvertTo plat nameIn bufOutSize mem base = CPNameConvertTo plat nameIn bufOutSize mem base 47"

definition CPName_WindowsConvertTo :: "platform \<Rightarrow> u8 list \<Rightarrow> nat \<Rightarrow> u8 list \<Rightarrow> nat \<Rightarrow> (int \<times> u8 list) res" where
  "CPName_WindowsConvertTo plat nameIn bufOutSize mem base = CPNameConvertTo plat nameIn bufOutSize mem base 92"

definition CPName_ConvertTo :: "platform \<Rightarrow> u8 list \<Rightarrow> nat \<Rightarrow> u8 list \<Rightarrow> nat \<Rightarrow> (int \<times> u8 list) res" where
  "CPName_ConvertTo plat nameIn bufOutSize mem base = CPName_LinuxConvertTo plat nameIn bufOutSize mem base"

section \<open>Utilities\<close>

text \<open>\<open>"root"\<close>, \<open>"unc"\<close> and \<open>"drive"\<close>.\<close>

definition HGFS_SERVER_POLICY_ROOT_SHARE_NAME :: "u8 list" where "HGFS_SERVER_POLICY_ROOT_SHARE_NAME = [114, 111, 111, 116]"
definition HGFS_UNC_DIR_NAME :: "u8 list" where "HGFS_UNC_DIR_NAME = [117, 110, 99]"
definition HGFS_DRIVE_DIR_NAME :: "u8 list" where "HGFS_DRIVE_DIR_NAME = [100, 114, 105, 118, 101]"

text \<open>
  The search reads \<^verbatim>\<open>cpNameIn[index]\<close> before it compares \<open>index\<close> with zero. The argument \<open>n\<close> is \<open>index + 1\<close>, so \<open>0\<close> is the read
  in front of the buffer.
\<close>

fun CPNameUtil_Strrchr_loop :: "u8 list \<Rightarrow> nat \<Rightarrow> u8 \<Rightarrow> nat option res" where
  "CPNameUtil_Strrchr_loop cpNameIn 0 searchChar = Inl OutOfBounds"
| "CPNameUtil_Strrchr_loop cpNameIn (Suc index) searchChar =
     (if index < length cpNameIn then
        if cpNameIn ! index \<noteq> searchChar then CPNameUtil_Strrchr_loop cpNameIn index searchChar else Inr (Some index)
      else Inl OutOfBounds)"

definition CPNameUtil_Strrchr :: "u8 list \<Rightarrow> nat \<Rightarrow> u8 \<Rightarrow> nat option res" where
  "CPNameUtil_Strrchr cpNameIn cpNameInSize searchChar = CPNameUtil_Strrchr_loop cpNameIn cpNameInSize searchChar"

definition CPNameUtil_LinuxConvertToRoot :: "platform \<Rightarrow> u8 list \<Rightarrow> nat \<Rightarrow> u8 list \<Rightarrow> nat \<Rightarrow> (int \<times> u8 list) res" where
  "CPNameUtil_LinuxConvertToRoot plat nameIn bufOutSize mem base =
     (let shareNameSize = length HGFS_SERVER_POLICY_ROOT_SHARE_NAME
      in if bufOutSize \<le> shareNameSize then Inr (- 1, mem)
         else bindR (write_at mem base (HGFS_SERVER_POLICY_ROOT_SHARE_NAME @ [0])) (\<lambda>mem1.
                bindR (CPName_LinuxConvertTo plat nameIn (bufOutSize - shareNameSize - 1) mem1 (base + shareNameSize + 1)) (\<lambda>(result, mem2).
                  Inr (if result < 0 then result else result + int shareNameSize + 1, mem2))))"

definition CPNameUtil_WindowsConvertToRoot :: "platform \<Rightarrow> u8 list \<Rightarrow> nat \<Rightarrow> u8 list \<Rightarrow> nat \<Rightarrow> (int \<times> u8 list) res" where
  "CPNameUtil_WindowsConvertToRoot plat nameIn bufOutSize mem base =
     bindR (read_at nameIn 0 1) (\<lambda>c0.
       bindR (if c0 = [92] then read_at nameIn 1 1 else Inr []) (\<lambda>c1.
         let suffix = 92 # (if c1 = [92] then HGFS_UNC_DIR_NAME else HGFS_DRIVE_DIR_NAME) @ [92]
         in bindR (skip_seps 92 nameIn) (\<lambda>name.
              bindR (c_strlen name) (\<lambda>nameLen.
                bindR (read_at name 1 1) (\<lambda>d1.
                  bindR (if d1 = [58]
                         then if nameLen < 2 then Inl OutOfBounds else bindR (read_at name 2 (nameLen - 2)) (\<lambda>bs. Inr (name ! 0 # bs))
                         else read_at name 0 nameLen) (\<lambda>bs.
                    CPName_WindowsConvertTo plat (HGFS_SERVER_POLICY_ROOT_SHARE_NAME @ suffix @ bs @ [0]) bufOutSize mem base))))))"

definition CPNameUtil_ConvertToRoot :: "platform \<Rightarrow> u8 list \<Rightarrow> nat \<Rightarrow> u8 list \<Rightarrow> nat \<Rightarrow> (int \<times> u8 list) res" where
  "CPNameUtil_ConvertToRoot plat nameIn bufOutSize mem base = CPNameUtil_LinuxConvertToRoot plat nameIn bufOutSize mem base"

definition CPNameUtil_CharReplace :: "u8 list \<Rightarrow> nat \<Rightarrow> u8 \<Rightarrow> u8 \<Rightarrow> u8 list res" where
  "CPNameUtil_CharReplace buf bufSize oldChar newChar =
     (if bufSize \<le> length buf
      then Inr (map (\<lambda>c. if c = oldChar then newChar else c) (take bufSize buf) @ drop bufSize buf) else Inl OutOfBounds)"

definition CPNameLite_ConvertTo :: "u8 list \<Rightarrow> nat \<Rightarrow> u8 \<Rightarrow> u8 list res" where
  "CPNameLite_ConvertTo bufIn inSize pathSep = CPNameUtil_CharReplace bufIn inSize pathSep 0"

definition CPNameLite_ConvertFrom :: "u8 list \<Rightarrow> nat \<Rightarrow> u8 \<Rightarrow> u8 list res" where
  "CPNameLite_ConvertFrom bufIn inSize pathSep = CPNameUtil_CharReplace bufIn inSize 0 pathSep"

section \<open>Unicode forms\<close>

text \<open>
  The conversion of one component between precomposed and decomposed characters is \<open>conv\<close>; it may fail. On macOS it is applied to each
  component, elsewhere the name is copied. \<^const>\<open>None\<close> is the result \<^verbatim>\<open>FALSE\<close>.
\<close>

function ConvertUtf8Form_loop :: "(u8 list \<Rightarrow> u8 list option) \<Rightarrow> u8 list \<Rightarrow> nat \<Rightarrow> nat \<Rightarrow> u8 list \<Rightarrow> u8 list option res" where
  "ConvertUtf8Form_loop conv mem endp begin newData =
     (case CPName_GetComponent mem begin endp of
        Inl e \<Rightarrow> Inl e
      | Inr None \<Rightarrow> Inr None
      | Inr (Some (len, nxt)) \<Rightarrow>
          if len = 0 then Inr (Some newData)
          else case conv (take len (drop begin mem)) of
                 None \<Rightarrow> Inr None
               | Some c \<Rightarrow> ConvertUtf8Form_loop conv mem endp nxt (newData @ c @ [0]))"
  by pat_completeness auto

termination
proof (relation "measure (\<lambda>(conv, mem, endp, begin, newData). length mem - begin)", goal_cases)
  case (2 conv mem endp "begin" newData x2 x2a len nxt c)
  then show ?case using GetComponent_below [of mem "begin" endp len nxt] GetComponent_advances(1) [of mem "begin" endp len nxt] by auto
qed simp

declare ConvertUtf8Form_loop.simps [simp del]

definition CPNameUtilConvertUtf8FormCAndD ::
  "platform \<Rightarrow> (u8 list \<Rightarrow> u8 list option) \<Rightarrow> (u8 list \<Rightarrow> u8 list option) \<Rightarrow> u8 list \<Rightarrow> nat \<Rightarrow> bool \<Rightarrow> u8 list option res" where
  "CPNameUtilConvertUtf8FormCAndD plat toC toD cpName len convertToFormC =
     (if plat = Apple then ConvertUtf8Form_loop (if convertToFormC then toC else toD) cpName (len - 1) 0 []
      else bindR (read_at cpName 0 len) (\<lambda>bs. Inr (Some bs)))"

definition CPNameUtil_Utf8FormHostToUtf8FormC ::
  "platform \<Rightarrow> (u8 list \<Rightarrow> u8 list option) \<Rightarrow> (u8 list \<Rightarrow> u8 list option) \<Rightarrow> u8 list \<Rightarrow> nat \<Rightarrow> u8 list option res" where
  "CPNameUtil_Utf8FormHostToUtf8FormC plat toC toD cpName len = CPNameUtilConvertUtf8FormCAndD plat toC toD cpName len True"

definition CPNameUtil_Utf8FormCToUtf8FormHost ::
  "platform \<Rightarrow> (u8 list \<Rightarrow> u8 list option) \<Rightarrow> (u8 list \<Rightarrow> u8 list option) \<Rightarrow> u8 list \<Rightarrow> nat \<Rightarrow> u8 list option res" where
  "CPNameUtil_Utf8FormCToUtf8FormHost plat toC toD cpName len = CPNameUtilConvertUtf8FormCAndD plat toC toD cpName len False"

end
