(* ===== verification/HgfsEscape_Laws.thy ===== *)
theory HgfsEscape_Laws
  imports HgfsEscape
begin

text \<open>
  What the escaping of HGFS names does. The loops over the components of a name are related to one function that lists the
  components, and the loops over the characters of a component to a function that gives the escaped form of each
  character.
\<close>

section \<open>The components of a name\<close>

definition good :: "u8 list \<Rightarrow> bool" where
  "good c \<longleftrightarrow> c \<noteq> [] \<and> 0 \<notin> set c"

function comps :: "u8 list \<Rightarrow> nat \<Rightarrow> nat \<Rightarrow> u8 list list option res" where
  "comps mem n cur =
     (if cur < n then
        case CPName_GetComponent mem cur n of
          Inl e \<Rightarrow> Inl e
        | Inr None \<Rightarrow> Inr None
        | Inr (Some (len, nxt)) \<Rightarrow> bindR (comps mem n nxt) (\<lambda>r. Inr (map_option (Cons (take len (drop cur mem))) r))
      else Inr (Some []))"
  by pat_completeness auto

termination
  by (relation "measure (\<lambda>(mem, n, cur). n - cur)") (auto dest!: GetComponent_advances(2))

declare comps.simps [simp del]

lemma walk_spec:
  assumes "walk \<le> n" and "n \<le> length mem"
  shows "\<exists>w. GetComponent_walk mem n walk = Inr w \<and> walk \<le> w \<and> w \<le> n \<and> (\<forall>k. walk \<le> k \<and> k < w \<longrightarrow> mem ! k \<noteq> 0) \<and> (w < n \<longrightarrow> mem ! w = 0)"
  using assms
proof (induction mem n walk rule: GetComponent_walk.induct)
  case (1 mem n walk)
  note unfold = GetComponent_walk.simps [of mem n walk]
  show ?case
  proof (cases "walk = n \<or> mem ! walk = 0")
    case True
    then show ?thesis using "1.prems" by (subst unfold) auto
  next
    case False
    then obtain w where w: "GetComponent_walk mem n (walk + 1) = Inr w" "walk + 1 \<le> w" "w \<le> n"
      "\<forall>k. walk + 1 \<le> k \<and> k < w \<longrightarrow> mem ! k \<noteq> 0" "w < n \<longrightarrow> mem ! w = 0"
      using "1.IH" "1.prems" by auto
    have "\<forall>k. walk \<le> k \<and> k < w \<longrightarrow> mem ! k \<noteq> 0"
    proof (intro allI impI)
      fix k
      assume "walk \<le> k \<and> k < w"
      then show "mem ! k \<noteq> 0" using w(4) False by (cases "k = walk") auto
    qed
    then show ?thesis using False "1.prems" w by (subst unfold) auto
  qed
qed

text \<open>
  \<^verbatim>\<open>CPName_GetComponent\<close> reads the byte behind a name that ends in a zero byte.
\<close>

definition readable :: "u8 list \<Rightarrow> nat \<Rightarrow> bool" where
  "readable mem n \<longleftrightarrow> n < length mem \<or> n = length mem \<and> 0 < n \<and> mem ! (n - 1) \<noteq> 0"

lemma readable_le: "readable mem n \<Longrightarrow> n \<le> length mem"
  by (auto simp: readable_def)

lemma readable_zero: "readable mem n \<Longrightarrow> mem ! k = 0 \<Longrightarrow> k + 1 = n \<Longrightarrow> n < length mem"
  by (metis add_diff_cancel_right' readable_def)

lemma skip_spec:
  assumes "m \<le> n" and "readable mem n" and "m = n \<longrightarrow> n < length mem"
  shows "\<exists>k. GetComponent_skip mem n m = Inr k \<and> m \<le> k \<and> k \<le> n \<and> (k < n \<longrightarrow> mem ! k \<noteq> 0)"
  using assms
proof (induction mem n m rule: GetComponent_skip.induct)
  case (1 mem n m)
  note unfold = GetComponent_skip.simps [of mem n m]
  have lt: "m < length mem" using "1.prems" by (auto simp: readable_def)
  show ?case
  proof (cases "mem ! m = 0 \<and> m \<noteq> n")
    case True
    then have "m + 1 = n \<longrightarrow> n < length mem" using readable_zero [OF "1.prems"(2)] by auto
    then obtain k where "GetComponent_skip mem n (m + 1) = Inr k" "m + 1 \<le> k" "k \<le> n" "k < n \<longrightarrow> mem ! k \<noteq> 0"
      using "1.IH" True "1.prems" lt by auto
    then show ?thesis using True lt by (subst unfold) auto
  next
    case False
    then show ?thesis using "1.prems" lt by (subst unfold) auto
  qed
qed

lemma GetComponent_good:
  assumes "CPName_GetComponent mem begin n = Inr (Some (len, nxt))" and "begin < n" and "n \<le> length mem"
  shows "good (take len (drop begin mem))" and "0 < len" and "len = length (take len (drop begin mem))"
proof -
  obtain w where w: "GetComponent_walk mem n begin = Inr w" "begin \<le> w" "w \<le> n" "\<forall>k. begin \<le> k \<and> k < w \<longrightarrow> mem ! k \<noteq> 0"
    using walk_spec [of "begin" n mem] assms by auto
  have len: "len = w - begin" and "w \<noteq> begin"
    using assms(1,2) w(1) by (auto simp: CPName_GetComponent_def bindR_eq_Inr split: if_splits)
  then show "0 < len" "len = length (take len (drop begin mem))" using w(2,3) assms(3) by auto
  then show "good (take len (drop begin mem))"
    using w(3,4) assms(3) len by (auto simp: good_def in_set_conv_nth)
qed

lemma GetComponent_total:
  assumes "begin < n" and "readable mem n"
  shows "\<exists>r. CPName_GetComponent mem begin n = Inr r \<and> (\<forall>len nxt. r = Some (len, nxt) \<longrightarrow> nxt \<le> n)"
proof -
  obtain w where w: "GetComponent_walk mem n begin = Inr w" "begin \<le> w" "w \<le> n" "w < n \<longrightarrow> mem ! w = 0"
    using walk_spec [of "begin" n mem] assms readable_le by auto
  show ?thesis
  proof (cases "w = n \<or> w = begin")
    case True
    then show ?thesis using w assms by (auto simp: CPName_GetComponent_def)
  next
    case False
    then have "w + 1 = n \<longrightarrow> n < length mem" using w(3,4) readable_zero [OF assms(2)] by auto
    then obtain k where "GetComponent_skip mem n (w + 1) = Inr k" "k \<le> n"
      using skip_spec [of "w + 1" n mem] w(3) assms False by auto
    then show ?thesis using w False by (auto simp: CPName_GetComponent_def)
  qed
qed

lemma comps_total:
  assumes "readable mem n"
  shows "\<exists>r. comps mem n cur = Inr r"
  using assms
proof (induction mem n cur rule: comps.induct)
  case (1 mem n cur)
  show ?case
  proof (cases "cur < n")
    case True
    then obtain r where r: "CPName_GetComponent mem cur n = Inr r" using GetComponent_total "1.prems" by blast
    show ?thesis
    proof (cases r)
      case None
      then show ?thesis using True r by (subst comps.simps) auto
    next
      case (Some p)
      then obtain len nxt where p: "r = Some (len, nxt)" by (cases p) auto
      from "1.IH" [OF True r p refl "1.prems"] obtain q where "comps mem n nxt = Inr q" by blast
      then show ?thesis using True r p by (subst comps.simps) auto
    qed
  next
    case False
    then show ?thesis by (subst comps.simps) auto
  qed
qed

text \<open>The induction principle for loops over components.\<close>

lemma comps_cases:
  assumes "comps mem n cur = Inr r"
  obtains (fin) "\<not> cur < n" "r = Some []"
  | (refused) "cur < n" "CPName_GetComponent mem cur n = Inr None" "r = None"
  | (more) len nxt q where "cur < n" "CPName_GetComponent mem cur n = Inr (Some (len, nxt))" "comps mem n nxt = Inr q"
      "r = map_option (Cons (take len (drop cur mem))) q" "cur < nxt"
proof (cases "cur < n")
  case False
  then show thesis using assms fin by (subst (asm) comps.simps) simp
next
  case True
  show thesis
  proof (cases "CPName_GetComponent mem cur n")
    case (Inl e)
    then show thesis using assms True by (subst (asm) comps.simps) simp
  next
    case (Inr x)
    show thesis
    proof (cases x)
      case None
      then show thesis using assms True Inr refused by (subst (asm) comps.simps) simp
    next
      case (Some p)
      then obtain len nxt where p: "x = Some (len, nxt)" by (cases p) auto
      with assms True Inr obtain q where "comps mem n nxt = Inr q" "r = map_option (Cons (take len (drop cur mem))) q"
        by (subst (asm) comps.simps) (auto simp: bindR_eq_Inr)
      moreover have "cur < nxt" using GetComponent_advances(2) [of mem cur n len nxt] Inr p True by auto
      ultimately show thesis using more True Inr p by blast
    qed
  qed
qed

lemma comps_good:
  assumes "comps mem n cur = Inr (Some cs)" and "n \<le> length mem"
  shows "\<forall>c \<in> set cs. good c"
  using assms(1)
proof (induction "n - cur" arbitrary: cur cs rule: less_induct)
  case less
  from less.prems show ?case
  proof (cases rule: comps_cases)
    case (more len nxt q)
    then obtain ds where "q = Some ds" "cs = take len (drop cur mem) # ds" by (cases q) auto
    then show ?thesis using less.hyps [of nxt ds] more GetComponent_good(1) [OF more(2,1) assms(2)] by auto
  qed auto
qed

section \<open>Names in normal form\<close>

fun join0 :: "u8 list list \<Rightarrow> u8 list" where
  "join0 [] = []"
| "join0 [c] = c"
| "join0 (c # d # cs) = c @ 0 # join0 (d # cs)"

lemma join0_Cons: "cs \<noteq> [] \<Longrightarrow> join0 (c # cs) = c @ 0 # join0 cs"
  by (cases cs) simp_all

lemma join0_hd: "cs \<noteq> [] \<Longrightarrow> \<forall>c \<in> set cs. good c \<Longrightarrow> \<exists>x xs. join0 cs = x # xs \<and> x \<noteq> 0"
proof (cases cs)
  case (Cons c ds)
  moreover assume "\<forall>c \<in> set cs. good c"
  ultimately show ?thesis by (cases c; cases ds) (auto simp: good_def)
qed simp

lemma GetComponent_last:
  assumes "good c"
  shows "CPName_GetComponent (pre @ c @ post) (length pre) (length pre + length c) = Inr (Some (length c, length pre + length c))"
proof -
  let ?mem = "pre @ c @ post" and ?n = "length pre + length c"
  obtain w where w: "GetComponent_walk ?mem ?n (length pre) = Inr w" "length pre \<le> w" "w \<le> ?n" "w < ?n \<longrightarrow> ?mem ! w = 0"
    using walk_spec [of "length pre" ?n ?mem] by auto
  have "\<not> w < ?n"
  proof
    assume "w < ?n"
    then have "?mem ! w = c ! (w - length pre)" "w - length pre < length c" using w(2) by (auto simp: nth_append)
    then show False using w(4) \<open>w < ?n\<close> assms by (metis good_def nth_mem)
  qed
  then show ?thesis using w(1,3) by (simp add: CPName_GetComponent_def)
qed

lemma GetComponent_inner:
  assumes "good c" and "x \<noteq> 0" and "length pre + length c + 1 < n" and "n \<le> length (pre @ c @ 0 # x # post)"
  shows "CPName_GetComponent (pre @ c @ 0 # x # post) (length pre) n = Inr (Some (length c, length pre + length c + 1))"
proof -
  let ?mem = "pre @ c @ 0 # x # post"
  obtain w where w: "GetComponent_walk ?mem n (length pre) = Inr w" "length pre \<le> w" "w \<le> n" "w < n \<longrightarrow> ?mem ! w = 0"
    "\<forall>k. length pre \<le> k \<and> k < w \<longrightarrow> ?mem ! k \<noteq> 0"
    using walk_spec [of "length pre" n ?mem] assms(3,4) by auto
  have z: "?mem ! (length pre + length c) = 0" by (simp add: nth_append)
  have ge: "\<not> w < length pre + length c"
  proof
    assume lt: "w < length pre + length c"
    then have "?mem ! w = c ! (w - length pre)" "w - length pre < length c" using w(2) by (auto simp: nth_append)
    then show False using w(4) lt assms(1,3) by (metis good_def nth_mem add_lessD1 less_trans)
  qed
  have "\<not> length pre + length c < w" using w(5) z by (metis le_add1)
  then have eq: "w = length pre + length c" using ge by simp
  have "GetComponent_skip ?mem n (w + 1) = Inr (w + 1)"
    using assms(2) by (subst GetComponent_skip.simps) (simp add: eq nth_append)
  moreover have "c \<noteq> []" using assms(1) by (simp add: good_def)
  ultimately show ?thesis using w(1) eq assms(3) by (simp add: CPName_GetComponent_def)
qed

lemma comps_join0:
  assumes "\<forall>c \<in> set cs. good c"
  shows "comps (pre @ join0 cs @ post) (length pre + length (join0 cs)) (length pre) = Inr (Some cs)"
  using assms
proof (induction cs arbitrary: pre rule: join0.induct)
  case 1
  then show ?case by (subst comps.simps) simp
next
  case (2 c)
  then have c: "good c" by simp
  have "comps (pre @ c @ post) (length pre + length c) (length pre + length c) = Inr (Some [])"
    by (subst comps.simps) simp
  then show ?case using GetComponent_last [OF c, of pre post] c by (subst comps.simps) (simp add: good_def)
next
  case (3 c d cs)
  then have c: "good c" and cs: "\<forall>c \<in> set (d # cs). good c" by auto
  obtain x xs where x: "join0 (d # cs) = x # xs" "x \<noteq> 0" using join0_hd [OF _ cs] by auto
  have "comps ((pre @ c @ [0]) @ join0 (d # cs) @ post) (length (pre @ c @ [0]) + length (join0 (d # cs))) (length (pre @ c @ [0])) =
      Inr (Some (d # cs))"
    by (rule "3.IH" [OF cs])
  then have ih: "comps (pre @ c @ 0 # x # xs @ post) (length pre + length c + 2 + length xs) (length pre + length c + 1) = Inr (Some (d # cs))"
    by (simp add: x(1))
  have "CPName_GetComponent (pre @ c @ 0 # x # (xs @ post)) (length pre) (length pre + length c + 2 + length xs) =
      Inr (Some (length c, length pre + length c + 1))"
    by (rule GetComponent_inner [OF c x(2)]) simp_all
  then show ?case using ih by (subst comps.simps) (simp add: x(1) add.assoc)
qed

section \<open>Escaped characters\<close>

definition illegal :: "platform \<Rightarrow> u8 \<Rightarrow> bool" where
  "illegal plat c \<longleftrightarrow> strchr (HGFS_ILLEGAL_CHARS plat) c \<noteq> None"

definition esc_at :: "platform \<Rightarrow> u8 list \<Rightarrow> nat \<Rightarrow> u8 list" where
  "esc_at plat c i =
     (case strchr (HGFS_ILLEGAL_CHARS plat) (c ! i) of
        Some k \<Rightarrow> [(HGFS_SUBSTITUTE_CHARS plat @ [0]) ! k, HGFS_ESCAPE_CHAR]
      | None \<Rightarrow> if HgfsIsEscapeSequence plat c i (length c) then [HGFS_ESCAPE_SUBSTITUE_CHAR, HGFS_ESCAPE_CHAR] else [c ! i])"

definition esc_range :: "platform \<Rightarrow> u8 list \<Rightarrow> nat \<Rightarrow> nat \<Rightarrow> u8 list" where
  "esc_range plat c i j = concat (map (esc_at plat c) [i..<j])"

definition esc :: "platform \<Rightarrow> u8 list \<Rightarrow> u8 list" where
  "esc plat c = esc_range plat c 0 (length c)"

lemma esc_range_simps [simp]: "esc_range plat c i i = []"
  by (simp add: esc_range_def)

lemma esc_range_Suc: "i \<le> j \<Longrightarrow> esc_range plat c i (Suc j) = esc_range plat c i j @ esc_at plat c j"
  by (simp add: esc_range_def)

lemma esc_range_head: "i < j \<Longrightarrow> esc_range plat c i j = esc_at plat c i @ esc_range plat c (Suc i) j"
  by (simp add: esc_range_def upt_conv_Cons)

lemma esc_range_append: "i \<le> j \<Longrightarrow> j \<le> k \<Longrightarrow> esc_range plat c i k = esc_range plat c i j @ esc_range plat c j k"
  using upt_add_eq_append [of i j "k - j"] by (simp add: esc_range_def)

lemma esc_range_plain:
  assumes "\<forall>k. i \<le> k \<and> k < j \<longrightarrow> esc_at plat c k = [c ! k]" and "i \<le> j" and "j \<le> length c"
  shows "esc_range plat c i j = take (j - i) (drop i c)"
  using assms
proof (induction "j - i" arbitrary: i)
  case (Suc n)
  then have "esc_range plat c (Suc i) j = take (j - Suc i) (drop (Suc i) c)" by auto
  moreover have "i < j" "i < length c" using Suc by auto
  moreover have "esc_at plat c i = [c ! i]" using Suc.prems \<open>i < j\<close> by auto
  ultimately show ?case
    by (simp add: esc_range_head take_Cons' flip: Cons_nth_drop_Suc)
qed simp

lemma length_esc_at: "length (esc_at plat c i) = (if esc_at plat c i = [c ! i] then 1 else 2)"
  by (auto simp: esc_at_def split: option.splits)

section \<open>Escaping a component\<close>

text \<open>
  What the callback has done when the enumeration is at character \<open>i\<close>: the characters before \<open>p\<close> are in the output, and those from \<open>p\<close> to
  \<open>i\<close> need no escape.
\<close>

definition add_inv :: "platform \<Rightarrow> u8 list \<Rightarrow> u8 list \<Rightarrow> nat \<Rightarrow> nat \<Rightarrow> nat \<Rightarrow> HgfsEscapeContext \<Rightarrow> bool" where
  "add_inv plat c mem base N i ctx \<longleftrightarrow> (\<exists>p \<le> i. processedOffset ctx = p \<and> outputBufferLength ctx = N \<and>
     outputOffset ctx = length (esc_range plat c 0 p) \<and> outputOffset ctx \<le> N \<and>
     outputBuffer ctx = (patch mem base (esc_range plat c 0 p), base) \<and> (\<forall>k. p \<le> k \<and> k < i \<longrightarrow> esc_at plat c k = [c ! k]))"

lemma emit_spec:
  assumes "outputBuffer ctx = (patch mem base xs, base)" and "outputOffset ctx = length xs" and "base + length xs + length bs \<le> length mem"
  shows "emit ctx bs = Inr (ctx\<lparr>outputBuffer := (patch mem base (xs @ bs), base), outputOffset := length (xs @ bs)\<rparr>)"
  using assms patch_patch [of base xs bs mem] by (simp add: emit_def write_at_def)

text \<open>The part of the callback that copies the characters up to the current one.\<close>

lemma add_copy:
  assumes I: "add_inv plat c mem base N i ctx" and i: "i \<le> length c" and room: "base + N \<le> length mem"
  shows "outputOffset ctx + (i - processedOffset ctx) = length (esc_range plat c 0 i)"
    and "length (esc_range plat c 0 i) \<le> N \<Longrightarrow> \<exists>bs. read_at c (processedOffset ctx) (i - processedOffset ctx) = Inr bs \<and>
      emit ctx bs = Inr (ctx\<lparr>outputBuffer := (patch mem base (esc_range plat c 0 i), base), outputOffset := length (esc_range plat c 0 i)\<rparr>) \<and>
      processedOffset ctx + (i - processedOffset ctx) = i \<and> outputBufferLength ctx = N"
proof -
  obtain p where p: "p \<le> i" "processedOffset ctx = p" "outputBufferLength ctx = N" "outputOffset ctx = length (esc_range plat c 0 p)"
    "outputBuffer ctx = (patch mem base (esc_range plat c 0 p), base)" "\<forall>k. p \<le> k \<and> k < i \<longrightarrow> esc_at plat c k = [c ! k]"
    using I by (auto simp: add_inv_def)
  have split: "esc_range plat c 0 i = esc_range plat c 0 p @ take (i - p) (drop p c)"
    using esc_range_append [of 0 p i] esc_range_plain [OF p(6,1) i] p(1) by simp
  then show sum: "outputOffset ctx + (i - processedOffset ctx) = length (esc_range plat c 0 i)"
    using p i by simp
  assume le: "length (esc_range plat c 0 i) \<le> N"
  have "read_at c p (i - p) = Inr (take (i - p) (drop p c))" using p(1) i by (simp add: read_at_def)
  moreover have "emit ctx (take (i - p) (drop p c)) =
      Inr (ctx\<lparr>outputBuffer := (patch mem base (esc_range plat c 0 i), base), outputOffset := length (esc_range plat c 0 i)\<rparr>)"
    using emit_spec [OF p(5,4), of "take (i - p) (drop p c)"] le room by (simp add: split)
  ultimately show "\<exists>bs. read_at c (processedOffset ctx) (i - processedOffset ctx) = Inr bs \<and>
      emit ctx bs = Inr (ctx\<lparr>outputBuffer := (patch mem base (esc_range plat c 0 i), base), outputOffset := length (esc_range plat c 0 i)\<rparr>) \<and>
      processedOffset ctx + (i - processedOffset ctx) = i \<and> outputBufferLength ctx = N"
    using p(1-3) by auto
qed

definition too_long :: "platform \<Rightarrow> u8 list \<Rightarrow> u8 list \<Rightarrow> nat \<Rightarrow> HgfsEscapeContext \<Rightarrow> bool" where
  "too_long plat c mem N ctx \<longleftrightarrow> N < length (esc plat c) + 1 \<and> length (fst (outputBuffer ctx)) = length mem"

lemma length_esc_mono: "i \<le> length c \<Longrightarrow> length (esc_range plat c 0 i) \<le> length (esc plat c)"
  using esc_range_append [of 0 i "length c" plat c] by (simp add: esc_def)

lemma add_inv_length: "add_inv plat c mem base N i ctx \<Longrightarrow> base + N \<le> length mem \<Longrightarrow> length (fst (outputBuffer ctx)) = length mem"
  by (auto simp: add_inv_def)

lemma add_escape:
  assumes I: "add_inv plat c mem base N i ctx" and i: "i < length c" and room: "base + N \<le> length mem"
    and r: "reason = HGFS_ESCAPE_ILLEGAL_CHARACTER \<and> illegal plat (c ! i) \<or>
      reason = HGFS_ESCAPE_ESCAPE_SEQUENCE \<and> \<not> illegal plat (c ! i) \<and> HgfsIsEscapeSequence plat c i (length c)"
  shows "\<exists>ok ctx'. HgfsAddEscapeCharacter plat c i reason ctx = Inr (ok, ctx') \<and>
    (if ok then add_inv plat c mem base N (Suc i) ctx' else too_long plat c mem N ctx')"
proof -
  let ?E = "esc_range plat c 0"
  note cp = add_copy [OF I less_imp_le [OF i] room]
  have two: "length (?E (Suc i)) = length (?E i) + 2" and bytes: "?E (Suc i) = ?E i @ esc_at plat c i"
    using r by (auto simp: esc_range_Suc esc_at_def illegal_def)
  have mono: "length (?E (Suc i)) \<le> length (esc plat c)" using length_esc_mono i by (metis Suc_leI)
  show ?thesis
  proof (cases "length (?E i) \<le> N")
    case False
    then have "too_long plat c mem N ctx" using mono two add_inv_length [OF I room] by (simp add: too_long_def)
    moreover have "outputBufferLength ctx = N" using I by (auto simp: add_inv_def)
    ultimately show ?thesis using False cp(1) by (auto simp: HgfsAddEscapeCharacter_def Let_def)
  next
    case True
    let ?c1 = "ctx\<lparr>outputBuffer := (patch mem base (?E i), base), outputOffset := length (?E i)\<rparr>"
    obtain bs where bs: "read_at c (processedOffset ctx) (i - processedOffset ctx) = Inr bs" "emit ctx bs = Inr ?c1"
      "processedOffset ctx + (i - processedOffset ctx) = i" "outputBufferLength ctx = N"
      using cp(2) [OF True] by blast
    let ?c2 = "?c1\<lparr>processedOffset := i\<rparr>"
    show ?thesis
    proof (cases "N - length (?E i) < 2")
      case short: True
      then have "too_long plat c mem N ?c2" using mono two True room by (simp add: too_long_def)
      moreover have "HgfsAddEscapeCharacter plat c i reason ctx = Inr (False, ?c2)"
        using short True r by (elim disjE) (simp_all add: HgfsAddEscapeCharacter_def Let_def cp(1) bs)
      ultimately show ?thesis by auto
    next
      case False
      let ?c3 = "?c2\<lparr>outputBuffer := (patch mem base (?E (Suc i)), base), outputOffset := length (?E (Suc i)), processedOffset := i + 1\<rparr>"
      have em: "emit ?c2 (esc_at plat c i) =
          Inr (?c2\<lparr>outputBuffer := (patch mem base (?E (Suc i)), base), outputOffset := length (?E (Suc i))\<rparr>)"
        using emit_spec [of ?c2 mem base "?E i" "esc_at plat c i"] False True room two by (simp add: bytes)
      have "HgfsAddEscapeCharacter plat c i reason ctx = Inr (True, ?c3)"
        using False True r em by (elim disjE) (auto simp: HgfsAddEscapeCharacter_def Let_def cp(1) bs esc_at_def illegal_def)
      moreover have "add_inv plat c mem base N (Suc i) ?c3"
        using False True two bs(4) by (auto simp: add_inv_def)
      ultimately show ?thesis by auto
    qed
  qed
qed

lemma add_plain:
  assumes "add_inv plat c mem base N i ctx" and "\<not> illegal plat (c ! i)" and "\<not> HgfsIsEscapeSequence plat c i (length c)"
  shows "add_inv plat c mem base N (Suc i) ctx"
proof -
  have "esc_at plat c i = [c ! i]" using assms(2,3) by (simp add: esc_at_def illegal_def)
  then show ?thesis using assms(1) unfolding add_inv_def by (metis le_SucI less_Suc_eq)
qed

lemma enum_escape:
  assumes "i < length c" and "cb c i reason ctx = Inr (ok, ctx1)"
    and "reason = HGFS_ESCAPE_ILLEGAL_CHARACTER \<and> illegal plat (c ! i) \<or>
      reason = HGFS_ESCAPE_ESCAPE_SEQUENCE \<and> \<not> illegal plat (c ! i) \<and> HgfsIsEscapeSequence plat c i (length c)"
  shows "HgfsEscapeEnumerate_loop plat c cb i ctx = (if ok then HgfsEscapeEnumerate_loop plat c cb (Suc i) ctx1 else Inr (False, ctx1))"
  using assms(3)
proof (elim disjE conjE)
  assume "reason = HGFS_ESCAPE_ILLEGAL_CHARACTER" "illegal plat (c ! i)"
  then show ?thesis using assms(1,2) unfolding illegal_def by (subst HgfsEscapeEnumerate_loop.simps) simp
next
  assume "reason = HGFS_ESCAPE_ESCAPE_SEQUENCE" "\<not> illegal plat (c ! i)" "HgfsIsEscapeSequence plat c i (length c)"
  then show ?thesis using assms(1,2) unfolding illegal_def by (subst HgfsEscapeEnumerate_loop.simps) simp
qed

lemma enum_plain:
  assumes "i < length c" and "\<not> illegal plat (c ! i)" and "\<not> HgfsIsEscapeSequence plat c i (length c)"
  shows "HgfsEscapeEnumerate_loop plat c cb i ctx = HgfsEscapeEnumerate_loop plat c cb (Suc i) ctx"
  using assms unfolding illegal_def by (subst HgfsEscapeEnumerate_loop.simps) simp

lemma add_loop:
  assumes "add_inv plat c mem base N i ctx" and "i \<le> length c" and room: "base + N \<le> length mem"
  shows "\<exists>ok ctx'. HgfsEscapeEnumerate_loop plat c (HgfsAddEscapeCharacter plat) i ctx = Inr (ok, ctx') \<and>
    (if ok then add_inv plat c mem base N (length c) ctx' else too_long plat c mem N ctx')"
  using assms(1,2)
proof (induction "length c - i" arbitrary: i ctx)
  case 0
  then show ?case by (subst HgfsEscapeEnumerate_loop.simps) auto
next
  case (Suc n)
  then have i: "i < length c" "Suc i \<le> length c" and n: "n = length c - Suc i" by auto
  show ?case
  proof (cases "illegal plat (c ! i) \<or> HgfsIsEscapeSequence plat c i (length c)")
    case True
    then obtain reason where r: "reason = HGFS_ESCAPE_ILLEGAL_CHARACTER \<and> illegal plat (c ! i) \<or>
      reason = HGFS_ESCAPE_ESCAPE_SEQUENCE \<and> \<not> illegal plat (c ! i) \<and> HgfsIsEscapeSequence plat c i (length c)" by blast
    obtain ok ctx1 where c1: "HgfsAddEscapeCharacter plat c i reason ctx = Inr (ok, ctx1)"
      "if ok then add_inv plat c mem base N (Suc i) ctx1 else too_long plat c mem N ctx1"
      using add_escape [OF Suc.prems(1) i(1) room r] by blast
    show ?thesis
    proof (cases ok)
      case True
      then have "add_inv plat c mem base N (Suc i) ctx1" using c1(2) by simp
      from Suc.hyps(1) [OF n this i(2)] obtain ok2 ctx2 where "HgfsEscapeEnumerate_loop plat c (HgfsAddEscapeCharacter plat) (Suc i) ctx1 = Inr (ok2, ctx2)"
        "if ok2 then add_inv plat c mem base N (length c) ctx2 else too_long plat c mem N ctx2"
        by blast
      then show ?thesis using enum_escape [where cb = "HgfsAddEscapeCharacter plat", OF i(1) c1(1) r] True by auto
    next
      case False
      then show ?thesis using enum_escape [where cb = "HgfsAddEscapeCharacter plat", OF i(1) c1(1) r] c1(2) by auto
    qed
  next
    case False
    then have "add_inv plat c mem base N (Suc i) ctx" using add_plain [OF Suc.prems(1)] by blast
    from Suc.hyps(1) [OF n this i(2)] show ?thesis
      by (subst enum_plain [OF i(1)]) (use False in auto)
  qed
qed

lemma add_complete:
  assumes I: "add_inv plat c mem base N (length c) ctx" and room: "base + N \<le> length mem"
  shows "\<exists>ctx'. HgfsAddEscapeCharacter plat c (length c) HGFS_ESCAPE_COMPLETE ctx = Inr (length (esc plat c) + 1 \<le> N, ctx') \<and>
    (if length (esc plat c) + 1 \<le> N then outputBuffer ctx' = (patch mem base (esc plat c @ [0]), base) \<and> outputOffset ctx' = length (esc plat c)
     else too_long plat c mem N ctx')"
proof -
  note cp = add_copy [OF I order_refl room, folded esc_def]
  have N: "outputBufferLength ctx = N" using I by (auto simp: add_inv_def)
  show ?thesis
  proof (cases "length (esc plat c) \<le> N")
    case False
    then have "too_long plat c mem N ctx" using add_inv_length [OF I room] by (simp add: too_long_def)
    then show ?thesis using False by (simp add: HgfsAddEscapeCharacter_def Let_def cp(1) N)
  next
    case True
    let ?c1 = "ctx\<lparr>outputBuffer := (patch mem base (esc plat c), base), outputOffset := length (esc plat c)\<rparr>"
    obtain bs where bs: "read_at c (processedOffset ctx) (length c - processedOffset ctx) = Inr bs" "emit ctx bs = Inr ?c1"
      "processedOffset ctx + (length c - processedOffset ctx) = length c"
      using cp(2) [OF True] by blast
    let ?c2 = "?c1\<lparr>processedOffset := length c\<rparr>"
    show ?thesis
    proof (cases "N - length (esc plat c) < 1")
      case short: True
      then have "too_long plat c mem N ?c2" using True room by (simp add: too_long_def)
      moreover have "HgfsAddEscapeCharacter plat c (length c) HGFS_ESCAPE_COMPLETE ctx = Inr (False, ?c2)"
        using short True by (simp add: HgfsAddEscapeCharacter_def Let_def cp(1) bs N)
      ultimately show ?thesis using short True by auto
    next
      case False
      have em: "emit ?c2 [0] = Inr (?c2\<lparr>outputBuffer := (patch mem base (esc plat c @ [0]), base), outputOffset := length (esc plat c @ [0])\<rparr>)"
        by (rule emit_spec) (use False True room in auto)
      let ?c3 = "?c2\<lparr>outputBuffer := (patch mem base (esc plat c @ [0]), base), outputOffset := length (esc plat c)\<rparr>"
      have "HgfsAddEscapeCharacter plat c (length c) HGFS_ESCAPE_COMPLETE ctx = Inr (True, ?c3)"
        using False True em by (simp add: HgfsAddEscapeCharacter_def Let_def cp(1) bs N)
      then show ?thesis using False True by auto
    qed
  qed
qed

lemma DoComponent_spec:
  assumes plat: "plat \<noteq> Windows" and c: "good c" and room: "base + unat size_out \<le> length mem"
  shows "\<exists>mem'. HgfsEscapeDoComponent plat c size_out mem base =
      Inr (if length (esc plat c) + 1 \<le> unat size_out then Some (length (esc plat c)) else None, mem') \<and>
    (if length (esc plat c) + 1 \<le> unat size_out then mem' = patch mem base (esc plat c @ [0]) else length mem' = length mem)"
proof -
  let ?ctx = "\<lparr>processedOffset = 0, outputBufferLength = unat size_out, outputOffset = 0, outputBuffer = (mem, base)\<rparr>"
  let ?N = "unat size_out"
  have "add_inv plat c mem base ?N 0 ?ctx" by (simp add: add_inv_def)
  then obtain ok ctx1 where lp: "HgfsEscapeEnumerate_loop plat c (HgfsAddEscapeCharacter plat) 0 ?ctx = Inr (ok, ctx1)"
    "if ok then add_inv plat c mem base ?N (length c) ctx1 else too_long plat c mem ?N ctx1"
    using add_loop [OF _ _ room] by blast
  show ?thesis
  proof (cases ok)
    case True
    then have "add_inv plat c mem base ?N (length c) ctx1" using lp(2) by simp
    from add_complete [OF this room] obtain ctx2 where "HgfsAddEscapeCharacter plat c (length c) HGFS_ESCAPE_COMPLETE ctx1 = Inr (length (esc plat c) + 1 \<le> ?N, ctx2)"
      "if length (esc plat c) + 1 \<le> ?N then outputBuffer ctx2 = (patch mem base (esc plat c @ [0]), base) \<and> outputOffset ctx2 = length (esc plat c)
       else too_long plat c mem ?N ctx2"
      by blast
    then show ?thesis using plat c lp True
      by (auto simp: HgfsEscapeDoComponent_def HgfsEscapeEnumerate_def good_def too_long_def)
  next
    case False
    then show ?thesis using plat c lp
      by (auto simp: HgfsEscapeDoComponent_def HgfsEscapeEnumerate_def good_def too_long_def)
  qed
qed

section \<open>Counting\<close>

lemma length_esc_range: "i \<le> j \<Longrightarrow> j - i \<le> length (esc_range plat c i j)"
proof (induction j)
  case (Suc j)
  then show ?case
    by (cases "i = Suc j") (auto simp: esc_range_Suc length_esc_at split: if_splits)
qed simp

lemma esc_at_plain_iff:
  "0 \<notin> set c \<Longrightarrow> i < length c \<Longrightarrow> esc_at plat c i = [c ! i] \<longleftrightarrow> \<not> illegal plat (c ! i) \<and> \<not> HgfsIsEscapeSequence plat c i (length c)"
  by (auto simp: esc_at_def illegal_def split: option.splits)

lemma count_loop:
  assumes "i \<le> length c" and "0 \<notin> set c"
  shows "HgfsEscapeEnumerate_loop plat c HgfsCountEscapeChars i n =
    Inr (True, n + (length (esc_range plat c i (length c)) - (length c - i)))"
  using assms(1)
proof (induction "length c - i" arbitrary: i n)
  case 0
  then show ?case by (subst HgfsEscapeEnumerate_loop.simps) simp
next
  case (Suc k)
  then have i: "i < length c" "Suc i \<le> length c" "k = length c - Suc i" by auto
  have le: "length c - Suc i \<le> length (esc_range plat c (Suc i) (length c))" using length_esc_range [OF i(2)] by simp
  note ih = Suc.hyps(1) [OF i(3,2)]
  have len: "length (esc_range plat c i (length c)) = length (esc_at plat c i) + length (esc_range plat c (Suc i) (length c))"
    using i(1) by (simp add: esc_range_head)
  show ?case
  proof (cases "illegal plat (c ! i) \<or> HgfsIsEscapeSequence plat c i (length c)")
    case True
    then obtain reason where r: "reason = HGFS_ESCAPE_ILLEGAL_CHARACTER \<and> illegal plat (c ! i) \<or>
      reason = HGFS_ESCAPE_ESCAPE_SEQUENCE \<and> \<not> illegal plat (c ! i) \<and> HgfsIsEscapeSequence plat c i (length c)" by blast
    have cb: "HgfsCountEscapeChars c i reason n = Inr (True, n + 1)" using r by (auto simp: HgfsCountEscapeChars_def)
    have "length (esc_at plat c i) = 2" using True esc_at_plain_iff [OF assms(2) i(1)] length_esc_at [of plat c i] by auto
    then show ?thesis using enum_escape [where cb = HgfsCountEscapeChars, OF i(1) cb r] ih len le i(1) by simp
  next
    case False
    then have "length (esc_at plat c i) = 1" using esc_at_plain_iff [OF assms(2) i(1)] length_esc_at [of plat c i] by auto
    then show ?thesis using enum_plain [OF i(1), of plat HgfsCountEscapeChars n] False ih len le i(1) by simp
  qed
qed

lemma GetComponentSize_spec:
  assumes "plat \<noteq> Windows" and "good c"
  shows "HgfsEscapeGetComponentSize plat c = Inr (length (esc plat c) - length c)"
  using assms count_loop [of 0 c plat 0]
  by (simp add: HgfsEscapeGetComponentSize_def HgfsEscapeEnumerate_def good_def esc_def) (simp add: HgfsCountEscapeChars_def)

lemma length_esc: "length c \<le> length (esc plat c)"
  using length_esc_range [of 0 "length c" plat c] by (simp add: esc_def)

section \<open>The loops over the components\<close>

definition escaped :: "platform \<Rightarrow> u8 list list \<Rightarrow> u8 list" where
  "escaped plat cs = concat (map (\<lambda>c. esc plat c @ [0]) cs)"

lemma escaped_simps [simp]: "escaped plat [] = []" "escaped plat (c # cs) = esc plat c @ 0 # escaped plat cs"
  by (simp_all add: escaped_def)

definition growth :: "platform \<Rightarrow> u8 list list \<Rightarrow> nat" where
  "growth plat cs = (\<Sum>c\<leftarrow>cs. length (esc plat c) - length c)"

lemma growth_simps [simp]: "growth plat [] = 0" "growth plat (c # cs) = length (esc plat c) - length c + growth plat cs"
  by (simp_all add: growth_def)

lemma GetSize_loop_spec:
  assumes "comps buf n cur = Inr r" and "plat \<noteq> Windows" and "n \<le> length buf"
  shows "HgfsEscape_GetSize_loop plat buf n cur k = Inr (map_option (\<lambda>cs. k + growth plat cs) r)"
  using assms(1)
proof (induction "n - cur" arbitrary: cur k r rule: less_induct)
  case less
  from less.prems show ?case
  proof (cases rule: comps_cases)
    case fin
    then show ?thesis by (subst HgfsEscape_GetSize_loop.simps) simp
  next
    case refused
    then show ?thesis by (subst HgfsEscape_GetSize_loop.simps) simp
  next
    case (more len nxt q)
    note GetComponentSize_spec [OF assms(2) GetComponent_good(1) [OF more(2,1) assms(3)]]
    moreover have "\<And>k. HgfsEscape_GetSize_loop plat buf n nxt k = Inr (map_option (\<lambda>cs. k + growth plat cs) q)"
      using less.hyps more by simp
    ultimately show ?thesis using more by (subst HgfsEscape_GetSize_loop.simps) (cases q; simp)
  qed
qed

lemma Do_loop_spec:
  assumes "comps buf n cur = Inr r" and plat: "plat \<noteq> Windows" and n: "n \<le> length buf" and "outp + unat left \<le> length mem"
  shows "\<exists>r' mem'. HgfsEscape_Do_loop plat buf n cur left outp mem = Inr (r', mem') \<and> length mem' = length mem \<and>
    (case r of None \<Rightarrow> r' = None
     | Some cs \<Rightarrow> if length (escaped plat cs) \<le> unat left
                  then r' = Some (outp + length (escaped plat cs)) \<and> mem' = patch mem outp (escaped plat cs) else r' = None)"
  using assms(1,4)
proof (induction "n - cur" arbitrary: cur left outp mem r rule: less_induct)
  case less
  note unfold = HgfsEscape_Do_loop.simps [of plat buf n cur left outp mem]
  from less.prems(1) show ?case
  proof (cases rule: comps_cases)
    case fin
    then show ?thesis by (subst unfold) simp
  next
    case refused
    then show ?thesis by (subst unfold) simp
  next
    case (more len nxt q)
    let ?c = "take len (drop cur buf)" and ?e = "esc plat (take len (drop cur buf))"
    obtain mem1 where d: "HgfsEscapeDoComponent plat ?c left mem outp = Inr (if length ?e + 1 \<le> unat left then Some (length ?e) else None, mem1)"
      "if length ?e + 1 \<le> unat left then mem1 = patch mem outp (?e @ [0]) else length mem1 = length mem"
      using DoComponent_spec [OF plat GetComponent_good(1) [OF more(2,1) n] less.prems(2)] by blast
    show ?thesis
    proof (cases "length ?e + 1 \<le> unat left")
      case False
      then show ?thesis using more d by (subst unfold) (cases q; simp)
    next
      case True
      let ?left = "left - of_nat (length ?e + 1)"
      have "unat (of_nat (length ?e + 1) :: u32) = length ?e + 1"
        using True unsigned_less [of left, where 'a = nat] by (intro unat_of_nat_bound) simp
      then have left: "unat ?left = unat left - (length ?e + 1)"
        using True by (subst unat_sub) (auto simp: word_le_nat_alt)
      have m1: "mem1 = patch mem outp (?e @ [0])" "length mem1 = length mem" using d(2) True less.prems(2) by auto
      have "outp + length ?e + 1 + unat ?left \<le> length mem1" using left True less.prems(2) m1(2) by simp
      moreover have "n - nxt < n - cur" using more(1,5) by simp
      ultimately obtain r' mem' where ih:
        "HgfsEscape_Do_loop plat buf n nxt ?left (outp + length ?e + 1) mem1 = Inr (r', mem')" "length mem' = length mem1"
        "case q of None \<Rightarrow> r' = None | Some cs \<Rightarrow> if length (escaped plat cs) \<le> unat ?left
           then r' = Some (outp + length ?e + 1 + length (escaped plat cs)) \<and> mem' = patch mem1 (outp + length ?e + 1) (escaped plat cs) else r' = None"
        using less.hyps [OF _ more(3)] by blast
      have "patch mem1 (outp + length ?e + 1) zs = patch mem outp (?e @ 0 # zs)" if "length zs \<le> unat ?left" for zs
        using patch_patch [where off = outp and ys = "?e @ [0]" and xs = mem and zs = zs] that left True less.prems(2) m1 by simp
      then show ?thesis using ih d(1) True more left m1(2) by (subst unfold) (cases q; auto)
    qed
  qed
qed

lemma GetSize_leading_skip: "cur \<le> n \<Longrightarrow> HgfsEscape_GetSize_leading buf n cur = GetComponent_skip buf n cur"
proof (induction buf n cur rule: HgfsEscape_GetSize_leading.induct)
  case (1 buf n cur)
  then show ?case
    by (cases "cur < n") (subst HgfsEscape_GetSize_leading.simps, subst GetComponent_skip.simps, auto)+
qed

lemma Do_leading_spec:
  assumes "GetComponent_skip buf n cur = Inr k" and "cur \<le> n" and "outp + (k - cur) \<le> length mem"
  shows "HgfsEscape_Do_leading buf n cur left outp mem =
    Inr (k, left - of_nat (k - cur), outp + (k - cur), patch mem outp (replicate (k - cur) 0))"
  using assms
proof (induction buf n cur left outp mem rule: HgfsEscape_Do_leading.induct)
  case (1 buf n cur left outp mem)
  note unfold = HgfsEscape_Do_leading.simps [of buf n cur left outp mem]
  have lt: "cur \<le> k" "cur < length buf" using GetComponent_skip_ge [OF "1.prems"(1)] by auto
  show ?case
  proof (cases "buf ! cur = 0 \<and> cur < n")
    case True
    then have k: "GetComponent_skip buf n (cur + 1) = Inr k" using "1.prems"(1) lt
      by (subst (asm) GetComponent_skip.simps) (auto split: if_splits)
    then have gt: "cur + 1 \<le> k" using GetComponent_skip_ge by blast
    then have w: "write_at mem outp [0] = Inr (patch mem outp [0])" "length (patch mem outp [0]) = length mem"
      using "1.prems"(3) by (auto simp: write_at_def)
    have rep: "replicate (k - cur) (0::u8) = 0 # replicate (k - (cur + 1)) 0" using gt by (cases "k - cur") auto
    have "patch (patch mem outp [0]) (outp + 1) (replicate (k - (cur + 1)) 0) = patch mem outp (replicate (k - cur) 0)"
      using patch_patch [where off = outp and ys = "[0]" and xs = mem and zs = "replicate (k - (cur + 1)) 0"] "1.prems"(3) gt rep by simp
    moreover have "left - 1 - of_nat (k - (cur + 1)) = left - of_nat (k - cur)"
      using gt by (simp add: of_nat_diff algebra_simps)
    ultimately show ?thesis using "1.IH" [OF lt(2) True w(1) k] True lt gt w "1.prems"(3) by (subst unfold) auto
  next
    case False
    then have "k = cur" using "1.prems"(1,2) lt by (subst (asm) GetComponent_skip.simps) (auto split: if_splits)
    then show ?thesis using False lt by (subst unfold) auto
  qed
qed

section \<open>Whole names\<close>

definition trimmed :: "u8 list \<Rightarrow> nat \<Rightarrow> nat" where
  "trimmed buf n = (if buf ! (n - 1) = 0 then n - 1 else n)"

lemma trimmed_le: "trimmed buf n \<le> n"
  by (simp add: trimmed_def)

lemma trimmed_readable: "0 < n \<Longrightarrow> n \<le> length buf \<Longrightarrow> readable buf (trimmed buf n)"
  by (auto simp: readable_def trimmed_def)

lemma name_parts:
  assumes "0 < n" and "n \<le> length buf"
  obtains k r where "GetComponent_skip buf (trimmed buf n) 0 = Inr k" and "k \<le> trimmed buf n"
    and "k < trimmed buf n \<longrightarrow> buf ! k \<noteq> 0" and "comps buf (trimmed buf n) k = Inr r"
proof -
  note rd = trimmed_readable [OF assms]
  have "trimmed buf n = 0 \<longrightarrow> trimmed buf n < length buf" using assms by auto
  then obtain k where "GetComponent_skip buf (trimmed buf n) 0 = Inr k" "k \<le> trimmed buf n" "k < trimmed buf n \<longrightarrow> buf ! k \<noteq> 0"
    using skip_spec [OF _ rd, of 0] by auto
  moreover obtain r where "comps buf (trimmed buf n) k = Inr r" using comps_total [OF rd] by blast
  ultimately show thesis using that by blast
qed

lemma read_last:
  assumes "0 < n" and "n \<le> length buf"
  shows "read_at buf (n - 1) 1 = Inr [buf ! (n - 1)]"
  using assms by (simp add: read_at_def take_Suc_conv_app_nth take_Suc hd_drop_conv_nth)

lemma GetSize_spec:
  assumes "0 < n" and "n \<le> length buf" and "plat \<noteq> Windows"
    and "GetComponent_skip buf (trimmed buf n) 0 = Inr k" and "comps buf (trimmed buf n) k = Inr r"
  shows "HgfsEscape_GetSize plat buf n =
    Inr (case r of None \<Rightarrow> - 1 | Some cs \<Rightarrow> if growth plat cs = 0 then 0 else int (growth plat cs + trimmed buf n))"
proof -
  have "trimmed buf n \<le> length buf" using trimmed_le [of buf n] assms(2) by simp
  note lp = GetSize_loop_spec [OF assms(5,3) this, of 0]
  show ?thesis
    using assms(1,4) lp read_last [OF assms(1,2)]
    by (cases r; cases "buf ! (n - 1) = 0") (simp_all add: HgfsEscape_GetSize_def GetSize_leading_skip trimmed_def)
qed

lemma Do_spec:
  assumes "0 < n" and "n \<le> length buf" and "plat \<noteq> Windows"
    and "GetComponent_skip buf (trimmed buf n) 0 = Inr k" and "comps buf (trimmed buf n) k = Inr r"
    and "k \<le> unat sz" and "base + unat sz \<le> length mem"
  shows "\<exists>v mem'. HgfsEscape_Do plat buf n sz mem base = Inr (v, mem') \<and> length mem' = length mem \<and>
    (case r of None \<Rightarrow> v = - 1
     | Some cs \<Rightarrow> if k + length (escaped plat cs) \<le> unat sz
                  then v = int (k + length (escaped plat cs)) - 1 \<and> mem' = patch mem base (replicate k 0 @ escaped plat cs) else v = - 1)"
proof -
  let ?mem = "patch mem base (replicate k 0)"
  have le: "trimmed buf n \<le> length buf" using trimmed_le [of buf n] assms(2) by simp
  have lead: "HgfsEscape_Do_leading buf (trimmed buf n) 0 sz base mem = Inr (k, sz - of_nat k, base + k, ?mem)"
    using Do_leading_spec [OF assms(4), of base mem sz] assms(6,7) by simp
  have "unat (of_nat k :: u32) = k" using assms(6) unat_lt_32 [of sz] by (intro unat_of_nat_bound) simp
  then have left: "unat (sz - of_nat k) = unat sz - k" using assms(6) by (subst unat_sub) (auto simp: word_le_nat_alt)
  have len: "length ?mem = length mem" using assms(6,7) by simp
  have room: "base + k + unat (sz - of_nat k) \<le> length ?mem" using left len assms(6,7) by simp
  have pp: "patch ?mem (base + k) zs = patch mem base (replicate k 0 @ zs)" if "length zs \<le> unat sz - k" for zs
    using patch_patch [where off = base and ys = "replicate k 0" and xs = mem and zs = zs] that assms(6,7) by simp
  from Do_loop_spec [OF assms(5,3) le room] obtain r' mem' where
    "HgfsEscape_Do_loop plat buf (trimmed buf n) k (sz - of_nat k) (base + k) ?mem = Inr (r', mem')" "length mem' = length ?mem"
    "case r of None \<Rightarrow> r' = None
     | Some cs \<Rightarrow> if length (escaped plat cs) \<le> unat (sz - of_nat k)
                  then r' = Some (base + k + length (escaped plat cs)) \<and> mem' = patch ?mem (base + k) (escaped plat cs) else r' = None"
    by blast
  then show ?thesis
    using lead len left pp read_last [OF assms(1,2)] assms(6)
    by (cases r; cases "buf ! (n - 1) = 0") (auto simp: HgfsEscape_Do_def trimmed_def)
qed

end
