(* ===== verification/HgfsEscape_Undo.thy ===== *)
theory HgfsEscape_Undo
  imports HgfsEscape_Laws
begin

text \<open>
  Unescaping an escaped name of the shared-folder protocol gives the name back on the platforms other than Windows. Characters are
  restored from left to right: in front of the cursor the component is already the original one, so that a percent sign that
  was no escape sequence in the original is not taken for one.
\<close>

section \<open>One escape sequence\<close>

lemma strchr_simps:
  "strchr [] x = (if x = 0 then Some 0 else None)"
  "strchr (a # s) x = (if a = x then Some 0 else map_option Suc (strchr s x))"
  by (auto simp: strchr_def Let_def)

lemma substitute_restores:
  assumes "plat \<noteq> Windows" and "x \<noteq> 0" and "strchr (HGFS_ILLEGAL_CHARS plat) x = Some k"
  shows "strchr (HGFS_SUBSTITUTE_CHARS plat) ((HGFS_SUBSTITUTE_CHARS plat @ [0]) ! k) = Some k"
    and "(HGFS_ILLEGAL_CHARS plat @ [0]) ! k = x"
    and "(HGFS_SUBSTITUTE_CHARS plat @ [0]) ! k \<noteq> 0" and "(HGFS_SUBSTITUTE_CHARS plat @ [0]) ! k \<noteq> HGFS_ESCAPE_CHAR"
  using assms by (cases plat; auto simp: strchr_simps HGFS_ESCAPE_CHAR_def split: if_splits)+

lemma esc_substitute_no_substitute: "plat \<noteq> Windows \<Longrightarrow> strchr (HGFS_SUBSTITUTE_CHARS plat) HGFS_ESCAPE_SUBSTITUE_CHAR = None"
  by (cases plat) (auto simp: strchr_simps HGFS_ESCAPE_SUBSTITUE_CHAR_def)

definition restore :: "platform \<Rightarrow> u8 \<Rightarrow> u8" where
  "restore plat s =
     (case strchr (HGFS_SUBSTITUTE_CHARS plat) s of
        Some k \<Rightarrow> (HGFS_ILLEGAL_CHARS plat @ [0]) ! k
      | None \<Rightarrow> if s = HGFS_ESCAPE_SUBSTITUE_CHAR then HGFS_ESCAPE_CHAR else s)"

lemma Undo_remove_restore:
  "Undo_remove plat mem base p u =
     (let mem1 = mem[p - 1 := restore plat (mem ! (p - 1))]
      in if unat u < p - base + 1 then Inl OutOfBounds
         else bindR (read_at mem1 (p + 1) (unat u - (p - base) - 1)) (\<lambda>bs. write_at mem1 p bs))"
proof -
  have "(case strchr (HGFS_SUBSTITUTE_CHARS plat) (mem ! (p - 1)) of
      Some k \<Rightarrow> mem[p - 1 := (HGFS_ILLEGAL_CHARS plat @ [0]) ! k]
    | None \<Rightarrow> if mem ! (p - 1) = HGFS_ESCAPE_SUBSTITUE_CHAR then mem[p - 1 := HGFS_ESCAPE_CHAR] else mem) =
    mem[p - 1 := restore plat (mem ! (p - 1))]"
    by (simp add: restore_def split: option.split)
  then show ?thesis unfolding Undo_remove_def Let_def by (simp only:)
qed

lemma Undo_remove_spec:
  assumes mem: "mem = A @ s # HGFS_ESCAPE_CHAR # B @ junk" and "base \<le> length A"
    and u: "unat u = length A - base + 2 + length B"
  shows "Undo_remove plat mem base (length A + 1) u = Inr (A @ restore plat s # B @ drop (length B) (HGFS_ESCAPE_CHAR # B @ junk))"
proof -
  let ?mem1 = "A @ restore plat s # HGFS_ESCAPE_CHAR # B @ junk"
  have "read_at ?mem1 (length A + 1 + 1) (length B) = Inr B" by (simp add: read_at_def)
  moreover have "write_at ?mem1 (length A + 1) B = Inr (A @ restore plat s # B @ drop (length B) (HGFS_ESCAPE_CHAR # B @ junk))"
    by (simp add: write_at_def patch_def)
  ultimately show ?thesis
    using assms(2) u by (simp add: Undo_remove_restore mem Let_def)
qed

lemma escape_pair:
  assumes "plat \<noteq> Windows" and "i < length c" and "c ! i \<noteq> 0" and "esc_at plat c i \<noteq> [c ! i]"
  obtains s where "esc_at plat c i = [s, HGFS_ESCAPE_CHAR]" and "restore plat s = c ! i" and "s \<noteq> 0" and "s \<noteq> HGFS_ESCAPE_CHAR"
    and "strchr (HGFS_SUBSTITUTE_CHARS plat) s \<noteq> None \<or> s = HGFS_ESCAPE_SUBSTITUE_CHAR \<and> 0 < i \<and>
      (c ! (i - 1) = HGFS_ESCAPE_SUBSTITUE_CHAR \<or> strchr (HGFS_SUBSTITUTE_CHARS plat) (c ! (i - 1)) \<noteq> None)"
proof (cases "strchr (HGFS_ILLEGAL_CHARS plat) (c ! i)")
  case None
  then have seq: "HgfsIsEscapeSequence plat c i (length c)" and at: "esc_at plat c i = [HGFS_ESCAPE_SUBSTITUE_CHAR, HGFS_ESCAPE_CHAR]"
    using assms(4) by (auto simp: esc_at_def split: if_splits)
  have "c ! i = HGFS_ESCAPE_CHAR" "0 < i"
    "c ! (i - 1) = HGFS_ESCAPE_SUBSTITUE_CHAR \<or> strchr (HGFS_SUBSTITUTE_CHARS plat) (c ! (i - 1)) \<noteq> None"
    using seq assms(1) by (auto simp: HgfsIsEscapeSequence_def split: if_splits)
  then show thesis
    using that [OF at] esc_substitute_no_substitute [OF assms(1)]
    by (auto simp: restore_def) (auto simp: HGFS_ESCAPE_SUBSTITUE_CHAR_def HGFS_ESCAPE_CHAR_def)
next
  case (Some k)
  note substitute_restores [OF assms(1,3) Some]
  moreover have "esc_at plat c i = [(HGFS_SUBSTITUTE_CHARS plat @ [0]) ! k, HGFS_ESCAPE_CHAR]" using Some by (simp add: esc_at_def)
  ultimately show thesis using that by (auto simp: restore_def)
qed

lemma IsEscapeSequence_cong:
  assumes "plat \<noteq> Windows" and "\<And>k. k \<le> i \<Longrightarrow> b ! k = c ! k"
  shows "HgfsIsEscapeSequence plat b i m = HgfsIsEscapeSequence plat c i n"
proof -
  have "b ! i = c ! i" "b ! (i - 1) = c ! (i - 1)" "b ! (i - 2) = c ! (i - 2)" using assms(2) by simp_all
  then show ?thesis using assms(1) unfolding HgfsIsEscapeSequence_def by (simp only: simp_thms)
qed

lemma c_strchr_steps:
  "p < length mem \<Longrightarrow> mem ! p = x \<Longrightarrow> c_strchr mem p x = Inr (Some p)"
  "p < length mem \<Longrightarrow> mem ! p \<noteq> x \<Longrightarrow> mem ! p \<noteq> 0 \<Longrightarrow> c_strchr mem p x = c_strchr mem (p + 1) x"
  "p < length mem \<Longrightarrow> mem ! p = 0 \<Longrightarrow> x \<noteq> 0 \<Longrightarrow> c_strchr mem p x = Inr None"
  by (subst c_strchr.simps, simp)+

section \<open>One component\<close>

lemma undo_plain_step:
  assumes "plat \<noteq> Windows" and "good c" and i: "i < length c" and plain: "esc_at plat c i = [c ! i]"
    and mem: "mem = pre @ take (Suc i) c @ post"
  shows "bindR (c_strchr mem (length pre + i) HGFS_ESCAPE_CHAR) (\<lambda>q. HgfsEscapeUndoComponent_loop plat mem (length pre) q u n) =
    bindR (c_strchr mem (length pre + Suc i) HGFS_ESCAPE_CHAR) (\<lambda>q. HgfsEscapeUndoComponent_loop plat mem (length pre) q u n)"
proof -
  have nz: "c ! i \<noteq> 0" using nth_mem [OF i] assms(2) unfolding good_def by metis
  have lt: "length pre + i < length mem" using mem i by simp
  have same: "drop (length pre) mem ! k = c ! k" if "k \<le> i" for k
    using mem that i by (simp add: nth_append)
  then have at: "mem ! (length pre + i) = c ! i" using lt by (simp add: nth_drop)
  show ?thesis
  proof (cases "c ! i = HGFS_ESCAPE_CHAR")
    case False
    then show ?thesis using c_strchr_steps(2) [OF lt] at nz by simp
  next
    case True
    have "\<not> HgfsIsEscapeSequence plat c i (length c)" using plain esc_at_plain_iff [of c i plat] i assms(2) by (auto simp: good_def)
    then have "\<not> HgfsIsEscapeSequence plat (drop (length pre) mem) i n"
      using IsEscapeSequence_cong [OF assms(1) same, of i n "length c"] by simp
    then show ?thesis using c_strchr_steps(1) [OF lt] at True
      by (simp add: HgfsEscapeUndoComponent_loop.simps(2) bindR_def)
  qed
qed

lemma undo_pair_step:
  assumes "plat \<noteq> Windows" and "good c" and i: "i < length c" and "esc_at plat c i \<noteq> [c ! i]"
    and mem: "mem = pre @ take i c @ esc_at plat c i @ B @ junk"
    and u: "unat u = i + 2 + length B" and n: "0 < n" and mem': "mem' = pre @ take (Suc i) c @ B @ drop (length B) (HGFS_ESCAPE_CHAR # B @ junk)"
  shows "bindR (c_strchr mem (length pre + i) HGFS_ESCAPE_CHAR) (\<lambda>q. HgfsEscapeUndoComponent_loop plat mem (length pre) q u (Suc n)) =
    bindR (c_strchr mem' (length pre + Suc i) HGFS_ESCAPE_CHAR) (\<lambda>q. HgfsEscapeUndoComponent_loop plat mem' (length pre) q (u - 1) n)"
proof -
  have nz: "c ! i \<noteq> 0" using nth_mem [OF i] assms(2) unfolding good_def by metis
  obtain s where s: "esc_at plat c i = [s, HGFS_ESCAPE_CHAR]" "restore plat s = c ! i" "s \<noteq> 0" "s \<noteq> HGFS_ESCAPE_CHAR"
    "strchr (HGFS_SUBSTITUTE_CHARS plat) s \<noteq> None \<or> s = HGFS_ESCAPE_SUBSTITUE_CHAR \<and> 0 < i \<and>
     (c ! (i - 1) = HGFS_ESCAPE_SUBSTITUE_CHAR \<or> strchr (HGFS_SUBSTITUTE_CHARS plat) (c ! (i - 1)) \<noteq> None)"
    using escape_pair [OF assms(1) i nz assms(4)] by blast
  let ?A = "pre @ take i c"
  have mem: "mem = ?A @ s # HGFS_ESCAPE_CHAR # B @ junk" using mem s(1) by simp
  have lA: "length ?A = length pre + i" using i by simp
  have at: "mem ! (length pre + i) = s" "mem ! (length pre + i + 1) = HGFS_ESCAPE_CHAR"
    using mem lA by (simp_all add: nth_append)
  have before: "0 < i \<longrightarrow> drop (length pre) mem ! (i - 1) = c ! (i - 1)" using mem i by (auto simp: nth_append)
  have lt: "length pre + i + 1 < length mem" using mem lA by simp
  have seq: "HgfsIsEscapeSequence plat (drop (length pre) mem) (i + 1) (Suc n)"
    using at lt s(5) before by (auto simp: HgfsIsEscapeSequence_def nth_drop)
  have "unat u = length ?A - length pre + 2 + length B" using u lA by simp
  then have "Undo_remove plat mem (length pre) (length pre + i + 1) u = Inr mem'"
    using Undo_remove_spec [OF mem, of "length pre" u plat] lA s(2) mem' take_Suc_conv_app_nth [OF i] by simp
  moreover have "c_strchr mem (length pre + i) HGFS_ESCAPE_CHAR = Inr (Some (length pre + i + 1))"
    using c_strchr_steps(1) [OF lt at(2)] c_strchr_steps(2) [of "length pre + i" mem HGFS_ESCAPE_CHAR] at(1) lt s(3,4) by simp
  ultimately show ?thesis
    using seq n by (simp add: HgfsEscapeUndoComponent_loop.simps(2) bindR_def split: sum.split)
qed

lemma undo_from:
  assumes "plat \<noteq> Windows" and "good c" and "i \<le> length c"
    and "mem = pre @ take i c @ esc_range plat c i (length c) @ 0 # rest @ junk"
    and "unat u = i + length (esc_range plat c i (length c)) + 1 + length rest"
  shows "\<exists>junk' u'. bindR (c_strchr mem (length pre + i) HGFS_ESCAPE_CHAR)
      (\<lambda>q. HgfsEscapeUndoComponent_loop plat mem (length pre) q u (i + length (esc_range plat c i (length c)))) =
    Inr (pre @ c @ 0 # rest @ junk', u', length c) \<and> unat u' = length c + 1 + length rest \<and> length (rest @ junk') + length c + 1 + length pre = length mem"
  using assms(3-)
proof (induction "length c - i" arbitrary: i mem u junk)
  case 0
  then have "i = length c" by simp
  moreover have "c_strchr mem (length pre + i) HGFS_ESCAPE_CHAR = Inr None"
    using 0 by (intro c_strchr_steps) (auto simp: nth_append HGFS_ESCAPE_CHAR_def)
  ultimately show ?case using "0.prems" by (auto simp: HgfsEscapeUndoComponent_loop.simps)
next
  case (Suc m)
  let ?R = "esc_range plat c (Suc i) (length c)"
  have i: "i < length c" "Suc i \<le> length c" "m = length c - Suc i" using Suc by auto
  have R: "esc_range plat c i (length c) = esc_at plat c i @ ?R" using i(1) by (rule esc_range_head)
  note ih = Suc.hyps(1) [OF i(3,2)]
  show ?case
  proof (cases "esc_at plat c i = [c ! i]")
    case True
    have mem: "mem = pre @ take (Suc i) c @ ?R @ 0 # rest @ junk"
      using Suc.prems(2) R True take_Suc_conv_app_nth [OF i(1)] by simp
    have len: "i + length (esc_range plat c i (length c)) = Suc i + length ?R" using R True by simp
    then have "unat u = Suc i + length ?R + 1 + length rest" using Suc.prems(3) by simp
    then show ?thesis using ih [OF mem] undo_plain_step [OF assms(1,2) i(1) True mem, of u "Suc i + length ?R"] len by simp
  next
    case False
    then have two: "length (esc_at plat c i) = 2" using length_esc_at [of plat c i] by simp
    let ?junk = "drop (length ?R + 1 + length rest) (HGFS_ESCAPE_CHAR # ?R @ 0 # rest @ junk)"
    let ?mem = "pre @ take (Suc i) c @ ?R @ 0 # rest @ ?junk"
    have len: "i + length (esc_range plat c i (length c)) = Suc (Suc i + length ?R)" using R two by simp
    then have u: "unat u = i + 2 + length (?R @ 0 # rest)" using Suc.prems(3) by simp
    have "mem = pre @ take i c @ esc_at plat c i @ (?R @ 0 # rest) @ junk" using Suc.prems(2) R by simp
    note undo_pair_step [OF assms(1,2) i(1) False this u, of "Suc i + length ?R" ?mem]
    moreover have "unat (u - 1) = Suc i + length ?R + 1 + length rest"
      using u by (subst unat_minus_one) (auto simp: unat_eq_zero)
    moreover have "length ?mem = length mem" using Suc.prems(2) R two i(1) by simp
    ultimately show ?thesis using ih [OF refl, of "u - 1" ?junk] len by simp
  qed
qed

lemma esc_legal:
  assumes "plat \<noteq> Windows" and "good c" and "x \<in> set (esc plat c)"
  shows "\<not> illegal plat x"
proof -
  obtain i where i: "i < length c" "x \<in> set (esc_at plat c i)" using assms(3) by (auto simp: esc_def esc_range_def)
  then have "c ! i \<noteq> 0" using nth_mem [of i c] assms(2) unfolding good_def by metis
  then show ?thesis using i(2) assms(1)
    by (cases plat) (auto simp: esc_at_def illegal_def strchr_simps HGFS_ESCAPE_CHAR_def HGFS_ESCAPE_SUBSTITUE_CHAR_def split: option.splits if_splits)
qed

lemma illegal_zero: "illegal plat 0"
  by (cases plat) (auto simp: illegal_def strchr_simps)

lemma good_esc: "plat \<noteq> Windows \<Longrightarrow> good c \<Longrightarrow> good (esc plat c)"
  using esc_legal [of plat c 0] illegal_zero length_esc [of c plat] by (auto simp: good_def)

lemma UndoComponent_spec:
  assumes "plat \<noteq> Windows" and "good c" and mem: "mem = pre @ esc plat c @ 0 # rest @ junk"
    and "unat u = length (esc plat c) + 1 + length rest"
  shows "\<exists>junk' u'. HgfsEscapeUndoComponent plat mem (length pre) u = Inr (pre @ c @ 0 # rest @ junk', u') \<and> unat u' = length rest"
proof -
  have "c_strlen (drop (length pre) mem) = Inr (length (esc plat c))"
    using c_strlen_string [of "esc plat c"] good_esc [OF assms(1,2)] mem by (simp add: good_def)
  moreover obtain junk' u' where "bindR (c_strchr mem (length pre) HGFS_ESCAPE_CHAR)
      (\<lambda>q. HgfsEscapeUndoComponent_loop plat mem (length pre) q u (length (esc plat c))) = Inr (pre @ c @ 0 # rest @ junk', u', length c)"
    "unat u' = length c + 1 + length rest"
    using undo_from [OF assms(1,2), of 0 mem pre rest junk u] mem assms(4) by (auto simp: esc_def)
  moreover have "unat (u' - of_nat (length c + 1)) = length rest"
  proof -
    have "unat (of_nat (length c + 1) :: u32) = length c + 1"
      using calculation(3) unat_lt_32 [of u'] by (intro unat_of_nat_bound) simp
    then show ?thesis using calculation(3) by (subst unat_sub) (auto simp: word_le_nat_alt)
  qed
  ultimately show ?thesis by (auto simp: HgfsEscapeUndoComponent_def bindR_eq_Inr)
qed

section \<open>Whole names\<close>

definition zeroed :: "u8 list list \<Rightarrow> u8 list" where
  "zeroed cs = concat (map (\<lambda>c. c @ [0]) cs)"

lemma zeroed_simps [simp]: "zeroed [] = []" "zeroed (c # cs) = c @ 0 # zeroed cs"
  by (simp_all add: zeroed_def)

lemma zeroed_join0: "cs \<noteq> [] \<Longrightarrow> zeroed cs = join0 cs @ [0]"
  by (induction cs rule: join0.induct) auto

lemma Undo_loop_spec:
  assumes "plat \<noteq> Windows" and "cs \<noteq> []" and "\<forall>c \<in> set cs. good c"
    and "mem = pre @ escaped plat cs @ junk" and "unat u = length (escaped plat cs)"
  shows "\<exists>junk'. HgfsEscape_Undo_loop plat mem (length pre) u r = Inr (pre @ zeroed cs @ junk', r + of_nat (length (zeroed cs)))"
  using assms(2-)
proof (induction cs arbitrary: mem pre u r junk)
  case (Cons c cs)
  have c: "good c" "0 \<notin> set c" using Cons.prems(2) by (auto simp: good_def)
  have mem: "mem = pre @ esc plat c @ 0 # escaped plat cs @ junk" and u: "unat u = length (esc plat c) + 1 + length (escaped plat cs)"
    using Cons.prems(3,4) by simp_all
  obtain junk1 u1 where co: "HgfsEscapeUndoComponent plat mem (length pre) u = Inr (pre @ c @ 0 # escaped plat cs @ junk1, u1)"
    "unat u1 = length (escaped plat cs)"
    using UndoComponent_spec [OF assms(1) c(1) mem u] by blast
  let ?mem1 = "pre @ c @ 0 # escaped plat cs @ junk1"
  have len: "c_strlen (drop (length pre) ?mem1) = Inr (length c)" using c_strlen_string [OF c(2)] by simp
  note unfold = HgfsEscape_Undo_loop.simps [of plat mem "length pre" u r]
  show ?case
  proof (cases cs)
    case Nil
    then have "\<not> 1 < u1" using co(2) by (simp add: word_less_nat_alt)
    then show ?thesis using co(1) len Nil by (subst unfold) (auto simp: add.commute)
  next
    case (Cons d ds)
    then have d: "good d" "\<forall>c \<in> set cs. good c" using Cons.prems(2) by auto
    have "1 < u1" using good_esc [OF assms(1) d(1)] co(2) Cons by (auto simp: word_less_nat_alt good_def)
    moreover have "c_strlen (drop (length pre + length c + 1) ?mem1) = Inr (length (esc plat d))"
      using c_strlen_string [of "esc plat d"] good_esc [OF assms(1) d(1)] Cons by (simp add: good_def)
    moreover obtain junk' where "HgfsEscape_Undo_loop plat ?mem1 (length pre + length c + 1) u1 (r + of_nat (length c + 1)) =
        Inr ((pre @ c @ [0]) @ zeroed cs @ junk', r + of_nat (length c + 1) + of_nat (length (zeroed cs)))"
      using Cons.IH [of ?mem1 "pre @ c @ [0]" junk1 u1 "r + of_nat (length c + 1)"] Cons d(2) co(2) by auto
    ultimately show ?thesis using co(1) len by (subst unfold) (auto simp: algebra_simps)
  qed
qed simp

lemma Undo_spec:
  assumes "plat \<noteq> Windows" and "cs \<noteq> []" and "\<forall>c \<in> set cs. good c"
    and "mem = pre @ escaped plat cs @ junk" and "length (escaped plat cs) < 2 ^ 32"
  shows "\<exists>junk'. HgfsEscape_Undo plat mem (length pre) (of_nat (length (escaped plat cs) - 1)) =
    Inr (of_nat (length (join0 cs)), pre @ join0 cs @ 0 # junk')"
proof -
  have "length (escaped plat cs) \<noteq> 0" using assms(2) by (cases cs) auto
  then have e: "of_nat (length (escaped plat cs) - 1) + (1::u32) = of_nat (length (escaped plat cs))"
    by (cases "length (escaped plat cs)") (auto simp: add.commute)
  have "unat (of_nat (length (escaped plat cs)) :: u32) = length (escaped plat cs)" using assms(5) by (intro unat_of_nat_bound) simp
  from Undo_loop_spec [OF assms(1-4) this, of 0] show ?thesis
    using zeroed_join0 [OF assms(2)] unfolding HgfsEscape_Undo_def e by auto
qed

lemma length_escaped: "length (escaped plat cs) = length (zeroed cs) + growth plat cs"
proof (induction cs)
  case (Cons c cs)
  then show ?case using length_esc [of c plat] by simp
qed simp

lemma GetComponent_gap:
  assumes "CPName_GetComponent mem begin n = Inr (Some (len, nxt))" and "begin \<noteq> n"
  shows "begin + len + 1 \<le> nxt \<or> begin + len = n \<and> nxt = n"
  using assms GetComponent_walk_ge GetComponent_skip_ge
  by (fastforce simp: CPName_GetComponent_def bindR_eq_Inr split: if_splits)

lemma comps_length:
  assumes "comps buf n k = Inr (Some cs)" and "readable buf n" and "k \<le> n"
  shows "k + length (zeroed cs) \<le> n + 1"
  using assms(1,3)
proof (induction "n - k" arbitrary: k cs rule: less_induct)
  case less
  from less.prems(1) show ?case
  proof (cases rule: comps_cases)
    case (more len nxt q)
    then obtain ds where ds: "q = Some ds" "cs = take len (drop k buf) # ds" by (cases q) auto
    have len: "length (take len (drop k buf)) = len" using GetComponent_good(3) [OF more(2,1)] readable_le [OF assms(2)] by simp
    have nxt: "nxt \<le> n" using GetComponent_total [OF more(1) assms(2)] more(2) by auto
    then have "nxt + length (zeroed ds) \<le> n + 1" using less.hyps [of nxt ds] more ds(1) by auto
    moreover have "nxt = n \<Longrightarrow> ds = []" using more(3) ds(1) by (subst (asm) comps.simps) simp
    ultimately show ?thesis using GetComponent_gap [OF more(2)] more(1) ds(2) len by auto
  qed (use less.prems in auto)
qed

lemma join0_last: "cs \<noteq> [] \<Longrightarrow> \<forall>c \<in> set cs. good c \<Longrightarrow> join0 cs \<noteq> [] \<and> last (join0 cs) \<noteq> 0"
  by (induction cs rule: join0.induct) (auto simp: good_def dest: last_in_set)

lemma join0_name:
  assumes "cs \<noteq> []" and "\<forall>c \<in> set cs. good c"
  shows "trimmed (join0 cs) (length (join0 cs)) = length (join0 cs)"
    and "GetComponent_skip (join0 cs) (length (join0 cs)) 0 = Inr 0" and "0 < length (join0 cs)"
proof -
  have nn: "join0 cs \<noteq> []" "last (join0 cs) \<noteq> 0" using join0_last [OF assms] by auto
  then show "trimmed (join0 cs) (length (join0 cs)) = length (join0 cs)" "0 < length (join0 cs)"
    by (auto simp: trimmed_def last_conv_nth)
  obtain x xs where "join0 cs = x # xs" "x \<noteq> 0" using join0_hd [OF assms] by blast
  then show "GetComponent_skip (join0 cs) (length (join0 cs)) 0 = Inr 0" by (subst GetComponent_skip.simps) simp
qed

section \<open>Properties\<close>

text \<open>
  C18. Escaping is reversible on Linux and macOS. A name of non-empty components that is escaped into a buffer with room for it
  is given back, byte for byte and with its length, by unescaping the buffer, whatever slashes and percent signs the
  components contain; the bytes in front of the buffer are kept.
\<close>

theorem hgfs_escape_roundtrip:
  assumes "plat \<noteq> Windows" and "cs \<noteq> []" and "\<forall>c \<in> set cs. good c"
    and "length (escaped plat cs) \<le> unat sz" and "base + unat sz \<le> length mem"
  shows "\<exists>n mem1 mem2.
      HgfsEscape_Do plat (join0 cs) (length (join0 cs)) sz mem base = Inr (int n, mem1) \<and>
      HgfsEscape_Undo plat mem1 base (of_nat n) = Inr (of_nat (length (join0 cs)), mem2) \<and>
      read_at mem2 base (length (join0 cs) + 1) = Inr (join0 cs @ [0]) \<and> take base mem2 = take base mem"
proof -
  let ?n = "length (join0 cs)" and ?e = "escaped plat cs"
  note nm = join0_name [OF assms(2,3)]
  have cs: "comps (join0 cs) ?n 0 = Inr (Some cs)" using comps_join0 [OF assms(3), of "[]" "[]"] by simp
  have "0 < length ?e" using assms(2) by (cases cs) auto
  then have e: "int (length ?e) - 1 = int (length ?e - 1)" by linarith
  have "HgfsEscape_Do plat (join0 cs) ?n sz mem base = Inr (int (length ?e) - 1, patch mem base ?e)"
    using Do_spec [OF nm(3) order_refl assms(1), of 0 "Some cs" sz base mem] nm(1,2) cs assms(4,5) by auto
  then have done_: "HgfsEscape_Do plat (join0 cs) ?n sz mem base = Inr (int (length ?e - 1), patch mem base ?e)" unfolding e .
  have pm: "patch mem base ?e = take base mem @ ?e @ drop (base + length ?e) mem" by (simp add: patch_def)
  moreover have base: "length (take base mem) = base" using assms(5) by simp
  moreover have "length ?e < 2 ^ 32" using assms(4) unat_lt_32 [of sz] by linarith
  ultimately obtain junk where "HgfsEscape_Undo plat (patch mem base ?e) base (of_nat (length ?e - 1)) =
      Inr (of_nat ?n, take base mem @ join0 cs @ 0 # junk)"
    using Undo_spec [OF assms(1-3) pm] by auto
  then show ?thesis
    using done_ base by (intro exI conjI) (assumption, assumption, auto simp: read_at_def)
qed

theorem hgfs_escape_roundtrip_witness:
  "\<exists>n mem1 mem2.
      HgfsEscape_Do Linux [97, 47, 98, 0, 33, 37] 6 16 [7, 7, 7, 7, 7, 7, 7, 7, 7, 7, 7, 7, 7, 7, 7, 7, 7, 7] 2 = Inr (int n, mem1) \<and>
      HgfsEscape_Undo Linux mem1 2 (of_nat n) = Inr (6, mem2) \<and>
      read_at mem2 2 7 = Inr [97, 47, 98, 0, 33, 37, 0] \<and> take 2 mem2 = [7, 7]"
proof -
  have e: "length (escaped Linux [[97, 47, 98], [33, 37]]) \<le> unat (16 :: u32)" by code_simp
  have l: "length (join0 [[97, 47, 98], [33, 37]]) = 6" by simp
  show ?thesis
    using e hgfs_escape_roundtrip [of Linux "[[97, 47, 98], [33, 37]]" 16 2 "[7, 7, 7, 7, 7, 7, 7, 7, 7, 7, 7, 7, 7, 7, 7, 7, 7, 7]"]
    unfolding l by (simp add: good_def)
qed



text \<open>
  On Windows escaping is not reversible: the component \<open>"a.%"\<close> is escaped to \<open>"a.]%"\<close>, which unescaping does not take for
  an escape sequence and leaves as it is.
\<close>

theorem hgfs_escape_windows_not_reversible:
  "HgfsEscape_Do Windows [97, 46, 37] 3 8 (replicate 8 0) 0 = Inr (4, [97, 46, 93, 37, 0, 0, 0, 0]) \<and>
   HgfsEscape_Undo Windows [97, 46, 93, 37, 0, 0, 0, 0] 0 4 = Inr (4, [97, 46, 93, 37, 0, 0, 0, 0])"
  by code_simp

end
