(* ===== verification/HgfsName_Laws.thy ===== *)
theory HgfsName_Laws
  imports HgfsName HgfsEscape_Undo
begin

text \<open>
  What the conversion of HGFS names to paths of the local file system guarantees: the path stays inside the shared folder, whatever bytes
  the peer sends.
\<close>

section \<open>Paths\<close>

definition path :: "u8 \<Rightarrow> u8 list list \<Rightarrow> u8 list" where
  "path sep cs = concat (map ((#) sep) cs)"

lemma path_simps [simp]: "path sep [] = []" "path sep (c # cs) = sep # c @ path sep cs"
  by (simp_all add: path_def)

definition no_dots :: "u8 list \<Rightarrow> bool" where
  "no_dots c \<longleftrightarrow> c \<noteq> [46] \<and> c \<noteq> [46, 46]"

lemma no_dots_iff: "no_dots c \<longleftrightarrow> \<not> (length c = 1 \<and> c ! 0 = 46 \<or> length c = 2 \<and> c ! 0 = 46 \<and> c ! 1 = 46)"
  by (auto simp: no_dots_def length_Suc_conv numeral_2_eq_2)

lemma is_dots_iff: "inp + len \<le> length m \<Longrightarrow> is_dots m inp len \<longleftrightarrow> \<not> no_dots (take len (drop inp m))"
  by (auto simp: is_dots_def no_dots_iff)

lemma length_path: "length (path sep cs) = length (zeroed cs)"
  by (induction cs) auto

section \<open>Conversion into another buffer\<close>

lemma GetComponent_end: "CPName_GetComponent mem n n = Inr (Some (0, n))"
  by (simp add: CPName_GetComponent_def GetComponent_walk.simps)

lemma ConvertFrom_loop_spec:
  assumes "comps buf n inp = Inr r" and rd: "n \<le> length buf" and "inp \<le> n" and "readable buf n" and "out + room \<le> length mem"
  shows "\<exists>r' mem'. CPNameConvertFrom_loop (Some buf) sep n inp room out mem = Inr (r', mem') \<and> length mem' = length mem \<and>
    (\<forall>x. r' = Some x \<longrightarrow> (\<exists>cs. r = Some cs \<and> (\<forall>c \<in> set cs. no_dots c) \<and> length (path sep cs) \<le> room \<and>
       x = (n, room - length (path sep cs), out + length (path sep cs)) \<and> mem' = patch mem out (path sep cs)))"
  using assms(1,3,5)
proof (induction "n - inp" arbitrary: inp r room out mem rule: less_induct)
  case less
  note unfold = CPNameConvertFrom_loop.simps [of "Some buf" sep n inp room out mem]
  from less.prems(1) show ?case
  proof (cases rule: comps_cases)
    case fin
    then have "inp = n" using less.prems(2) by simp
    then show ?thesis using fin GetComponent_end [of buf n] by (subst unfold) (simp add: convert_source_def is_dots_def)
  next
    case refused
    then show ?thesis by (subst unfold) (simp add: convert_source_def)
  next
    case (more len nxt q)
    let ?c = "take len (drop inp buf)"
    note g = GetComponent_good [OF more(2,1) rd]
    have len: "length ?c = len" "0 < len" using g by auto
    then have le: "inp + len \<le> length buf" using rd more(1) by auto
    show ?thesis
    proof (cases "is_dots buf inp len \<or> room < len + 1")
      case True
      then show ?thesis using more(2) len(2) by (subst unfold) (auto simp: convert_source_def)
    next
      case False
      let ?mem = "patch mem out (sep # ?c)"
      have nd: "no_dots ?c" using False is_dots_iff [OF le] by blast
      have copy: "convert_copy (Some buf) inp len sep out mem = Inr ?mem" "length ?mem = length mem"
        using le len False less.prems(3) by (auto simp: convert_copy_def read_at_def write_at_def)
      have nxt: "nxt \<le> n" using GetComponent_total [OF more(1) assms(4)] more(2) by auto
      have "out + 1 + len + (room - len - 1) \<le> length ?mem" using False less.prems(3) copy(2) by simp
      moreover have "n - nxt < n - inp" using more(1,5) by simp
      ultimately obtain r' mem' where ih:
        "CPNameConvertFrom_loop (Some buf) sep n nxt (room - len - 1) (out + 1 + len) ?mem = Inr (r', mem')" "length mem' = length ?mem"
        "\<forall>x. r' = Some x \<longrightarrow> (\<exists>cs. q = Some cs \<and> (\<forall>c \<in> set cs. no_dots c) \<and> length (path sep cs) \<le> room - len - 1 \<and>
           x = (n, room - len - 1 - length (path sep cs), out + 1 + len + length (path sep cs)) \<and> mem' = patch ?mem (out + 1 + len) (path sep cs))"
        using less.hyps [OF _ more(3) nxt] by blast
      have "patch ?mem (out + 1 + len) zs = patch mem out (sep # ?c @ zs)" if "length zs \<le> room - len - 1" for zs
        using patch_patch [where off = out and ys = "sep # ?c" and xs = mem and zs = zs] that len(1) False less.prems(3) by auto
      moreover have "CPNameConvertFrom_loop (Some buf) sep n inp room out mem = Inr (r', mem')"
        using ih(1) more(2) False len(2) copy(1) by (subst unfold) (simp add: convert_source_def)
      ultimately show ?thesis using ih(2,3) copy(2) more(4) len(1) nd False by fastforce
    qed
  qed
qed

section \<open>Conversion in place\<close>

lemma ConvertFrom_inplace:
  assumes "\<forall>c \<in> set es. good c" and "es \<noteq> []" and "mem = pre @ x # join0 es @ post" and "n = length pre + 1 + length (join0 es)"
  shows "\<exists>r' mem'. CPNameConvertFrom_loop None sep n (length pre + 1) room (length pre) mem = Inr (r', mem') \<and> length mem' = length mem \<and>
    (\<forall>y. r' = Some y \<longrightarrow> (\<forall>c \<in> set es. no_dots c) \<and> length (path sep es) \<le> room \<and>
       y = (n, room - length (path sep es), length pre + length (path sep es)) \<and> mem' = pre @ path sep es @ post)"
  using assms
proof (induction es arbitrary: mem pre x room)
  case (Cons e es)
  have e: "good e" using Cons.prems(1) by simp
  define tl where "tl = (if es = [] then post else 0 # join0 es @ post)"
  define nxt where "nxt = (if es = [] then n else length pre + 1 + length e + 1)"
  have mem: "mem = pre @ x # e @ tl" using Cons.prems(3) join0_Cons [of es e] by (auto simp: tl_def)
  have n: "n = length pre + 1 + length e + (if es = [] then 0 else 1 + length (join0 es))"
    using Cons.prems(4) join0_Cons [of es e] by auto
  have gc: "CPName_GetComponent mem (length pre + 1) n = Inr (Some (length e, nxt))"
  proof (cases "es = []")
    case True
    then show ?thesis using GetComponent_last [OF e, of "pre @ [x]" post] mem n by (simp add: tl_def nxt_def)
  next
    case False
    then obtain y ys where y: "join0 es = y # ys" "y \<noteq> 0" using join0_hd [of es] Cons.prems(1) by auto
    show ?thesis using GetComponent_inner [OF e y(2), of "pre @ [x]" n "ys @ post"] mem n y False by (simp add: tl_def nxt_def)
  qed
  have dots: "is_dots mem (length pre + 1) (length e) \<longleftrightarrow> \<not> no_dots e"
    using is_dots_iff [of "length pre + 1" "length e" mem] mem by simp
  note unfold = CPNameConvertFrom_loop.simps [of None sep n "length pre + 1" room "length pre" mem]
  show ?case
  proof (cases "\<not> no_dots e \<or> room < length e + 1")
    case True
    then show ?thesis using gc dots e by (subst unfold) (auto simp: convert_source_def good_def)
  next
    case False
    let ?mem = "pre @ sep # e @ tl" and ?room = "room - length e - 1"
    have copy: "convert_copy None (length pre + 1) (length e) sep (length pre) mem = Inr ?mem"
      using mem by (simp add: convert_copy_def write_at_def patch_def)
    have step: "CPNameConvertFrom_loop None sep n (length pre + 1) room (length pre) mem =
        CPNameConvertFrom_loop None sep n nxt ?room (length pre + 1 + length e) ?mem"
      using gc dots e False copy by (subst unfold) (auto simp: convert_source_def good_def)
    show ?thesis
    proof (cases "es = []")
      case True
      then have "CPNameConvertFrom_loop None sep n nxt ?room (length pre + 1 + length e) ?mem =
          Inr (Some (n, ?room, length pre + 1 + length e), ?mem)"
        using GetComponent_end [of ?mem n] by (subst CPNameConvertFrom_loop.simps) (simp add: convert_source_def is_dots_def nxt_def)
      then show ?thesis using step False True mem by (auto simp: tl_def)
    next
      case es: False
      let ?pre = "pre @ sep # e"
      have "\<forall>c \<in> set es. good c" "?mem = ?pre @ 0 # join0 es @ post" "n = length ?pre + 1 + length (join0 es)"
        using Cons.prems(1) es n by (auto simp: tl_def)
      from Cons.IH [OF this(1) es this(2,3), of ?room] obtain r' mem' where
        "CPNameConvertFrom_loop None sep n (length ?pre + 1) ?room (length ?pre) ?mem = Inr (r', mem')" "length mem' = length ?mem"
        "\<forall>y. r' = Some y \<longrightarrow> (\<forall>c \<in> set es. no_dots c) \<and> length (path sep es) \<le> ?room \<and>
           y = (n, ?room - length (path sep es), length ?pre + length (path sep es)) \<and> mem' = ?pre @ path sep es @ post"
        by blast
      then show ?thesis using step es False mem by (auto simp: nxt_def)
    qed
  qed
qed simp

section \<open>Names without illegal characters\<close>

lemma same_length_legal:
  assumes "plat \<noteq> Windows" and "good c" and "length (esc plat c) = length c" and "x \<in> set c"
  shows "\<not> illegal plat x"
proof
  assume "illegal plat x"
  obtain i where i: "i < length c" "x = c ! i" using assms(4) by (auto simp: in_set_conv_nth)
  have "length (esc_at plat c i) = 2"
    using esc_at_plain_iff [of c i plat] \<open>illegal plat x\<close> i assms(2) length_esc_at [of plat c i] by (auto simp: good_def)
  moreover have "esc plat c = esc_range plat c 0 i @ esc_at plat c i @ esc_range plat c (Suc i) (length c)"
    using i(1) esc_range_append [of 0 i "length c" plat c] esc_range_head [of i "length c" plat c] by (simp add: esc_def)
  ultimately show False
    using length_esc_range [of 0 i plat c] length_esc_range [of "Suc i" "length c" plat c] i(1) assms(3) by simp
qed

lemma no_growth_legal:
  assumes "plat \<noteq> Windows" and "growth plat cs = 0" and "\<forall>c \<in> set cs. good c" and "c \<in> set cs"
  shows "\<forall>x \<in> set c. \<not> illegal plat x"
  using assms(2-4)
proof (induction cs)
  case (Cons d ds)
  then show ?case using same_length_legal [OF assms(1), of d] length_esc [of d plat] by auto
qed simp

lemma slash_illegal: "plat \<noteq> Windows \<Longrightarrow> illegal plat 47"
  by (cases plat) (auto simp: illegal_def strchr_simps)

lemma walk_le: "walk \<le> n \<Longrightarrow> GetComponent_walk mem n walk = Inr w \<Longrightarrow> w \<le> n"
proof (induction mem n walk rule: GetComponent_walk.induct)
  case (1 mem n walk)
  from "1.prems" show ?case
    by (subst (asm) GetComponent_walk.simps) (use "1.IH" in \<open>auto split: if_splits\<close>)
qed

lemma skip_le: "m \<le> n \<Longrightarrow> GetComponent_skip mem n m = Inr k \<Longrightarrow> k \<le> n"
proof (induction mem n m rule: GetComponent_skip.induct)
  case (1 mem n m)
  from "1.prems" show ?case
    by (subst (asm) GetComponent_skip.simps) (use "1.IH" in \<open>auto split: if_splits\<close>)
qed

lemma GetComponent_next:
  assumes "CPName_GetComponent mem begin n = Inr (Some (len, nxt))" and "begin < n"
  shows "nxt = n \<and> begin + len = n \<or> nxt < n"
proof -
  obtain w where w: "GetComponent_walk mem n begin = Inr w" "w \<le> n" "begin \<le> w"
    using assms walk_le [of "begin" n mem] GetComponent_walk_ge [of mem n "begin"] by (auto simp: CPName_GetComponent_def bindR_eq_Inr)
  show ?thesis
  proof (cases "w = n")
    case True
    then show ?thesis using assms w by (auto simp: CPName_GetComponent_def)
  next
    case False
    then show ?thesis using assms w skip_le [of "w + 1" n mem nxt]
      by (auto simp: CPName_GetComponent_def bindR_eq_Inr split: if_splits)
  qed
qed

lemma comps_ends:
  assumes "comps buf n k = Inr (Some cs)" and "n \<le> length buf" and "k < n"
  shows "buf ! (n - 1) \<noteq> 0" and "buf ! k \<noteq> 0"
  using assms(1,3)
proof (induction "n - k" arbitrary: k cs rule: less_induct)
  case less
  {
    case 1
    from 1(1) show ?case
    proof (cases rule: comps_cases)
      case (more len nxt q)
      then obtain ds where ds: "q = Some ds" by (cases q) auto
      note g = GetComponent_good [OF more(2,1) assms(2)]
      have "nxt = n \<and> k + len = n \<or> nxt < n"
        by (rule GetComponent_next [OF more(2) 1(2)])
      then show ?thesis
      proof
        assume *: "nxt = n \<and> k + len = n"
        then have "buf ! (n - 1) = take len (drop k buf) ! (len - 1)" using g(2) assms(2) by (simp add: nth_take)
        also have "\<dots> \<in> set (take len (drop k buf))" using g(2,3) by (intro nth_mem) simp
        finally show ?thesis using g(1) by (auto simp: good_def)
      next
        assume "nxt < n"
        then show ?thesis using less.hyps(1) [of nxt ds] more ds by auto
      qed
    qed (use 1 in auto)
  next
    case 2
    from 2(1) show ?case
    proof (cases rule: comps_cases)
      case (more len nxt q)
      note g = GetComponent_good [OF more(2,1) assms(2)]
      then have "buf ! k = take len (drop k buf) ! 0" using assms(2) 2(2) by simp
      also have "\<dots> \<in> set (take len (drop k buf))" using g(2,3) by (intro nth_mem) simp
      finally show ?thesis using g(1) by (auto simp: good_def)
    qed (use 2 in auto)
  }
qed

section \<open>Paths inside the shared folder\<close>

definition inside :: "u8 list list \<Rightarrow> bool" where
  "inside cs \<longleftrightarrow> (\<forall>c \<in> set cs. good c \<and> 47 \<notin> set c \<and> no_dots c)"

text \<open>
  The path is a sequence of such components, each behind a slash; it ends in a zero byte, fits into the output buffer, and the output
  pointer stands at its end.
\<close>

definition converted :: "cp_state \<Rightarrow> cp_state \<Rightarrow> bool" where
  "converted s s1 \<longleftrightarrow> (\<exists>cs. inside cs \<and> length (path 47 cs) < cp_outSize s \<and> cp_out s1 = cp_out s + length (path 47 cs) \<and>
     read_at (cp_mem s1) (cp_out s) (length (path 47 cs) + 1) = Inr (path 47 cs @ [0]))"

lemma ConvertFrom_finish:
  assumes "CPNameConvertFrom_loop src 47 inEnd inp (cp_outSize s) (cp_out s) (cp_mem s) = Inr (r, mem)"
    and "inp = (if src = None then cp_in s + 1 else cp_in s)" and "inEnd = (inp + unat (cp_inSize s)) mod 2 ^ 64"
    and "cp_out s + cp_outSize s \<le> length mem"
    and "\<And>y. r = Some y \<Longrightarrow> inside cs \<and> length (path 47 cs) \<le> cp_outSize s \<and>
      y = (inEnd, cp_outSize s - length (path 47 cs), cp_out s + length (path 47 cs)) \<and>
      take (length (path 47 cs)) (drop (cp_out s) mem) = path 47 cs"
  shows "\<exists>res s1. CPNameConvertFrom src 47 s = Inr (res, s1) \<and> (res = - 1 \<or> res = 0 \<and> converted s s1)"
proof (cases "r = None \<or> cp_outSize s - length (path 47 cs) < 1")
  case True
  then show ?thesis using assms(1,5) unfolding CPNameConvertFrom_def Let_def assms(2,3) [symmetric] by (cases r) auto
next
  case False
  let ?p = "path 47 cs"
  from False obtain y where y: "r = Some y" by auto
  note f = assms(5) [OF y]
  have w: "write_at mem (cp_out s + length ?p) [0] = Inr (patch mem (cp_out s + length ?p) [0])"
    using False f assms(4) by (auto simp: write_at_def)
  have "take (length ?p + 1) (drop (cp_out s) (patch mem (cp_out s + length ?p) [0])) = ?p @ [0]"
    using False f assms(4) by (simp add: patch_def take_drop add.commute)
  then have "read_at (patch mem (cp_out s + length ?p) [0]) (cp_out s) (length ?p + 1) = Inr (?p @ [0])"
    using False f assms(4) by (simp add: read_at_def)
  then show ?thesis using assms(1) w y f False
    unfolding CPNameConvertFrom_def Let_def assms(2,3) [symmetric] by (auto simp: converted_def)
qed

lemma ConvertFrom_direct:
  assumes "cp_in s = 0" and "n = unat (cp_inSize s)" and "comps buf n 0 = Inr r"
    and "\<And>cs c. r = Some cs \<Longrightarrow> c \<in> set cs \<Longrightarrow> 47 \<notin> set c" and "cp_out s + cp_outSize s \<le> length (cp_mem s)" and "n < length buf"
  shows "\<exists>res s1. CPNameConvertFrom (Some buf) 47 s = Inr (res, s1) \<and> (res = - 1 \<or> res = 0 \<and> converted s s1)"
proof -
  have rd: "readable buf n" "n \<le> length buf" using assms(6) by (auto simp: readable_def)
  have "n < 2 ^ 64" using unat_lt_64 [of "cp_inSize s"] assms(2) by simp
  then have n: "n = (0 + unat (cp_inSize s)) mod 2 ^ 64" using assms(1,2) by simp
  obtain r' mem where lp: "CPNameConvertFrom_loop (Some buf) 47 n 0 (cp_outSize s) (cp_out s) (cp_mem s) = Inr (r', mem)" "length mem = length (cp_mem s)"
    "\<forall>x. r' = Some x \<longrightarrow> (\<exists>cs. r = Some cs \<and> (\<forall>c \<in> set cs. no_dots c) \<and> length (path 47 cs) \<le> cp_outSize s \<and>
       x = (n, cp_outSize s - length (path 47 cs), cp_out s + length (path 47 cs)) \<and> mem = patch (cp_mem s) (cp_out s) (path 47 cs))"
    using ConvertFrom_loop_spec [OF assms(3) rd(2) _ rd(1) assms(5), of 47] by blast
  have "\<And>y. r' = Some y \<Longrightarrow> inside (the r) \<and> length (path 47 (the r)) \<le> cp_outSize s \<and>
      y = (n, cp_outSize s - length (path 47 (the r)), cp_out s + length (path 47 (the r))) \<and>
      take (length (path 47 (the r))) (drop (cp_out s) mem) = path 47 (the r)"
    using lp(3) assms(3-5) comps_good [OF _ rd(2), of 0] by (fastforce simp: inside_def patch_def)
  then show ?thesis using ConvertFrom_finish [OF lp(1) _ n, of "the r"] lp(2) assms(1,5) by simp
qed

lemma escaped_join0: "cs \<noteq> [] \<Longrightarrow> escaped plat cs = join0 (map (esc plat) cs) @ [0]"
proof -
  assume "cs \<noteq> []"
  have "escaped plat cs = zeroed (map (esc plat) cs)" by (induction cs) auto
  then show ?thesis using zeroed_join0 [of "map (esc plat) cs"] \<open>cs \<noteq> []\<close> by simp
qed

lemma ConvertFrom_leading_zero:
  assumes "cp_in s = cp_out s" and "cp_inSize s = of_nat m" and "0 < m" and "cp_out s + 1 + m < 2 ^ 64" and "m < 2 ^ 64"
    and "cp_out s + 1 < length (cp_mem s)" and "cp_mem s ! (cp_out s + 1) = 0"
  shows "CPNameConvertFrom None 47 s = Inr (- 1, s)"
proof -
  have "unat (cp_inSize s) = m" using assms(2,5) by (simp add: unat_of_nat_bound)
  then have n: "(cp_in s + 1 + unat (cp_inSize s)) mod 2 ^ 64 = cp_out s + 1 + m" using assms(1,4) by simp
  have "CPName_GetComponent (cp_mem s) (cp_out s + 1) (cp_out s + 1 + m) = Inr None"
    using assms(3,6,7) by (simp add: CPName_GetComponent_def GetComponent_walk.simps)
  then have "CPNameConvertFrom_loop None 47 (cp_out s + 1 + m) (cp_out s + 1) (cp_outSize s) (cp_out s) (cp_mem s) = Inr (None, cp_mem s)"
    by (subst CPNameConvertFrom_loop.simps) (simp add: convert_source_def)
  then show ?thesis using n assms(1) by (simp add: CPNameConvertFrom_def Let_def)
qed

lemma ConvertFrom_escaped:
  assumes "plat \<noteq> Windows" and cs: "cs \<noteq> []" "\<forall>c \<in> set cs. good c" and s: "cp_in s = cp_out s" "cp_inSize s = of_nat m"
    and m: "m + 1 = length (escaped plat cs)" and small: "m < 2 ^ 64" "cp_out s + 1 + m < 2 ^ 64"
    and mem: "cp_mem s = pre @ x # escaped plat cs @ post" "length pre = cp_out s"
    and room: "cp_out s + cp_outSize s \<le> length (cp_mem s)"
  shows "\<exists>res s1. CPNameConvertFrom None 47 s = Inr (res, s1) \<and> (res = - 1 \<or> res = 0 \<and> converted s s1)"
proof -
  let ?es = "map (esc plat) cs"
  have len: "length (join0 ?es) = m" using m escaped_join0 [OF cs(1), of plat] by simp
  have es: "\<forall>c \<in> set ?es. good c" "?es \<noteq> []" using cs good_esc [OF assms(1)] by auto
  have mem': "cp_mem s = pre @ x # join0 ?es @ 0 # post" using mem(1) escaped_join0 [OF cs(1), of plat] by simp
  obtain r mem1 where lp: "CPNameConvertFrom_loop None 47 (cp_out s + 1 + m) (cp_out s + 1) (cp_outSize s) (cp_out s) (cp_mem s) = Inr (r, mem1)"
    "length mem1 = length (cp_mem s)"
    "\<forall>y. r = Some y \<longrightarrow> (\<forall>c \<in> set ?es. no_dots c) \<and> length (path 47 ?es) \<le> cp_outSize s \<and>
       y = (cp_out s + 1 + m, cp_outSize s - length (path 47 ?es), cp_out s + length (path 47 ?es)) \<and> mem1 = pre @ path 47 ?es @ 0 # post"
    using ConvertFrom_inplace [OF es mem', of "cp_out s + 1 + m" 47 "cp_outSize s"] mem(2) len by auto
  have "unat (cp_inSize s) = m" using s(2) small(1) by (simp add: unat_of_nat_bound)
  then have n: "cp_out s + 1 + m = (cp_out s + 1 + unat (cp_inSize s)) mod 2 ^ 64" using small(2) by simp
  have "\<forall>c \<in> set ?es. good c \<and> 47 \<notin> set c"
    using es(1) esc_legal [OF assms(1)] slash_illegal [OF assms(1)] cs(2) by auto
  then have "\<And>y. r = Some y \<Longrightarrow> inside ?es \<and> length (path 47 ?es) \<le> cp_outSize s \<and>
      y = (cp_out s + 1 + m, cp_outSize s - length (path 47 ?es), cp_out s + length (path 47 ?es)) \<and>
      take (length (path 47 ?es)) (drop (cp_out s) mem1) = path 47 ?es"
    using lp(3) mem(2) by (auto simp: inside_def)
  then show ?thesis using ConvertFrom_finish [OF lp(1) _ n, of ?es] lp(2) s(1) room by simp
qed

lemma no_escape_legal:
  assumes "plat \<noteq> Windows" and "0 < n" and "n \<le> length buf" and "GetComponent_skip buf (trimmed buf n) 0 = Inr k"
    and "comps buf (trimmed buf n) k = Inr (Some cs)" and "growth plat cs = 0" and "comps buf n 0 = Inr (Some ds)" and "c \<in> set ds"
  shows "47 \<notin> set c"
proof -
  have ends: "buf ! (n - 1) \<noteq> 0" "buf ! 0 \<noteq> 0" using comps_ends [OF assms(7,3,2)] by auto
  have t: "trimmed buf n = n" using ends by (simp add: trimmed_def)
  have "k = 0" using assms(4) ends(2) by (subst (asm) GetComponent_skip.simps) (auto split: if_splits)
  then have "ds = cs" using assms(5,7) t by simp
  then show ?thesis
    using no_growth_legal [OF assms(1,6), of c] comps_good [OF assms(7,3)] assms(8) slash_illegal [OF assms(1)] by auto
qed

lemma ConvertFrom_after_escape:
  assumes "plat \<noteq> Windows" and "cs \<noteq> []" and "\<forall>c \<in> set cs. good c" and s: "cp_in s = cp_out s" "cp_inSize s = of_int (int (k + length (escaped plat cs)) - 1)"
    and mem: "cp_mem s = patch mem (cp_out s + 1) (replicate k 0 @ escaped plat cs)"
    and fits: "k + length (escaped plat cs) \<le> cp_outSize s" "cp_out s + 1 + cp_outSize s \<le> length mem" "length mem < 2 ^ 63"
  shows "\<exists>res s1. CPNameConvertFrom None 47 s = Inr (res, s1) \<and> (res = - 1 \<or> res = 0 \<and> converted s s1)"
proof -
  define m where "m = k + length (escaped plat cs) - 1"
  have "2 \<le> length (escaped plat cs)" using assms(2,3) good_esc [OF assms(1)] by (cases cs; cases "esc plat (hd cs)") (auto simp: good_def)
  then have m: "0 < m" "m + 1 = k + length (escaped plat cs)" "int (k + length (escaped plat cs)) - 1 = int m" unfolding m_def by auto
  then have ins: "cp_inSize s = of_nat m" using s(2) by simp
  have small: "m < 2 ^ 64" "cp_out s + 1 + m < 2 ^ 64" using fits m(2) by auto
  have len: "length (cp_mem s) = length mem" using mem fits by simp
  show ?thesis
  proof (cases k)
    case 0
    let ?pre = "take (cp_out s) mem" and ?x = "mem ! cp_out s"
    have "take (cp_out s + 1) mem = ?pre @ [?x]" using fits(2) by (simp add: take_Suc_conv_app_nth)
    then have "cp_mem s = ?pre @ ?x # escaped plat cs @ drop (cp_out s + 1 + length (escaped plat cs)) mem"
      using mem 0 by (simp add: patch_def)
    then show ?thesis using ConvertFrom_escaped [OF assms(1-3) s(1) ins _ small, of ?pre ?x] m(2) 0 len fits(2) by simp
  next
    case (Suc j)
    then have "cp_mem s ! (cp_out s + 1) = 0" using mem fits by (simp add: nth_patch)
    then show ?thesis using ConvertFrom_leading_zero [OF s(1) ins m(1) small(2,1)] len fits(1,2) Suc by auto
  qed
qed

lemma ConvertFrom_with_escape:
  assumes plat: "plat \<noteq> Windows" and n: "0 < unat (cp_inSize s)" "unat (cp_inSize s) \<le> length buf" and "cp_in s = 0"
    and k: "GetComponent_skip buf (trimmed buf (unat (cp_inSize s))) 0 = Inr k" "k \<le> trimmed buf (unat (cp_inSize s))"
      "comps buf (trimmed buf (unat (cp_inSize s))) k = Inr (Some cs)"
    and grow: "growth plat cs \<noteq> 0" "growth plat cs + trimmed buf (unat (cp_inSize s)) < cp_outSize s"
    and mem: "cp_out s + 1 + cp_outSize s \<le> length (cp_mem s)" "length (cp_mem s) < 2 ^ 63" "cp_outSize s < 2 ^ 31"
  shows "\<exists>res s1. CPName_ConvertFrom plat buf s = Inr (res, s1) \<and> (res = - 1 \<or> res = 0 \<and> converted s s1)"
proof -
  let ?n = "unat (cp_inSize s)" and ?v = "int (k + length (escaped plat cs)) - 1"
  have sz: "HgfsEscape_GetSize plat buf ?n = Inr (int (growth plat cs + trimmed buf ?n))" using GetSize_spec [OF n plat k(1,3)] grow(1) by simp
  have out: "unat (of_nat (cp_outSize s) :: u32) = cp_outSize s" using mem(3) by (intro unat_of_nat_bound) simp
  have fits: "k + length (escaped plat cs) \<le> cp_outSize s"
    using comps_length [of buf "trimmed buf ?n" k cs] k(2,3) trimmed_readable [OF n] grow(2) by (simp add: length_escaped)
  obtain mem1 where d: "HgfsEscape_Do plat buf ?n (of_nat (cp_outSize s)) (cp_mem s) (cp_out s + 1) = Inr (?v, mem1)"
    "mem1 = patch (cp_mem s) (cp_out s + 1) (replicate k 0 @ escaped plat cs)"
    using Do_spec [OF n plat k(1,3), of "of_nat (cp_outSize s)" "cp_out s + 1" "cp_mem s"] out fits mem(1) by auto
  have cs: "cs \<noteq> []" "\<forall>c \<in> set cs. good c"
    using grow(1) comps_good [OF k(3)] trimmed_le [of buf ?n] n(2) by auto
  let ?s = "s\<lparr>cp_in := cp_out s, cp_inSize := of_int ?v, cp_mem := mem1\<rparr>"
  obtain res s1 where "CPNameConvertFrom None 47 ?s = Inr (res, s1)" "res = - 1 \<or> res = 0 \<and> converted ?s s1"
    using ConvertFrom_after_escape [OF plat cs, of ?s k "cp_mem s"] d(2) fits mem(1,2) by auto
  then show ?thesis
    using sz grow assms(4) d(1) by (auto simp: CPName_ConvertFrom_def CPNameEscapeAndConvertFrom_def converted_def)
qed

section \<open>Properties\<close>



text \<open>
  The output buffer of the conversion is too short for its own check. The name \<open>"a/b"\<close> is escaped to four characters and a zero byte,
  which are written one byte behind the start of the buffer. A buffer of five bytes passes the check and is overrun by one byte; with one byte behind it
  the conversion succeeds. A buffer of four bytes passes the check too, escaping then fails, and its result \<open>-1\<close> is used as the size of
  the input, so that memory behind the buffer is read.
\<close>

theorem hgfs_convert_overrun:
  "CPName_ConvertFrom Linux [97, 47, 98] \<lparr>cp_in = 0, cp_inSize = 3, cp_outSize = 5, cp_out = 0, cp_mem = [0, 0, 0, 0, 0]\<rparr> = Inl OutOfBounds \<and>
   (\<exists>s1. CPName_ConvertFrom Linux [97, 47, 98] \<lparr>cp_in = 0, cp_inSize = 3, cp_outSize = 6, cp_out = 0, cp_mem = [0, 0, 0, 0, 0, 0, 0]\<rparr> = Inr (0, s1) \<and>
      cp_mem s1 = [47, 97, 33, 37, 98, 0, 0] \<and> cp_out s1 = 5) \<and>
   CPName_ConvertFrom Linux [97, 47, 98] \<lparr>cp_in = 0, cp_inSize = 3, cp_outSize = 4, cp_out = 0, cp_mem = [0, 0, 0, 0, 0]\<rparr> = Inl OutOfBounds"
proof -
  have size: "HgfsEscape_GetSize Linux [97, 47, 98] 3 = Inr 4" by code_simp
  have five: "HgfsEscape_Do Linux [97, 47, 98] 3 5 [0, 0, 0, 0, 0] 1 = Inl OutOfBounds" by code_simp
  have six: "HgfsEscape_Do Linux [97, 47, 98] 3 6 [0, 0, 0, 0, 0, 0, 0] 1 = Inr (4, [0, 97, 33, 37, 98, 0, 0])" by code_simp
  have "CPNameConvertFrom_loop None 47 5 1 6 0 [0, 97, 33, 37, 98, 0, 0] = Inr (Some (5, 1, 5), [47, 97, 33, 37, 98, 0, 0])"
    by code_simp
  then have six': "\<exists>s1. CPNameConvertFrom None 47 \<lparr>cp_in = 0, cp_inSize = 4, cp_outSize = 6, cp_out = 0, cp_mem = [0, 97, 33, 37, 98, 0, 0]\<rparr> = Inr (0, s1) \<and>
      cp_mem s1 = [47, 97, 33, 37, 98, 0, 0] \<and> cp_out s1 = 5"
    by (simp add: CPNameConvertFrom_def write_at_def patch_def)
  have four: "HgfsEscape_Do Linux [97, 47, 98] 3 4 [0, 0, 0, 0, 0] 1 = Inr (- 1, [0, 97, 33, 37, 98])" by code_simp
  have "CPNameConvertFrom_loop None 47 0 1 4 0 [0, 97, 33, 37, 98] = Inl OutOfBounds" by code_simp
  then have "CPNameConvertFrom None 47 \<lparr>cp_in = 0, cp_inSize = - 1, cp_outSize = 4, cp_out = 0, cp_mem = [0, 97, 33, 37, 98]\<rparr> = Inl OutOfBounds"
    by (simp add: CPNameConvertFrom_def unsigned_minus_1_eq_mask mask_eq_exp_minus_1)
  then show ?thesis
    using size five six four six' by (auto simp: CPName_ConvertFrom_def CPNameEscapeAndConvertFrom_def)
qed

end
