(* ===== verification/HgfsName_To.thy ===== *)
theory HgfsName_To
  imports HgfsName_Laws
begin

text \<open>
  The conversion of a path to a cross-platform name, the other direction: the path of escaped components gives the name of the original
  ones. The search for the last occurrence of a character is treated at the end.
\<close>

section \<open>Copying components\<close>

lemma ConvertTo_chars:
  assumes "0 \<notin> set c" and "sep \<notin> set c" and "out + length c \<le> endOut" and "endOut \<le> length mem"
  shows "CPNameConvertTo_loop sep (c @ ts) out endOut mem = CPNameConvertTo_loop sep ts (out + length c) endOut (patch mem out c)"
  using assms
proof (induction c arbitrary: out mem)
  case (Cons x c)
  have w: "write_at mem out [x] = Inr (patch mem out [x])" "length (patch mem out [x]) = length mem"
    using Cons.prems(3,4) by (auto simp: write_at_def)
  have "patch (patch mem out [x]) (out + 1) c = patch mem out (x # c)"
    using patch_patch [where off = out and ys = "[x]" and xs = mem and zs = c] Cons.prems(3,4) by simp
  then show ?case using Cons.IH [of "out + 1" "patch mem out [x]"] Cons.prems w by auto
qed simp

lemma ConvertTo_path:
  assumes "sep \<noteq> 0" and "\<forall>c \<in> set cs. good c \<and> sep \<notin> set c" and "cs \<noteq> []" and "out + length (join0 cs) < endOut" and "endOut \<le> length mem"
  shows "CPNameConvertTo_loop sep (tl (path sep cs) @ 0 # rest) out endOut mem =
    Inr (out + length (join0 cs), patch mem out (join0 cs))"
  using assms(2-)
proof (induction cs arbitrary: out mem)
  case (Cons c cs)
  have c: "0 \<notin> set c" "sep \<notin> set c" "good c" using Cons.prems(1) by (auto simp: good_def)
  show ?case
  proof (cases "cs = []")
    case True
    then show ?thesis using ConvertTo_chars [OF c(1,2), of out endOut mem "0 # rest"] Cons.prems(3,4) by simp
  next
    case False
    then obtain d ds where d: "cs = d # ds" by (cases cs) auto
    then have "good d" "sep \<notin> set d" using Cons.prems(1) by auto
    then obtain x xs where x: "d = x # xs" "x \<noteq> sep" by (cases d) (auto simp: good_def)
    let ?mem = "patch (patch mem out c) (out + length c) [0]"
    have len: "length (join0 (c # cs)) = length c + 1 + length (join0 cs)" using join0_Cons [OF False, of c] by simp
    have room: "out + length c + 1 + length (join0 cs) < endOut" using Cons.prems(3) len by simp
    have m1: "length (patch mem out c) = length mem" using room Cons.prems(4) by simp
    have w: "write_at (patch mem out c) (out + length c) [0] = Inr ?mem" "length ?mem = length mem"
      using room Cons.prems(4) m1 by (auto simp: write_at_def)
    have "?mem = patch mem out (c @ [0])"
      using patch_patch [where off = out and ys = c and xs = mem and zs = "[0]"] room Cons.prems(4) by simp
    then have pp: "patch ?mem (out + length c + 1) (join0 cs) = patch mem out (join0 (c # cs))"
      using patch_patch [where off = out and ys = "c @ [0]" and xs = mem and zs = "join0 cs"] room Cons.prems(4) join0_Cons [OF False, of c] by simp
    have eq: "tl (path sep (c # cs)) @ 0 # rest = c @ sep # tl (path sep cs) @ 0 # rest" using d by simp
    have "skip_seps sep (tl (path sep cs) @ 0 # rest) = Inr (tl (path sep cs) @ 0 # rest)" using d x by simp
    moreover have "CPNameConvertTo_loop sep (tl (path sep cs) @ 0 # rest) (out + length c + 1) endOut ?mem =
        Inr (out + length c + 1 + length (join0 cs), patch ?mem (out + length c + 1) (join0 cs))"
      using Cons.IH [of "out + length c + 1" ?mem] Cons.prems(1,4) False room w(2) by simp
    ultimately show ?thesis
      unfolding eq using ConvertTo_chars [OF c(1,2), of out endOut mem "sep # tl (path sep cs) @ 0 # rest"] room Cons.prems(4) w pp len assms(1) by (simp add: add.assoc)
  qed
qed simp

lemma trim_zeros_last:
  assumes "xs \<noteq> []" and "last xs \<noteq> 0" and "base + length xs \<le> length mem"
  shows "trim_zeros (patch mem base (xs @ ys)) base (length xs) = length xs"
proof -
  obtain zs x where xs: "xs = zs @ [x]" using assms(1) by (cases xs rule: rev_cases) auto
  then have "patch mem base (xs @ ys) ! (base + length zs) = x" using assms(3) by (simp add: patch_def nth_append)
  then show ?thesis using xs assms(2) by simp
qed

section \<open>Properties\<close>

text \<open>
  C27. Conversion to a cross-platform name undoes the conversion to a path. The path whose components are the escaped forms of the
  components of a name is converted to that name, with its length, in any buffer with room for the escaped name and its zero byte.
\<close>

theorem hgfs_convert_to_inverts:
  assumes "plat \<noteq> Windows" and "cs \<noteq> []" and "\<forall>c \<in> set cs. good c"
    and "length (escaped plat cs) \<le> n" and "base + n \<le> length mem" and "n < 2 ^ 31"
  shows "\<exists>mem1. CPName_ConvertTo plat (path 47 (map (esc plat) cs) @ 0 # rest) n mem base = Inr (int (length (join0 cs)), mem1) \<and>
    read_at mem1 base (length (join0 cs) + 1) = Inr (join0 cs @ [0])"
proof -
  let ?es = "map (esc plat) cs" and ?e = "escaped plat cs"
  have e: "?e = join0 ?es @ [0]" using assms(2) by (rule escaped_join0)
  have es: "?es \<noteq> []" "\<forall>c \<in> set ?es. good c \<and> 47 \<notin> set c"
    using assms(2,3) good_esc [OF assms(1)] esc_legal [OF assms(1)] slash_illegal [OF assms(1)] by auto
  then obtain c ds x xs where c: "?es = c # ds" "c = x # xs" "x \<noteq> 47" by (cases ?es; cases "hd ?es") (auto simp: good_def)
  have len: "length (join0 ?es) < n" using e assms(4) by simp
  have "skip_seps 47 (path 47 ?es @ 0 # rest) = Inr (tl (path 47 ?es) @ 0 # rest)" using c by simp
  moreover have "CPNameConvertTo_loop 47 (tl (path 47 ?es) @ 0 # rest) base (base + n) mem =
      Inr (base + length (join0 ?es), patch mem base (join0 ?es))"
    using ConvertTo_path [OF _ es(2,1)] len assms(5) by simp
  moreover have "write_at (patch mem base (join0 ?es)) (base + length (join0 ?es)) [0] = Inr (patch mem base ?e)"
    using patch_patch [where off = base and ys = "join0 ?es" and xs = mem and zs = "[0]"] len assms(5) e by (simp add: write_at_def)
  moreover have "trim_zeros (patch mem base ?e) base (length (join0 ?es)) = length ?e - 1"
    using trim_zeros_last [of "join0 ?es" base mem "[0]"] join0_last [OF es(1)] es(2) len assms(5) e by simp
  moreover obtain junk where
    "HgfsEscape_Undo plat (patch mem base ?e) base (of_nat (length ?e - 1)) = Inr (of_nat (length (join0 cs)), take base mem @ join0 cs @ 0 # junk)"
    using Undo_spec [OF assms(1-3), of "patch mem base ?e" "take base mem" "drop (base + length ?e) mem"] assms(4-6) by (auto simp: patch_def)
  moreover have "length (join0 cs) \<le> length ?e" using length_escaped [of plat cs] zeroed_join0 [OF assms(2)] by simp
  then have "uint (of_nat (length (join0 cs)) :: u32) = int (length (join0 cs))"
    using assms(4,6) by (simp add: uint_nat unat_of_nat_bound)
  moreover have "read_at (take base mem @ join0 cs @ 0 # junk) base (length (join0 cs) + 1) = Inr (join0 cs @ [0])"
    using assms(4,5) by (simp add: read_at_def)
  ultimately show ?thesis
    using len by (simp add: CPName_ConvertTo_def CPName_LinuxConvertTo_def CPNameConvertTo_def)
qed

theorem hgfs_convert_to_inverts_witness:
  "\<exists>mem1. CPName_ConvertTo Linux (path 47 (map (esc Linux) [[97, 47, 98], [33, 37]]) @ [0]) 16 (replicate 20 7) 2 = Inr (6, mem1) \<and>
    read_at mem1 2 7 = Inr [97, 47, 98, 0, 33, 37, 0]"
proof -
  have e: "length (escaped Linux [[97, 47, 98], [33, 37]]) \<le> 16" by code_simp
  have l: "length (join0 [[97, 47, 98], [33, 37]]) = 6" by simp
  show ?thesis
    using e hgfs_convert_to_inverts [of Linux "[[97, 47, 98], [33, 37]]" 16 2 "replicate 20 7" "[]"] unfolding l by (simp add: good_def)
qed

text \<open>
  The search for the last occurrence of a character finds it when it is there, and reads in front of the buffer when it is not.
\<close>

theorem hgfs_strrchr:
  assumes "n \<le> length cpName"
  shows "CPNameUtil_Strrchr cpName n ch =
    (if ch \<in> set (take n cpName) then Inr (Some (GREATEST i. i < n \<and> cpName ! i = ch)) else Inl OutOfBounds)"
  using assms
proof (induction n)
  case (Suc n)
  have tk: "set (take (Suc n) cpName) = insert (cpName ! n) (set (take n cpName))" using Suc.prems by (simp add: take_Suc_conv_app_nth)
  show ?case
  proof (cases "cpName ! n = ch")
    case True
    then have "(GREATEST i. i < Suc n \<and> cpName ! i = ch) = n" by (intro Greatest_equality) auto
    then show ?thesis using True Suc.prems tk by (simp add: CPNameUtil_Strrchr_def)
  next
    case False
    then have "i < Suc n \<and> cpName ! i = ch \<longleftrightarrow> i < n \<and> cpName ! i = ch" for i by (auto simp: less_Suc_eq)
    then show ?thesis using False Suc tk by (simp add: CPNameUtil_Strrchr_def)
  qed
qed (simp add: CPNameUtil_Strrchr_def)

theorem hgfs_strrchr_witness:
  "CPNameUtil_Strrchr [97, 0, 98] 3 0 = Inr (Some (GREATEST i. i < 3 \<and> [97, 0, 98] ! i = (0::u8))) \<and> CPNameUtil_Strrchr [97, 98] 2 0 = Inl OutOfBounds"
  using hgfs_strrchr [of 3 "[97, 0, 98]" 0] hgfs_strrchr [of 2 "[97, 98]" 0] by simp

end
