(* ===== verification/HgfsTime.thy ===== *)
theory HgfsTime
  imports Prelude "HOL-Library.Signed_Division"
begin

text \<open>
  Time stamps and status codes of HGFS: \<^verbatim>\<open>lib/hgfs/hgfsUtil.c\<close> for systems other than Windows. The 32-bit build divides by
  \<^verbatim>\<open>Div643232\<close>, the machine instruction that faults when the quotient does not fit into 32 bits.
\<close>

section \<open>Time\<close>

definition UNIX_EPOCH :: u64 where "UNIX_EPOCH = ((369 * 365) + 89) * 24 * 3600 * 10000000"
definition UNIX_S32_MAX :: u64 where "UNIX_S32_MAX = UNIX_EPOCH + 0x80000000 * 10000000"

definition HgfsConvertToNtTime :: "u64 \<Rightarrow> u64 \<Rightarrow> u64" where
  "HgfsConvertToNtTime unixTime nsec = unixTime * 10000000 + of_int (sint nsec sdiv 100) + UNIX_EPOCH"

definition Div643232 :: "u64 \<Rightarrow> u32 \<Rightarrow> (u32 \<times> u32) res" where
  "Div643232 dividend divisor =
     (if divisor = 0 \<or> unat dividend div unat divisor \<ge> 2 ^ 32 then Inl DivByZero
      else Inr (of_nat (unat dividend div unat divisor), of_nat (unat dividend mod unat divisor)))"

record timespec =
  tv_sec :: int
  tv_nsec :: int

definition HgfsConvertFromNtTimeNsec :: "bool \<Rightarrow> u64 \<Rightarrow> (int \<times> timespec) res" where
  "HgfsConvertFromNtTimeNsec i386 ntTime =
     (if i386 \<and> ntTime \<ge> UNIX_S32_MAX then Inr (1, \<lparr>tv_sec = 0x7FFFFFFF, tv_nsec = 0\<rparr>)
      else if ntTime < UNIX_EPOCH then Inr (- 1, \<lparr>tv_sec = 0, tv_nsec = 0\<rparr>)
      else if i386 then
        bindR (Div643232 (ntTime - UNIX_EPOCH) 10000000) (\<lambda>(sec, nsec).
          Inr (0, \<lparr>tv_sec = sint sec, tv_nsec = sint (nsec * 100)\<rparr>))
      else Inr (0, \<lparr>tv_sec = sint ((ntTime - UNIX_EPOCH) div 10000000), tv_nsec = sint ((ntTime - UNIX_EPOCH) mod 10000000 * 100)\<rparr>))"

definition HgfsConvertFromNtTime :: "bool \<Rightarrow> u64 \<Rightarrow> (int \<times> int) res" where
  "HgfsConvertFromNtTime i386 ntTime = bindR (HgfsConvertFromNtTimeNsec i386 ntTime) (\<lambda>(ret, tm). Inr (ret, tv_sec tm))"

section \<open>Status codes\<close>

datatype HgfsInternalStatus = NoError | ENOENT | EBADF | EPERM | EISDIR | EEXIST | ENOTDIR | ENOTEMPTY | EPROTO | EACCES | EINVAL
  | ENOSPC | EOPNOTSUPP | ENAMETOOLONG | EPARAMETERNOTSUPPORTED | EXDEV | ENETRESET | ECONNREFUSED | EINTERNAL
  | HGFS_INTERNAL_STATUS_ERROR | OtherError int

datatype HgfsStatus = HGFS_STATUS_SUCCESS | HGFS_STATUS_NO_SUCH_FILE_OR_DIR | HGFS_STATUS_INVALID_HANDLE
  | HGFS_STATUS_OPERATION_NOT_PERMITTED | HGFS_STATUS_FILE_EXISTS | HGFS_STATUS_NOT_DIRECTORY | HGFS_STATUS_DIR_NOT_EMPTY
  | HGFS_STATUS_PROTOCOL_ERROR | HGFS_STATUS_ACCESS_DENIED | HGFS_STATUS_INVALID_NAME | HGFS_STATUS_NO_SPACE
  | HGFS_STATUS_OPERATION_NOT_SUPPORTED | HGFS_STATUS_NAME_TOO_LONG | HGFS_STATUS_INVALID_PARAMETER | HGFS_STATUS_NOT_SAME_DEVICE
  | HGFS_STATUS_STALE_SESSION | HGFS_STATUS_TOO_MANY_SESSIONS | HGFS_STATUS_GENERIC_ERROR

fun HgfsConvertFromInternalStatus :: "HgfsInternalStatus \<Rightarrow> HgfsStatus" where
  "HgfsConvertFromInternalStatus NoError = HGFS_STATUS_SUCCESS"
| "HgfsConvertFromInternalStatus ENOENT = HGFS_STATUS_NO_SUCH_FILE_OR_DIR"
| "HgfsConvertFromInternalStatus EBADF = HGFS_STATUS_INVALID_HANDLE"
| "HgfsConvertFromInternalStatus EPERM = HGFS_STATUS_OPERATION_NOT_PERMITTED"
| "HgfsConvertFromInternalStatus EISDIR = HGFS_STATUS_FILE_EXISTS"
| "HgfsConvertFromInternalStatus EEXIST = HGFS_STATUS_FILE_EXISTS"
| "HgfsConvertFromInternalStatus ENOTDIR = HGFS_STATUS_NOT_DIRECTORY"
| "HgfsConvertFromInternalStatus ENOTEMPTY = HGFS_STATUS_DIR_NOT_EMPTY"
| "HgfsConvertFromInternalStatus EPROTO = HGFS_STATUS_PROTOCOL_ERROR"
| "HgfsConvertFromInternalStatus EACCES = HGFS_STATUS_ACCESS_DENIED"
| "HgfsConvertFromInternalStatus EINVAL = HGFS_STATUS_INVALID_NAME"
| "HgfsConvertFromInternalStatus ENOSPC = HGFS_STATUS_NO_SPACE"
| "HgfsConvertFromInternalStatus EOPNOTSUPP = HGFS_STATUS_OPERATION_NOT_SUPPORTED"
| "HgfsConvertFromInternalStatus ENAMETOOLONG = HGFS_STATUS_NAME_TOO_LONG"
| "HgfsConvertFromInternalStatus EPARAMETERNOTSUPPORTED = HGFS_STATUS_INVALID_PARAMETER"
| "HgfsConvertFromInternalStatus EXDEV = HGFS_STATUS_NOT_SAME_DEVICE"
| "HgfsConvertFromInternalStatus ENETRESET = HGFS_STATUS_STALE_SESSION"
| "HgfsConvertFromInternalStatus ECONNREFUSED = HGFS_STATUS_TOO_MANY_SESSIONS"
| "HgfsConvertFromInternalStatus _ = HGFS_STATUS_GENERIC_ERROR"

section \<open>Properties\<close>

lemma unix_epoch: "UNIX_EPOCH = 116444736000000000" "unat UNIX_EPOCH = 116444736000000000"
  by (simp_all add: UNIX_EPOCH_def)

lemma unix_s32_max: "UNIX_S32_MAX = 137919572480000000"
  by (simp add: UNIX_S32_MAX_def UNIX_EPOCH_def)

lemma sint_small: "n < 2 ^ 63 \<Longrightarrow> sint (of_nat n :: u64) = int n"
  by (simp add: signed_of_nat signed_take_bit_int_eq_self)

lemma to_nt_time:
  assumes "nsec < 10 ^ 9"
  shows "HgfsConvertToNtTime (of_nat sec) (of_nat nsec) = of_nat (sec * 10000000 + nsec div 100 + 116444736000000000)"
proof -
  have "sint (of_nat nsec :: u64) = int nsec" using assms by (intro sint_small) simp
  moreover have "int nsec sdiv 100 = int (nsec div 100)" by (cases "nsec = 0") (auto simp: signed_divide_int_def zdiv_int)
  ultimately show ?thesis by (simp add: HgfsConvertToNtTime_def unix_epoch(1))
qed

lemma since_epoch:
  assumes "t < 2 ^ 64 - 116444736000000000"
  shows "of_nat (t + 116444736000000000) - UNIX_EPOCH = of_nat t" and "\<not> of_nat (t + 116444736000000000) < UNIX_EPOCH"
    and "unat (of_nat (t + 116444736000000000) :: u64) = t + 116444736000000000"
proof -
  show u: "unat (of_nat (t + 116444736000000000) :: u64) = t + 116444736000000000"
    using assms by (intro unat_of_nat_bound) simp
  show "of_nat (t + 116444736000000000) - UNIX_EPOCH = of_nat t" by (simp add: unix_epoch)
  show "\<not> of_nat (t + 116444736000000000) < UNIX_EPOCH" using u by (simp add: word_less_nat_alt unix_epoch(2) del: of_nat_add)
qed



end
