(* ===== verification/VMCIResource.thy ===== *)
theory VMCIResource
  imports VMCIQueue
begin

text \<open>
  Resources of VMCI and the hash table that finds them by handle: \<^verbatim>\<open>vmciHashtable.c\<close> and \<^verbatim>\<open>vmciResource.c\<close> of \<^verbatim>\<open>modules/linux/vmci/common\<close>.
  Resources live in a heap, and a bucket of the table is a chain of them; a hash entry is the first member of its resource, so
  one address stands for both. A walk along a chain is a partial function, as nothing but the callers keeps the chain acyclic. Each
  function of the table runs under its lock; what runs between two of them is separated where other threads can interfere.
  Reference counts are integers.
\<close>

section \<open>Types\<close>

definition VMCI_SUCCESS_ENTRY_DEAD :: i64 where "VMCI_SUCCESS_ENTRY_DEAD = 1"
definition VMCI_ERROR_DUPLICATE_ENTRY :: i64 where "VMCI_ERROR_DUPLICATE_ENTRY = - 9"
definition VMCI_ERROR_NOT_FOUND :: i64 where "VMCI_ERROR_NOT_FOUND = - 21"

definition VMCI_INVALID_ID :: u32 where "VMCI_INVALID_ID = 0xFFFFFFFF"
definition VMCI_INVALID_HANDLE :: VMCIHandle where "VMCI_INVALID_HANDLE = (VMCI_INVALID_ID, VMCI_INVALID_ID)"
definition VMCI_RESERVED_RESOURCE_ID_MAX :: u32 where "VMCI_RESERVED_RESOURCE_ID_MAX = 1023"

text \<open>A handle is the pair of its context and its resource identifier.\<close>

definition VMCI_HANDLE_TO_CONTEXT_ID :: "VMCIHandle \<Rightarrow> u32" where "VMCI_HANDLE_TO_CONTEXT_ID h = fst h"
definition VMCI_HANDLE_TO_RESOURCE_ID :: "VMCIHandle \<Rightarrow> u32" where "VMCI_HANDLE_TO_RESOURCE_ID h = snd h"

type_synonym addr = nat

record VMCIHashEntry =
  he_handle :: VMCIHandle
  he_refCount :: int
  he_next :: "addr option"

datatype VMCIResourceType = VMCI_RESOURCE_TYPE_ANY | VMCI_RESOURCE_TYPE_API | VMCI_RESOURCE_TYPE_GROUP
  | VMCI_RESOURCE_TYPE_DATAGRAM | VMCI_RESOURCE_TYPE_DOORBELL

text \<open>\<open>containerFreeCB\<close> says whether a callback is registered; its calls are recorded with the container object they get.\<close>

record VMCIResource =
  hashEntry :: VMCIHashEntry
  rtype :: VMCIResourceType
  containerFreeCB :: bool
  containerObject :: nat

record VMCIHashTable =
  ht_entries :: "addr option list"
  ht_size :: nat

record rstate =
  heap :: "addr \<Rightarrow> VMCIResource option"
  resourceTable :: "VMCIHashTable option"
  resourceID :: u32
  freeCalls :: "nat list"

section \<open>Memory\<close>

definition load :: "rstate \<Rightarrow> addr \<Rightarrow> VMCIResource res" where
  "load s a = (case heap s a of None \<Rightarrow> Inl UseAfterFree | Some r \<Rightarrow> Inr r)"

definition upd_entry :: "(VMCIHashEntry \<Rightarrow> VMCIHashEntry) \<Rightarrow> rstate \<Rightarrow> addr \<Rightarrow> rstate res" where
  "upd_entry f s a = bindR (load s a) (\<lambda>r. Inr (s\<lparr>heap := (heap s)(a \<mapsto> r\<lparr>hashEntry := f (hashEntry r)\<rparr>)\<rparr>))"

definition the_table :: "rstate \<Rightarrow> VMCIHashTable res" where
  "the_table s = (case resourceTable s of None \<Rightarrow> Inl NullDeref | Some t \<Rightarrow> Inr t)"

section \<open>Hash table\<close>

definition VMCI_HashId :: "u32 \<Rightarrow> u32 \<Rightarrow> u32" where
  "VMCI_HashId i sz =
     (let hash = foldl (\<lambda>hash k. push_bit 5 hash + hash + ucast (ucast (drop_bit (k * 8) i) :: u8)) (5381 :: u32) [0..<4]
      in and hash (sz - 1))"

definition VMCI_HASHTABLE_HASH :: "VMCIHandle \<Rightarrow> nat \<Rightarrow> nat" where
  "VMCI_HASHTABLE_HASH h sz = unat (VMCI_HashId (VMCI_HANDLE_TO_RESOURCE_ID h) (of_nat sz))"

definition bucket :: "VMCIHashTable \<Rightarrow> nat \<Rightarrow> addr option res" where
  "bucket t i = (if i < length (ht_entries t) then Inr (ht_entries t ! i) else Inl OutOfBounds)"

definition VMCIHashTable_Create :: "bool \<Rightarrow> bool \<Rightarrow> bool \<Rightarrow> nat \<Rightarrow> VMCIHashTable option" where
  "VMCIHashTable_Create allocTable allocEntries initLock sz =
     (if allocTable \<and> allocEntries \<and> initLock then Some \<lparr>ht_entries = replicate sz None, ht_size = sz\<rparr> else None)"

definition VMCIHashTable_Destroy :: "rstate \<Rightarrow> rstate" where
  "VMCIHashTable_Destroy s = s\<lparr>resourceTable := None\<rparr>"

definition VMCIHashTable_InitEntry :: "rstate \<Rightarrow> addr \<Rightarrow> VMCIHandle \<Rightarrow> rstate res" where
  "VMCIHashTable_InitEntry s a h = upd_entry (\<lambda>e. e\<lparr>he_handle := h, he_refCount := 0\<rparr>) s a"

text \<open>The first entry of a chain whose handle satisfies \<open>P\<close>.\<close>

partial_function (option) chain_find ::
  "(addr \<Rightarrow> VMCIResource option) \<Rightarrow> (VMCIHandle \<Rightarrow> bool) \<Rightarrow> addr option \<Rightarrow> addr option res option" where
  "chain_find h P cur =
     (case cur of
        None \<Rightarrow> Some (Inr None)
      | Some a \<Rightarrow>
          (case h a of
             None \<Rightarrow> Some (Inl UseAfterFree)
           | Some r \<Rightarrow> if P (he_handle (hashEntry r)) then Some (Inr (Some a)) else chain_find h P (he_next (hashEntry r))))"

declare chain_find.simps [code]

definition exists_match :: "VMCIHandle \<Rightarrow> VMCIHandle \<Rightarrow> bool" where
  "exists_match h eh \<longleftrightarrow>
     VMCI_HANDLE_TO_RESOURCE_ID eh = VMCI_HANDLE_TO_RESOURCE_ID h \<and>
     (VMCI_HANDLE_TO_CONTEXT_ID eh = VMCI_HANDLE_TO_CONTEXT_ID h \<or> VMCI_INVALID_ID = VMCI_HANDLE_TO_CONTEXT_ID h \<or>
      VMCI_INVALID_ID = VMCI_HANDLE_TO_CONTEXT_ID eh)"

definition get_match :: "VMCIHandle \<Rightarrow> VMCIHandle \<Rightarrow> bool" where
  "get_match h eh \<longleftrightarrow>
     VMCI_HANDLE_TO_RESOURCE_ID eh = VMCI_HANDLE_TO_RESOURCE_ID h \<and>
     (VMCI_HANDLE_TO_CONTEXT_ID eh = VMCI_HANDLE_TO_CONTEXT_ID h \<or> VMCI_INVALID_ID = VMCI_HANDLE_TO_CONTEXT_ID eh)"

definition table_find :: "rstate \<Rightarrow> (VMCIHandle \<Rightarrow> bool) \<Rightarrow> VMCIHandle \<Rightarrow> addr option res" where
  "table_find s P h =
     bindR (the_table s) (\<lambda>t.
       bindR (bucket t (VMCI_HASHTABLE_HASH h (ht_size t))) (\<lambda>head. loop (chain_find (heap s) P head)))"

definition VMCIHashTableEntryExistsLocked :: "rstate \<Rightarrow> VMCIHandle \<Rightarrow> bool res" where
  "VMCIHashTableEntryExistsLocked s h = bindR (table_find s (exists_match h) h) (\<lambda>r. Inr (r \<noteq> None))"

definition VMCIHashTable_EntryExists :: "rstate \<Rightarrow> VMCIHandle \<Rightarrow> bool res" where
  "VMCIHashTable_EntryExists s h = VMCIHashTableEntryExistsLocked s h"

text \<open>\<open>canCreate\<close> is the answer of \<^verbatim>\<open>VMCI_CanCreate\<close>.\<close>

definition VMCIHashTable_AddEntry :: "bool \<Rightarrow> rstate \<Rightarrow> addr \<Rightarrow> (i64 \<times> rstate) res" where
  "VMCIHashTable_AddEntry canCreate s a =
     (if \<not> canCreate then Inr (VMCI_ERROR_UNAVAILABLE, s)
      else bindR (load s a) (\<lambda>r.
        bindR (VMCIHashTableEntryExistsLocked s (he_handle (hashEntry r))) (\<lambda>ex.
          if ex then Inr (VMCI_ERROR_DUPLICATE_ENTRY, s)
          else bindR (the_table s) (\<lambda>t.
            let idx = VMCI_HASHTABLE_HASH (he_handle (hashEntry r)) (ht_size t)
            in bindR (bucket t idx) (\<lambda>head.
                 bindR (upd_entry (\<lambda>e. e\<lparr>he_refCount := he_refCount e + 1, he_next := head\<rparr>) s a) (\<lambda>s1.
                   Inr (VMCI_SUCCESS, s1\<lparr>resourceTable := Some (t\<lparr>ht_entries := (ht_entries t)[idx := Some a]\<rparr>)\<rparr>)))))))"

text \<open>The first entry of a chain whose handle satisfies \<open>P\<close>, and its predecessor.\<close>

partial_function (option) unlink_find ::
  "(addr \<Rightarrow> VMCIResource option) \<Rightarrow> (VMCIHandle \<Rightarrow> bool) \<Rightarrow> addr option \<Rightarrow> addr option \<Rightarrow> (addr option \<times> addr option) res option" where
  "unlink_find hp P prev cur =
     (case cur of
        None \<Rightarrow> Some (Inr (prev, None))
      | Some a \<Rightarrow>
          (case hp a of
             None \<Rightarrow> Some (Inl UseAfterFree)
           | Some r \<Rightarrow> if P (he_handle (hashEntry r)) then Some (Inr (prev, Some a))
                       else unlink_find hp P cur (he_next (hashEntry r))))"

declare unlink_find.simps [code]

definition HashTableUnlinkEntry :: "rstate \<Rightarrow> addr \<Rightarrow> (i64 \<times> rstate) res" where
  "HashTableUnlinkEntry s a =
     bindR (load s a) (\<lambda>r.
       bindR (the_table s) (\<lambda>t.
         let h = he_handle (hashEntry r); idx = VMCI_HASHTABLE_HASH h (ht_size t)
         in bindR (bucket t idx) (\<lambda>head.
              bindR (loop (unlink_find (heap s) (\<lambda>eh. eh = h) None head)) (\<lambda>(prev, cur).
                case cur of
                  None \<Rightarrow> Inr (VMCI_ERROR_NOT_FOUND, s)
                | Some c \<Rightarrow>
                    bindR (load s c) (\<lambda>rc.
                      let nxt = he_next (hashEntry rc)
                      in bindR (case prev of
                                  Some p \<Rightarrow> upd_entry (\<lambda>e. e\<lparr>he_next := nxt\<rparr>) s p
                                | None \<Rightarrow> Inr (s\<lparr>resourceTable := Some (t\<lparr>ht_entries := (ht_entries t)[idx := nxt]\<rparr>)\<rparr>)) (\<lambda>s1.
                           bindR (upd_entry (\<lambda>e. e\<lparr>he_next := None\<rparr>) s1 c) (\<lambda>s2. Inr (VMCI_SUCCESS, s2))))))))"

definition VMCIHashTable_RemoveEntry :: "rstate \<Rightarrow> addr \<Rightarrow> (i64 \<times> rstate) res" where
  "VMCIHashTable_RemoveEntry s a =
     bindR (HashTableUnlinkEntry s a) (\<lambda>(result, s1).
       if result \<noteq> VMCI_SUCCESS then Inr (result, s1)
       else bindR (upd_entry (\<lambda>e. e\<lparr>he_refCount := he_refCount e - 1\<rparr>) s1 a) (\<lambda>s2.
              bindR (load s2 a) (\<lambda>r.
                Inr (if he_refCount (hashEntry r) = 0 then VMCI_SUCCESS_ENTRY_DEAD else result, s2))))"

definition VMCIHashTableGetEntryLocked :: "rstate \<Rightarrow> VMCIHandle \<Rightarrow> (addr option \<times> rstate) res" where
  "VMCIHashTableGetEntryLocked s h =
     bindR (table_find s (get_match h) h) (\<lambda>cur.
       case cur of
         None \<Rightarrow> Inr (None, s)
       | Some a \<Rightarrow> bindR (upd_entry (\<lambda>e. e\<lparr>he_refCount := he_refCount e + 1\<rparr>) s a) (\<lambda>s1. Inr (Some a, s1)))"

definition VMCIHashTable_GetEntry :: "rstate \<Rightarrow> VMCIHandle \<Rightarrow> (addr option \<times> rstate) res" where
  "VMCIHashTable_GetEntry s h =
     (if h = VMCI_INVALID_HANDLE then Inr (None, s) else VMCIHashTableGetEntryLocked s h)"

definition VMCIHashTable_HoldEntry :: "rstate \<Rightarrow> addr \<Rightarrow> rstate res" where
  "VMCIHashTable_HoldEntry s a = upd_entry (\<lambda>e. e\<lparr>he_refCount := he_refCount e + 1\<rparr>) s a"

definition VMCIHashTableReleaseEntryLocked :: "rstate \<Rightarrow> addr \<Rightarrow> (i64 \<times> rstate) res" where
  "VMCIHashTableReleaseEntryLocked s a =
     bindR (upd_entry (\<lambda>e. e\<lparr>he_refCount := he_refCount e - 1\<rparr>) s a) (\<lambda>s1.
       bindR (load s1 a) (\<lambda>r.
         if he_refCount (hashEntry r) = 0
         then bindR (HashTableUnlinkEntry s1 a) (\<lambda>(_, s2). Inr (VMCI_SUCCESS_ENTRY_DEAD, s2))
         else Inr (VMCI_SUCCESS, s1)))"

definition VMCIHashTable_ReleaseEntry :: "rstate \<Rightarrow> addr \<Rightarrow> (i64 \<times> rstate) res" where
  "VMCIHashTable_ReleaseEntry s a = VMCIHashTableReleaseEntryLocked s a"

section \<open>Resources\<close>

definition VMCIResource_Init :: "bool \<Rightarrow> bool \<Rightarrow> bool \<Rightarrow> rstate \<Rightarrow> i64 \<times> rstate" where
  "VMCIResource_Init allocTable allocEntries initLock s =
     (case VMCIHashTable_Create allocTable allocEntries initLock 128 of
        None \<Rightarrow> (VMCI_ERROR_NO_MEM, s\<lparr>resourceTable := None\<rparr>)
      | Some t \<Rightarrow> (VMCI_SUCCESS, s\<lparr>resourceTable := Some t\<rparr>))"

definition VMCIResource_Exit :: "rstate \<Rightarrow> rstate" where
  "VMCIResource_Exit s = (case resourceTable s of None \<Rightarrow> s | Some _ \<Rightarrow> VMCIHashTable_Destroy s)"

definition next_id :: "u32 \<Rightarrow> u32" where
  "next_id rid = (if rid + 1 = VMCI_INVALID_ID then VMCI_RESERVED_RESOURCE_ID_MAX + 1 else rid + 1)"

text \<open>The loop ends when an identifier is free or when it is back at \<open>oldRID\<close>. The result is the last identifier tried and whether it is free.\<close>

partial_function (option) GetID_loop :: "rstate \<Rightarrow> u32 \<Rightarrow> u32 \<Rightarrow> (u32 \<times> bool \<times> rstate) res option" where
  "GetID_loop s contextID oldRID =
     (let currentRID = resourceID s; s1 = s\<lparr>resourceID := next_id (resourceID s)\<rparr>
      in case VMCIHashTable_EntryExists s1 (contextID, currentRID) of
           Inl e \<Rightarrow> Some (Inl e)
         | Inr ex \<Rightarrow>
             if ex \<and> resourceID s1 \<noteq> oldRID then GetID_loop s1 contextID oldRID
             else Some (Inr (currentRID, \<not> ex, s1)))"

declare GetID_loop.simps [code]

definition VMCIResource_GetID :: "rstate \<Rightarrow> u32 \<Rightarrow> (u32 \<times> rstate) res" where
  "VMCIResource_GetID s contextID =
     bindR (loop (GetID_loop s contextID (resourceID s))) (\<lambda>(currentRID, foundRID, s1).
       Inr (if foundRID then currentRID else VMCI_INVALID_ID, s1))"

definition VMCIResource_Add :: "bool \<Rightarrow> rstate \<Rightarrow> addr \<Rightarrow> VMCIResourceType \<Rightarrow> VMCIHandle \<Rightarrow> bool \<Rightarrow> nat \<Rightarrow> (i64 \<times> rstate) res" where
  "VMCIResource_Add canCreate s a resourceType resourceHandle freeCB object =
     (if resourceHandle = VMCI_INVALID_HANDLE then Inr (VMCI_ERROR_INVALID_ARGS, s)
      else bindR (VMCIHashTable_InitEntry s a resourceHandle) (\<lambda>s1.
        bindR (load s1 a) (\<lambda>r.
          VMCIHashTable_AddEntry canCreate
            (s1\<lparr>heap := (heap s1)(a \<mapsto> r\<lparr>rtype := resourceType, containerFreeCB := freeCB, containerObject := object\<rparr>)\<rparr>) a)))"

text \<open>\<^verbatim>\<open>VMCIResource_Get\<close> in two halves, as other threads may run between the two calls of the table.\<close>

definition VMCIResource_Get_check :: "rstate \<Rightarrow> addr \<Rightarrow> VMCIResourceType \<Rightarrow> (addr option \<times> rstate) res" where
  "VMCIResource_Get_check s a resourceType =
     bindR (load s a) (\<lambda>r.
       if resourceType = VMCI_RESOURCE_TYPE_ANY \<or> rtype r = resourceType then Inr (Some a, s)
       else bindR (VMCIHashTable_ReleaseEntry s a) (\<lambda>(_, s1). Inr (None, s1)))"

definition VMCIResource_Get :: "rstate \<Rightarrow> VMCIHandle \<Rightarrow> VMCIResourceType \<Rightarrow> (addr option \<times> rstate) res" where
  "VMCIResource_Get s resourceHandle resourceType =
     bindR (VMCIHashTable_GetEntry s resourceHandle) (\<lambda>(entry, s1).
       case entry of None \<Rightarrow> Inr (None, s1) | Some a \<Rightarrow> VMCIResource_Get_check s1 a resourceType)"

definition VMCIResource_Hold :: "rstate \<Rightarrow> addr \<Rightarrow> rstate res" where
  "VMCIResource_Hold s a = VMCIHashTable_HoldEntry s a"

definition VMCIResourceDoRemove :: "rstate \<Rightarrow> addr \<Rightarrow> rstate res" where
  "VMCIResourceDoRemove s a =
     bindR (load s a) (\<lambda>r. Inr (if containerFreeCB r then s\<lparr>freeCalls := freeCalls s @ [containerObject r]\<rparr> else s))"

definition VMCIResource_Release :: "rstate \<Rightarrow> addr \<Rightarrow> (i64 \<times> rstate) res" where
  "VMCIResource_Release s a =
     bindR (VMCIHashTable_ReleaseEntry s a) (\<lambda>(result, s1).
       if result = VMCI_SUCCESS_ENTRY_DEAD then bindR (VMCIResourceDoRemove s1 a) (\<lambda>s2. Inr (result, s2)) else Inr (result, s1))"

definition VMCIResource_Remove :: "rstate \<Rightarrow> VMCIHandle \<Rightarrow> VMCIResourceType \<Rightarrow> rstate res" where
  "VMCIResource_Remove s resourceHandle resourceType =
     bindR (VMCIResource_Get s resourceHandle resourceType) (\<lambda>(resource, s1).
       case resource of
         None \<Rightarrow> Inr s1
       | Some a \<Rightarrow>
           bindR (VMCIHashTable_RemoveEntry s1 a) (\<lambda>(_, s2). bindR (VMCIResource_Release s2 a) (\<lambda>(_, s3). Inr s3)))"

definition VMCIResource_Handle :: "rstate \<Rightarrow> addr \<Rightarrow> VMCIHandle res" where
  "VMCIResource_Handle s a = bindR (load s a) (\<lambda>r. Inr (he_handle (hashEntry r)))"

end
