(* ===== verification/VMCIResource_Laws.thy ===== *)
theory VMCIResource_Laws
  imports VMCIResource
begin

text \<open>
  What holds of the resource table of VMCI while its clients use references that they own: the chains stay acyclic and
  sorted into their buckets, and reference counts are exact. The clients and their references are a step system over the
  functions of the model.
\<close>

section \<open>Chains\<close>

fun chain :: "(addr \<Rightarrow> VMCIResource option) \<Rightarrow> addr option \<Rightarrow> addr list \<Rightarrow> bool" where
  "chain hp cur [] \<longleftrightarrow> cur = None"
| "chain hp cur (a # as) \<longleftrightarrow> cur = Some a \<and> (\<exists>r. hp a = Some r \<and> chain hp (he_next (hashEntry r)) as)"

definition handle_of :: "(addr \<Rightarrow> VMCIResource option) \<Rightarrow> addr \<Rightarrow> VMCIHandle" where
  "handle_of hp a = he_handle (hashEntry (the (hp a)))"

lemma chain_alloc: "chain hp cur as \<Longrightarrow> a \<in> set as \<Longrightarrow> \<exists>r. hp a = Some r"
  by (induction as arbitrary: cur) auto

lemma chain_find_spec: "chain hp cur as \<Longrightarrow> chain_find hp P cur = Some (Inr (find (\<lambda>a. P (handle_of hp a)) as))"
proof (induction as arbitrary: cur)
  case Nil
  then show ?case by (subst chain_find.simps) simp
next
  case (Cons a as)
  then show ?case by (subst chain_find.simps) (auto simp: handle_of_def)
qed

lemma unlink_find_none:
  "chain hp cur as \<Longrightarrow> \<forall>a \<in> set as. \<not> P (handle_of hp a) \<Longrightarrow> \<exists>prev'. unlink_find hp P prev cur = Some (Inr (prev', None))"
proof (induction as arbitrary: cur prev)
  case Nil
  then show ?case by (subst unlink_find.simps) simp
next
  case (Cons a as)
  then show ?case by (subst unlink_find.simps) (auto simp: handle_of_def)
qed

lemma unlink_find_some:
  "chain hp cur (xs @ c # ys) \<Longrightarrow> \<forall>a \<in> set xs. \<not> P (handle_of hp a) \<Longrightarrow> P (handle_of hp c) \<Longrightarrow>
   unlink_find hp P prev cur = Some (Inr (if xs = [] then prev else Some (last xs), Some c))"
proof (induction xs arbitrary: cur prev)
  case Nil
  then show ?case by (subst unlink_find.simps) (auto simp: handle_of_def)
next
  case (Cons a as)
  then obtain r where r: "cur = Some a" "hp a = Some r" "chain hp (he_next (hashEntry r)) (as @ c # ys)" by auto
  then have "unlink_find hp P (Some a) (he_next (hashEntry r)) = Some (Inr (if as = [] then Some a else Some (last as), Some c))"
    using Cons.IH Cons.prems by simp
  then show ?case using r Cons.prems(2) by (subst unlink_find.simps) (auto simp: handle_of_def)
qed

lemma chain_cong: "(\<And>b. b \<in> set as \<Longrightarrow> hp' b = hp b) \<Longrightarrow> chain hp' cur as = chain hp cur as"
  by (induction as arbitrary: cur) auto

lemma chain_other: "a \<notin> set as \<Longrightarrow> chain (hp(a := v)) cur as = chain hp cur as"
  by (induction as arbitrary: cur) auto

lemma chain_same_next:
  "hp a = Some r \<Longrightarrow> he_next (hashEntry r') = he_next (hashEntry r) \<Longrightarrow> chain (hp(a \<mapsto> r')) cur as = chain hp cur as"
  by (induction as arbitrary: cur) auto

lemma chain_append: "chain hp cur (xs @ c # ys) \<Longrightarrow> \<exists>r. hp c = Some r \<and> chain hp (he_next (hashEntry r)) ys"
  by (induction xs arbitrary: cur) auto

lemma chain_relink:
  assumes "chain hp cur (xs @ p # c # ys)" and "distinct (xs @ p # c # ys)" and "hp c = Some rc" and "hp p = Some rp"
    and "he_next (hashEntry rp') = he_next (hashEntry rc)"
  shows "chain (hp(p \<mapsto> rp')) cur (xs @ p # ys)"
  using assms
proof (induction xs arbitrary: cur)
  case Nil
  then have "chain (hp(p \<mapsto> rp')) (he_next (hashEntry rp')) ys" using chain_other [of p ys hp "Some rp'"] by auto
  then show ?case using Nil by (simp del: fun_upd_apply add: fun_upd_same)
next
  case (Cons a xs)
  then show ?case by auto
qed

section \<open>Tables\<close>

definition table_ok :: "rstate \<Rightarrow> VMCIHashTable \<Rightarrow> (nat \<Rightarrow> addr list) \<Rightarrow> bool" where
  "table_ok s t L \<longleftrightarrow>
     resourceTable s = Some t \<and> 0 < ht_size t \<and> ht_size t < 2 ^ 31 \<and> length (ht_entries t) = ht_size t \<and>
     (\<forall>i < ht_size t. chain (heap s) (ht_entries t ! i) (L i) \<and> distinct (L i)) \<and>
     (\<forall>i. \<forall>a \<in> set (L i). i < ht_size t \<and> VMCI_HASHTABLE_HASH (handle_of (heap s) a) (ht_size t) = i) \<and>
     (\<forall>i. \<forall>a \<in> set (L i). \<forall>b \<in> set (L i). a \<noteq> b \<longrightarrow> \<not> exists_match (handle_of (heap s) a) (handle_of (heap s) b))"

definition linked :: "(nat \<Rightarrow> addr list) \<Rightarrow> addr \<Rightarrow> bool" where
  "linked L a \<longleftrightarrow> (\<exists>i. a \<in> set (L i))"

lemma hash_less:
  assumes "0 < sz" and "sz < 2 ^ 31"
  shows "VMCI_HASHTABLE_HASH h sz < sz"
proof -
  have "unat (of_nat sz :: u32) = sz" using assms(2) by (intro unat_of_nat_bound) simp
  then have m: "unat (of_nat sz - 1 :: u32) = sz - 1" using assms by (subst unat_minus_one) (auto simp: unat_eq_zero)
  have "unat (and x (of_nat sz - 1 :: u32)) < sz" for x
  proof -
    have "unat (and x (of_nat sz - 1 :: u32)) \<le> sz - 1" using word_and_le1 [of x "of_nat sz - 1 :: u32"] m by (simp add: word_le_nat_alt)
    then show ?thesis using assms(1) by linarith
  qed
  then show ?thesis unfolding VMCI_HASHTABLE_HASH_def VMCI_HashId_def Let_def .
qed

lemma table_ok_bucket:
  assumes "table_ok s t L"
  shows "the_table s = Inr t"
    and "bucket t (VMCI_HASHTABLE_HASH h (ht_size t)) = Inr (ht_entries t ! VMCI_HASHTABLE_HASH h (ht_size t))"
    and "VMCI_HASHTABLE_HASH h (ht_size t) < ht_size t"
  using assms hash_less [of "ht_size t" h] by (auto simp: table_ok_def the_table_def bucket_def)

lemma table_find_spec:
  assumes "table_ok s t L"
  shows "table_find s P h = Inr (find (\<lambda>a. P (handle_of (heap s) a)) (L (VMCI_HASHTABLE_HASH h (ht_size t))))"
proof -
  note b = table_ok_bucket [OF assms]
  have "chain (heap s) (ht_entries t ! VMCI_HASHTABLE_HASH h (ht_size t)) (L (VMCI_HASHTABLE_HASH h (ht_size t)))"
    using assms b(3) by (simp add: table_ok_def)
  then show ?thesis using chain_find_spec b by (simp add: table_find_def loop_def)
qed

lemma find_not_None: "find P xs \<noteq> None \<longleftrightarrow> (\<exists>x \<in> set xs. P x)"
  by (auto simp: find_None_iff simp del: not_None_eq)

lemma EntryExists_spec:
  "table_ok s t L \<Longrightarrow> VMCIHashTableEntryExistsLocked s h =
     Inr (\<exists>b \<in> set (L (VMCI_HASHTABLE_HASH h (ht_size t))). exists_match h (handle_of (heap s) b))"
  using table_find_spec [of s t L "exists_match h" h]
  by (simp add: VMCIHashTableEntryExistsLocked_def find_not_None del: not_None_eq)

text \<open>An update that keeps handles and links.\<close>

lemma table_ok_update:
  assumes "table_ok s t L" and "heap s a = Some r" and "he_next (hashEntry r') = he_next (hashEntry r)"
    and "he_handle (hashEntry r') = he_handle (hashEntry r)"
  shows "table_ok (s\<lparr>heap := (heap s)(a \<mapsto> r')\<rparr>) t L"
proof -
  have "handle_of ((heap s)(a \<mapsto> r')) = handle_of (heap s)" using assms(2,4) by (auto simp: handle_of_def fun_eq_iff)
  then show ?thesis using assms(1) chain_same_next [of "heap s", OF assms(2,3)] by (simp add: table_ok_def)
qed

lemma table_ok_unlinked:
  assumes "table_ok s t L" and "\<not> linked L a"
  shows "table_ok (s\<lparr>heap := (heap s)(a := v)\<rparr>) t L"
proof -
  have "\<And>i. a \<notin> set (L i)" using assms(2) by (simp add: linked_def)
  moreover have "\<And>b. b \<noteq> a \<Longrightarrow> handle_of ((heap s)(a := v)) b = handle_of (heap s) b" by (simp add: handle_of_def)
  ultimately show ?thesis using assms(1) by (auto simp: table_ok_def chain_other) metis+
qed

lemma same_bucket: "exists_match h h' \<Longrightarrow> VMCI_HASHTABLE_HASH h n = VMCI_HASHTABLE_HASH h' n"
  by (simp add: exists_match_def VMCI_HASHTABLE_HASH_def)

lemma exists_match_sym: "exists_match h h' \<longleftrightarrow> exists_match h' h"
  by (auto simp: exists_match_def)

lemma exists_match_refl: "exists_match h h"
  by (simp add: exists_match_def)

lemma table_ok_add:
  assumes ok: "table_ok s t L" and a: "\<not> linked L a" "heap s a = Some r"
    and idx: "idx = VMCI_HASHTABLE_HASH (he_handle (hashEntry r)) (ht_size t)"
    and free: "\<forall>b \<in> set (L idx). \<not> exists_match (he_handle (hashEntry r)) (handle_of (heap s) b)"
    and r': "he_next (hashEntry r') = ht_entries t ! idx" "he_handle (hashEntry r') = he_handle (hashEntry r)"
  shows "table_ok (s\<lparr>heap := (heap s)(a \<mapsto> r'), resourceTable := Some (t\<lparr>ht_entries := (ht_entries t)[idx := Some a]\<rparr>)\<rparr>)
    (t\<lparr>ht_entries := (ht_entries t)[idx := Some a]\<rparr>) (L(idx := a # L idx))"
proof -
  let ?hp = "(heap s)(a \<mapsto> r')"
  have na: "\<And>i. a \<notin> set (L i)" using a(1) by (simp add: linked_def)
  have h: "handle_of ?hp a = he_handle (hashEntry r)" "\<And>b. b \<noteq> a \<Longrightarrow> handle_of ?hp b = handle_of (heap s) b"
    using r'(2) by (auto simp: handle_of_def)
  have lt: "idx < ht_size t" using table_ok_bucket(3) [OF ok] idx by simp
  have ch: "chain ?hp cur (L i) = chain (heap s) cur (L i)" for cur i by (rule chain_other [OF na])
  have "chain ?hp (Some a) (a # L idx)" using ok lt r'(1) ch by (simp add: table_ok_def del: fun_upd_apply add: fun_upd_same)
  then have "\<forall>i < ht_size t. chain ?hp ((ht_entries t)[idx := Some a] ! i) ((L(idx := a # L idx)) i) \<and> distinct ((L(idx := a # L idx)) i)"
    using ok ch na lt by (simp add: table_ok_def nth_list_update del: fun_upd_apply chain.simps add: fun_upd_same fun_upd_other)
  moreover have "VMCI_HASHTABLE_HASH (handle_of ?hp b) (ht_size t) = i \<and> i < ht_size t" if "b \<in> set ((L(idx := a # L idx)) i)" for b i
    using that ok h lt idx na by (cases "b = a"; cases "i = idx") (auto simp: table_ok_def)
  moreover have "\<not> exists_match (handle_of ?hp b) (handle_of ?hp c)"
    if "b \<in> set ((L(idx := a # L idx)) i)" "c \<in> set ((L(idx := a # L idx)) i)" "b \<noteq> c" for b c i
    using that ok h free na exists_match_sym [of "he_handle (hashEntry r)"]
    by (cases "b = a"; cases "c = a"; cases "i = idx") (auto simp: table_ok_def)
  ultimately show ?thesis using ok by (simp add: table_ok_def del: fun_upd_apply)
qed

lemma HashTable_AddEntry_spec:
  assumes ok: "table_ok s t L" and a: "\<not> linked L a" "heap s a = Some r"
    and idx: "idx = VMCI_HASHTABLE_HASH (he_handle (hashEntry r)) (ht_size t)"
  obtains "VMCIHashTable_AddEntry canCreate s a = Inr (VMCI_ERROR_UNAVAILABLE, s)" "\<not> canCreate"
  | "VMCIHashTable_AddEntry canCreate s a = Inr (VMCI_ERROR_DUPLICATE_ENTRY, s)" "canCreate"
    "\<exists>b \<in> set (L idx). exists_match (he_handle (hashEntry r)) (handle_of (heap s) b)"
  | r' t' where "VMCIHashTable_AddEntry canCreate s a = Inr (VMCI_SUCCESS, s\<lparr>heap := (heap s)(a \<mapsto> r'), resourceTable := Some t'\<rparr>)" "canCreate"
    "he_refCount (hashEntry r') = he_refCount (hashEntry r) + 1" "he_handle (hashEntry r') = he_handle (hashEntry r)"
    "table_ok (s\<lparr>heap := (heap s)(a \<mapsto> r'), resourceTable := Some t'\<rparr>) t' (L(idx := a # L idx))"
    "\<forall>b \<in> set (L idx). \<not> exists_match (he_handle (hashEntry r)) (handle_of (heap s) b)"
proof -
  let ?h = "he_handle (hashEntry r)"
  define r' where "r' = r\<lparr>hashEntry := (hashEntry r)\<lparr>he_refCount := he_refCount (hashEntry r) + 1, he_next := ht_entries t ! idx\<rparr>\<rparr>"
  note b = table_ok_bucket [OF ok]
  have ex: "VMCIHashTableEntryExistsLocked s ?h = Inr (\<exists>b \<in> set (L idx). exists_match ?h (handle_of (heap s) b))"
    unfolding idx by (rule EntryExists_spec [OF ok])
  consider "\<not> canCreate" | "canCreate" "\<exists>b \<in> set (L idx). exists_match ?h (handle_of (heap s) b)"
    | "canCreate" "\<forall>b \<in> set (L idx). \<not> exists_match ?h (handle_of (heap s) b)" by blast
  then show thesis
  proof cases
    case 1
    then show thesis using that(1) by (simp add: VMCIHashTable_AddEntry_def)
  next
    case 2
    then show thesis using that(2) ex a(2) by (simp add: VMCIHashTable_AddEntry_def load_def)
  next
    case 3
    have "VMCIHashTable_AddEntry canCreate s a =
        Inr (VMCI_SUCCESS, s\<lparr>heap := (heap s)(a \<mapsto> r'), resourceTable := Some (t\<lparr>ht_entries := (ht_entries t)[idx := Some a]\<rparr>)\<rparr>)"
      using 3 ex a(2) b(1) b(2) [of ?h] by (auto simp: VMCIHashTable_AddEntry_def load_def upd_entry_def r'_def idx Let_def)
    then show thesis using that(3) 3 table_ok_add [OF ok a idx 3(2), of r'] by (simp add: r'_def)
  qed
qed

section \<open>Unlinking\<close>

definition strip :: "VMCIResource \<Rightarrow> VMCIResource" where
  "strip r = r\<lparr>hashEntry := (hashEntry r)\<lparr>he_next := None\<rparr>\<rparr>"

text \<open>Two heaps that differ in links only.\<close>

definition same_but_links :: "(addr \<Rightarrow> VMCIResource option) \<Rightarrow> (addr \<Rightarrow> VMCIResource option) \<Rightarrow> bool" where
  "same_but_links hp hp' \<longleftrightarrow> (\<forall>b. map_option strip (hp b) = map_option strip (hp' b))"

lemma strip_fields:
  "strip r = strip r' \<Longrightarrow> he_handle (hashEntry r) = he_handle (hashEntry r') \<and> he_refCount (hashEntry r) = he_refCount (hashEntry r') \<and>
     rtype r = rtype r' \<and> containerFreeCB r = containerFreeCB r' \<and> containerObject r = containerObject r'"
  by (cases r; cases r'; cases "hashEntry r"; cases "hashEntry r'") (auto simp: strip_def)

lemma same_but_links_handle: "same_but_links hp hp' \<Longrightarrow> handle_of hp' = handle_of hp"
proof
  fix b
  assume "same_but_links hp hp'"
  then have "map_option strip (hp b) = map_option strip (hp' b)" by (simp add: same_but_links_def)
  then show "handle_of hp' b = handle_of hp b"
    by (cases "hp b"; cases "hp' b") (auto simp: handle_of_def dest!: strip_fields)
qed

lemma same_but_links_load:
  assumes "same_but_links hp hp'" and "hp b = Some r"
  obtains r' where "hp' b = Some r'" and "strip r' = strip r"
  using assms(1)[unfolded same_but_links_def, rule_format, of b] assms(2) that by (cases "hp' b") auto

lemma table_ok_relink:
  assumes "table_ok s t L" and "same_but_links (heap s) hp'" and "ht_size t' = ht_size t" and "length (ht_entries t') = ht_size t"
    and "\<And>i. i < ht_size t \<Longrightarrow> chain hp' (ht_entries t' ! i) (L' i) \<and> distinct (L' i)" and "\<And>i. set (L' i) \<subseteq> set (L i)"
  shows "table_ok (s\<lparr>heap := hp', resourceTable := Some t'\<rparr>) t' L'"
proof -
  have "\<And>i b. b \<in> set (L' i) \<Longrightarrow> b \<in> set (L i)" using assms(6) by blast
  then show ?thesis using assms(1,3-5) same_but_links_handle [OF assms(2)] by (auto simp: table_ok_def) blast+
qed

lemma bucket_of: "table_ok s t L \<Longrightarrow> a \<in> set (L i) \<Longrightarrow> VMCI_HASHTABLE_HASH (handle_of (heap s) a) (ht_size t) = i"
  by (simp add: table_ok_def)

lemma linked_bucket:
  "table_ok s t L \<Longrightarrow> linked L a \<Longrightarrow> a \<in> set (L (VMCI_HASHTABLE_HASH (handle_of (heap s) a) (ht_size t)))"
  using bucket_of by (metis linked_def)

lemma bucket_unique: "table_ok s t L \<Longrightarrow> a \<in> set (L i) \<Longrightarrow> a \<in> set (L j) \<Longrightarrow> i = j"
  using bucket_of by metis

lemma no_match:
  "table_ok s t L \<Longrightarrow> a \<in> set (L i) \<Longrightarrow> b \<in> set (L i) \<Longrightarrow> a \<noteq> b \<Longrightarrow> \<not> exists_match (handle_of (heap s) a) (handle_of (heap s) b)"
  unfolding table_ok_def by blast

lemma Unlink_none:
  assumes ok: "table_ok s t L" and a: "heap s a = Some r"
    and none: "\<forall>b \<in> set (L (VMCI_HASHTABLE_HASH (he_handle (hashEntry r)) (ht_size t))). handle_of (heap s) b \<noteq> he_handle (hashEntry r)"
  shows "HashTableUnlinkEntry s a = Inr (VMCI_ERROR_NOT_FOUND, s)"
proof -
  let ?h = "he_handle (hashEntry r)"
  note b = table_ok_bucket [OF ok]
  have "chain (heap s) (ht_entries t ! VMCI_HASHTABLE_HASH ?h (ht_size t)) (L (VMCI_HASHTABLE_HASH ?h (ht_size t)))"
    using ok b(3) by (simp add: table_ok_def)
  from unlink_find_none [OF this, of "\<lambda>eh. eh = ?h" None] none obtain prev where
    "unlink_find (heap s) (\<lambda>eh. eh = ?h) None (ht_entries t ! VMCI_HASHTABLE_HASH ?h (ht_size t)) = Some (Inr (prev, None))" by auto
  then show ?thesis using a b(1) b(2) [of ?h] by (simp add: HashTableUnlinkEntry_def load_def Let_def loop_def)
qed

text \<open>One entry leaves its bucket; the other buckets are not touched.\<close>

lemma table_ok_drop:
  assumes ok: "table_ok s t L" and L: "L idx = xs @ a # ys" and links: "same_but_links (heap s) hp'" "\<And>b. b \<notin> set (L idx) \<Longrightarrow> hp' b = heap s b"
    and t': "t' = t\<lparr>ht_entries := (ht_entries t)[idx := c]\<rparr>" and ch: "chain hp' c (xs @ ys)"
  shows "table_ok (s\<lparr>heap := hp', resourceTable := Some t'\<rparr>) t' (L(idx := remove1 a (L idx)))"
proof (rule table_ok_relink [OF ok links(1)])
  show "ht_size t' = ht_size t" "length (ht_entries t') = ht_size t" using ok t' by (simp_all add: table_ok_def)
  show "set ((L(idx := remove1 a (L idx))) i) \<subseteq> set (L i)" for i using set_remove1_subset [of a "L i"] by auto
  fix i
  assume i: "i < ht_size t"
  then have old: "chain (heap s) (ht_entries t ! i) (L i)" "distinct (L i)" "length (ht_entries t) = ht_size t" using ok by (auto simp: table_ok_def)
  show "chain hp' (ht_entries t' ! i) ((L(idx := remove1 a (L idx))) i) \<and> distinct ((L(idx := remove1 a (L idx))) i)"
  proof (cases "i = idx")
    case True
    then have "remove1 a (L idx) = xs @ ys" using L old(2) by (simp add: remove1_append)
    then show ?thesis using True ch t' i old(2,3) L by simp
  next
    case False
    have "hp' b = heap s b" if "b \<in> set (L i)" for b using links(2) bucket_unique [OF ok that] False by blast
    then have "chain hp' cur (L i) = chain (heap s) cur (L i)" for cur by (intro chain_cong)
    then show ?thesis using False old t' by simp
  qed
qed

lemma Unlink_find:
  assumes ok: "table_ok s t L" and a: "heap s a = Some r" and idx: "idx = VMCI_HASHTABLE_HASH (he_handle (hashEntry r)) (ht_size t)"
    and L: "L idx = xs @ a # ys"
  shows "chain (heap s) (ht_entries t ! idx) (xs @ a # ys)" and "distinct (xs @ a # ys)"
    and "unlink_find (heap s) (\<lambda>eh. eh = he_handle (hashEntry r)) None (ht_entries t ! idx) =
      Some (Inr (if xs = [] then None else Some (last xs), Some a))"
proof -
  let ?h = "he_handle (hashEntry r)"
  have ha: "handle_of (heap s) a = ?h" using a by (simp add: handle_of_def)
  have "idx < ht_size t" using table_ok_bucket(3) [OF ok] idx by simp
  then have "chain (heap s) (ht_entries t ! idx) (L idx) \<and> distinct (L idx)" using ok by (simp add: table_ok_def)
  then show ch: "chain (heap s) (ht_entries t ! idx) (xs @ a # ys)" and d: "distinct (xs @ a # ys)" unfolding L by blast+
  have "handle_of (heap s) x \<noteq> ?h" if "x \<in> set xs" for x
  proof -
    have "x \<noteq> a" using d that by auto
    then have "\<not> exists_match (handle_of (heap s) x) ?h" using no_match [OF ok, of x idx a] L that ha by simp
    then show ?thesis using exists_match_refl by metis
  qed
  then show "unlink_find (heap s) (\<lambda>eh. eh = ?h) None (ht_entries t ! idx) = Some (Inr (if xs = [] then None else Some (last xs), Some a))"
    using unlink_find_some [OF ch, of "\<lambda>eh. eh = ?h" None] ha by simp
qed

lemma Unlink_some:
  assumes ok: "table_ok s t L" and a: "heap s a = Some r" and idx: "idx = VMCI_HASHTABLE_HASH (he_handle (hashEntry r)) (ht_size t)"
    and l: "linked L a"
  shows "\<exists>hp' t'. HashTableUnlinkEntry s a = Inr (VMCI_SUCCESS, s\<lparr>heap := hp', resourceTable := Some t'\<rparr>) \<and>
    same_but_links (heap s) hp' \<and> table_ok (s\<lparr>heap := hp', resourceTable := Some t'\<rparr>) t' (L(idx := remove1 a (L idx)))"
proof -
  let ?nxt = "he_next (hashEntry r)" and ?ra = "r\<lparr>hashEntry := (hashEntry r)\<lparr>he_next := None\<rparr>\<rparr>"
  note b = table_ok_bucket(1) [OF ok] table_ok_bucket(2) [OF ok, of "he_handle (hashEntry r)"]
  have "a \<in> set (L idx)" using linked_bucket [OF ok l] a idx by (simp add: handle_of_def)
  then obtain xs ys where L: "L idx = xs @ a # ys" by (meson split_list)
  note uf = Unlink_find [OF ok a idx L]
  show ?thesis
  proof (cases xs rule: rev_cases)
    case Nil
    let ?t = "t\<lparr>ht_entries := (ht_entries t)[idx := ?nxt]\<rparr>" and ?hp = "(heap s)(a \<mapsto> ?ra)"
    have "HashTableUnlinkEntry s a = Inr (VMCI_SUCCESS, s\<lparr>heap := ?hp, resourceTable := Some ?t\<rparr>)"
      using uf(3) a b Nil by (simp add: HashTableUnlinkEntry_def load_def Let_def loop_def upd_entry_def idx)
    moreover have links: "same_but_links (heap s) ?hp" using a by (auto simp: same_but_links_def strip_def)
    moreover have "chain ?hp ?nxt (xs @ ys)" using uf(1,2) a chain_other [of a ys "heap s"] Nil by auto
    ultimately show ?thesis using table_ok_drop [OF ok L links _ refl] L by auto
  next
    case (snoc zs p)
    obtain rp where rp: "heap s p = Some rp" using chain_alloc [OF uf(1), of p] snoc by auto
    have pa: "p \<noteq> a" using uf(2) snoc by auto
    let ?rp = "rp\<lparr>hashEntry := (hashEntry rp)\<lparr>he_next := ?nxt\<rparr>\<rparr>"
    let ?hp = "(heap s)(p \<mapsto> ?rp, a \<mapsto> ?ra)"
    have "resourceTable s = Some t" using ok by (simp add: table_ok_def)
    then have "HashTableUnlinkEntry s a = Inr (VMCI_SUCCESS, s\<lparr>heap := ?hp, resourceTable := Some t\<rparr>)"
      using uf(3) a b snoc rp pa by (simp add: HashTableUnlinkEntry_def load_def Let_def loop_def upd_entry_def idx)
    moreover have links: "same_but_links (heap s) ?hp" using a rp pa by (auto simp: same_but_links_def strip_def)
    moreover have "chain ((heap s)(p \<mapsto> ?rp)) (ht_entries t ! idx) (xs @ ys)"
      using chain_relink [of "heap s" "ht_entries t ! idx" zs p a ys r rp ?rp] uf(1,2) snoc a rp by simp
    then have "chain ?hp (ht_entries t ! idx) (xs @ ys)" using chain_other [of a "xs @ ys" "(heap s)(p \<mapsto> ?rp)"] uf(2) by simp
    moreover have "t = t\<lparr>ht_entries := (ht_entries t)[idx := ht_entries t ! idx]\<rparr>" by simp
    ultimately show ?thesis using table_ok_drop [OF ok L links, of t "ht_entries t ! idx"] L snoc by auto
  qed
qed

end
