(* ===== verification/VMCIResource_Spec.thy ===== *)
theory VMCIResource_Spec
  imports VMCIResource_Laws
begin

text \<open>
  The clients of the resource table as a step system. A step is one function of the table, so that all interleavings of threads are
  sequences of steps. Clients release, hold and unlink only what they have a reference to, and do not register a handle that a resource
  still carries which somebody refers to; the last theorems show what happens when the second rule, which the code does not enforce,
  is broken, and when a lookup with another type overlaps with a removal.
\<close>

section \<open>Clients\<close>

record rsys =
  rs :: rstate
  held :: "addr \<Rightarrow> nat"
  live :: "addr set"

definition count_of :: "(addr \<Rightarrow> VMCIResource option) \<Rightarrow> addr \<Rightarrow> int" where
  "count_of hp a = he_refCount (hashEntry (the (hp a)))"

datatype ract =
    Alloc addr VMCIResource
  | Free addr
  | Add addr VMCIResourceType VMCIHandle bool nat bool
  | GetEntry VMCIHandle
  | GetCheck addr VMCIResourceType
  | Hold addr
  | RemoveEntry addr
  | Release addr
  | GetID u32

fun renabled :: "rsys \<Rightarrow> ract \<Rightarrow> bool" where
  "renabled S (Alloc a r) \<longleftrightarrow> heap (rs S) a = None"
| "renabled S (Free a) \<longleftrightarrow> a \<notin> live S"
| "renabled S (Add a ty h cb obj canCreate) \<longleftrightarrow>
     heap (rs S) a \<noteq> None \<and> a \<notin> live S \<and> (\<forall>b \<in> live S. handle_of (heap (rs S)) b \<noteq> h)"
| "renabled S (GetEntry h) \<longleftrightarrow> True"
| "renabled S (GetCheck a ty) \<longleftrightarrow> held S a > 0"
| "renabled S (Hold a) \<longleftrightarrow> held S a > 0"
| "renabled S (RemoveEntry a) \<longleftrightarrow> held S a > 0"
| "renabled S (Release a) \<longleftrightarrow> held S a > 0"
| "renabled S (GetID c) \<longleftrightarrow> True"

text \<open>A reference is given up; a resource whose count is zero is no longer in use.\<close>

definition drop_ref :: "addr \<Rightarrow> rstate \<Rightarrow> rsys \<Rightarrow> rsys" where
  "drop_ref a s1 S =
     S\<lparr>rs := s1, held := (held S)(a := held S a - 1),
       live := (if count_of (heap s1) a = 0 then live S - {a} else live S)\<rparr>"

definition take_ref :: "addr \<Rightarrow> rstate \<Rightarrow> rsys \<Rightarrow> rsys" where
  "take_ref a s1 S = S\<lparr>rs := s1, held := (held S)(a := held S a + 1)\<rparr>"

fun rexec :: "ract \<Rightarrow> rsys \<Rightarrow> rsys res" where
  "rexec (Alloc a r) S = Inr (S\<lparr>rs := (rs S)\<lparr>heap := (heap (rs S))(a \<mapsto> r)\<rparr>\<rparr>)"
| "rexec (Free a) S = Inr (S\<lparr>rs := (rs S)\<lparr>heap := (heap (rs S))(a := None)\<rparr>\<rparr>)"
| "rexec (Add a ty h cb obj canCreate) S =
     bindR (VMCIResource_Add canCreate (rs S) a ty h cb obj) (\<lambda>(result, s1).
       Inr (S\<lparr>rs := s1, live := (if result = VMCI_SUCCESS then insert a (live S) else live S)\<rparr>))"
| "rexec (GetEntry h) S =
     bindR (VMCIHashTable_GetEntry (rs S) h) (\<lambda>(r, s1). Inr (case r of None \<Rightarrow> S\<lparr>rs := s1\<rparr> | Some a \<Rightarrow> take_ref a s1 S))"
| "rexec (GetCheck a ty) S =
     bindR (VMCIResource_Get_check (rs S) a ty) (\<lambda>(r, s1). Inr (if r = None then drop_ref a s1 S else S\<lparr>rs := s1\<rparr>))"
| "rexec (Hold a) S = bindR (VMCIResource_Hold (rs S) a) (\<lambda>s1. Inr (take_ref a s1 S))"
| "rexec (RemoveEntry a) S = bindR (VMCIHashTable_RemoveEntry (rs S) a) (\<lambda>(_, s1). Inr (S\<lparr>rs := s1\<rparr>))"
| "rexec (Release a) S = bindR (VMCIResource_Release (rs S) a) (\<lambda>(_, s1). Inr (drop_ref a s1 S))"
| "rexec (GetID c) S = bindR (VMCIResource_GetID (rs S) c) (\<lambda>(_, s1). Inr (S\<lparr>rs := s1\<rparr>))"

definition rsys0 :: rsys where
  "rsys0 =
     \<lparr>rs = snd (VMCIResource_Init True True True
              \<lparr>heap = (\<lambda>_. None), resourceTable = None, resourceID = VMCI_RESERVED_RESOURCE_ID_MAX + 1, freeCalls = []\<rparr>),
      held = (\<lambda>_. 0), live = {}\<rparr>"

definition rinit :: "rsys \<Rightarrow> bool" where
  "rinit S \<longleftrightarrow> S = rsys0"

definition rstep :: "rsys \<Rightarrow> ract \<Rightarrow> rsys \<Rightarrow> bool" where
  "rstep S act S' \<longleftrightarrow> renabled S act \<and> rexec act S = Inr S'"

section \<open>Invariant\<close>

definition valid_id :: "u32 \<Rightarrow> bool" where
  "valid_id i \<longleftrightarrow> VMCI_RESERVED_RESOURCE_ID_MAX < i \<and> i < VMCI_INVALID_ID"

definition rinv :: "rsys \<Rightarrow> VMCIHashTable \<Rightarrow> (nat \<Rightarrow> addr list) \<Rightarrow> bool" where
  "rinv S t L \<longleftrightarrow>
     table_ok (rs S) t L \<and> (\<forall>a. a \<in> live S \<longleftrightarrow> linked L a \<or> held S a > 0) \<and>
     (\<forall>a \<in> live S. heap (rs S) a \<noteq> None \<and> count_of (heap (rs S)) a = int (held S a) + (if linked L a then 1 else 0)) \<and>
     (\<forall>a \<in> live S. \<forall>b \<in> live S. handle_of (heap (rs S)) a = handle_of (heap (rs S)) b \<longrightarrow> a = b) \<and> valid_id (resourceID (rs S))"

definition rinvariant :: "rsys \<Rightarrow> bool" where
  "rinvariant S \<longleftrightarrow> (\<exists>t L. rinv S t L)"

text \<open>A change of one resource that keeps its handle and its links.\<close>

lemma rinv_count:
  assumes "rinv S t L" and "heap (rs S) a = Some r" and "he_next (hashEntry r') = he_next (hashEntry r)"
    and "he_handle (hashEntry r') = he_handle (hashEntry r)" and "heap s1 = (heap (rs S))(a \<mapsto> r')"
    and "resourceTable s1 = resourceTable (rs S)" and "resourceID s1 = resourceID (rs S)"
    and "\<And>b. b \<in> lv \<longleftrightarrow> linked L b \<or> hh b > 0" and "\<And>b. b \<noteq> a \<Longrightarrow> hh b = held S b" and "a \<in> live S"
    and "a \<in> lv \<Longrightarrow> he_refCount (hashEntry r') = int (hh a) + (if linked L a then 1 else 0)"
  shows "rinv (S\<lparr>rs := s1, held := hh, live := lv\<rparr>) t L"
proof -
  have h: "handle_of (heap s1) = handle_of (heap (rs S))" using assms(2,4,5) by (auto simp: handle_of_def fun_eq_iff)
  have "table_ok ((rs S)\<lparr>heap := heap s1\<rparr>) t L" using table_ok_update [of "rs S" t L a r r'] assms(1-5) by (simp add: rinv_def)
  then have ok: "table_ok s1 t L" using assms(6) by (simp add: table_ok_def)
  have sub: "b \<in> lv \<Longrightarrow> b \<in> live S" for b using assms(1,8,9,10) unfolding rinv_def by (metis)
  have "heap s1 b \<noteq> None \<and> count_of (heap s1) b = int (hh b) + (if linked L b then 1 else 0)" if "b \<in> lv" for b
    using assms(1,5,9,11) sub [OF that] that by (cases "b = a") (auto simp: rinv_def count_of_def)
  then show ?thesis using assms(1,7,8) ok h sub by (auto simp: rinv_def)
qed

lemma rinvD:
  assumes "rinv S t L"
  shows "table_ok (rs S) t L" and "a \<in> live S \<longleftrightarrow> linked L a \<or> held S a > 0"
    and "a \<in> live S \<Longrightarrow> heap (rs S) a \<noteq> None \<and> count_of (heap (rs S)) a = int (held S a) + (if linked L a then 1 else 0)"
    and "a \<in> live S \<Longrightarrow> b \<in> live S \<Longrightarrow> handle_of (heap (rs S)) a = handle_of (heap (rs S)) b \<Longrightarrow> a = b"
    and "valid_id (resourceID (rs S))"
proof -
  note i = assms [unfolded rinv_def]
  show "table_ok (rs S) t L" by (rule i [THEN conjunct1])
  show "a \<in> live S \<longleftrightarrow> linked L a \<or> held S a > 0" by (rule i [THEN conjunct2, THEN conjunct1, rule_format])
  show "a \<in> live S \<Longrightarrow> heap (rs S) a \<noteq> None \<and> count_of (heap (rs S)) a = int (held S a) + (if linked L a then 1 else 0)"
    by (rule i [THEN conjunct2, THEN conjunct2, THEN conjunct1, THEN bspec])
  show "a \<in> live S \<Longrightarrow> b \<in> live S \<Longrightarrow> handle_of (heap (rs S)) a = handle_of (heap (rs S)) b \<Longrightarrow> a = b"
    using i [THEN conjunct2, THEN conjunct2, THEN conjunct2, THEN conjunct1] by blast
  show "valid_id (resourceID (rs S))" using i by blast
qed

lemma rinv_live:
  assumes "rinv S t L" and "a \<in> live S"
  obtains r where "heap (rs S) a = Some r" and "he_refCount (hashEntry r) = int (held S a) + (if linked L a then 1 else 0)"
  using rinvD(3) [OF assms] that by (cases "heap (rs S) a") (auto simp: count_of_def)

lemma rinv_unused:
  assumes "rinv S t L" and "a \<notin> live S"
  shows "rinv (S\<lparr>rs := (rs S)\<lparr>heap := (heap (rs S))(a := v)\<rparr>\<rparr>) t L" and "\<not> linked L a" and "held S a = 0"
proof -
  show nl: "\<not> linked L a" "held S a = 0" using assms by (auto simp: rinv_def)
  have "table_ok ((rs S)\<lparr>heap := (heap (rs S))(a := v)\<rparr>) t L" using table_ok_unlinked assms(1) nl(1) by (simp add: rinv_def)
  moreover have "\<And>b. b \<noteq> a \<Longrightarrow> handle_of ((heap (rs S))(a := v)) b = handle_of (heap (rs S)) b" by (simp add: handle_of_def)
  moreover have "\<And>b. b \<in> live S \<Longrightarrow> b \<noteq> a" using assms(2) by blast
  ultimately show "rinv (S\<lparr>rs := (rs S)\<lparr>heap := (heap (rs S))(a := v)\<rparr>\<rparr>) t L"
    using assms(1) by (auto simp: rinv_def count_of_def)
qed

lemma rinv_linked: "rinv S t L \<Longrightarrow> linked L a \<Longrightarrow> a \<in> live S"
  by (simp add: rinv_def)

lemma take_ref_inv:
  assumes "rinv S t L" and "a \<in> live S"
  shows "\<exists>s1. upd_entry (\<lambda>e. e\<lparr>he_refCount := he_refCount e + 1\<rparr>) (rs S) a = Inr s1 \<and> rinv (take_ref a s1 S) t L"
proof -
  obtain r where r: "heap (rs S) a = Some r" "he_refCount (hashEntry r) = int (held S a) + (if linked L a then 1 else 0)"
    by (rule rinv_live [OF assms])
  let ?r = "r\<lparr>hashEntry := (hashEntry r)\<lparr>he_refCount := he_refCount (hashEntry r) + 1\<rparr>\<rparr>"
  let ?s1 = "(rs S)\<lparr>heap := (heap (rs S))(a \<mapsto> ?r)\<rparr>"
  have "rinv (S\<lparr>rs := ?s1, held := (held S)(a := held S a + 1), live := live S\<rparr>) t L"
    using assms r by (intro rinv_count [OF assms(1) r(1), where r' = ?r]) (auto simp: rinv_def)
  then show ?thesis using r(1) by (simp add: upd_entry_def load_def take_ref_def)
qed

lemma ReleaseEntry_inv:
  assumes "rinv S t L" and "held S a > 0"
  shows "\<exists>res s1. VMCIHashTable_ReleaseEntry (rs S) a = Inr (res, s1) \<and> rinv (drop_ref a s1 S) t L \<and> (\<exists>r. heap s1 a = Some r)"
proof -
  have a: "a \<in> live S" using assms by (simp add: rinv_def)
  obtain r where r: "heap (rs S) a = Some r" "he_refCount (hashEntry r) = int (held S a) + (if linked L a then 1 else 0)"
    by (rule rinv_live [OF assms(1) a])
  let ?r = "r\<lparr>hashEntry := (hashEntry r)\<lparr>he_refCount := he_refCount (hashEntry r) - 1\<rparr>\<rparr>"
  let ?s1 = "(rs S)\<lparr>heap := (heap (rs S))(a \<mapsto> ?r)\<rparr>"
  have up: "upd_entry (\<lambda>e. e\<lparr>he_refCount := he_refCount e - 1\<rparr>) (rs S) a = Inr ?s1" using r(1) by (simp add: upd_entry_def load_def)
  have cnt: "count_of (heap ?s1) a = he_refCount (hashEntry r) - 1" by (simp add: count_of_def)
  have inv: "rinv (drop_ref a ?s1 S) t L" unfolding drop_ref_def
    using assms r a cnt by (intro rinv_count [OF assms(1) r(1), where r' = ?r]) (auto simp: rinv_def)
  show ?thesis
  proof (cases "he_refCount (hashEntry r) - 1 = 0")
    case True
    then have nl: "\<not> linked L a" using r(2) assms(2) by (auto split: if_splits)
    have ok: "table_ok ?s1 t L" using inv by (simp add: rinv_def drop_ref_def)
    have "handle_of (heap ?s1) b \<noteq> he_handle (hashEntry r)" if "linked L b" for b
    proof -
      have "b \<in> live S" "b \<noteq> a" using that nl rinv_linked [OF assms(1)] by auto
      then have "handle_of (heap (rs S)) b \<noteq> handle_of (heap (rs S)) a" using assms(1) a unfolding rinv_def by blast
      then show ?thesis using r(1) \<open>b \<noteq> a\<close> by (simp add: handle_of_def)
    qed
    then have "HashTableUnlinkEntry ?s1 a = Inr (VMCI_ERROR_NOT_FOUND, ?s1)"
      using Unlink_none [OF ok, of a ?r] by (auto simp: linked_def)
    then show ?thesis using up inv True
      by (simp add: VMCIHashTable_ReleaseEntry_def VMCIHashTableReleaseEntryLocked_def load_def)
  next
    case False
    then show ?thesis using up inv
      by (simp add: VMCIHashTable_ReleaseEntry_def VMCIHashTableReleaseEntryLocked_def load_def)
  qed
qed

lemma rinv_freeCalls: "rinv (drop_ref a (s1\<lparr>freeCalls := x\<rparr>) S) t L = rinv (drop_ref a s1 S) t L"
  by (simp add: rinv_def drop_ref_def table_ok_def)

lemma Release_inv:
  assumes "rinv S t L" and "held S a > 0"
  shows "\<exists>res s1. VMCIResource_Release (rs S) a = Inr (res, s1) \<and> rinv (drop_ref a s1 S) t L"
proof -
  obtain res s1 r where "VMCIHashTable_ReleaseEntry (rs S) a = Inr (res, s1)" "rinv (drop_ref a s1 S) t L" "heap s1 a = Some r"
    using ReleaseEntry_inv [OF assms] by blast
  then show ?thesis
    by (cases "res = VMCI_SUCCESS_ENTRY_DEAD") (simp_all add: VMCIResource_Release_def VMCIResourceDoRemove_def load_def rinv_freeCalls)
qed

section \<open>Registration, lookup and removal\<close>

lemma linked_upd: "linked (L(i := xs)) b \<longleftrightarrow> b \<in> set xs \<or> (\<exists>j. j \<noteq> i \<and> b \<in> set (L j))"
  by (auto simp: linked_def)

lemma linked_split: "linked L b \<longleftrightarrow> b \<in> set (L i) \<or> (\<exists>j. j \<noteq> i \<and> b \<in> set (L j))"
  by (auto simp: linked_def)

lemma Add_inv:
  assumes inv: "rinv S t L" and en: "renabled S (Add a ty h cb obj canCreate)"
  shows "\<exists>S'. rexec (Add a ty h cb obj canCreate) S = Inr S' \<and> rinvariant S'"
proof (cases "h = VMCI_INVALID_HANDLE")
  case True
  then show ?thesis using inv by (auto simp: VMCIResource_Add_def VMCI_ERROR_INVALID_ARGS_def VMCI_SUCCESS_def rinvariant_def)
next
  case False
  obtain r where r: "heap (rs S) a = Some r" and na: "a \<notin> live S" and free: "\<forall>b \<in> live S. handle_of (heap (rs S)) b \<noteq> h"
    using en by auto
  define r2 where "r2 = r\<lparr>hashEntry := (hashEntry r)\<lparr>he_handle := h, he_refCount := 0\<rparr>, rtype := ty, containerFreeCB := cb, containerObject := obj\<rparr>"
  define S2 where "S2 = S\<lparr>rs := (rs S)\<lparr>heap := (heap (rs S))(a \<mapsto> r2)\<rparr>\<rparr>"
  have un: "rinv S2 t L" "\<not> linked L a" "held S a = 0" unfolding S2_def by (rule rinv_unused [OF inv na])+
  have add: "VMCIResource_Add canCreate (rs S) a ty h cb obj = VMCIHashTable_AddEntry canCreate (rs S2) a"
    using False r by (simp add: VMCIResource_Add_def VMCIHashTable_InitEntry_def upd_entry_def load_def S2_def r2_def)
  have r2: "heap (rs S2) a = Some r2" "he_handle (hashEntry r2) = h" "he_refCount (hashEntry r2) = 0" by (simp_all add: S2_def r2_def)
  have ops: "live S2 = live S" "held S2 = held S" by (simp_all add: S2_def)
  let ?idx = "VMCI_HASHTABLE_HASH h (ht_size t)"
  have idx: "?idx = VMCI_HASHTABLE_HASH (he_handle (hashEntry r2)) (ht_size t)" using r2(2) by simp
  from rinvD(1) [OF un(1)] un(2) r2(1) idx show ?thesis
  proof (cases rule: HashTable_AddEntry_spec [where canCreate = canCreate])
    case 1
    have "S\<lparr>rs := rs S2, live := live S\<rparr> = S2" by (simp add: S2_def)
    then show ?thesis using 1 add un(1) by (auto simp: VMCI_SUCCESS_def VMCI_ERROR_UNAVAILABLE_def rinvariant_def)
  next
    case 2
    have "S\<lparr>rs := rs S2, live := live S\<rparr> = S2" by (simp add: S2_def)
    then show ?thesis using 2 add un(1) by (auto simp: VMCI_SUCCESS_def VMCI_ERROR_DUPLICATE_ENTRY_def rinvariant_def)
  next
    case (3 r' t')
    let ?s = "(rs S2)\<lparr>heap := (heap (rs S2))(a \<mapsto> r'), resourceTable := Some t'\<rparr>" and ?L = "L(?idx := a # L ?idx)"
    have lk: "linked ?L b \<longleftrightarrow> b = a \<or> linked L b" for b by (auto simp: linked_upd linked_split [of L b ?idx])
    have hs: "b \<noteq> a \<Longrightarrow> handle_of (heap ?s) b = handle_of (heap (rs S)) b" "handle_of (heap ?s) a = h" for b
      using 3 r2 by (auto simp: handle_of_def S2_def)
    have lv: "b \<in> insert a (live S) \<longleftrightarrow> linked ?L b \<or> held S b > 0" for b using rinvD(2) [OF inv, of b] lk by auto
    have cnt: "heap ?s b \<noteq> None \<and> count_of (heap ?s) b = int (held S b) + (if linked ?L b then 1 else 0)" if "b \<in> insert a (live S)" for b
      using that 3 r2 un(2,3) lk rinvD(3) [OF inv, of b] by (cases "b = a") (auto simp: count_of_def S2_def)
    have "b = c" if "b \<in> insert a (live S)" "c \<in> insert a (live S)" "handle_of (heap ?s) b = handle_of (heap ?s) c" for b c
      using that hs free rinvD(4) [OF inv, of b c] by (cases "b = a"; cases "c = a") auto
    then have "rinv (S\<lparr>rs := ?s, live := insert a (live S)\<rparr>) t' ?L"
      using lv cnt 3 rinvD(5) [OF inv] r2(2) unfolding rinv_def by (simp add: S2_def)
    then show ?thesis using 3(1) add by (auto simp: rinvariant_def)
  qed
qed

lemma GetEntry_inv:
  assumes "rinv S t L"
  shows "\<exists>S'. rexec (GetEntry h) S = Inr S' \<and> rinv S' t L"
proof (cases "h = VMCI_INVALID_HANDLE")
  case True
  then show ?thesis using assms by (simp add: VMCIHashTable_GetEntry_def)
next
  case False
  note tf = table_find_spec [OF rinvD(1) [OF assms], of "get_match h" h]
  show ?thesis
  proof (cases "find (\<lambda>a. get_match h (handle_of (heap (rs S)) a)) (L (VMCI_HASHTABLE_HASH h (ht_size t)))")
    case None
    then show ?thesis using False assms tf by (simp add: VMCIHashTable_GetEntry_def VMCIHashTableGetEntryLocked_def)
  next
    case (Some a)
    then have "linked L a" unfolding linked_def by (metis find_Some_iff nth_mem)
    then have "a \<in> live S" by (rule rinv_linked [OF assms])
    then show ?thesis using take_ref_inv [OF assms, of a] False Some tf
      by (auto simp: VMCIHashTable_GetEntry_def VMCIHashTableGetEntryLocked_def)
  qed
qed

lemma RemoveEntry_inv:
  assumes inv: "rinv S t L" and held: "held S a > 0"
  shows "\<exists>S'. rexec (RemoveEntry a) S = Inr S' \<and> rinvariant S'"
proof -
  have a: "a \<in> live S" using rinvD(2) [OF inv] held by blast
  obtain r where r: "heap (rs S) a = Some r" "he_refCount (hashEntry r) = int (held S a) + (if linked L a then 1 else 0)"
    by (rule rinv_live [OF inv a])
  have ha: "handle_of (heap (rs S)) a = he_handle (hashEntry r)" using r(1) by (simp add: handle_of_def)
  show ?thesis
  proof (cases "linked L a")
    case False
    have "handle_of (heap (rs S)) b \<noteq> he_handle (hashEntry r)" if "linked L b" for b
      using rinvD(4) [OF inv rinv_linked [OF inv that] a] that False ha by auto
    then have "HashTableUnlinkEntry (rs S) a = Inr (VMCI_ERROR_NOT_FOUND, rs S)"
      using Unlink_none [OF rinvD(1) [OF inv] r(1)] by (auto simp: linked_def)
    then show ?thesis using inv
      by (auto simp: VMCIHashTable_RemoveEntry_def VMCI_ERROR_NOT_FOUND_def VMCI_SUCCESS_def rinvariant_def)
  next
    case True
    define idx where "idx = VMCI_HASHTABLE_HASH (he_handle (hashEntry r)) (ht_size t)"
    let ?L = "L(idx := remove1 a (L idx))"
    from Unlink_some [OF rinvD(1) [OF inv] r(1) idx_def True] obtain hp' t' where u:
      "HashTableUnlinkEntry (rs S) a = Inr (VMCI_SUCCESS, (rs S)\<lparr>heap := hp', resourceTable := Some t'\<rparr>)"
      "same_but_links (heap (rs S)) hp'" "table_ok ((rs S)\<lparr>heap := hp', resourceTable := Some t'\<rparr>) t' ?L" by blast
    obtain r1 where r1: "hp' a = Some r1" "strip r1 = strip r" by (rule same_but_links_load [OF u(2) r(1)])
    let ?r = "r1\<lparr>hashEntry := (hashEntry r1)\<lparr>he_refCount := he_refCount (hashEntry r1) - 1\<rparr>\<rparr>"
    let ?s = "(rs S)\<lparr>resourceTable := Some t', heap := hp'(a \<mapsto> ?r)\<rparr>"
    have lt: "idx < ht_size t" using table_ok_bucket(3) [OF rinvD(1) [OF inv]] idx_def by simp
    have d: "distinct (L idx)" using rinvD(1) [OF inv] lt by (simp add: table_ok_def)
    have "a \<in> set (L j) \<Longrightarrow> j = idx" for j
      using linked_bucket [OF rinvD(1) [OF inv] True] bucket_unique [OF rinvD(1) [OF inv]] ha idx_def by metis
    then have lk: "linked ?L b \<longleftrightarrow> linked L b \<and> b \<noteq> a" for b
      unfolding linked_upd linked_split [of L b idx] set_remove1_eq [OF d] by blast
    have hs: "handle_of (hp'(a \<mapsto> ?r)) = handle_of (heap (rs S))"
      using same_but_links_handle [OF u(2)] r1 r(1) strip_fields [OF r1(2)] by (auto simp: handle_of_def fun_eq_iff)
    have "table_ok ?s t' ?L" using table_ok_update [OF u(3), of a r1 ?r] r1(1) by (simp add: table_ok_def)
    moreover have "b \<in> live S \<longleftrightarrow> linked ?L b \<or> held S b > 0" for b
      using rinvD(2) [OF inv, of b] held unfolding lk by (cases "b = a") simp_all
    moreover have "heap ?s b \<noteq> None \<and> count_of (heap ?s) b = int (held S b) + (if linked ?L b then 1 else 0)" if b: "b \<in> live S" for b
    proof (cases "b = a")
      case True
      then show ?thesis using r(2) strip_fields [OF r1(2)] \<open>linked L a\<close> unfolding lk by (simp add: count_of_def)
    next
      case False
      obtain rb where rb: "heap (rs S) b = Some rb" "he_refCount (hashEntry rb) = int (held S b) + (if linked L b then 1 else 0)"
        by (rule rinv_live [OF inv b])
      obtain rb' where "hp' b = Some rb'" "strip rb' = strip rb" by (rule same_but_links_load [OF u(2) rb(1)])
      then show ?thesis using False rb(2) strip_fields [of rb' rb] unfolding lk by (simp add: count_of_def)
    qed
    ultimately have "rinv (S\<lparr>rs := ?s\<rparr>) t' ?L" using rinvD(4,5) [OF inv] hs unfolding rinv_def by simp
    moreover have "rexec (RemoveEntry a) S = Inr (S\<lparr>rs := ?s\<rparr>)"
      using u(1) r1(1) by (simp add: VMCIHashTable_RemoveEntry_def upd_entry_def load_def)
    ultimately show ?thesis by (auto simp: rinvariant_def)
  qed
qed

section \<open>Identifiers\<close>

definition id_count :: nat where "id_count = 2 ^ 32 - 1025"

definition ident :: "nat \<Rightarrow> u32" where "ident k = of_nat (1024 + k)"

lemma id_count_pos: "0 < id_count"
  by (simp add: id_count_def)

lemma unat_ident: "k < id_count \<Longrightarrow> unat (ident k) = 1024 + k"
  unfolding ident_def by (intro unat_of_nat_bound) (simp add: id_count_def)

lemma valid_ident: "k < id_count \<Longrightarrow> valid_id (ident k)"
  by (simp add: valid_id_def word_less_nat_alt unat_ident VMCI_RESERVED_RESOURCE_ID_MAX_def VMCI_INVALID_ID_def id_count_def)

lemma valid_id_ident:
  assumes "valid_id i"
  obtains k where "k < id_count" and "i = ident k"
proof
  have i: "1023 < unat i" "unat i < 4294967295"
    using assms by (auto simp: valid_id_def word_less_nat_alt VMCI_RESERVED_RESOURCE_ID_MAX_def VMCI_INVALID_ID_def)
  then show "unat i - 1024 < id_count" by (simp add: id_count_def)
  have "1024 + (unat i - 1024) = unat i" using i(1) by simp
  then show "i = ident (unat i - 1024)" unfolding ident_def by (simp del: of_nat_add)
qed

lemma next_ident:
  assumes "k < id_count"
  shows "next_id (ident k) = ident (Suc k mod id_count)"
proof (cases "Suc k = id_count")
  case True
  then have "k = 4294966270" by (simp add: id_count_def)
  then show ?thesis using True by (simp add: next_id_def ident_def VMCI_INVALID_ID_def VMCI_RESERVED_RESOURCE_ID_MAX_def)
next
  case False
  then have k: "Suc k < id_count" using assms by simp
  have "ident k + 1 = ident (Suc k)" by (simp add: ident_def add.commute)
  moreover have "ident (Suc k) \<noteq> VMCI_INVALID_ID" using valid_ident [OF k] by (auto simp: valid_id_def)
  ultimately show ?thesis using k by (simp add: next_id_def)
qed

lemma ident_eq: "k < id_count \<Longrightarrow> m < id_count \<Longrightarrow> ident k = ident m \<longleftrightarrow> k = m"
  using unat_ident by (metis add_left_cancel)

lemma EntryExists_any_id: "VMCIHashTable_EntryExists (s\<lparr>resourceID := x\<rparr>) h = VMCIHashTable_EntryExists s h"
  by (simp add: VMCIHashTable_EntryExists_def VMCIHashTableEntryExistsLocked_def table_find_def the_table_def)

lemma EntryExists_total: "table_ok s t L \<Longrightarrow> \<exists>b. VMCIHashTable_EntryExists s h = Inr b"
  using EntryExists_spec [of s t L h] by (simp add: VMCIHashTable_EntryExists_def)

lemma GetID_loop_spec:
  assumes ex: "\<And>h. \<exists>b. VMCIHashTable_EntryExists s h = Inr b" and k: "k < id_count"
  shows "j < id_count \<Longrightarrow>
    \<exists>cur found x. GetID_loop (s\<lparr>resourceID := ident ((k + j) mod id_count)\<rparr>) c (ident k) = Some (Inr (cur, found, s\<lparr>resourceID := x\<rparr>)) \<and> valid_id x \<and>
      (if found then valid_id cur \<and> VMCIHashTable_EntryExists s (c, cur) = Inr False
       else (\<forall>m. j \<le> m \<and> m < id_count \<longrightarrow> VMCIHashTable_EntryExists s (c, ident ((k + m) mod id_count)) = Inr True))"
proof (induction "id_count - j" arbitrary: j)
  case (Suc d)
  let ?i = "\<lambda>m. ident ((k + m) mod id_count)" and ?s = "s\<lparr>resourceID := ident ((k + j) mod id_count)\<rparr>"
  have lt: "(k + j) mod id_count < id_count" using id_count_pos by simp
  have nx: "next_id (?i j) = ?i (Suc j)" using next_ident [OF lt] by (simp add: mod_Suc_eq)
  have vx: "valid_id (?i m)" for m using valid_ident id_count_pos by simp
  have wrap: "?i (Suc j) = ident k \<longleftrightarrow> Suc j = id_count"
  proof -
    have "(k + Suc j) mod id_count = k \<longleftrightarrow> Suc j = id_count"
      using k Suc.prems by (cases "k + Suc j < id_count") (auto simp: mod_if)
    then show ?thesis using ident_eq [of "(k + Suc j) mod id_count" k] k id_count_pos by simp
  qed
  note unfold = GetID_loop.simps [of ?s c "ident k"]
  obtain b where b: "VMCIHashTable_EntryExists s (c, ?i j) = Inr b" using ex by blast
  show ?case
  proof (cases "b \<and> Suc j \<noteq> id_count")
    case False
    then have "GetID_loop ?s c (ident k) = Some (Inr (?i j, \<not> b, s\<lparr>resourceID := ?i (Suc j)\<rparr>))"
      using b nx wrap by (subst unfold) (auto simp: Let_def EntryExists_any_id)
    moreover have "\<forall>m. j \<le> m \<and> m < id_count \<longrightarrow> VMCIHashTable_EntryExists s (c, ?i m) = Inr True" if b
    proof (intro allI impI)
      fix m
      assume "j \<le> m \<and> m < id_count"
      then have "m = j" using False that by auto
      then show "VMCIHashTable_EntryExists s (c, ?i m) = Inr True" using b that by simp
    qed
    ultimately show ?thesis using b vx [of j] vx [of "Suc j"]
      by (intro exI [of _ "?i j"] exI [of _ "\<not> b"] exI [of _ "?i (Suc j)"]) auto
  next
    case True
    then have sj: "Suc j < id_count" "d = id_count - Suc j" using Suc.prems Suc.hyps(2) by auto
    have "GetID_loop ?s c (ident k) = GetID_loop (s\<lparr>resourceID := ?i (Suc j)\<rparr>) c (ident k)"
      using b nx wrap True by (subst unfold) (auto simp: Let_def EntryExists_any_id)
    moreover obtain cur found x where ih: "GetID_loop (s\<lparr>resourceID := ?i (Suc j)\<rparr>) c (ident k) = Some (Inr (cur, found, s\<lparr>resourceID := x\<rparr>))" "valid_id x"
      "if found then valid_id cur \<and> VMCIHashTable_EntryExists s (c, cur) = Inr False
       else (\<forall>m. Suc j \<le> m \<and> m < id_count \<longrightarrow> VMCIHashTable_EntryExists s (c, ?i m) = Inr True)"
      using Suc.hyps(1) [OF sj(2,1)] by blast
    moreover have "\<forall>m. j \<le> m \<and> m < id_count \<longrightarrow> VMCIHashTable_EntryExists s (c, ?i m) = Inr True" if "\<not> found"
    proof (intro allI impI)
      fix m
      assume m: "j \<le> m \<and> m < id_count"
      then show "VMCIHashTable_EntryExists s (c, ?i m) = Inr True" using ih(3) that b True by (cases "m = j") auto
    qed
    ultimately show ?thesis by (intro exI [of _ cur] exI [of _ found] exI [of _ x]) auto
  qed
qed simp

lemma GetID_spec:
  assumes "table_ok s t L" and "valid_id (resourceID s)"
  shows "\<exists>i x. VMCIResource_GetID s c = Inr (i, s\<lparr>resourceID := x\<rparr>) \<and> valid_id x \<and>
    (if \<exists>j. valid_id j \<and> VMCIHashTable_EntryExists s (c, j) = Inr False
     then valid_id i \<and> VMCIHashTable_EntryExists s (c, i) = Inr False else i = VMCI_INVALID_ID)"
proof -
  obtain k where k: "k < id_count" "resourceID s = ident k" by (rule valid_id_ident [OF assms(2)])
  have "s\<lparr>resourceID := ident ((k + 0) mod id_count)\<rparr> = s" using k by simp
  moreover obtain cur found x where g:
    "GetID_loop (s\<lparr>resourceID := ident ((k + 0) mod id_count)\<rparr>) c (ident k) = Some (Inr (cur, found, s\<lparr>resourceID := x\<rparr>))" "valid_id x"
    "if found then valid_id cur \<and> VMCIHashTable_EntryExists s (c, cur) = Inr False
     else (\<forall>m. 0 \<le> m \<and> m < id_count \<longrightarrow> VMCIHashTable_EntryExists s (c, ident ((k + m) mod id_count)) = Inr True)"
    using GetID_loop_spec [OF EntryExists_total [OF assms(1)] k(1) id_count_pos, of c] by blast
  moreover have "VMCIHashTable_EntryExists s (c, j) = Inr True" if "valid_id j" "\<not> found" for j
  proof -
    obtain m where m: "m < id_count" "j = ident m" by (rule valid_id_ident [OF \<open>valid_id j\<close>])
    define n where "n = (m + (id_count - k)) mod id_count"
    have "(k + n) mod id_count = (k + (m + (id_count - k))) mod id_count" by (simp add: n_def mod_add_right_eq)
    also have "\<dots> = m" using m(1) k(1) by simp
    finally show ?thesis using g(3) that(2) m(2) id_count_pos by (auto simp: n_def dest: spec [of _ n])
  qed
  ultimately show ?thesis using k(2) by (auto simp: VMCIResource_GetID_def loop_def split: if_splits)
qed

section \<open>All steps\<close>

lemma rinvariantI: "rinv S t L \<Longrightarrow> rinvariant S"
  by (auto simp: rinvariant_def)

lemma rexec_inv:
  assumes "rinvariant S" and "renabled S act"
  shows "\<exists>S'. rexec act S = Inr S' \<and> rinvariant S'"
proof -
  obtain t L where inv: "rinv S t L" using assms(1) by (auto simp: rinvariant_def)
  show ?thesis
  proof (cases act)
    case (Alloc a r)
    then have "a \<notin> live S" using assms(2) rinvD(3) [OF inv, of a] by auto
    then show ?thesis using rinv_unused(1) [OF inv, of a] Alloc by (auto intro: rinvariantI)
  next
    case (Free a)
    then show ?thesis using assms(2) rinv_unused(1) [OF inv, of a] by (auto intro: rinvariantI)
  next
    case (Add a ty h cb obj canCreate)
    then show ?thesis using Add_inv [OF inv] assms(2) by blast
  next
    case (GetEntry h)
    then show ?thesis using GetEntry_inv [OF inv, of h] by (auto intro: rinvariantI simp del: rexec.simps)
  next
    case (GetCheck a ty)
    then have held: "held S a > 0" using assms(2) by simp
    then have "a \<in> live S" using rinvD(2) [OF inv] by blast
    then obtain r where r: "heap (rs S) a = Some r" using rinv_live [OF inv] by blast
    show ?thesis
    proof (cases "ty = VMCI_RESOURCE_TYPE_ANY \<or> rtype r = ty")
      case True
      then show ?thesis using GetCheck r inv by (auto simp: VMCIResource_Get_check_def load_def intro: rinvariantI)
    next
      case False
      then show ?thesis using GetCheck r ReleaseEntry_inv [OF inv held] by (auto simp: VMCIResource_Get_check_def load_def intro: rinvariantI)
    qed
  next
    case (Hold a)
    then have "a \<in> live S" using assms(2) rinvD(2) [OF inv] by simp
    then show ?thesis
      using take_ref_inv [OF inv, of a] Hold by (auto simp: VMCIResource_Hold_def VMCIHashTable_HoldEntry_def intro: rinvariantI)
  next
    case (RemoveEntry a)
    then show ?thesis using RemoveEntry_inv [OF inv] assms(2) by simp
  next
    case (Release a)
    then show ?thesis using Release_inv [OF inv, of a] assms(2) by (auto intro: rinvariantI)
  next
    case (GetID c)
    obtain i x where "VMCIResource_GetID (rs S) c = Inr (i, (rs S)\<lparr>resourceID := x\<rparr>)" "valid_id x"
      using GetID_spec [OF rinvD(1,5) [OF inv], of c] by blast
    moreover have "rinv (S\<lparr>rs := (rs S)\<lparr>resourceID := x\<rparr>\<rparr>) t L" if "valid_id x" using inv that by (simp add: rinv_def table_ok_def)
    ultimately show ?thesis using GetID by (auto intro: rinvariantI)
  qed
qed

lemma rinit_inv:
  assumes "rinit S"
  shows "rinvariant S"
proof -
  let ?t = "\<lparr>ht_entries = replicate 128 None, ht_size = 128\<rparr>"
  have S: "rs S = \<lparr>heap = (\<lambda>_. None), resourceTable = Some ?t, resourceID = 1024, freeCalls = []\<rparr>" "held S = (\<lambda>_. 0)" "live S = {}"
    using assms by (simp_all add: rinit_def rsys0_def VMCIResource_Init_def VMCIHashTable_Create_def VMCI_RESERVED_RESOURCE_ID_MAX_def)
  have "table_ok (rs S) ?t (\<lambda>_. [])" by (simp add: S(1) table_ok_def)
  then have "rinv S ?t (\<lambda>_. [])"
    by (simp add: S rinv_def linked_def valid_id_def VMCI_RESERVED_RESOURCE_ID_MAX_def VMCI_INVALID_ID_def)
  then show ?thesis by (auto simp: rinvariant_def)
qed

interpretation vmci_resources: invariant_system rinit rstep rinvariant
  by unfold_locales (auto simp: rstep_def dest: rinit_inv rexec_inv)

section \<open>Properties\<close>

text \<open>
  C7. The resource table stays well formed under every interleaving of its clients. In every reachable state the buckets are acyclic chains of
  allocated resources, each in the bucket of its hash and with handles that do not match each other; the reference count of a
  resource in use is the number of references that clients hold plus one while it is in the table; and every function that a
  client may call then runs without a fault and without diverging.
\<close>

theorem vmci_resource_table_wellformed:
  assumes "reach rinit rstep S"
  shows "(\<exists>t L. table_ok (rs S) t L \<and>
      (\<forall>a \<in> live S. heap (rs S) a \<noteq> None \<and> count_of (heap (rs S)) a = int (held S a) + (if linked L a then 1 else 0)) \<and>
      (\<forall>a. linked L a \<or> held S a > 0 \<longrightarrow> a \<in> live S)) \<and>
    (\<forall>act. renabled S act \<longrightarrow> (\<exists>S'. rexec act S = Inr S'))"
proof -
  have inv: "rinvariant S" by (rule vmci_resources.reach_inv [OF assms])
  then obtain t L where L: "rinv S t L" by (auto simp: rinvariant_def)
  then show ?thesis using rexec_inv [OF inv] rinvD [OF L] by blast
qed

theorem vmci_resource_table_wellformed_witness:
  "reach rinit rstep rsys0 \<and> (\<exists>S. rexec (GetEntry (1, 2000)) rsys0 = Inr S)"
proof -
  have "reach rinit rstep rsys0" by (rule reach_init) (simp add: rinit_def)
  moreover from vmci_resource_table_wellformed [OF this] have "\<exists>S. rexec (GetEntry (1, 2000)) rsys0 = Inr S" by (metis renabled.simps(4))
  ultimately show ?thesis by blast
qed

text \<open>
  C21. Choosing an identifier ends. In every reachable state \<^verbatim>\<open>VMCIResource_GetID\<close> returns: an unreserved identifier that the table does not hold for
  the context, if there is one, and otherwise \<^verbatim>\<open>VMCI_INVALID_ID\<close>, after one turn through all identifiers.
\<close>

theorem vmci_resource_get_id:
  assumes "reach rinit rstep S"
  shows "\<exists>i s1. VMCIResource_GetID (rs S) c = Inr (i, s1) \<and>
    (if \<exists>j. valid_id j \<and> VMCIHashTable_EntryExists (rs S) (c, j) = Inr False
     then valid_id i \<and> VMCIHashTable_EntryExists (rs S) (c, i) = Inr False else i = VMCI_INVALID_ID)"
proof -
  have "rinvariant S" by (rule vmci_resources.reach_inv [OF assms])
  then obtain t L where "rinv S t L" by (auto simp: rinvariant_def)
  then show ?thesis using GetID_spec [OF rinvD(1,5), of S t L t L c] by blast
qed

theorem vmci_resource_get_id_witness:
  "\<exists>i s1. VMCIResource_GetID (rs rsys0) 3 = Inr (i, s1) \<and>
    (if \<exists>j. valid_id j \<and> VMCIHashTable_EntryExists (rs rsys0) (3, j) = Inr False
     then valid_id i \<and> VMCIHashTable_EntryExists (rs rsys0) (3, i) = Inr False else i = VMCI_INVALID_ID)"
proof -
  have "reach rinit rstep rsys0" by (rule reach_init) (simp add: rinit_def)
  then show ?thesis by (rule vmci_resource_get_id)
qed

text \<open>
  A resource can be unlinked by the release of another one. While a thread still refers to a resource that has been removed,
  its handle can be registered again. When the thread then drops the last reference, \<^verbatim>\<open>HashTableUnlinkEntry\<close> looks for the handle, not for the
  entry, and takes the new resource out of the table: it is still in use, but no lookup finds it any more.
\<close>

theorem vmci_handle_reuse_unlinks:
  "let r = \<lparr>hashEntry = \<lparr>he_handle = (0, 0), he_refCount = 0, he_next = None\<rparr>, rtype = VMCI_RESOURCE_TYPE_API,
            containerFreeCB = False, containerObject = 0\<rparr>;
       h = (1, 2000)
   in case foldR rexec
        [Alloc 0 r, Add 0 VMCI_RESOURCE_TYPE_DATAGRAM h True 7 True, GetEntry h,
         GetEntry h, GetCheck 0 VMCI_RESOURCE_TYPE_DATAGRAM, RemoveEntry 0, Release 0,
         Alloc 1 r, Add 1 VMCI_RESOURCE_TYPE_DATAGRAM h True 8 True, Release 0] rsys0 of
      Inl _ \<Rightarrow> False
    | Inr S \<Rightarrow> VMCIHashTable_EntryExists (rs S) h = Inr False \<and> 1 \<in> live S \<and> count_of (heap (rs S)) 1 = 1 \<and> freeCalls (rs S) = [7]"
  by code_simp


end
