(* ===== verification/DynBuf.thy ===== *)
theory DynBuf
  imports Prelude
begin

text \<open>
  Model of \<^verbatim>\<open>lib/misc/dynbuf.c\<close> and of the accessors in \<^verbatim>\<open>lib/include/dynbuf.h\<close>: the growing byte
  buffer that the string helpers of the tools are written with. A buffer owns at most one block;
  \<open>size\<close> bytes of it are in use and \<open>allocated\<close> bytes are there. The C allocator is asked through
  \<open>grants\<close>: whether the next, the one after next, ... request is granted, so that any pattern of
  failures is an argument of the operations. The operations return what is left of it.

  Fresh memory reads as zero bytes; no byte behind \<open>size\<close> reaches a result of the operations that
  keep the invariant \<open>holds\<close> of the laws theory. \<^verbatim>\<open>DYNBUF_DEBUG\<close> is not defined by any build file.
\<close>

section \<open>The C allocator\<close>

type_synonym grants = "nat \<Rightarrow> bool"

definition later :: "grants \<Rightarrow> grants" where
  "later f = (\<lambda>n. f (Suc n))"

text \<open>
  \<^verbatim>\<open>realloc\<close>: zero bytes free a block and give the null pointer, \<^verbatim>\<open>realloc(NULL, 0)\<close> is \<^verbatim>\<open>malloc(0)\<close>,
  which gives a block of no bytes. A refused request leaves the old block alone.
\<close>

definition c_realloc :: "grants \<Rightarrow> u8 list option \<Rightarrow> nat \<Rightarrow> u8 list option \<times> grants" where
  "c_realloc f p n =
     (if n = 0 then (if p = None then (Some [], f) else (None, f))
      else if f 0
      then (let old = (case p of None \<Rightarrow> [] | Some blk \<Rightarrow> blk)
            in (Some (take n old @ replicate (n - length old) 0), later f))
      else (None, later f))"

definition c_malloc :: "grants \<Rightarrow> nat \<Rightarrow> u8 list option \<times> grants" where
  "c_malloc f n = c_realloc f None n"

text \<open>
  \<^verbatim>\<open>memcpy\<close> of \<open>n\<close> bytes from \<open>src\<close>, the bytes from the source pointer to the end of its object, to
  offset \<open>off\<close> of a block.
\<close>

definition c_memcpy :: "u8 list option \<Rightarrow> nat \<Rightarrow> u8 list option \<Rightarrow> nat \<Rightarrow> u8 list option res" where
  "c_memcpy dst off src n =
     (if n = 0 then Inr dst
      else case (dst, src) of
        (Some blk, Some s) \<Rightarrow> bindR (read_at s 0 n) (\<lambda>bs. bindR (write_at blk off bs) (\<lambda>blk. Inr (Some blk)))
      | _ \<Rightarrow> Inl NullDeref)"

section \<open>Buffers\<close>

record DynBuf =
  db_data :: "u8 list option"
  db_size :: u64
  db_allocated :: u64

definition DynBuf_Init :: DynBuf where
  "DynBuf_Init = \<lparr>db_data = None, db_size = 0, db_allocated = 0\<rparr>"

definition DynBuf_Destroy :: "DynBuf \<Rightarrow> DynBuf" where
  "DynBuf_Destroy b = DynBuf_Init"

definition DynBuf_AllocGet :: "grants \<Rightarrow> DynBuf \<Rightarrow> (u8 list option \<times> grants) res" where
  "DynBuf_AllocGet f b =
     (let (new_data, f) = c_malloc f (unat (db_size b))
      in if new_data = None then Inr (None, f)
         else bindR (c_memcpy new_data 0 (db_data b) (unat (db_size b))) (\<lambda>new_data. Inr (new_data, f)))"

definition DynBuf_Attach :: "DynBuf \<Rightarrow> u64 \<Rightarrow> u8 list option \<Rightarrow> DynBuf" where
  "DynBuf_Attach b sz data = b\<lparr>db_data := data, db_size := sz, db_allocated := sz\<rparr>"

definition DynBuf_Detach :: "DynBuf \<Rightarrow> u8 list option \<times> DynBuf" where
  "DynBuf_Detach b = (db_data b, b\<lparr>db_data := None, db_allocated := 0\<rparr>)"

definition DynBufRealloc :: "grants \<Rightarrow> DynBuf \<Rightarrow> u64 \<Rightarrow> bool \<times> grants \<times> DynBuf" where
  "DynBufRealloc f b newAllocated =
     (let (new_data, f) = c_realloc f (db_data b) (unat newAllocated)
      in if new_data = None \<and> newAllocated \<noteq> 0 then (False, f, b)
         else (True, f, b\<lparr>db_data := new_data, db_allocated := newAllocated\<rparr>))"

definition DynBuf_Enlarge :: "grants \<Rightarrow> DynBuf \<Rightarrow> u64 \<Rightarrow> bool \<times> grants \<times> DynBuf" where
  "DynBuf_Enlarge f b minSize =
     (let newAllocated =
            (if db_allocated b \<noteq> 0
             then (if db_allocated b < 256 * 1024 then db_allocated b * 2 else db_allocated b + 256 * 1024)
             else push_bit 10 1);
          newAllocated = (if minSize > newAllocated then minSize else newAllocated)
      in if newAllocated < db_allocated b then (False, f, b)
         else DynBufRealloc f b newAllocated)"

definition DynBuf_Append :: "grants \<Rightarrow> DynBuf \<Rightarrow> u8 list \<Rightarrow> u64 \<Rightarrow> (bool \<times> grants \<times> DynBuf) res" where
  "DynBuf_Append f b data sz =
     (if sz \<le> 0 then Inr (True, f, b)
      else let new_size = db_size b + sz in
        if new_size < db_size b then Inr (False, f, b)
        else let (ok, f, b) = (if new_size > db_allocated b then DynBuf_Enlarge f b new_size else (True, f, b)) in
          if \<not> ok then Inr (False, f, b)
          else bindR (c_memcpy (db_data b) (unat (db_size b)) (Some data) (unat sz))
                 (\<lambda>d. Inr (True, f, b\<lparr>db_data := d, db_size := new_size\<rparr>)))"

definition DynBuf_SafeInternalAppend :: "grants \<Rightarrow> DynBuf \<Rightarrow> u8 list \<Rightarrow> u64 \<Rightarrow> (grants \<times> DynBuf) res" where
  "DynBuf_SafeInternalAppend f b data sz =
     bindR (DynBuf_Append f b data sz) (\<lambda>(ok, f, b). if ok then Inr (f, b) else Inl Panicked)"

definition DynBuf_Trim :: "grants \<Rightarrow> DynBuf \<Rightarrow> bool \<times> grants \<times> DynBuf" where
  "DynBuf_Trim f b = DynBufRealloc f b (db_size b)"

definition DynBuf_Copy :: "grants \<Rightarrow> DynBuf \<Rightarrow> DynBuf \<Rightarrow> (bool \<times> grants \<times> DynBuf) res" where
  "DynBuf_Copy f src dest =
     (let (new_data, f) = c_malloc f (unat (db_allocated src));
          dest = dest\<lparr>db_data := new_data\<rparr>
      in if db_data dest = None then Inr (False, f, dest)
         else let dest = dest\<lparr>db_size := db_size src, db_allocated := db_allocated src\<rparr> in
           bindR (c_memcpy (db_data dest) 0 (db_data src) (unat (db_size src)))
             (\<lambda>d. Inr (True, f, dest\<lparr>db_data := d\<rparr>)))"

text \<open>The accessors of the header.\<close>

definition DynBuf_Get :: "DynBuf \<Rightarrow> u8 list option" where
  "DynBuf_Get b = db_data b"

definition DynBuf_GetSize :: "DynBuf \<Rightarrow> u64" where
  "DynBuf_GetSize b = db_size b"

definition DynBuf_SetSize :: "DynBuf \<Rightarrow> u64 \<Rightarrow> DynBuf" where
  "DynBuf_SetSize b sz = b\<lparr>db_size := sz\<rparr>"

definition DynBuf_GetAllocatedSize :: "DynBuf \<Rightarrow> u64" where
  "DynBuf_GetAllocatedSize b = db_allocated b"

section \<open>Chains of appends\<close>

text \<open>
  The clients append several chunks with \<^verbatim>\<open>DynBuf_Append(..) == FALSE || DynBuf_Append(..) == FALSE || ..\<close>:
  the evaluation stops at the first refusal. A chunk is the bytes from its pointer on, and a size.
\<close>

fun append_chain :: "(grants \<Rightarrow> 'b \<Rightarrow> u8 list \<Rightarrow> u64 \<Rightarrow> (bool \<times> grants \<times> 'b) res) \<Rightarrow>
    grants \<Rightarrow> 'b \<Rightarrow> (u8 list \<times> u64) list \<Rightarrow> (bool \<times> grants \<times> 'b) res" where
  "append_chain app f b [] = Inr (True, f, b)"
| "append_chain app f b ((data, n) # cs) =
     bindR (app f b data n) (\<lambda>(ok, f, b). if ok then append_chain app f b cs else Inr (False, f, b))"

section \<open>Calls on one buffer\<close>

text \<open>
  The calls that a client makes on one buffer, with what they return: the success value, and the
  bytes of \<^verbatim>\<open>DynBuf_AllocGet\<close>. \<open>OpCopy\<close> goes on with the copy when there is one.
\<close>

datatype DynOp = OpAppend "u8 list" | OpSafeAppend "u8 list" | OpEnlarge u64 | OpTrim | OpAllocGet | OpCopy | OpTruncate nat

fun DynBuf_step :: "grants \<times> DynBuf \<Rightarrow> DynOp \<Rightarrow> ((grants \<times> DynBuf) \<times> (bool \<times> u8 list option)) res" where
  "DynBuf_step (f, b) (OpAppend bs) =
     bindR (DynBuf_Append f b bs (of_nat (length bs))) (\<lambda>(ok, f, b). Inr ((f, b), (ok, None)))"
| "DynBuf_step (f, b) (OpSafeAppend bs) =
     bindR (DynBuf_SafeInternalAppend f b bs (of_nat (length bs))) (\<lambda>(f, b). Inr ((f, b), (True, None)))"
| "DynBuf_step (f, b) (OpEnlarge n) =
     (let (ok, f, b) = DynBuf_Enlarge f b n in Inr ((f, b), (ok, None)))"
| "DynBuf_step (f, b) OpTrim = (let (ok, f, b) = DynBuf_Trim f b in Inr ((f, b), (ok, None)))"
| "DynBuf_step (f, b) OpAllocGet =
     bindR (DynBuf_AllocGet f b) (\<lambda>(d, f). Inr ((f, b), (d \<noteq> None, d)))"
| "DynBuf_step (f, b) OpCopy =
     bindR (DynBuf_Copy f b DynBuf_Init) (\<lambda>(ok, f, d). Inr ((f, if ok then d else b), (ok, None)))"
| "DynBuf_step (f, b) (OpTruncate n) =
     Inr ((f, if n < unat (DynBuf_GetSize b) then DynBuf_SetSize b (of_nat n) else b), (True, None))"

end
