(* ===== verification/Escape.thy ===== *)
theory Escape
  imports DynBuf
begin

text \<open>
  Model of \<^verbatim>\<open>lib/misc/escape.c\<close>: the functions that escape and unescape byte buffers into a dynamic
  buffer. Each loop is written over the index of the byte it looks at, and the sizes of the chunks
  are computed as 64-bit words, so a chunk that ended in front of its start would wrap around and
  be read out of bounds. The result is the block that is returned with \<^verbatim>\<open>*sizeOut\<close>, or \<^const>\<open>None\<close> for the null
  pointer. \<^verbatim>\<open>char\<close> is signed, as on the x86 targets of the tools.
\<close>

section \<open>Loops that can give up\<close>

text \<open>A \<^verbatim>\<open>for\<close> loop whose body can leave it with \<^verbatim>\<open>goto nem\<close>, here \<^const>\<open>None\<close>, or with a fault.\<close>

fun for_nem :: "('x \<Rightarrow> 's \<Rightarrow> 's option res) \<Rightarrow> 'x list \<Rightarrow> 's \<Rightarrow> 's option res" where
  "for_nem body [] s = Inr (Some s)"
| "for_nem body (x # xs) s =
     bindR (body x s) (\<lambda>r. case r of None \<Rightarrow> Inr None | Some s1 \<Rightarrow> for_nem body xs s1)"

definition byte_at :: "u8 list \<Rightarrow> nat \<Rightarrow> u8 res" where
  "byte_at buf i = (if i < length buf then Inr (buf ! i) else Inl OutOfBounds)"

text \<open>The chunk that starts at \<open>&buf[start]\<close> and has \<open>stop - start\<close> bytes.\<close>

definition chunk_at :: "u8 list \<Rightarrow> nat \<Rightarrow> u64 \<Rightarrow> u8 list \<times> u64" where
  "chunk_at buf start stop = (drop start buf, stop - of_nat start)"

definition bytes_chunk :: "u8 list \<Rightarrow> u8 list \<times> u64" where
  "bytes_chunk bs = (bs, of_nat (length bs))"

type_synonym esc_state = "grants \<times> DynBuf \<times> nat"

text \<open>A chain of appends in a loop body: on success the state is passed on with a new start.\<close>

definition flush_chunks :: "grants \<Rightarrow> DynBuf \<Rightarrow> (u8 list \<times> u64) list \<Rightarrow> nat \<Rightarrow> esc_state option res" where
  "flush_chunks f b cs start =
     bindR (append_chain DynBuf_Append f b cs) (\<lambda>(ok, f, b). Inr (if ok then Some (f, b, start) else None))"

text \<open>
  The common end of the functions: the last chunks, \<^verbatim>\<open>DynBuf_Trim\<close>, \<^verbatim>\<open>*sizeOut = DynBuf_GetSize(&b) - 1\<close> and
  \<^verbatim>\<open>DynBuf_Get(&b)\<close>. After a refusal the buffer is destroyed and the null pointer returned.
\<close>

definition Escape_finish :: "grants \<Rightarrow> DynBuf \<Rightarrow> (u8 list \<times> u64) list \<Rightarrow> (u8 list \<times> u64) option res" where
  "Escape_finish f b cs =
     bindR (append_chain DynBuf_Append f b cs) (\<lambda>(ok, f, b).
       if \<not> ok then Inr None
       else let (ok, f, b) = DynBuf_Trim f b in
         if \<not> ok then Inr None
         else Inr (map_option (\<lambda>blk. (blk, DynBuf_GetSize b - 1)) (DynBuf_Get b)))"

section \<open>Hexadecimal escaping\<close>

definition Hex2Dec :: "int list" where
  "Hex2Dec =
     replicate 48 (-1) @ [0, 1, 2, 3, 4, 5, 6, 7, 8, 9] @ replicate 7 (-1) @ [10, 11, 12, 13, 14, 15] @
     replicate 26 (-1) @ [10, 11, 12, 13, 14, 15] @ replicate 153 (-1)"

definition Dec2Hex :: "u8 list" where
  "Dec2Hex = [48, 49, 50, 51, 52, 53, 54, 55, 56, 57, 65, 66, 67, 68, 69, 70]"

definition hex_escape :: "u8 \<Rightarrow> u8 list" where
  "hex_escape ubyte = [Dec2Hex ! unat (drop_bit 4 ubyte), Dec2Hex ! unat (ubyte AND 0xF)]"

text \<open>\<^verbatim>\<open>bytesToEsc\<close> is a table of 256 truth values, here a predicate on bytes.\<close>

definition Escape_DoString_body :: "u8 list \<Rightarrow> nat \<Rightarrow> (u8 \<Rightarrow> bool) \<Rightarrow> u8 list \<Rightarrow> nat \<Rightarrow> esc_state \<Rightarrow> esc_state option res" where
  "Escape_DoString_body escStr escStrLen bytesToEsc buf index =
     (\<lambda>(f, b, startUnescaped).
       bindR (byte_at buf index) (\<lambda>ubyte.
         if bytesToEsc ubyte
         then flush_chunks f b
                [chunk_at buf startUnescaped (of_nat index), (escStr, of_nat escStrLen), bytes_chunk (hex_escape ubyte)]
                (index + 1)
         else Inr (Some (f, b, startUnescaped))))"

definition Escape_DoString :: "grants \<Rightarrow> u8 list \<Rightarrow> (u8 \<Rightarrow> bool) \<Rightarrow> u8 list \<Rightarrow> nat \<Rightarrow> (u8 list \<times> u64) option res" where
  "Escape_DoString f escStr bytesToEsc buf sizeIn =
     bindR (c_strlen escStr) (\<lambda>escStrLen.
       bindR (for_nem (Escape_DoString_body escStr escStrLen bytesToEsc buf) [0..<sizeIn] (f, DynBuf_Init, 0)) (\<lambda>r.
         case r of None \<Rightarrow> Inr None
         | Some (f, b, startUnescaped) \<Rightarrow>
             Escape_finish f b [chunk_at buf startUnescaped (of_nat sizeIn), bytes_chunk [0]]))"

definition Escape_Do :: "grants \<Rightarrow> u8 \<Rightarrow> (u8 \<Rightarrow> bool) \<Rightarrow> u8 list \<Rightarrow> nat \<Rightarrow> (u8 list \<times> u64) option res" where
  "Escape_Do f escByte bytesToEsc buf sizeIn = Escape_DoString f [escByte, 0] bytesToEsc buf sizeIn"

text \<open>
  The unescaping loop has three states; \<open>h\<close> is the value of the first digit. Any other state is
  \<^verbatim>\<open>NOT_IMPLEMENTED\<close>, which panics. The comparison
  \<^verbatim>\<open>ubyte == escByte\<close> is between an unsigned and a signed character, both promoted to \<^verbatim>\<open>int\<close>.
\<close>

type_synonym undo_state = "grants \<times> DynBuf \<times> nat \<times> nat \<times> int"

definition Escape_Undo_body :: "u8 \<Rightarrow> u8 list \<Rightarrow> nat \<Rightarrow> undo_state \<Rightarrow> undo_state option res" where
  "Escape_Undo_body escByte buf index =
     (\<lambda>(f, b, startUnescaped, state, h).
       bindR (byte_at buf index) (\<lambda>ubyte.
         if state = 0 then Inr (Some (f, b, startUnescaped, if uint ubyte = sint escByte then 1 else 0, h))
         else if state = 1 then
           (let h = Hex2Dec ! unat ubyte in Inr (Some (f, b, startUnescaped, if 0 \<le> h then 2 else 0, h)))
         else if state = 2 then
           (let l = Hex2Dec ! unat ubyte in
            if 0 \<le> l then
              bindR (flush_chunks f b
                  [chunk_at buf startUnescaped (of_nat index - 2), bytes_chunk [word_of_int (push_bit 4 h OR l)]]
                  (index + 1))
                (\<lambda>r. Inr (map_option (\<lambda>(f, b, start). (f, b, start, 0, h)) r))
            else Inr (Some (f, b, startUnescaped, 0, h)))
         else Inl Panicked))"

definition Escape_Undo :: "grants \<Rightarrow> u8 \<Rightarrow> u8 list \<Rightarrow> nat \<Rightarrow> (u8 list \<times> u64) option res" where
  "Escape_Undo f escByte buf sizeIn =
     bindR (for_nem (Escape_Undo_body escByte buf) [0..<sizeIn] (f, DynBuf_Init, 0, 0, 0)) (\<lambda>r.
       case r of None \<Rightarrow> Inr None
       | Some (f, b, startUnescaped, state, h) \<Rightarrow>
           Escape_finish f b [chunk_at buf startUnescaped (of_nat sizeIn), bytes_chunk [0]])"

text \<open>The output buffer is returned with the success value.\<close>

definition Escape_UndoFixed :: "grants \<Rightarrow> u8 \<Rightarrow> u8 list \<Rightarrow> nat \<Rightarrow> u8 list \<Rightarrow> u64 \<Rightarrow> (bool \<times> u8 list) res" where
  "Escape_UndoFixed f escByte bufIn bufInSize bufOut bufOutSize =
     bindR (Escape_Undo f escByte bufIn bufInSize) (\<lambda>r.
       case r of None \<Rightarrow> Inr (False, bufOut)
       | Some (result, sizeOut) \<Rightarrow>
           (let strLen = sizeOut + 1 in
            if strLen \<le> bufOutSize
            then bindR (read_at result 0 (unat strLen)) (\<lambda>bs. bindR (write_at bufOut 0 bs) (\<lambda>out. Inr (True, out)))
            else Inr (False, bufOut)))"

section \<open>Line ends, shell words and regular expressions\<close>

definition Escape_AnsiToUnix_body :: "u8 list \<Rightarrow> nat \<Rightarrow> grants \<times> DynBuf \<times> nat \<times> nat \<Rightarrow> (grants \<times> DynBuf \<times> nat \<times> nat) option res" where
  "Escape_AnsiToUnix_body buf index =
     (\<lambda>(f, b, startUnescaped, state).
       bindR (byte_at buf index) (\<lambda>byte.
         if 1 < state then Inl Panicked
         else if state = 1 \<and> byte = 10
         then bindR (flush_chunks f b [chunk_at buf startUnescaped (of_nat index - 1)] index)
                (\<lambda>r. Inr (map_option (\<lambda>(f, b, start). (f, b, start, 0)) r))
         else Inr (Some (f, b, startUnescaped, if byte = 13 then 1 else 0))))"

definition Escape_AnsiToUnix :: "grants \<Rightarrow> u8 list \<Rightarrow> nat \<Rightarrow> (u8 list \<times> u64) option res" where
  "Escape_AnsiToUnix f buf sizeIn =
     bindR (for_nem (Escape_AnsiToUnix_body buf) [0..<sizeIn] (f, DynBuf_Init, 0, 0)) (\<lambda>r.
       case r of None \<Rightarrow> Inr None
       | Some (f, b, startUnescaped, state) \<Rightarrow>
           Escape_finish f b [chunk_at buf startUnescaped (of_nat sizeIn), bytes_chunk [0]])"

definition Escape_Sh_body :: "u8 list \<Rightarrow> nat \<Rightarrow> esc_state \<Rightarrow> esc_state option res" where
  "Escape_Sh_body buf index =
     (\<lambda>(f, b, startUnescaped).
       bindR (byte_at buf index) (\<lambda>c.
         if c = 39
         then flush_chunks f b [chunk_at buf startUnescaped (of_nat index), bytes_chunk [39, 34, 39, 34]] index
         else Inr (Some (f, b, startUnescaped))))"

definition Escape_Sh :: "grants \<Rightarrow> u8 list \<Rightarrow> nat \<Rightarrow> (u8 list \<times> u64) option res" where
  "Escape_Sh f buf sizeIn =
     bindR (flush_chunks f DynBuf_Init [bytes_chunk [39]] 0) (\<lambda>s.
       case s of None \<Rightarrow> Inr None
       | Some s \<Rightarrow>
           bindR (for_nem (Escape_Sh_body buf) [0..<sizeIn] s) (\<lambda>r.
             case r of None \<Rightarrow> Inr None
             | Some (f, b, startUnescaped) \<Rightarrow>
                 Escape_finish f b [chunk_at buf startUnescaped (of_nat sizeIn), bytes_chunk [39], bytes_chunk [0]]))"

text \<open>The table of \<^verbatim>\<open>Escape_BRE\<close> marks the dollar sign, star, dot, brackets, backslash and caret.\<close>

definition bytesToEsc_BRE :: "u8 \<Rightarrow> bool" where
  "bytesToEsc_BRE c = (c \<in> {36, 42, 46, 91, 92, 93, 94})"

definition Escape_BRE_body :: "u8 list \<Rightarrow> nat \<Rightarrow> esc_state \<Rightarrow> esc_state option res" where
  "Escape_BRE_body buf index =
     (\<lambda>(f, b, startUnescaped).
       bindR (byte_at buf index) (\<lambda>ubyte.
         if bytesToEsc_BRE ubyte
         then flush_chunks f b [chunk_at buf startUnescaped (of_nat index), bytes_chunk [92]] index
         else Inr (Some (f, b, startUnescaped))))"

definition Escape_BRE :: "grants \<Rightarrow> u8 list \<Rightarrow> nat \<Rightarrow> (u8 list \<times> u64) option res" where
  "Escape_BRE f buf sizeIn =
     bindR (for_nem (Escape_BRE_body buf) [0..<sizeIn] (f, DynBuf_Init, 0)) (\<lambda>r.
       case r of None \<Rightarrow> Inr None
       | Some (f, b, startUnescaped) \<Rightarrow>
           Escape_finish f b [chunk_at buf startUnescaped (of_nat sizeIn), bytes_chunk [0]])"

section \<open>Single-byte escaping\<close>

text \<open>
  The loops over zero-terminated strings are written over the bytes from the current one on; they
  read past the block when no zero byte comes. \<^verbatim>\<open>Escape_Strchr\<close> returns the index of the byte found.
\<close>

fun Escape_Strchr_loop :: "u8 \<Rightarrow> u8 \<Rightarrow> u8 list \<Rightarrow> nat \<Rightarrow> bool \<Rightarrow> nat option res" where
  "Escape_Strchr_loop escByte c [] i escaped = Inl OutOfBounds"
| "Escape_Strchr_loop escByte c (x # xs) i escaped =
     (if x = 0 then Inr None
      else if escaped then Escape_Strchr_loop escByte c xs (i + 1) False
      else if x = c then Inr (Some i)
      else Escape_Strchr_loop escByte c xs (i + 1) (x = escByte))"

definition Escape_Strchr :: "u8 \<Rightarrow> u8 list \<Rightarrow> u8 \<Rightarrow> nat option res" where
  "Escape_Strchr escByte bufIn c = Escape_Strchr_loop escByte c bufIn 0 False"

text \<open>The success values of the appends in \<^verbatim>\<open>Escape_Unescape\<close> are not looked at.\<close>

fun Escape_Unescape_loop :: "u8 \<Rightarrow> grants \<Rightarrow> DynBuf \<Rightarrow> bool \<Rightarrow> u8 list \<Rightarrow> (grants \<times> DynBuf) res" where
  "Escape_Unescape_loop escByte f b escaped [] = Inl OutOfBounds"
| "Escape_Unescape_loop escByte f b escaped (x # xs) =
     (if x = 0 then Inr (f, b)
      else if x \<noteq> escByte \<or> escaped
      then bindR (DynBuf_Append f b (x # xs) 1) (\<lambda>(ok, f, b). Escape_Unescape_loop escByte f b False xs)
      else Escape_Unescape_loop escByte f b True xs)"

text \<open>\<^verbatim>\<open>sizeof('\0')\<close> is the size of an \<^verbatim>\<open>int\<close>, while \<^verbatim>\<open>nullbyte\<close> is a single character.\<close>

definition sizeof_char_constant :: u64 where
  "sizeof_char_constant = 4"

definition Escape_Unescape :: "grants \<Rightarrow> u8 \<Rightarrow> u8 list \<Rightarrow> u8 list option res" where
  "Escape_Unescape f escByte bufIn =
     bindR (Escape_Unescape_loop escByte f DynBuf_Init False bufIn) (\<lambda>(f, b).
       bindR (DynBuf_Append f b [0] sizeof_char_constant) (\<lambda>(ok, f, b). Inr (DynBuf_Get b)))"

fun Escape_Comma_loop :: "grants \<Rightarrow> DynBuf \<Rightarrow> u8 list \<Rightarrow> ((grants \<times> DynBuf) option) res" where
  "Escape_Comma_loop f b [] = Inl OutOfBounds"
| "Escape_Comma_loop f b (c # xs) =
     (if c = 0 then Inr (Some (f, b))
      else bindR (append_chain DynBuf_Append f b ((if c = 44 \<or> c = 92 then [bytes_chunk [92]] else []) @ [(c # xs, 1)]))
             (\<lambda>(ok, f, b). if ok then Escape_Comma_loop f b xs else Inr None))"

definition Escape_Comma :: "grants \<Rightarrow> u8 list option \<Rightarrow> u8 list option res" where
  "Escape_Comma f string =
     (case string of None \<Rightarrow> Inr None
      | Some s \<Rightarrow>
          bindR (Escape_Comma_loop f DynBuf_Init s) (\<lambda>r.
            case r of None \<Rightarrow> Inr None
            | Some (f, b) \<Rightarrow>
                bindR (DynBuf_Append f b (dropWhile (\<lambda>c. c \<noteq> 0) s) 1) (\<lambda>(ok, f, b). Inr (DynBuf_Get b))))"

end
