(* ===== verification/DynBuf_Laws.thy ===== *)
theory DynBuf_Laws
  imports DynBuf "HOL-Library.Sublist"
begin

text \<open>
  Laws of the dynamic buffer: the invariant \<open>holds b c\<close> (buffer \<open>b\<close> is well formed and its bytes in
  use are \<open>c\<close>), what each operation makes of it under any pattern of allocation failures, and the
  interface \<open>byte_sink\<close> through which the escaping functions use a buffer: a chain of appends either
  adds all its chunks or stops at one that was refused.
\<close>

section \<open>The invariant\<close>

definition holds :: "DynBuf \<Rightarrow> u8 list \<Rightarrow> bool" where
  "holds b c =
     (case db_data b of
        None \<Rightarrow> db_size b = 0 \<and> db_allocated b = 0 \<and> c = []
      | Some blk \<Rightarrow> unat (db_allocated b) = length blk \<and> unat (db_size b) = length c \<and> prefix c blk)"

definition granting :: "grants \<Rightarrow> bool" where
  "granting f = (\<forall>n. f n)"

lemma granting_later [simp]: "granting f \<Longrightarrow> granting (later f)"
  by (simp add: granting_def later_def)

lemma holds_size: "holds b c \<Longrightarrow> unat (db_size b) = length c"
  by (auto simp: holds_def split: option.splits)

lemma holds_allocated: "holds b c \<Longrightarrow> length c \<le> unat (db_allocated b)"
  by (auto simp: holds_def prefix_def split: option.splits)

lemma holds_bound: "holds b c \<Longrightarrow> length c < 2 ^ 64"
  using holds_size [of b c] unat_lt_64 [of "db_size b"] by simp

lemma holds_Init [simp]: "holds DynBuf_Init []"
  by (simp add: holds_def DynBuf_Init_def)

lemma holds_SetSize:
  assumes "holds b c" and "n \<le> length c"
  shows "holds (DynBuf_SetSize b (of_nat n)) (take n c)"
proof -
  have "unat (of_nat n :: u64) = n" using assms holds_bound [OF assms(1)] by (intro unat_of_nat_bound) simp
  then show ?thesis
    using assms
    by (auto simp: holds_def DynBuf_SetSize_def intro: prefix_order.trans [OF take_is_prefix] split: option.splits)
qed

lemma holds_Attach: "unat n = length blk \<Longrightarrow> holds (DynBuf_Attach b n (Some blk)) blk"
  by (simp add: holds_def DynBuf_Attach_def)

section \<open>Operations\<close>

text \<open>The outcome of an operation that may be refused: the bytes are \<open>new\<close> or still \<open>old\<close>.\<close>

definition outcome :: "grants \<Rightarrow> u8 list \<Rightarrow> u8 list \<Rightarrow> bool \<times> grants \<times> DynBuf \<Rightarrow> bool" where
  "outcome f old new r =
     (case r of (ok, f', b') \<Rightarrow> holds b' (if ok then new else old) \<and> (granting f \<longrightarrow> granting f'))"

lemma c_realloc_cases:
  obtains (zero) "n = 0" "c_realloc f p n = (if p = None then Some [] else None, f)"
  | (granted) "n \<noteq> 0" "f 0"
      "c_realloc f p n = (Some (take n (case p of None \<Rightarrow> [] | Some blk \<Rightarrow> blk) @
         replicate (n - length (case p of None \<Rightarrow> [] | Some blk \<Rightarrow> blk)) 0), later f)"
  | (refused) "n \<noteq> 0" "\<not> f 0" "c_realloc f p n = (None, later f)"
  using that by (cases "n = 0"; cases "f 0") (auto simp: c_realloc_def Let_def)

lemma DynBufRealloc_holds:
  assumes "holds b c" and "length c \<le> unat n"
  shows "outcome f c c (DynBufRealloc f b n)"
    and "granting f \<Longrightarrow> fst (DynBufRealloc f b n)"
    and "DynBufRealloc f b n = (True, f', b') \<Longrightarrow> db_allocated b' = n \<and> db_size b' = db_size b"
proof -
  have iff: "unat n = 0 \<longleftrightarrow> n = 0" by (simp add: unat_eq_0)
  have g: "granting f \<Longrightarrow> f 0" by (simp add: granting_def)
  show "outcome f c c (DynBufRealloc f b n)"
    using assms iff
    by (cases rule: c_realloc_cases [of "unat n" f "db_data b"])
      (auto simp: outcome_def DynBufRealloc_def holds_def prefix_def unat_eq_0 split: option.splits)
  show "granting f \<Longrightarrow> fst (DynBufRealloc f b n)"
    using iff g
    by (cases rule: c_realloc_cases [of "unat n" f "db_data b"]) (auto simp: DynBufRealloc_def)
  show "DynBufRealloc f b n = (True, f', b') \<Longrightarrow> db_allocated b' = n \<and> db_size b' = db_size b"
    by (auto simp: DynBufRealloc_def split: prod.splits if_splits)
qed

lemma DynBuf_Trim_holds:
  assumes "holds b c"
  shows "outcome f c c (DynBuf_Trim f b)" and "granting f \<Longrightarrow> fst (DynBuf_Trim f b)"
proof -
  have le: "length c \<le> unat (db_size b)" by (simp add: holds_size [OF assms])
  show "outcome f c c (DynBuf_Trim f b)"
    unfolding DynBuf_Trim_def by (rule DynBufRealloc_holds(1) [OF assms le])
  show "granting f \<Longrightarrow> fst (DynBuf_Trim f b)"
    unfolding DynBuf_Trim_def by (rule DynBufRealloc_holds(2) [OF assms le])
qed

text \<open>A trimmed buffer with bytes in it is a block of exactly these bytes.\<close>

lemma DynBuf_Trim_exact:
  assumes "holds b c" and "c \<noteq> []" and "DynBuf_Trim f b = (True, f', b')"
  shows "db_data b' = Some c \<and> unat (db_size b') = length c"
proof -
  have h: "holds b' c" using DynBuf_Trim_holds(1) [OF assms(1), of f] assms(3) by (simp add: outcome_def)
  have le: "length c \<le> unat (db_size b)" by (simp add: holds_size [OF assms(1)])
  have sz: "db_allocated b' = db_size b" "db_size b' = db_size b"
    using DynBufRealloc_holds(3) [OF assms(1) le, of f f' b'] assms(3) by (simp_all add: DynBuf_Trim_def)
  obtain blk where blk: "db_data b' = Some blk"
    using h assms(2) by (cases "db_data b'") (auto simp: holds_def)
  then have "length blk = length c" "prefix c blk"
    using h sz by (auto simp: holds_def)
  then have "blk = c" by (auto simp: prefix_def)
  then show ?thesis using blk holds_size [OF h] by simp
qed

lemma DynBuf_Enlarge_holds:
  assumes "holds b c"
  shows "outcome f c c (DynBuf_Enlarge f b n)"
    and "granting f \<Longrightarrow> db_allocated b < n \<Longrightarrow> fst (DynBuf_Enlarge f b n)"
    and "DynBuf_Enlarge f b n = (True, f', b') \<Longrightarrow> n \<le> db_allocated b' \<and> db_size b' = db_size b"
proof -
  define w where "w = (if db_allocated b \<noteq> 0
             then (if db_allocated b < 256 * 1024 then db_allocated b * 2 else db_allocated b + 256 * 1024)
             else push_bit 10 1)"
  define m where "m = (if n > w then n else w)"
  have e: "DynBuf_Enlarge f b n = (if m < db_allocated b then (False, f, b) else DynBufRealloc f b m)"
    by (simp add: DynBuf_Enlarge_def Let_def w_def m_def)
  have n: "n \<le> m" by (auto simp: m_def)
  have c: "\<not> m < db_allocated b \<Longrightarrow> length c \<le> unat m"
    using holds_allocated [OF assms] by (simp add: word_less_nat_alt)
  show "outcome f c c (DynBuf_Enlarge f b n)"
    using DynBufRealloc_holds(1) [OF assms c, of f] assms by (simp add: e outcome_def)
  show "granting f \<Longrightarrow> db_allocated b < n \<Longrightarrow> fst (DynBuf_Enlarge f b n)"
    using DynBufRealloc_holds(2) [OF assms c, of f] n by (auto simp: e)
  show "DynBuf_Enlarge f b n = (True, f', b') \<Longrightarrow> n \<le> db_allocated b' \<and> db_size b' = db_size b"
    using DynBufRealloc_holds(3) [OF assms c, of f f' b'] n by (auto simp: e split: if_splits)
qed

text \<open>The copy of an append, once there is room.\<close>

lemma append_copy:
  assumes "holds b c" and "bs \<noteq> []" and "length c + length bs \<le> unat (db_allocated b)"
    and "unat n = length c + length bs"
  shows "\<exists>d. c_memcpy (db_data b) (length c) (Some (bs @ tail)) (length bs) = Inr d \<and>
    holds (b\<lparr>db_data := d, db_size := n\<rparr>) (c @ bs)"
proof -
  obtain blk where blk: "db_data b = Some blk" using assms by (auto simp: holds_def split: option.splits)
  then have "unat (db_allocated b) = length blk" "prefix c blk"
    using assms(1) by (simp_all add: holds_def)
  then show ?thesis
    using assms(2-4) blk
    by (auto simp: c_memcpy_def read_at_def write_at_def holds_def patch_def prefix_def)
qed

lemma DynBuf_Append_holds:
  assumes "holds b c" and "length bs < 2 ^ 64"
  shows "\<exists>r. DynBuf_Append f b (bs @ tail) (of_nat (length bs)) = Inr r \<and> outcome f c (c @ bs) r \<and>
    (granting f \<and> length c + length bs < 2 ^ 64 \<longrightarrow> fst r)"
proof (cases "bs = []")
  case True
  then show ?thesis using assms by (simp add: DynBuf_Append_def outcome_def)
next
  case False
  let ?n = "of_nat (length bs) :: u64"
  have len: "unat ?n = length bs" using assms(2) by (intro unat_of_nat_bound) simp
  with False have pos: "\<not> ?n \<le> 0" by (auto simp: word_le_nat_alt)
  note sz = holds_size [OF assms(1)]
  show ?thesis
  proof (cases "length c + length bs < 2 ^ 64")
    case no_room: False
    have "unat (db_size b + ?n) < unat (db_size b)"
      using no_room holds_bound [OF assms(1)] assms(2) by (simp add: unat_word_ariths len sz le_mod_geq)
    then show ?thesis
      using pos no_room assms(1) by (simp add: DynBuf_Append_def outcome_def Let_def word_less_nat_alt)
  next
    case room: True
    then have new: "unat (db_size b + ?n) = length c + length bs"
      using unat_add_bound [of "db_size b" ?n] by (simp add: len sz)
    then have nw: "\<not> db_size b + ?n < db_size b" by (simp add: word_less_nat_alt sz)
    obtain ok f1 b1 where e: "(if db_size b + ?n > db_allocated b then DynBuf_Enlarge f b (db_size b + ?n)
        else (True, f, b)) = (ok, f1, b1)" by (metis prod_cases3)
    have o1: "outcome f c c (ok, f1, b1)"
      using DynBuf_Enlarge_holds(1) [OF assms(1), of f "db_size b + ?n"] assms(1) e
      by (auto simp: outcome_def split: if_splits)
    have g1: "granting f \<Longrightarrow> ok"
      using DynBuf_Enlarge_holds(2) [OF assms(1), of f "db_size b + ?n"] e by (auto split: if_splits)
    have r1: "ok \<Longrightarrow> db_size b + ?n \<le> db_allocated b1 \<and> db_size b1 = db_size b"
      using DynBuf_Enlarge_holds(3) [OF assms(1), of f "db_size b + ?n" f1 b1] e by (auto split: if_splits)
    show ?thesis
    proof (cases ok)
      case False
      then have "DynBuf_Append f b (bs @ tail) ?n = Inr (False, f1, b1)"
        using pos nw e by (simp add: DynBuf_Append_def Let_def)
      then show ?thesis using o1 g1 False by (simp add: outcome_def) blast
    next
      case True
      then obtain d where d: "c_memcpy (db_data b1) (length c) (Some (bs @ tail)) (length bs) = Inr d"
        "holds (b1\<lparr>db_data := d, db_size := db_size b + ?n\<rparr>) (c @ bs)"
        using append_copy [OF _ \<open>bs \<noteq> []\<close>, of b1 c "db_size b + ?n" tail] o1 r1 new
        by (auto simp: outcome_def word_le_nat_alt)
      then have "DynBuf_Append f b (bs @ tail) ?n = Inr (True, f1, b1\<lparr>db_data := d, db_size := db_size b + ?n\<rparr>)"
        using pos nw e r1 True by (simp add: DynBuf_Append_def Let_def len sz)
      then show ?thesis using d(2) o1 True by (simp add: outcome_def)
    qed
  qed
qed

text \<open>The copies into a new block.\<close>

lemma fresh_copy:
  assumes "holds b c" and "length c \<le> length blk"
  shows "c_memcpy (Some blk) 0 (db_data b) (length c) = Inr (Some (c @ drop (length c) blk))"
  using assms
  by (cases "db_data b")
    (auto simp: holds_def c_memcpy_def read_at_def write_at_def patch_def prefix_def)

lemma c_malloc_block:
  assumes "c_malloc f n = (p, f')"
  shows "(p = None \<or> (\<exists>blk. p = Some blk \<and> length blk = n)) \<and> (granting f \<longrightarrow> p \<noteq> None \<and> granting f')"
  using assms
  by (cases rule: c_realloc_cases [of n f None]) (auto simp: c_malloc_def granting_def later_def)

lemma DynBuf_AllocGet_holds:
  assumes "holds b c"
  shows "\<exists>d f'. DynBuf_AllocGet f b = Inr (d, f') \<and> (d = None \<or> d = Some c) \<and>
    (granting f \<longrightarrow> d = Some c \<and> granting f')"
proof -
  obtain p f' where m: "c_malloc f (length c) = (p, f')" by (metis surj_pair)
  with c_malloc_block [OF m] show ?thesis
    using fresh_copy [OF assms] holds_size [OF assms] by (auto simp: DynBuf_AllocGet_def)
qed

lemma DynBuf_Copy_holds:
  assumes "holds b c"
  shows "\<exists>r. DynBuf_Copy f b DynBuf_Init = Inr r \<and> outcome f [] c r \<and> (granting f \<longrightarrow> fst r)"
proof -
  obtain p f' where m: "c_malloc f (unat (db_allocated b)) = (p, f')" by (metis surj_pair)
  note mb = c_malloc_block [OF m]
  show ?thesis
  proof (cases p)
    case None
    then show ?thesis using m mb by (auto simp: DynBuf_Copy_def DynBuf_Init_def outcome_def holds_def Let_def)
  next
    case (Some blk)
    then have blk: "length blk = unat (db_allocated b)" using mb by simp
    then show ?thesis
      using m mb Some fresh_copy [OF assms, of blk] holds_allocated [OF assms] holds_size [OF assms]
      by (simp add: DynBuf_Copy_def DynBuf_Init_def outcome_def holds_def Let_def)
  qed
qed

section \<open>The interface of a byte sink\<close>

text \<open>
  What the clients rely on: a chunk is added at the end or refused, nothing is lost, and an
  allocator that grants every request refuses nothing that fits into the address space.
\<close>

definition is_chunk :: "u8 list \<times> u64 \<Rightarrow> u8 list \<Rightarrow> bool" where
  "is_chunk ch bs \<longleftrightarrow> prefix bs (fst ch) \<and> snd ch = of_nat (length bs) \<and> length bs < 2 ^ 64"

locale byte_sink =
  fixes app :: "grants \<Rightarrow> 'b \<Rightarrow> u8 list \<Rightarrow> u64 \<Rightarrow> (bool \<times> grants \<times> 'b) res"
    and content :: "'b \<Rightarrow> u8 list \<Rightarrow> bool"
  assumes app_law: "content b c \<Longrightarrow> is_chunk (data, n) bs \<Longrightarrow>
    \<exists>ok f' b'. app f b data n = Inr (ok, f', b') \<and> content b' (if ok then c @ bs else c) \<and>
      (granting f \<longrightarrow> granting f' \<and> (length c + length bs < 2 ^ 64 \<longrightarrow> ok))"
begin

lemma chain_law:
  assumes "content b c" and "list_all2 is_chunk cs bss"
  shows "\<exists>ok f' b'. append_chain app f b cs = Inr (ok, f', b') \<and> (ok \<longrightarrow> content b' (c @ concat bss)) \<and>
    (granting f \<longrightarrow> granting f' \<and> (length c + length (concat bss) < 2 ^ 64 \<longrightarrow> ok))"
  using assms(2, 1)
proof (induction cs bss arbitrary: f b c rule: list_all2_induct)
  case Nil
  then show ?case by (intro exI [of _ True] exI [of _ f] exI [of _ b]) simp
next
  case (Cons ch cs bs bss)
  obtain data n where ch: "ch = (data, n)" by (cases ch)
  then have "is_chunk (data, n) bs" using Cons.hyps(1) by simp
  then obtain ok f1 b1 where a: "app f b data n = Inr (ok, f1, b1)"
    "content b1 (if ok then c @ bs else c)"
    "granting f \<longrightarrow> granting f1 \<and> (length c + length bs < 2 ^ 64 \<longrightarrow> ok)"
    using app_law [OF Cons.prems, of data n bs f] by blast
  show ?case
  proof (cases ok)
    case False
    with a ch show ?thesis by (intro exI [of _ False] exI [of _ f1] exI [of _ b1]) auto
  next
    case True
    then obtain ok' f' b' where "append_chain app f1 b1 cs = Inr (ok', f', b')"
      "ok' \<longrightarrow> content b' ((c @ bs) @ concat bss)"
      "granting f1 \<longrightarrow> granting f' \<and> (length (c @ bs) + length (concat bss) < 2 ^ 64 \<longrightarrow> ok')"
      using Cons.IH [of b1 "c @ bs" f1] a(2) by auto
    with a ch True show ?thesis by (intro exI [of _ ok'] exI [of _ f'] exI [of _ b']) (auto simp: add.assoc)
  qed
qed

end

interpretation dyn: byte_sink DynBuf_Append holds
proof
  fix b c data n bs f
  assume h: "holds b c" and ch: "is_chunk (data, n) bs"
  then obtain tail where data: "data = bs @ tail" "n = of_nat (length bs)" "length bs < 2 ^ 64"
    by (auto simp: is_chunk_def prefix_def)
  then obtain ok f' b' where "DynBuf_Append f b data n = Inr (ok, f', b')" "outcome f c (c @ bs) (ok, f', b')"
    "granting f \<and> length c + length bs < 2 ^ 64 \<longrightarrow> ok"
    using DynBuf_Append_holds [OF h data(3), of f tail] by (metis fst_conv prod_cases3)
  then show "\<exists>ok f' b'. DynBuf_Append f b data n = Inr (ok, f', b') \<and> holds b' (if ok then c @ bs else c) \<and>
      (granting f \<longrightarrow> granting f' \<and> (length c + length bs < 2 ^ 64 \<longrightarrow> ok))"
    by (intro exI [of _ ok] exI [of _ f'] exI [of _ b']) (simp add: outcome_def)
qed

lemma append_whole:
  assumes "holds b c" and "length bs < 2 ^ 64"
  obtains ok f' b' where "DynBuf_Append f b bs (of_nat (length bs)) = Inr (ok, f', b')"
    "holds b' (if ok then c @ bs else c)" "granting f \<longrightarrow> granting f' \<and> (length c + length bs < 2 ^ 64 \<longrightarrow> ok)"
proof -
  have "is_chunk (bs, of_nat (length bs)) bs" using assms(2) by (simp add: is_chunk_def)
  from dyn.app_law [OF assms(1) this, of f] that show ?thesis by blast
qed

section \<open>Any sequence of calls\<close>

text \<open>
  The byte list a client expects, given what the calls returned: an accepted append adds its bytes,
  a truncation drops bytes at the end, and nothing else changes them.
\<close>

fun expected :: "u8 list \<Rightarrow> DynOp \<Rightarrow> bool \<Rightarrow> u8 list" where
  "expected c (OpAppend bs) ok = (if ok then c @ bs else c)"
| "expected c (OpSafeAppend bs) ok = c @ bs"
| "expected c (OpTruncate n) ok = take n c"
| "expected c _ ok = c"

fun agrees :: "u8 list \<Rightarrow> DynOp list \<Rightarrow> (bool \<times> u8 list option) list \<Rightarrow> u8 list \<Rightarrow> bool" where
  "agrees c [] [] c' = (c' = c)"
| "agrees c (op # ops) ((ok, d) # rs) c' =
     ((d = None \<or> d = Some c) \<and> (op = OpAllocGet \<longrightarrow> ok = (d = Some c)) \<and> agrees (expected c op ok) ops rs c')"
| "agrees c _ _ c' = False"

fun op_bytes :: "DynOp \<Rightarrow> u8 list" where
  "op_bytes (OpAppend bs) = bs"
| "op_bytes (OpSafeAppend bs) = bs"
| "op_bytes _ = []"

fun can_panic :: "DynOp \<Rightarrow> bool" where
  "can_panic (OpSafeAppend bs) = True"
| "can_panic _ = False"

lemma DynBuf_step_agrees:
  assumes "holds b c" and "length (op_bytes op) < 2 ^ 64"
  shows "(can_panic op \<and> DynBuf_step (f, b) op = Inl Panicked) \<or>
    (\<exists>f' b' ok d. DynBuf_step (f, b) op = Inr ((f', b'), (ok, d)) \<and> holds b' (expected c op ok) \<and>
      (d = None \<or> d = Some c) \<and> (op = OpAllocGet \<longrightarrow> ok = (d = Some c)))"
proof (cases op)
  case (OpAppend bs)
  then have "length bs < 2 ^ 64" using assms(2) by simp
  then obtain ok f' b' where "DynBuf_Append f b bs (of_nat (length bs)) = Inr (ok, f', b')"
    "holds b' (if ok then c @ bs else c)" by (rule append_whole [OF assms(1), where f = f])
  then show ?thesis using OpAppend by simp
next
  case (OpSafeAppend bs)
  then have "length bs < 2 ^ 64" using assms(2) by simp
  then obtain ok f' b' where "DynBuf_Append f b bs (of_nat (length bs)) = Inr (ok, f', b')"
    "holds b' (if ok then c @ bs else c)" by (rule append_whole [OF assms(1), where f = f])
  then show ?thesis using OpSafeAppend by (cases ok) (auto simp: DynBuf_SafeInternalAppend_def)
next
  case (OpEnlarge n)
  then show ?thesis
    using DynBuf_Enlarge_holds(1) [OF assms(1), of f n] by (auto simp: outcome_def split: prod.splits)
next
  case OpTrim
  then show ?thesis
    using DynBuf_Trim_holds(1) [OF assms(1), of f] by (auto simp: outcome_def split: prod.splits)
next
  case OpAllocGet
  then show ?thesis using DynBuf_AllocGet_holds [OF assms(1), of f] assms(1) by auto
next
  case OpCopy
  then show ?thesis using DynBuf_Copy_holds [OF assms(1), of f] assms(1) by (auto simp: outcome_def)
next
  case (OpTruncate n)
  then show ?thesis
    using holds_SetSize [OF assms(1), of n] assms(1) holds_size [OF assms(1)] by (auto simp: DynBuf_GetSize_def)
qed

text \<open>With an allocator that grants every request, the calls are accepted as long as the bytes can be counted.\<close>

fun is_growth :: "DynOp \<Rightarrow> bool" where
  "is_growth (OpEnlarge n) = True"
| "is_growth _ = False"

definition pending_bytes :: "DynOp list \<Rightarrow> nat" where
  "pending_bytes ops = (\<Sum>op\<leftarrow>ops. length (op_bytes op))"

lemma DynBuf_step_granted:
  assumes "holds b c" and "granting f" and "length c + length (op_bytes op) < 2 ^ 64"
  shows "\<exists>f' b' ok d. DynBuf_step (f, b) op = Inr ((f', b'), (ok, d)) \<and> granting f' \<and> (ok \<or> is_growth op)"
proof (cases op)
  case (OpAppend bs)
  then have len: "length c + length bs < 2 ^ 64" using assms(3) by simp
  then have "length bs < 2 ^ 64" by simp
  then obtain ok f' b' where r: "DynBuf_Append f b bs (of_nat (length bs)) = Inr (ok, f', b')"
    "holds b' (if ok then c @ bs else c)" "granting f \<longrightarrow> granting f' \<and> (length c + length bs < 2 ^ 64 \<longrightarrow> ok)"
    by (rule append_whole [OF assms(1), where f = f])
  with r(1) show ?thesis
    using OpAppend r(3) assms(2) len by (auto simp: DynBuf_SafeInternalAppend_def)
next
  case (OpSafeAppend bs)
  then have len: "length c + length bs < 2 ^ 64" using assms(3) by simp
  then have "length bs < 2 ^ 64" by simp
  then obtain ok f' b' where r: "DynBuf_Append f b bs (of_nat (length bs)) = Inr (ok, f', b')"
    "holds b' (if ok then c @ bs else c)" "granting f \<longrightarrow> granting f' \<and> (length c + length bs < 2 ^ 64 \<longrightarrow> ok)"
    by (rule append_whole [OF assms(1), where f = f])
  with r(1) show ?thesis
    using OpSafeAppend r(3) assms(2) len by (auto simp: DynBuf_SafeInternalAppend_def)
next
  case (OpEnlarge n)
  then show ?thesis
    using DynBuf_Enlarge_holds(1) [OF assms(1), of f n] assms(2) by (auto simp: outcome_def split: prod.splits)
next
  case OpTrim
  obtain ok f' b' where t: "DynBuf_Trim f b = (ok, f', b')" by (metis prod_cases3)
  then show ?thesis
    using DynBuf_Trim_holds [OF assms(1), of f] assms(2) OpTrim by (auto simp: outcome_def)
next
  case OpAllocGet
  then show ?thesis using DynBuf_AllocGet_holds [OF assms(1), of f] assms(2) by auto
next
  case OpCopy
  then show ?thesis using DynBuf_Copy_holds [OF assms(1), of f] assms(2) by (auto simp: outcome_def)
next
  case (OpTruncate n)
  then show ?thesis using assms(2) by auto
qed

lemma expected_length: "length (expected c op ok) \<le> length c + length (op_bytes op)"
  by (cases op) auto

lemma DynBuf_run_granted:
  assumes "holds b c" and "granting f" and "length c + pending_bytes ops < 2 ^ 64"
  shows "\<exists>s rs. run DynBuf_step (f, b) ops = Inr (s, rs) \<and> list_all2 (\<lambda>op r. fst r \<or> is_growth op) ops rs"
  using assms
proof (induction ops arbitrary: f b c)
  case Nil
  then show ?case by simp
next
  case (Cons op ops)
  have len: "length c + length (op_bytes op) + pending_bytes ops < 2 ^ 64"
    using Cons.prems(3) by (simp add: pending_bytes_def)
  then obtain f' b' ok d where st: "DynBuf_step (f, b) op = Inr ((f', b'), (ok, d))" "granting f'" "ok \<or> is_growth op"
    using DynBuf_step_granted [OF Cons.prems(1,2), of op] by auto
  have "holds b' (expected c op ok)"
    using DynBuf_step_agrees [OF Cons.prems(1), of op f] len st(1) by auto
  moreover have "length (expected c op ok) + pending_bytes ops < 2 ^ 64"
    using len expected_length [of c op ok] by simp
  ultimately obtain s rs where "run DynBuf_step (f', b') ops = Inr (s, rs)"
    "list_all2 (\<lambda>op r. fst r \<or> is_growth op) ops rs" using Cons.IH st(2) by blast
  then show ?case using st by simp
qed

lemma DynBuf_run_agrees:
  assumes "holds b c" and "\<forall>op \<in> set ops. length (op_bytes op) < 2 ^ 64"
  shows "(run DynBuf_step (f, b) ops = Inl Panicked \<and> (\<exists>op \<in> set ops. can_panic op)) \<or>
    (\<exists>f' b' rs c'. run DynBuf_step (f, b) ops = Inr ((f', b'), rs) \<and> agrees c ops rs c' \<and> holds b' c')"
  using assms
proof (induction ops arbitrary: f b c)
  case Nil
  then show ?case by auto
next
  case (Cons op ops)
  have len: "length (op_bytes op) < 2 ^ 64" using Cons.prems(2) by simp
  show ?case
  proof (cases "DynBuf_step (f, b) op = Inl Panicked")
    case True
    then show ?thesis using DynBuf_step_agrees [OF Cons.prems(1) len, of f] by auto
  next
    case False
    then obtain f1 b1 ok d where st: "DynBuf_step (f, b) op = Inr ((f1, b1), (ok, d))"
      "holds b1 (expected c op ok)" "d = None \<or> d = Some c" "op = OpAllocGet \<longrightarrow> ok = (d = Some c)"
      using DynBuf_step_agrees [OF Cons.prems(1) len, of f] by auto
    consider "run DynBuf_step (f1, b1) ops = Inl Panicked" "\<exists>op \<in> set ops. can_panic op"
      | f' b' rs c' where "run DynBuf_step (f1, b1) ops = Inr ((f', b'), rs)"
          "agrees (expected c op ok) ops rs c'" "holds b' c'"
      using Cons.IH [OF st(2), of f1] Cons.prems(2) by auto
    then show ?thesis
    proof cases
      case 1
      then show ?thesis using st(1) by simp
    next
      case 2
      then have "run DynBuf_step (f, b) (op # ops) = Inr ((f', b'), (ok, d) # rs)"
        "agrees c (op # ops) ((ok, d) # rs) c'" using st by auto
      then show ?thesis using 2(3) by blast
    qed
  qed
qed

text \<open>
  C14. Under every pattern of allocation failures, any sequence of appends, growth requests, trims,
  copies, truncations and reads on a new dynamic buffer runs without a memory fault: it panics, and only
  with a \<^verbatim>\<open>DynBuf_SafeInternalAppend\<close> in it, or the buffer holds exactly the bytes of the accepted appends, and each
  \<^verbatim>\<open>DynBuf_AllocGet\<close> that returned a block returned the bytes of that moment. When every request is granted and
  the bytes number less than two to the power 64, there is no panic and nothing but a growth request is
  refused.
\<close>

theorem dynbuf_refines_bytes:
  assumes "\<forall>op \<in> set ops. length (op_bytes op) < 2 ^ 64"
  shows "((run DynBuf_step (f, DynBuf_Init) ops = Inl Panicked \<and> (\<exists>op \<in> set ops. can_panic op)) \<or>
      (\<exists>f' b' rs c. run DynBuf_step (f, DynBuf_Init) ops = Inr ((f', b'), rs) \<and> agrees [] ops rs c \<and> holds b' c)) \<and>
    (granting f \<and> pending_bytes ops < 2 ^ 64 \<longrightarrow>
      (\<exists>s rs. run DynBuf_step (f, DynBuf_Init) ops = Inr (s, rs) \<and>
        list_all2 (\<lambda>op r. fst r \<or> is_growth op) ops rs))"
  using DynBuf_run_agrees [OF holds_Init assms, of f] DynBuf_run_granted [OF holds_Init, of f ops] by simp

theorem dynbuf_refines_bytes_witness:
  "\<exists>s rs. run DynBuf_step (\<lambda>n. True, DynBuf_Init) [OpAppend [1, 2], OpAllocGet, OpTrim, OpSafeAppend [3]] = Inr (s, rs) \<and>
     list_all2 (\<lambda>op r. fst r \<or> is_growth op) [OpAppend [1, 2], OpAllocGet, OpTrim, OpSafeAppend [3]] rs"
  using dynbuf_refines_bytes [of "[OpAppend [1, 2], OpAllocGet, OpTrim, OpSafeAppend [3]]" "\<lambda>n. True"]
  by (simp add: granting_def pending_bytes_def del: run.simps)

text \<open>
  \<^verbatim>\<open>DynBuf_Detach\<close> leaves the size behind: the buffer claims bytes it has no block for, and reading it copies
  from the null pointer.
\<close>

lemma DynBuf_Detach_keeps_size:
  assumes "holds b c" and "c \<noteq> []" and "granting f"
  shows "fst (DynBuf_Detach b) = db_data b \<and> (\<nexists>c'. holds (snd (DynBuf_Detach b)) c') \<and>
    DynBuf_AllocGet f (snd (DynBuf_Detach b)) = Inl NullDeref"
proof -
  have sz: "unat (db_size b) = length c" by (rule holds_size [OF assms(1)])
  then have "db_size b \<noteq> 0" using assms(2) by auto
  moreover obtain blk f' where "c_malloc f (length c) = (Some blk, f')"
    using c_malloc_block [of f "length c"] assms(3) by (metis option.exhaust surj_pair)
  ultimately show ?thesis
    using assms(2) sz by (auto simp: DynBuf_Detach_def DynBuf_AllocGet_def c_memcpy_def holds_def)
qed

end
