(* ===== verification/Escape_Laws.thy ===== *)
theory Escape_Laws
  imports Escape DynBuf_Laws
begin

text \<open>
  Laws of the escaping functions. The loops copy unescaped chunks lazily; \<open>progress\<close> says what a loop
  has produced so far: the bytes in the buffer followed by the bytes of the open chunk. From it follow
  the output of each function under any pattern of allocation failures (the reference bytes with a
  terminator, or the null pointer), the readers that take the output back (\<^verbatim>\<open>Escape_Undo\<close>, a shell, a
  regular expression), and the cases in which a function reads outside its objects.
\<close>

section \<open>Loops\<close>

lemma for_nem_upt:
  assumes "I 0 s" and "0 \<le> n"
    and "\<And>i s. i < n \<Longrightarrow> I i s \<Longrightarrow>
      \<exists>r. body i s = Inr r \<and> (\<forall>s'. r = Some s' \<longrightarrow> I (Suc i) s') \<and> (G \<longrightarrow> r \<noteq> None)"
  shows "\<exists>r. for_nem body [0..<n] s = Inr r \<and> (\<forall>s'. r = Some s' \<longrightarrow> I n s') \<and> (G \<longrightarrow> r \<noteq> None)"
proof -
  have "\<exists>r. for_nem body [i..<i + k] s = Inr r \<and> (\<forall>s'. r = Some s' \<longrightarrow> I (i + k) s') \<and> (G \<longrightarrow> r \<noteq> None)"
    if "I i s" "i + k \<le> n" for i k s using that
  proof (induction k arbitrary: i s)
    case 0
    then show ?case by simp
  next
    case (Suc k)
    then obtain r where r: "body i s = Inr r" "\<forall>s'. r = Some s' \<longrightarrow> I (Suc i) s'" "G \<longrightarrow> r \<noteq> None"
      using assms(3) [of i s] by auto
    have upt: "[i..<i + Suc k] = i # [Suc i..<Suc i + k]" by (simp add: upt_conv_Cons)
    show ?case
    proof (cases r)
      case None
      then show ?thesis using r upt by simp
    next
      case (Some s')
      then show ?thesis using Suc.IH [of "Suc i" s'] r upt Suc.prems by simp
    qed
  qed
  from this [of 0 s n] assms(1) show ?thesis by simp
qed

definition slice :: "'a list \<Rightarrow> nat \<Rightarrow> nat \<Rightarrow> 'a list" where
  "slice xs i j = take (j - i) (drop i xs)"

lemma slice_empty [simp]: "slice xs i i = []"
  by (simp add: slice_def)

lemma slice_Suc: "i \<le> j \<Longrightarrow> j < length xs \<Longrightarrow> slice xs i (Suc j) = slice xs i j @ [xs ! j]"
  by (simp add: slice_def Suc_diff_le take_Suc_conv_app_nth)

lemma length_slice: "i \<le> j \<Longrightarrow> j \<le> length xs \<Longrightarrow> length (slice xs i j) = j - i"
  by (simp add: slice_def)

lemma slice_append: "i \<le> j \<Longrightarrow> j \<le> k \<Longrightarrow> slice xs i j @ slice xs j k = slice xs i k"
  using take_add [of "j - i" "k - j" "drop i xs"] by (simp add: slice_def)

lemma chunk_at_slice:
  assumes "i \<le> j" and "j \<le> length buf" and "length buf < 2 ^ 64"
  shows "is_chunk (chunk_at buf i (of_nat j)) (slice buf i j)"
proof -
  have "(of_nat j :: u64) - of_nat i = of_nat (j - i)" using assms(1) by (simp add: of_nat_diff)
  then show ?thesis
    using assms by (auto simp: is_chunk_def chunk_at_def length_slice slice_def take_is_prefix)
qed

lemma bytes_chunk_is_chunk [simp]: "length bs < 2 ^ 64 \<Longrightarrow> is_chunk (bytes_chunk bs) bs"
  by (simp add: is_chunk_def bytes_chunk_def)

lemma byte_at_simp [simp]: "i < length buf \<Longrightarrow> byte_at buf i = Inr (buf ! i)"
  by (simp add: byte_at_def)

section \<open>Progress of a copying loop\<close>

definition progress :: "bool \<Rightarrow> u8 list \<Rightarrow> u8 list \<Rightarrow> nat \<Rightarrow> esc_state \<Rightarrow> bool" where
  "progress G buf out i = (\<lambda>(f, b, start). start \<le> i \<and> i \<le> length buf \<and>
     (\<exists>c. holds b c \<and> c @ slice buf start i = out) \<and> (G \<longrightarrow> granting f))"

lemma progress_init: "(G \<longrightarrow> granting f) \<Longrightarrow> progress G buf [] 0 (f, DynBuf_Init, 0)"
  by (auto simp: progress_def)

lemma progress_Suc:
  "progress G buf out i (f, b, start) \<Longrightarrow> i < length buf \<Longrightarrow> progress G buf (out @ [buf ! i]) (Suc i) (f, b, start)"
  by (auto simp: progress_def slice_Suc)

lemma progress_fresh:
  "holds b out \<Longrightarrow> (G \<longrightarrow> granting f) \<Longrightarrow> i \<le> length buf \<Longrightarrow> progress G buf out i (f, b, i)"
  by (auto simp: progress_def)

lemma progress_chain:
  assumes "progress G buf out i (f, b, start)" and "length buf < 2 ^ 64" and "list_all2 is_chunk cs bss"
  shows "\<exists>ok f' b'. append_chain DynBuf_Append f b (chunk_at buf start (of_nat i) # cs) = Inr (ok, f', b') \<and>
    (ok \<longrightarrow> holds b' (out @ concat bss)) \<and>
    (G \<longrightarrow> granting f' \<and> (length (out @ concat bss) < 2 ^ 64 \<longrightarrow> ok))"
proof -
  obtain c where c: "holds b c" "c @ slice buf start i = out" and le: "start \<le> i" "i \<le> length buf"
    and G: "G \<longrightarrow> granting f" using assms(1) by (auto simp: progress_def)
  have "list_all2 is_chunk (chunk_at buf start (of_nat i) # cs) (slice buf start i # bss)"
    using chunk_at_slice [OF le assms(2)] assms(3) by simp
  from dyn.chain_law [OF c(1) this, of f] obtain ok f' b' where
    "append_chain DynBuf_Append f b (chunk_at buf start (of_nat i) # cs) = Inr (ok, f', b')"
    "ok \<longrightarrow> holds b' (c @ concat (slice buf start i # bss))"
    "granting f \<longrightarrow> granting f' \<and> (length c + length (concat (slice buf start i # bss)) < 2 ^ 64 \<longrightarrow> ok)"
    by blast
  with G show ?thesis
    by (intro exI [of _ ok] exI [of _ f'] exI [of _ b']) (auto simp: c(2) [symmetric] add.assoc)
qed

lemma flush_law:
  assumes "progress G buf out i (f, b, start)" and "length buf < 2 ^ 64" and "list_all2 is_chunk cs bss"
  shows "\<exists>r. flush_chunks f b (chunk_at buf start (of_nat i) # cs) start' = Inr r \<and>
    (\<forall>s'. r = Some s' \<longrightarrow> (\<exists>f' b'. s' = (f', b', start') \<and> holds b' (out @ concat bss) \<and> (G \<longrightarrow> granting f'))) \<and>
    (G \<and> length (out @ concat bss) < 2 ^ 64 \<longrightarrow> r \<noteq> None)"
proof -
  obtain ok f' b' where "append_chain DynBuf_Append f b (chunk_at buf start (of_nat i) # cs) = Inr (ok, f', b')"
    "ok \<longrightarrow> holds b' (out @ concat bss)" "G \<longrightarrow> granting f' \<and> (length (out @ concat bss) < 2 ^ 64 \<longrightarrow> ok)"
    using progress_chain [OF assms] by blast
  then show ?thesis by (simp add: flush_chunks_def)
qed

text \<open>What a function returns: the null pointer, or the bytes with a terminator and their number.\<close>

definition returns :: "bool \<Rightarrow> u8 list \<Rightarrow> (u8 list \<times> u64) option res \<Rightarrow> bool" where
  "returns G out r =
     (\<exists>x. r = Inr x \<and> (\<forall>blk n. x = Some (blk, n) \<longrightarrow> blk = out @ [0] \<and> unat n = length out) \<and> (G \<longrightarrow> x \<noteq> None))"

lemma finish_law:
  assumes "progress G buf out i (f, b, start)" and "length buf < 2 ^ 64" and "list_all2 is_chunk cs bss"
    and "out @ concat bss = res @ [0]" and "G \<longrightarrow> length res + 1 < 2 ^ 64"
  shows "returns G res (Escape_finish f b (chunk_at buf start (of_nat i) # cs))"
proof -
  obtain ok f' b' where ch: "append_chain DynBuf_Append f b (chunk_at buf start (of_nat i) # cs) = Inr (ok, f', b')"
    "ok \<longrightarrow> holds b' (res @ [0])" "G \<longrightarrow> granting f' \<and> ok"
    using progress_chain [OF assms(1-3)] assms(4,5) by auto
  obtain ok2 f2 b2 where t: "DynBuf_Trim f' b' = (ok2, f2, b2)" by (metis prod_cases3)
  have "G \<Longrightarrow> ok2" using DynBuf_Trim_holds(2) [of b' "res @ [0]" f'] ch t by auto
  moreover have "db_data b2 = Some (res @ [0]) \<and> unat (db_size b2 - 1) = length res" if "ok" "ok2"
  proof -
    have x: "db_data b2 = Some (res @ [0])" "unat (db_size b2) = length res + 1"
      using DynBuf_Trim_exact [of b' "res @ [0]" f' f2 b2] ch(2) t that by auto
    then have "db_size b2 \<noteq> 0" by auto
    then have "unat (db_size b2 - 1) = unat (db_size b2) - 1" by (simp add: unat_minus_one)
    with x show ?thesis by simp
  qed
  ultimately show ?thesis
    using ch t by (cases ok; cases ok2) (auto simp: Escape_finish_def returns_def DynBuf_Get_def DynBuf_GetSize_def)
qed

section \<open>Loops that replace single bytes\<close>

definition expand :: "(u8 \<Rightarrow> u8 list) \<Rightarrow> u8 list \<Rightarrow> u8 list" where
  "expand g s = concat (map g s)"

lemma expand_simps [simp]:
  "expand g [] = []" "expand g (x # xs) = g x @ expand g xs" "expand g (xs @ ys) = expand g xs @ expand g ys"
  by (simp_all add: expand_def)

lemma expand_take_Suc: "i < length s \<Longrightarrow> expand g (take (Suc i) s) = expand g (take i s) @ g (s ! i)"
  by (simp add: take_Suc_conv_app_nth)

lemma expand_take_length: "i \<le> n \<Longrightarrow> length (expand g (take i s)) \<le> length (expand g (take n s))"
  using take_add [of i "n - i" s] by simp

lemma expand_loop:
  assumes len: "n \<le> length buf" "length buf < 2 ^ 64"
    and body: "\<And>i f b start. i < n \<Longrightarrow> body i (f, b, start) =
      (if esc (buf ! i) then flush_chunks f b (chunk_at buf start (of_nat i) # cs (buf ! i)) (i + k)
       else Inr (Some (f, b, start)))"
    and cs: "\<And>x. list_all2 is_chunk (cs x) (bss x)"
    and k: "k = 0 \<or> k = 1"
    and g: "\<And>x. g x = (if esc x then concat (bss x) @ (if k = 0 then [x] else []) else [x])"
    and init: "progress G buf pre 0 s"
    and G: "G \<longrightarrow> length (pre @ expand g (take n buf)) < 2 ^ 64"
  shows "\<exists>r. for_nem body [0..<n] s = Inr r \<and>
    (\<forall>s'. r = Some s' \<longrightarrow> progress G buf (pre @ expand g (take n buf)) n s') \<and> (G \<longrightarrow> r \<noteq> None)"
proof (rule for_nem_upt [where I = "\<lambda>i. progress G buf (pre @ expand g (take i buf)) i"])
  show "progress G buf (pre @ expand g (take 0 buf)) 0 s" using init by simp
next
  fix i s assume i: "i < n" and p: "progress G buf (pre @ expand g (take i buf)) i s"
  obtain f b start where s: "s = (f, b, start)" by (cases s)
  have il: "i < length buf" using i len by simp
  show "\<exists>r. body i s = Inr r \<and> (\<forall>s'. r = Some s' \<longrightarrow> progress G buf (pre @ expand g (take (Suc i) buf)) (Suc i) s') \<and>
      (G \<longrightarrow> r \<noteq> None)"
  proof (cases "esc (buf ! i)")
    case False
    then show ?thesis
      using body [OF i] s progress_Suc [OF p [unfolded s] il] il g [of "buf ! i"] by (simp add: expand_take_Suc)
  next
    case True
    let ?out = "(pre @ expand g (take i buf)) @ concat (bss (buf ! i))"
    obtain r where r: "body i s = Inr r"
      "\<forall>s'. r = Some s' \<longrightarrow> (\<exists>f' b'. s' = (f', b', i + k) \<and> holds b' ?out \<and> (G \<longrightarrow> granting f'))"
      "G \<and> length ?out < 2 ^ 64 \<longrightarrow> r \<noteq> None"
      using flush_law [OF p [unfolded s] len(2) cs [of "buf ! i"], of "i + k"] body [OF i] s True by auto
    have "length ?out \<le> length (pre @ expand g (take n buf))"
      using expand_take_length [of "Suc i" n g buf] i il g [of "buf ! i"] True by (simp add: expand_take_Suc)
    moreover have "progress G buf (pre @ expand g (take (Suc i) buf)) (Suc i) (f', b', i + k)"
      if "holds b' ?out" "G \<longrightarrow> granting f'" for f' b'
      using k
    proof
      assume "k = 0"
      then show ?thesis
        using progress_Suc [OF progress_fresh [OF that, of i buf]] il g [of "buf ! i"] True
        by (simp add: expand_take_Suc)
    next
      assume "k = 1"
      then show ?thesis
        using progress_fresh [OF that, of "Suc i" buf] il g [of "buf ! i"] True by (simp add: expand_take_Suc)
    qed
    ultimately show ?thesis using r G by (intro exI [of _ r]) auto
  qed
qed simp

section \<open>Escaping\<close>

definition do_byte :: "u8 list \<Rightarrow> (u8 \<Rightarrow> bool) \<Rightarrow> u8 \<Rightarrow> u8 list" where
  "do_byte es tab x = (if tab x then es @ hex_escape x else [x])"

text \<open>A loop that expands bytes, followed by the common end.\<close>

lemma expand_finish:
  assumes "\<exists>r. for_nem body [0..<n] s = Inr r \<and>
      (\<forall>s'. r = Some s' \<longrightarrow> progress G buf (pre @ expand g (take n buf)) n s') \<and> (G \<longrightarrow> r \<noteq> None)"
    and "length buf < 2 ^ 64" and "list_all2 is_chunk cs bss"
    and "(pre @ expand g (take n buf)) @ concat bss = res @ [0]" and "G \<longrightarrow> length res + 1 < 2 ^ 64"
  shows "returns G res (bindR (for_nem body [0..<n] s) (\<lambda>r. case r of None \<Rightarrow> Inr None
       | Some (f, b, start) \<Rightarrow> Escape_finish f b (chunk_at buf start (of_nat n) # cs)))"
proof -
  obtain r where r: "for_nem body [0..<n] s = Inr r"
    "\<forall>s'. r = Some s' \<longrightarrow> progress G buf (pre @ expand g (take n buf)) n s'" "G \<longrightarrow> r \<noteq> None"
    using assms(1) by blast
  show ?thesis
  proof (cases r)
    case None
    then show ?thesis using r by (simp add: returns_def)
  next
    case (Some s')
    obtain f b start where s': "s' = (f, b, start)" by (cases s')
    then have "progress G buf (pre @ expand g (take n buf)) n (f, b, start)" using r(2) Some by simp
    from finish_law [OF this assms(2-5)] show ?thesis using r(1) Some s' by simp
  qed
qed

lemma Escape_DoString_returns:
  assumes "0 \<notin> set es" and "length es < 2 ^ 64" and "n \<le> length buf" and "length buf < 2 ^ 64"
    and "G \<longrightarrow> granting f \<and> length (expand (do_byte es tab) (take n buf)) + 1 < 2 ^ 64"
  shows "returns G (expand (do_byte es tab) (take n buf)) (Escape_DoString f (es @ 0 # rest) tab buf n)"
proof -
  let ?cs = "\<lambda>x. [(es @ 0 # rest, of_nat (length es)), bytes_chunk (hex_escape x)]"
  have "\<exists>r. for_nem (Escape_DoString_body (es @ 0 # rest) (length es) tab buf) [0..<n] (f, DynBuf_Init, 0) = Inr r \<and>
    (\<forall>s'. r = Some s' \<longrightarrow> progress G buf ([] @ expand (do_byte es tab) (take n buf)) n s') \<and> (G \<longrightarrow> r \<noteq> None)"
    by (rule expand_loop [where esc = tab and cs = ?cs and bss = "\<lambda>x. [es, hex_escape x]" and k = 1])
      (use assms in \<open>auto simp: Escape_DoString_body_def do_byte_def is_chunk_def bytes_chunk_def hex_escape_def
        progress_init\<close>)
  from expand_finish [OF this assms(4), of "[bytes_chunk [0]]" "[[0]]"] show ?thesis
    using assms(5) c_strlen_string [OF assms(1), of rest] by (simp add: Escape_DoString_def)
qed

definition bre_byte :: "u8 \<Rightarrow> u8 list" where
  "bre_byte x = (if bytesToEsc_BRE x then [92, x] else [x])"

lemma Escape_BRE_returns:
  assumes "n \<le> length buf" and "length buf < 2 ^ 64"
    and "G \<longrightarrow> granting f \<and> length (expand bre_byte (take n buf)) + 1 < 2 ^ 64"
  shows "returns G (expand bre_byte (take n buf)) (Escape_BRE f buf n)"
proof -
  have "\<exists>r. for_nem (Escape_BRE_body buf) [0..<n] (f, DynBuf_Init, 0) = Inr r \<and>
    (\<forall>s'. r = Some s' \<longrightarrow> progress G buf ([] @ expand bre_byte (take n buf)) n s') \<and> (G \<longrightarrow> r \<noteq> None)"
    by (rule expand_loop [where esc = bytesToEsc_BRE and cs = "\<lambda>x. [bytes_chunk [92]]" and bss = "\<lambda>x. [[92]]" and k = 0])
      (use assms in \<open>auto simp: Escape_BRE_body_def bre_byte_def progress_init\<close>)
  from expand_finish [OF this assms(2), of "[bytes_chunk [0]]" "[[0]]"] show ?thesis
    using assms(3) by (simp add: Escape_BRE_def)
qed

definition sh_byte :: "u8 \<Rightarrow> u8 list" where
  "sh_byte x = (if x = 39 then [39, 34, 39, 34, 39] else [x])"

lemma Escape_Sh_returns:
  assumes "n \<le> length buf" and "length buf < 2 ^ 64"
    and "G \<longrightarrow> granting f \<and> length (expand sh_byte (take n buf)) + 3 < 2 ^ 64"
  shows "returns G ([39] @ expand sh_byte (take n buf) @ [39]) (Escape_Sh f buf n)"
proof -
  obtain ok f' b' where start: "append_chain DynBuf_Append f DynBuf_Init [bytes_chunk [39]] = Inr (ok, f', b')"
    "ok \<longrightarrow> holds b' [39]" "granting f \<longrightarrow> granting f' \<and> ok"
    using dyn.chain_law [OF holds_Init, of "[bytes_chunk [39]]" "[[39]]" f] by auto
  show ?thesis
  proof (cases ok)
    case False
    then show ?thesis using start assms(3) by (auto simp: Escape_Sh_def flush_chunks_def returns_def)
  next
    case True
    then have init: "progress G buf [39] 0 (f', b', 0)"
      using start assms(3) by (intro progress_fresh) auto
    have "\<exists>r. for_nem (Escape_Sh_body buf) [0..<n] (f', b', 0) = Inr r \<and>
      (\<forall>s'. r = Some s' \<longrightarrow> progress G buf ([39] @ expand sh_byte (take n buf)) n s') \<and> (G \<longrightarrow> r \<noteq> None)"
      by (rule expand_loop [where esc = "\<lambda>x. x = 39" and cs = "\<lambda>x. [bytes_chunk [39, 34, 39, 34]]"
            and bss = "\<lambda>x. [[39, 34, 39, 34]]" and k = 0])
        (use assms init in \<open>auto simp: Escape_Sh_body_def sh_byte_def\<close>)
    from expand_finish [OF this assms(2), of "[bytes_chunk [39], bytes_chunk [0]]" "[[39], [0]]"] show ?thesis
      using assms(3) True start by (simp add: Escape_Sh_def flush_chunks_def)
  qed
qed

end
