(* ===== verification/Escape_Read.thy ===== *)
theory Escape_Read
  imports Escape_Laws
begin

text \<open>
  The unescaping functions and the readers of escaped text: \<^verbatim>\<open>Escape_Undo\<close> and \<^verbatim>\<open>Escape_AnsiToUnix\<close> compute
  their list-recursive reference functions, \<^verbatim>\<open>Escape_Undo\<close> inverts \<^verbatim>\<open>Escape_Do\<close>, a shell reads the output of
  \<^verbatim>\<open>Escape_Sh\<close> as one word, and a basic regular expression reads the output of \<^verbatim>\<open>Escape_BRE\<close> as the literal bytes.
\<close>

section \<open>Looking back from a loop\<close>

lemma progress_extend:
  "progress G buf out j (f, b, start) \<Longrightarrow> j \<le> k \<Longrightarrow> k \<le> length buf \<Longrightarrow>
   progress G buf (out @ slice buf j k) k (f, b, start)"
  by (auto simp: progress_def slice_append)

lemma drop_take_Cons: "i < n \<Longrightarrow> n \<le> length buf \<Longrightarrow> drop i (take n buf) = buf ! i # drop (Suc i) (take n buf)"
  by (metis Cons_nth_drop_Suc length_take min.absorb2 nth_take)

lemma drop_take_slice: "j \<le> n \<Longrightarrow> n \<le> length buf \<Longrightarrow> drop j (take n buf) = slice buf j n"
  by (simp add: slice_def drop_take)

lemma word64_back: "k \<le> i \<Longrightarrow> (of_nat i :: u64) - of_nat k = of_nat (i - k)"
  by (simp add: of_nat_diff)

section \<open>Hexadecimal unescaping\<close>

definition hexv :: "u8 \<Rightarrow> int" where
  "hexv x = Hex2Dec ! unat x"

text \<open>
  The reference: an escape byte with two digits stands for one byte; an escape byte that is not
  followed by two digits stands for itself, together with the bytes that were looked at.
\<close>

fun undo_bytes :: "u8 \<Rightarrow> u8 list \<Rightarrow> u8 list" where
  "undo_bytes e (a # h # l # xs) =
     (if uint a \<noteq> sint e then a # undo_bytes e (h # l # xs)
      else if hexv h < 0 then a # h # undo_bytes e (l # xs)
      else if hexv l < 0 then a # h # l # undo_bytes e xs
      else word_of_int (push_bit 4 (hexv h) OR hexv l) # undo_bytes e xs)"
| "undo_bytes e xs = xs"

lemma undo_bytes_plain: "uint a \<noteq> sint e \<Longrightarrow> undo_bytes e (a # xs) = a # undo_bytes e xs"
  by (cases xs; cases "tl xs") auto

lemma undo_bytes_no_digit: "hexv h < 0 \<Longrightarrow> uint a = sint e \<Longrightarrow> undo_bytes e (a # h # xs) = a # h # undo_bytes e xs"
  by (cases xs) auto

lemma undo_bytes_short: "length xs \<le> 2 \<Longrightarrow> undo_bytes e xs = xs"
  by (induction e xs rule: undo_bytes.induct) auto

lemma length_undo_bytes: "length (undo_bytes e xs) \<le> length xs"
  by (induction e xs rule: undo_bytes.induct) auto

text \<open>
  The invariant of the loop: \<open>state\<close> bytes of a possible escape sequence have been seen, and what was
  in front of them has been produced.
\<close>

definition undo_inv :: "bool \<Rightarrow> u8 \<Rightarrow> u8 list \<Rightarrow> nat \<Rightarrow> nat \<Rightarrow> undo_state \<Rightarrow> bool" where
  "undo_inv G e buf n i = (\<lambda>(f, b, start, state, h). state \<le> 2 \<and> state \<le> i \<and>
     (\<exists>out. progress G buf out (i - state) (f, b, start) \<and>
        undo_bytes e (take n buf) = out @ undo_bytes e (drop (i - state) (take n buf))) \<and>
     (0 < state \<longrightarrow> uint (buf ! (i - state)) = sint e) \<and>
     (state = 2 \<longrightarrow> h = hexv (buf ! (i - 1)) \<and> 0 \<le> h))"

lemma undo_invI:
  assumes "progress G buf out j (f, b, start)" and "i = j + state" and "state \<le> 2"
    and "undo_bytes e (take n buf) = out @ undo_bytes e (drop j (take n buf))"
    and "0 < state \<Longrightarrow> uint (buf ! j) = sint e"
    and "state = 2 \<Longrightarrow> h = hexv (buf ! (i - 1)) \<and> 0 \<le> h"
  shows "undo_inv G e buf n i (f, b, start, state, h)"
  using assms by (auto simp: undo_inv_def)

lemma undo_step_0:
  assumes "undo_inv G e buf n i (f, b, start, 0, h)" and "i < n" and "n \<le> length buf"
  shows "\<exists>s'. Escape_Undo_body e buf i (f, b, start, 0, h) = Inr (Some s') \<and> undo_inv G e buf n (Suc i) s'"
proof -
  obtain out where out: "progress G buf out i (f, b, start)"
    "undo_bytes e (take n buf) = out @ undo_bytes e (drop i (take n buf))"
    using assms(1) by (auto simp: undo_inv_def)
  note d = drop_take_Cons [OF assms(2,3)]
  show ?thesis
  proof (cases "uint (buf ! i) = sint e")
    case True
    then have "undo_inv G e buf n (Suc i) (f, b, start, 1, h)" using out by (intro undo_invI) auto
    then show ?thesis using True assms(2,3) by (simp add: Escape_Undo_body_def)
  next
    case False
    then have "undo_inv G e buf n (Suc i) (f, b, start, 0, h)"
      using progress_Suc [OF out(1)] out(2) assms(2,3) d by (intro undo_invI) (auto simp: undo_bytes_plain)
    then show ?thesis using False assms(2,3) by (simp add: Escape_Undo_body_def)
  qed
qed

lemma undo_step_1:
  assumes "undo_inv G e buf n i (f, b, start, 1, h)" and "i < n" and "n \<le> length buf"
  shows "\<exists>s'. Escape_Undo_body e buf i (f, b, start, 1, h) = Inr (Some s') \<and> undo_inv G e buf n (Suc i) s'"
proof -
  obtain j where j: "i = Suc j" using assms(1) by (cases i) (auto simp: undo_inv_def)
  obtain out where out: "progress G buf out j (f, b, start)" "uint (buf ! j) = sint e"
    "undo_bytes e (take n buf) = out @ undo_bytes e (drop j (take n buf))"
    using assms(1) j by (auto simp: undo_inv_def)
  have d: "drop j (take n buf) = buf ! j # buf ! i # drop (Suc i) (take n buf)"
    using drop_take_Cons [of j n buf] drop_take_Cons [OF assms(2,3)] assms(2,3) j by simp
  show ?thesis
  proof (cases "0 \<le> hexv (buf ! i)")
    case True
    then have "undo_inv G e buf n (Suc i) (f, b, start, 2, hexv (buf ! i))"
      using out j by (intro undo_invI) auto
    then show ?thesis using True assms(2,3) by (simp add: Escape_Undo_body_def hexv_def)
  next
    case False
    have "slice buf j (Suc i) = [buf ! j, buf ! i]" using j assms(2,3) by (simp add: slice_Suc)
    with False have "undo_inv G e buf n (Suc i) (f, b, start, 0, hexv (buf ! i))"
      using progress_extend [OF out(1), of "Suc i"] out(2,3) assms(2,3) d j
      by (intro undo_invI) (auto simp: undo_bytes_no_digit)
    then show ?thesis using False assms(2,3) by (simp add: Escape_Undo_body_def hexv_def)
  qed
qed

lemma undo_step_2:
  assumes "undo_inv G e buf n i (f, b, start, 2, h)" and "i < n" and "n \<le> length buf" and "length buf < 2 ^ 64"
  shows "\<exists>r. Escape_Undo_body e buf i (f, b, start, 2, h) = Inr r \<and>
    (\<forall>s'. r = Some s' \<longrightarrow> undo_inv G e buf n (Suc i) s') \<and> (G \<longrightarrow> r \<noteq> None)"
proof -
  obtain j where j: "i = Suc (Suc j)" using assms(1) by (cases i; cases "i - 1") (auto simp: undo_inv_def)
  obtain out where out: "progress G buf out j (f, b, start)" "uint (buf ! j) = sint e" "h = hexv (buf ! Suc j)" "0 \<le> h"
    "undo_bytes e (take n buf) = out @ undo_bytes e (drop j (take n buf))"
    using assms(1) j by (auto simp: undo_inv_def)
  have d: "drop j (take n buf) = buf ! j # buf ! Suc j # buf ! i # drop (Suc i) (take n buf)"
    using drop_take_Cons [of j n buf] drop_take_Cons [of "Suc j" n buf] drop_take_Cons [OF assms(2,3)] assms(2,3) j
    by simp
  show ?thesis
  proof (cases "0 \<le> hexv (buf ! i)")
    case False
    have "slice buf j (Suc i) = [buf ! j, buf ! Suc j, buf ! i]" using j assms(2,3) by (simp add: slice_Suc)
    with False have "undo_inv G e buf n (Suc i) (f, b, start, 0, h)"
      using progress_extend [OF out(1), of "Suc i"] out(2-) assms(2,3) d j by (intro undo_invI) auto
    then show ?thesis using False assms(2,3) by (simp add: Escape_Undo_body_def hexv_def)
  next
    case True
    let ?x = "word_of_int (push_bit 4 h OR hexv (buf ! i)) :: u8"
    have bk: "(of_nat i :: u64) - 2 = of_nat j" using word64_back [of 2 i] j by simp
    have u: "undo_bytes e (take n buf) = (out @ [?x]) @ undo_bytes e (drop (Suc i) (take n buf))"
      using out True d by simp
    have len: "length (out @ [?x]) < 2 ^ 64"
      using u length_undo_bytes [of e "take n buf"] assms(3,4) by simp
    obtain r where r: "flush_chunks f b [chunk_at buf start (of_nat j), bytes_chunk [?x]] (Suc i) = Inr r"
      "\<forall>s'. r = Some s' \<longrightarrow> (\<exists>f' b'. s' = (f', b', Suc i) \<and> holds b' (out @ [?x]) \<and> (G \<longrightarrow> granting f'))"
      "G \<longrightarrow> r \<noteq> None"
      using flush_law [OF out(1) assms(4), of "[bytes_chunk [?x]]" "[[?x]]" "Suc i"] len by auto
    have "undo_inv G e buf n (Suc i) (f', b', Suc i, 0, h)" if "holds b' (out @ [?x])" "G \<longrightarrow> granting f'" for f' b'
      using progress_fresh [OF that, of "Suc i" buf] u assms(2,3) by (intro undo_invI) auto
    then show ?thesis
      using r True assms(2,3) bk
      by (intro exI [of _ "map_option (\<lambda>(f, b, start). (f, b, start, 0, h)) r"])
        (auto simp: Escape_Undo_body_def hexv_def)
  qed
qed

lemma undo_inv_end:
  assumes "undo_inv G e buf n n (f, b, start, state, h)" and "n \<le> length buf"
  shows "progress G buf (undo_bytes e (take n buf)) n (f, b, start)"
proof -
  obtain out where out: "state \<le> 2" "progress G buf out (n - state) (f, b, start)"
    "undo_bytes e (take n buf) = out @ undo_bytes e (drop (n - state) (take n buf))"
    using assms(1) by (auto simp: undo_inv_def)
  have "undo_bytes e (drop (n - state) (take n buf)) = slice buf (n - state) n"
    using out(1) assms(2) by (simp add: drop_take_slice [symmetric] undo_bytes_short)
  then show ?thesis using progress_extend [OF out(2), of n] out(3) assms(2) by simp
qed

lemma Escape_Undo_returns:
  assumes "n \<le> length buf" and "length buf + 1 < 2 ^ 64"
  shows "returns (granting f) (undo_bytes e (take n buf)) (Escape_Undo f e buf n)"
proof -
  have len: "length buf < 2 ^ 64" using assms by simp
  have "\<exists>r. for_nem (Escape_Undo_body e buf) [0..<n] (f, DynBuf_Init, 0, 0, 0) = Inr r \<and>
    (\<forall>s'. r = Some s' \<longrightarrow> undo_inv (granting f) e buf n n s') \<and> (granting f \<longrightarrow> r \<noteq> None)"
  proof (rule for_nem_upt [where I = "undo_inv (granting f) e buf n"])
    show "undo_inv (granting f) e buf n 0 (f, DynBuf_Init, 0, 0, 0)"
      by (rule undo_invI [where out = "[]" and j = 0]) (auto simp: progress_init)
  next
    fix i s assume i: "i < n" and inv: "undo_inv (granting f) e buf n i s"
    obtain f' b start state h where s: "s = (f', b, start, state, h)" by (cases s)
    then consider "state = 0" | "state = 1" | "state = 2" using inv by (fastforce simp: undo_inv_def)
    then show "\<exists>r. Escape_Undo_body e buf i s = Inr r \<and> (\<forall>s'. r = Some s' \<longrightarrow> undo_inv (granting f) e buf n (Suc i) s') \<and>
        (granting f \<longrightarrow> r \<noteq> None)"
    proof cases
      case 1
      then show ?thesis using undo_step_0 [of "granting f" e buf n i f' b start h] inv i assms(1) s by auto
    next
      case 2
      then show ?thesis using undo_step_1 [of "granting f" e buf n i f' b start h] inv i assms(1) s by auto
    next
      case 3
      then show ?thesis using undo_step_2 [of "granting f" e buf n i f' b start h] inv i assms(1) len s by auto
    qed
  qed simp
  then obtain r where r: "for_nem (Escape_Undo_body e buf) [0..<n] (f, DynBuf_Init, 0, 0, 0) = Inr r"
    "\<forall>s'. r = Some s' \<longrightarrow> undo_inv (granting f) e buf n n s'" "granting f \<longrightarrow> r \<noteq> None" by blast
  show ?thesis
  proof (cases r)
    case None
    then show ?thesis using r by (simp add: Escape_Undo_def returns_def)
  next
    case (Some s')
    obtain f' b start state h where s': "s' = (f', b, start, state, h)" by (cases s')
    then have "progress (granting f) buf (undo_bytes e (take n buf)) n (f', b, start)"
      using undo_inv_end [OF _ assms(1)] r(2) Some by simp
    from finish_law [OF this len, of "[bytes_chunk [0]]" "[[0]]" "undo_bytes e (take n buf)"] show ?thesis
      using r(1) Some s' assms length_undo_bytes [of e "take n buf"] by (simp add: Escape_Undo_def)
  qed
qed

lemma Escape_UndoFixed_returns:
  assumes "n \<le> length buf" and "length buf + 1 < 2 ^ 64" and "unat sz \<le> length dest"
  shows "\<exists>ok dest'. Escape_UndoFixed f e buf n dest sz = Inr (ok, dest') \<and>
    dest' = (if ok then patch dest 0 (undo_bytes e (take n buf) @ [0]) else dest) \<and>
    (granting f \<longrightarrow> ok = (length (undo_bytes e (take n buf)) < unat sz))"
proof -
  let ?out = "undo_bytes e (take n buf)"
  obtain x where x: "Escape_Undo f e buf n = Inr x" "granting f \<longrightarrow> x \<noteq> None"
    "\<forall>blk k. x = Some (blk, k) \<longrightarrow> blk = ?out @ [0] \<and> unat k = length ?out"
    using Escape_Undo_returns [OF assms(1,2), of f e] by (auto simp: returns_def)
  show ?thesis
  proof (cases x)
    case None
    then show ?thesis using x by (auto simp: Escape_UndoFixed_def)
  next
    case (Some p)
    obtain k where p: "p = (?out @ [0], k)" "unat k = length ?out" using x(3) Some by (cases p) auto
    have "unat (k + 1) = length ?out + 1"
      using unat_add_bound [of k 1] p(2) length_undo_bytes [of e "take n buf"] assms(1,2) by simp
    then show ?thesis
      using x(1) Some p assms(3) by (auto simp: Escape_UndoFixed_def word_le_nat_alt read_at_def write_at_def)
  qed
qed

section \<open>Round trip\<close>

lemma hex_digits: "list_all (\<lambda>n. hexv (Dec2Hex ! n) = int n) [0..<16]"
  by code_simp

lemma hexv_Dec2Hex: "n < 16 \<Longrightarrow> hexv (Dec2Hex ! n) = int n"
  using hex_digits by (simp add: list_all_iff)

lemma nibbles_eq: "word_of_int (push_bit 4 (int (unat (drop_bit 4 x))) OR int (unat (x AND 0xF))) = (x :: u8)"
proof -
  have "push_bit 4 (int (unat (drop_bit 4 x))) OR int (unat (x AND 0xF)) =
      uint (push_bit 4 (drop_bit 4 x) OR (x AND 0xF))"
  proof (rule bit_eqI)
    fix n
    have "bit x n \<Longrightarrow> n < 8" using bit_imp_le_length [of x n] by simp
    then show "bit (push_bit 4 (int (unat (drop_bit 4 x))) OR int (unat (x AND 0xF))) n =
        bit (uint (push_bit 4 (drop_bit 4 x) OR (x AND 0xF))) n"
      by (auto simp: bit_simps)
  qed
  also have "push_bit 4 (drop_bit 4 x) OR (x AND 0xF) = x"
  proof -
    have m: "(0xF :: u8) = mask 4" by (simp add: mask_eq_exp_minus_1)
    show ?thesis unfolding m by (rule bit_word_eqI) (auto simp: bit_simps)
  qed
  finally show ?thesis by simp
qed

lemma sint_ascii:
  assumes "unat (e :: u8) < 128"
  shows "sint e = uint e"
proof -
  have "uint e < 128" using assms by (metis of_nat_less_iff of_nat_numeral uint_nat)
  then show ?thesis
    by (simp only: sint_uint) (rule signed_take_bit_int_eq_self, simp_all add: order_trans [OF _ uint_ge_0])
qed

lemma undo_bytes_do:
  assumes "unat e < 128" and "tab e"
  shows "undo_bytes e (expand (do_byte [e] tab) s) = s"
proof -
  have "uint a = sint e \<longleftrightarrow> a = e" for a using sint_ascii [OF assms(1)] by (simp add: word_uint_eq_iff)
  note m = this
  show ?thesis
  proof (induction s)
    case (Cons x s)
    have "unat (drop_bit 4 x) < 16" "unat (x AND 0xF) < 16"
      using unsigned_less [of x, where 'a = nat] word_and_le1 [of x "0xF"]
      by (simp_all add: drop_bit_eq_div unat_div_distrib word_le_nat_alt)
    then have "hexv (Dec2Hex ! unat (drop_bit 4 x)) = int (unat (drop_bit 4 x))"
      "hexv (Dec2Hex ! unat (x AND 0xF)) = int (unat (x AND 0xF))" by (simp_all add: hexv_Dec2Hex)
    then have "undo_bytes e (e # hex_escape x @ rest) = x # undo_bytes e rest" for rest
      using m [of e] nibbles_eq [of x] by (simp add: hex_escape_def)
    moreover have "x \<noteq> e \<Longrightarrow> undo_bytes e (x # rest) = x # undo_bytes e rest" for rest
      using m [of x] by (intro undo_bytes_plain) simp
    ultimately show ?case
      using Cons.IH assms(2) by (cases "x = e"; cases "tab x") (simp_all add: do_byte_def [of "[e]" tab x] do_byte_def [of "[e]" tab e])
  qed simp
qed

lemma length_expand: "(\<And>x. length (g x) \<le> k) \<Longrightarrow> length (expand g s) \<le> k * length s"
  by (induction s) (auto intro: add_mono)

text \<open>
  C10. \<^verbatim>\<open>Escape_Undo\<close> inverts \<^verbatim>\<open>Escape_Do\<close> for every seven-bit escape byte that the table marks: whatever else the
  table marks, whatever the bytes are and whichever allocations fail, both calls return, the null pointer
  only when an allocation was refused, and the unescaped block is the input with a terminator and its size.
\<close>

theorem escape_do_undo:
  assumes "e \<noteq> 0" and "unat e < 128" and "tab e" and "3 * length s + 2 < 2 ^ 64"
  shows "\<exists>r. Escape_Do f e tab s (length s) = Inr r \<and> (granting f \<longrightarrow> r \<noteq> None) \<and>
    (\<forall>blk n. r = Some (blk, n) \<longrightarrow> (\<exists>q. Escape_Undo g e blk (unat n) = Inr q \<and> (granting g \<longrightarrow> q \<noteq> None) \<and>
      (\<forall>blk' n'. q = Some (blk', n') \<longrightarrow> blk' = s @ [0] \<and> unat n' = length s)))"
proof -
  let ?out = "expand (do_byte [e] tab) s"
  have len: "length ?out \<le> 3 * length s"
    by (rule length_expand) (simp add: do_byte_def hex_escape_def)
  obtain r where r: "Escape_Do f e tab s (length s) = Inr r" "granting f \<longrightarrow> r \<noteq> None"
    "\<forall>blk n. r = Some (blk, n) \<longrightarrow> blk = ?out @ [0] \<and> unat n = length ?out"
    using Escape_DoString_returns [of "[e]" "length s" s "granting f" f tab "[]"] assms(1,4) len
    by (auto simp: Escape_Do_def returns_def)
  moreover obtain q where "Escape_Undo g e (?out @ [0]) (length ?out) = Inr q" "granting g \<longrightarrow> q \<noteq> None"
    "\<forall>blk' n'. q = Some (blk', n') \<longrightarrow> blk' = s @ [0] \<and> unat n' = length s"
    using Escape_Undo_returns [of "length ?out" "?out @ [0]" g e] len assms(4) undo_bytes_do [of e tab s] assms(2,3)
    by (auto simp: returns_def)
  ultimately show ?thesis by (intro exI [of _ r]) auto
qed

theorem escape_do_undo_witness:
  "\<exists>blk n q. Escape_Do (\<lambda>n. True) 37 (\<lambda>x. x = 37 \<or> x = 47) [97, 47, 37, 52] 4 = Inr (Some (blk, n)) \<and>
     Escape_Undo (\<lambda>n. True) 37 blk (unat n) = Inr (Some ([97, 47, 37, 52, 0], q))"
proof -
  let ?s = "[97, 47, 37, 52] :: u8 list" and ?f = "\<lambda>n :: nat. True" and ?tab = "\<lambda>x :: u8. x = 37 \<or> x = 47"
  have g: "granting ?f" by (simp add: granting_def)
  obtain r where r: "Escape_Do ?f 37 ?tab ?s (length ?s) = Inr r" "r \<noteq> None"
    "\<forall>blk n. r = Some (blk, n) \<longrightarrow> (\<exists>q. Escape_Undo ?f 37 blk (unat n) = Inr q \<and> q \<noteq> None \<and>
      (\<forall>blk' n'. q = Some (blk', n') \<longrightarrow> blk' = ?s @ [0] \<and> unat n' = length ?s))"
    using escape_do_undo [of 37 ?tab ?s ?f ?f] g by (simp only: simp_thms) auto
  then obtain blk n where bn: "r = Some (blk, n)" by auto
  with r(3) obtain q where "Escape_Undo ?f 37 blk (unat n) = Inr (Some q)" "fst q = ?s @ [0]" by fastforce
  then show ?thesis using r(1) bn by (cases q) (auto simp: eval_nat_numeral)
qed

text \<open>
  With an escape byte from 128 on the comparison of the unescaping loop never holds, and nothing is unescaped.
\<close>

lemma undo_bytes_signed:
  assumes "128 \<le> unat e"
  shows "undo_bytes e xs = xs"
proof -
  have "uint e < 256" using unsigned_less [of e, where 'a = int] by simp
  moreover have "128 \<le> uint e" using assms by (metis of_nat_le_iff of_nat_numeral uint_nat)
  ultimately have "uint e div 128 = 1" by simp
  then have "bit (uint e) 7" by (simp add: bit_iff_odd)
  then have "sint e < 0" by (simp only: sint_uint) (simp add: signed_take_bit_negative_iff)
  then have "uint a \<noteq> sint e" for a :: u8 using uint_ge_0 [of a] by linarith
  then show ?thesis by (induction e xs rule: undo_bytes.induct) auto
qed

section \<open>Shell words\<close>

text \<open>
  How a shell reads a word that is made of quoted parts: between single quotes every byte stands for
  itself; between double quotes the dollar sign, the backquote and the backslash do not. An unquoted
  byte, where words are split and expanded, is not part of such a word, and an open quote is an error.
\<close>

datatype sh_mode = Unquoted | SingleQuoted | DoubleQuoted

fun sh_word :: "sh_mode \<Rightarrow> u8 list \<Rightarrow> u8 list option" where
  "sh_word m [] = (if m = Unquoted then Some [] else None)"
| "sh_word Unquoted (x # xs) =
     (if x = 39 then sh_word SingleQuoted xs else if x = 34 then sh_word DoubleQuoted xs else None)"
| "sh_word SingleQuoted (x # xs) =
     (if x = 39 then sh_word Unquoted xs else map_option (\<lambda>w. x # w) (sh_word SingleQuoted xs))"
| "sh_word DoubleQuoted (x # xs) =
     (if x = 34 then sh_word Unquoted xs
      else if x \<in> {36, 92, 96} then None
      else map_option (\<lambda>w. x # w) (sh_word DoubleQuoted xs))"

lemma sh_word_expand: "sh_word SingleQuoted (expand sh_byte s @ [39]) = Some s"
  by (induction s) (simp_all add: sh_byte_def)

text \<open>
  C24. \<^verbatim>\<open>Escape_Sh\<close> passes any bytes verbatim: under every pattern of allocation failures it returns the null
  pointer, only after a refusal, or a terminated string that a shell reads as one word with exactly the bytes
  of the input, whatever quotes, dollar signs, separators or backslashes they contain.
\<close>

theorem escape_sh_verbatim:
  assumes "5 * length s + 3 < 2 ^ 64"
  shows "\<exists>r. Escape_Sh f s (length s) = Inr r \<and> (granting f \<longrightarrow> r \<noteq> None) \<and>
    (\<forall>blk n. r = Some (blk, n) \<longrightarrow> (\<exists>w. blk = w @ [0] \<and> unat n = length w \<and> sh_word Unquoted w = Some s))"
proof -
  have "length (expand sh_byte s) \<le> 5 * length s" by (rule length_expand) (simp add: sh_byte_def)
  then obtain r where "Escape_Sh f s (length s) = Inr r" "granting f \<longrightarrow> r \<noteq> None"
    "\<forall>blk n. r = Some (blk, n) \<longrightarrow> blk = ([39] @ expand sh_byte s @ [39]) @ [0] \<and>
      unat n = length ([39] @ expand sh_byte s @ [39])"
    using Escape_Sh_returns [of "length s" s "granting f" f] assms by (simp add: returns_def) auto
  then show ?thesis using sh_word_expand [of s] by (intro exI [of _ r]) auto
qed

theorem escape_sh_verbatim_witness:
  "\<exists>blk n w. Escape_Sh (\<lambda>n. True) [97, 39, 36] (length [97, 39, 36 :: u8]) = Inr (Some (blk, n)) \<and>
     blk = w @ [0] \<and> sh_word Unquoted w = Some [97, 39, 36]"
proof -
  have "granting (\<lambda>n. True)" by (simp add: granting_def)
  then obtain r where r: "Escape_Sh (\<lambda>n. True) [97, 39, 36] (length [97, 39, 36 :: u8]) = Inr r" "r \<noteq> None"
    "\<forall>blk n. r = Some (blk, n) \<longrightarrow> (\<exists>w. blk = w @ [0] \<and> unat n = length w \<and> sh_word Unquoted w = Some [97, 39, 36])"
    using escape_sh_verbatim [of "[97, 39, 36]" "\<lambda>n. True"] by (simp only: simp_thms) auto
  then obtain blk n where "r = Some (blk, n)" by auto
  with r show ?thesis by blast
qed

section \<open>Regular expressions and line ends\<close>

text \<open>
  The literal that a basic regular expression stands for, when it is one: a backslash in front of one of the
  special bytes stands for that byte, and a special byte alone is an operator.
\<close>

fun bre_literal :: "u8 list \<Rightarrow> u8 list option" where
  "bre_literal [] = Some []"
| "bre_literal [x] = (if bytesToEsc_BRE x then None else Some [x])"
| "bre_literal (x # y # xs) =
     (if x = 92 then (if bytesToEsc_BRE y then map_option (\<lambda>w. y # w) (bre_literal xs) else None)
      else if bytesToEsc_BRE x then None
      else map_option (\<lambda>w. x # w) (bre_literal (y # xs)))"

lemma bre_literal_plain: "\<not> bytesToEsc_BRE x \<Longrightarrow> bre_literal (x # xs) = map_option (\<lambda>w. x # w) (bre_literal xs)"
  by (cases xs) (auto simp: bytesToEsc_BRE_def)

lemma bre_literal_expand: "bre_literal (expand bre_byte s) = Some s"
  by (induction s) (auto simp: bre_byte_def bre_literal_plain)

lemma Escape_BRE_literal:
  assumes "2 * length s + 2 < 2 ^ 64"
  shows "\<exists>r. Escape_BRE f s (length s) = Inr r \<and> (granting f \<longrightarrow> r \<noteq> None) \<and>
    (\<forall>blk n. r = Some (blk, n) \<longrightarrow> (\<exists>w. blk = w @ [0] \<and> unat n = length w \<and> bre_literal w = Some s))"
proof -
  have "length (expand bre_byte s) \<le> 2 * length s" by (rule length_expand) (simp add: bre_byte_def)
  then obtain r where "Escape_BRE f s (length s) = Inr r" "granting f \<longrightarrow> r \<noteq> None"
    "\<forall>blk n. r = Some (blk, n) \<longrightarrow> blk = expand bre_byte s @ [0] \<and> unat n = length (expand bre_byte s)"
    using Escape_BRE_returns [of "length s" s "granting f" f] assms by (simp add: returns_def) auto
  then show ?thesis using bre_literal_expand [of s] by (intro exI [of _ r]) auto
qed

fun unix_lines :: "u8 list \<Rightarrow> u8 list" where
  "unix_lines (x # y # xs) = (if x = 13 \<and> y = 10 then 10 # unix_lines xs else x # unix_lines (y # xs))"
| "unix_lines xs = xs"

lemma unix_lines_plain: "x \<noteq> 13 \<Longrightarrow> unix_lines (x # xs) = x # unix_lines xs"
  by (cases xs) auto

lemma length_unix_lines: "length (unix_lines xs) \<le> length xs"
  by (induction xs rule: unix_lines.induct) auto

definition ansi_inv :: "bool \<Rightarrow> u8 list \<Rightarrow> nat \<Rightarrow> nat \<Rightarrow> grants \<times> DynBuf \<times> nat \<times> nat \<Rightarrow> bool" where
  "ansi_inv G buf n i = (\<lambda>(f, b, start, state). state \<le> 1 \<and> state \<le> i \<and>
     (\<exists>out. progress G buf out (i - state) (f, b, start) \<and>
        unix_lines (take n buf) = out @ unix_lines (drop (i - state) (take n buf))) \<and>
     (state = 1 \<longrightarrow> buf ! (i - 1) = 13))"

lemma ansi_invI:
  assumes "progress G buf out j (f, b, start)" and "i = j + state" and "state \<le> 1"
    and "unix_lines (take n buf) = out @ unix_lines (drop j (take n buf))" and "state = 1 \<Longrightarrow> buf ! j = 13"
  shows "ansi_inv G buf n i (f, b, start, state)"
  using assms by (auto simp: ansi_inv_def)

lemma flush_open:
  assumes "progress G buf out i (f, b, start)" and "length buf < 2 ^ 64"
  shows "\<exists>r. flush_chunks f b [chunk_at buf start (of_nat i)] start' = Inr r \<and>
    (\<forall>s'. r = Some s' \<longrightarrow> (\<exists>f' b'. s' = (f', b', start') \<and> holds b' out \<and> (G \<longrightarrow> granting f'))) \<and>
    (G \<and> length out < 2 ^ 64 \<longrightarrow> r \<noteq> None)"
  using flush_law [OF assms, of "[]" "[]" start'] by (simp only: list.rel_inject concat.simps append_Nil2)

text \<open>A byte that does not complete a line end is looked at from the first state.\<close>

lemma ansi_look:
  assumes "progress G buf out i (f, b, start)" and "i < n" and "n \<le> length buf"
    and "unix_lines (take n buf) = out @ unix_lines (drop i (take n buf))"
  shows "ansi_inv G buf n (Suc i) (f, b, start, if buf ! i = 13 then 1 else 0)"
proof (cases "buf ! i = 13")
  case True
  then show ?thesis using assms by (simp add: ansi_invI)
next
  case False
  then show ?thesis
    using assms progress_Suc [OF assms(1)] drop_take_Cons [OF assms(2,3)]
    by (intro ansi_invI [where out = "out @ [buf ! i]" and j = "Suc i"]) (auto simp: unix_lines_plain)
qed

lemma ansi_step:
  assumes "ansi_inv G buf n i (f, b, start, state)" and "i < n" and "n \<le> length buf" and "length buf < 2 ^ 64"
  shows "\<exists>r. Escape_AnsiToUnix_body buf i (f, b, start, state) = Inr r \<and>
    (\<forall>s'. r = Some s' \<longrightarrow> ansi_inv G buf n (Suc i) s') \<and> (G \<longrightarrow> r \<noteq> None)"
proof -
  obtain out where out: "progress G buf out (i - state) (f, b, start)" "state \<le> 1" "state \<le> i"
    "unix_lines (take n buf) = out @ unix_lines (drop (i - state) (take n buf))" "state = 1 \<longrightarrow> buf ! (i - 1) = 13"
    using assms(1) by (auto simp: ansi_inv_def)
  note d = drop_take_Cons [OF assms(2,3)]
  have d1: "drop (i - 1) (take n buf) = buf ! (i - 1) # buf ! i # drop (Suc i) (take n buf)" if "state = 1"
    using drop_take_Cons [of "i - 1" n buf] d out(3) assms(2,3) that by simp
  show ?thesis
  proof (cases "state = 1 \<and> buf ! i = 10")
    case True
    have bk: "(of_nat i :: u64) - 1 = of_nat (i - 1)" using word64_back [of 1 i] True out(3) by simp
    have u: "unix_lines (take n buf) = (out @ [10]) @ unix_lines (drop (Suc i) (take n buf))"
      using out d1 True by simp
    have len: "length out < 2 ^ 64" using u length_unix_lines [of "take n buf"] assms(3,4) by simp
    have p: "progress G buf out (i - 1) (f, b, start)" using out(1) True by simp
    from flush_open [OF p assms(4), of i] obtain r where
      r: "flush_chunks f b [chunk_at buf start (of_nat (i - 1))] i = Inr r \<and>
        (\<forall>s'. r = Some s' \<longrightarrow> (\<exists>f' b'. s' = (f', b', i) \<and> holds b' out \<and> (G \<longrightarrow> granting f'))) \<and>
        (G \<and> length out < 2 ^ 64 \<longrightarrow> r \<noteq> None)" ..
    have "ansi_inv G buf n (Suc i) (f', b', i, 0)" if "holds b' out" "G \<longrightarrow> granting f'" for f' b'
    proof (rule ansi_invI)
      have "progress G buf out i (f', b', i)" using that assms(2,3) by (intro progress_fresh) auto
      from progress_Suc [OF this] show "progress G buf (out @ [10]) (Suc i) (f', b', i)" using True assms(2,3) by simp
    qed (use u in simp_all)
    then show ?thesis
      using r len True assms(2,3) bk
      by (intro exI [of _ "map_option (\<lambda>(f, b, start). (f, b, start, 0)) r"]) (auto simp: Escape_AnsiToUnix_body_def)
  next
    case False
    have "\<exists>out'. progress G buf out' i (f, b, start) \<and> unix_lines (take n buf) = out' @ unix_lines (drop i (take n buf))"
    proof (cases "state = 1")
      case True
      have "Suc (i - 1) = i" using True out(3) by simp
      then have "progress G buf (out @ [13]) i (f, b, start)"
        using progress_Suc [of G buf out "i - 1" f b start] out True assms(2,3) by simp
      moreover have "unix_lines (drop (i - 1) (take n buf)) = 13 # unix_lines (drop i (take n buf))"
        using d1 d True False out(5) by simp
      ultimately show ?thesis using out(4) True by auto
    next
      case False
      then have "state = 0" using out(2) by simp
      then show ?thesis using out(1,4) by (intro exI [of _ out]) simp
    qed
    then obtain out' where "progress G buf out' i (f, b, start)"
      "unix_lines (take n buf) = out' @ unix_lines (drop i (take n buf))" by blast
    from ansi_look [OF this(1) assms(2,3) this(2)] show ?thesis
      using False out(2) assms(2,3) by (auto simp: Escape_AnsiToUnix_body_def)
  qed
qed

lemma Escape_AnsiToUnix_returns:
  assumes "n \<le> length buf" and "length buf + 1 < 2 ^ 64"
  shows "returns (granting f) (unix_lines (take n buf)) (Escape_AnsiToUnix f buf n)"
proof -
  have len: "length buf < 2 ^ 64" using assms by simp
  have "\<exists>r. for_nem (Escape_AnsiToUnix_body buf) [0..<n] (f, DynBuf_Init, 0, 0) = Inr r \<and>
    (\<forall>s'. r = Some s' \<longrightarrow> ansi_inv (granting f) buf n n s') \<and> (granting f \<longrightarrow> r \<noteq> None)"
  proof (rule for_nem_upt [where I = "ansi_inv (granting f) buf n"])
    show "ansi_inv (granting f) buf n 0 (f, DynBuf_Init, 0, 0)"
      by (rule ansi_invI [where out = "[]" and j = 0]) (auto simp: progress_init)
  next
    fix i s assume "i < n" and "ansi_inv (granting f) buf n i s"
    then show "\<exists>r. Escape_AnsiToUnix_body buf i s = Inr r \<and>
        (\<forall>s'. r = Some s' \<longrightarrow> ansi_inv (granting f) buf n (Suc i) s') \<and> (granting f \<longrightarrow> r \<noteq> None)"
      using ansi_step [OF _ _ assms(1) len] by (cases s) auto
  qed simp
  then obtain r where r: "for_nem (Escape_AnsiToUnix_body buf) [0..<n] (f, DynBuf_Init, 0, 0) = Inr r"
    "\<forall>s'. r = Some s' \<longrightarrow> ansi_inv (granting f) buf n n s'" "granting f \<longrightarrow> r \<noteq> None" by blast
  show ?thesis
  proof (cases r)
    case None
    then show ?thesis using r by (simp add: Escape_AnsiToUnix_def returns_def)
  next
    case (Some s')
    obtain f' b start state where s': "s' = (f', b, start, state)" by (cases s')
    then obtain out where out: "progress (granting f) buf out (n - state) (f', b, start)" "state \<le> 1"
      "unix_lines (take n buf) = out @ unix_lines (drop (n - state) (take n buf))"
      using r(2) Some by (auto simp: ansi_inv_def)
    have "length (drop (n - state) (take n buf)) \<le> 1" using out(2) by simp
    then have "unix_lines (drop (n - state) (take n buf)) = drop (n - state) (take n buf)"
      by (cases "drop (n - state) (take n buf)") auto
    then have "progress (granting f) buf (unix_lines (take n buf)) n (f', b, start)"
      using progress_extend [OF out(1), of n] out(3) assms(1) by (simp add: drop_take_slice)
    from finish_law [OF this len, of "[bytes_chunk [0]]" "[[0]]" "unix_lines (take n buf)"] show ?thesis
      using r(1) Some s' assms length_unix_lines [of "take n buf"] by (simp add: Escape_AnsiToUnix_def)
  qed
qed

end
