(* ===== verification/EscapeC.thy ===== *)
theory EscapeC
  imports Escape
begin

text \<open>
  Model of \<^verbatim>\<open>Escape_UnescapeCString\<close> of \<^verbatim>\<open>lib/misc/escape.c\<close>, which unescapes a string in place: the bytes are
  read at one index and written at another of the same block, both 32-bit counters.
\<close>

section \<open>The octal conversion of sscanf\<close>

definition is_octal :: "u8 \<Rightarrow> bool" where
  "is_octal x \<longleftrightarrow> 48 \<le> x \<and> x \<le> 55"

definition c_isspace :: "u8 \<Rightarrow> bool" where
  "c_isspace x \<longleftrightarrow> x = 32 \<or> 9 \<le> x \<and> x \<le> 13"

definition octal_value :: "u8 list \<Rightarrow> u32" where
  "octal_value ds = foldl (\<lambda>v d. v * 8 + (ucast d - 48)) 0 ds"

text \<open>
  \<^verbatim>\<open>sscanf(s, "\\%03o", &val) == 1\<close>, for the bytes in front of the terminator: the backslash, then white space
  that does not count, then at most three bytes with an optional sign and at least one octal digit.
\<close>

definition sscanf_octal :: "u8 list \<Rightarrow> u32 option" where
  "sscanf_octal s =
     (if s = [] \<or> hd s \<noteq> 92 then None
      else let t = dropWhile c_isspace (tl s);
               signed = (t \<noteq> [] \<and> (hd t = 43 \<or> hd t = 45));
               ds = takeWhile is_octal (if signed then take 2 (tl t) else take 3 t)
           in if ds = [] then None
              else Some (if signed \<and> hd t = 45 then - octal_value ds else octal_value ds))"

section \<open>The loop\<close>

text \<open>The byte that the string at \<open>&buf[read]\<close> stands for, and how many further bytes are skipped.\<close>

definition unescape_at :: "u8 list \<Rightarrow> u32 \<Rightarrow> (u8 \<times> u32) res" where
  "unescape_at buf read =
     bindR (byte_at buf (unat read)) (\<lambda>c.
       if c = 92 then
         bindR (byte_at buf (unat (read + 1))) (\<lambda>d.
           if d = 110 then Inr (10, 1)
           else if d = 92 then Inr (92, 1)
           else bindR (c_strlen (drop (unat read) buf)) (\<lambda>n.
             case sscanf_octal (take n (drop (unat read) buf)) of
               Some val \<Rightarrow> Inr (ucast val, 3)
             | None \<Rightarrow> Inr (c, 0)))
       else Inr (c, 0))"

partial_function (option) UnescapeCString_loop :: "u8 list \<Rightarrow> u32 \<Rightarrow> u32 \<Rightarrow> u8 list res option" where
  "UnescapeCString_loop buf read write =
     (case byte_at buf (unat read) of
        Inl e \<Rightarrow> Some (Inl e)
      | Inr c \<Rightarrow>
          if c = 0 then Some (write_at buf (unat write) [0])
          else (case unescape_at buf read of
                  Inl e \<Rightarrow> Some (Inl e)
                | Inr p \<Rightarrow>
                    (case write_at buf (unat write) [fst p] of
                       Inl e \<Rightarrow> Some (Inl e)
                     | Inr buf1 \<Rightarrow> UnescapeCString_loop buf1 (read + snd p + 1) (write + 1))))"

declare UnescapeCString_loop.simps [code]

definition Escape_UnescapeCString :: "u8 list \<Rightarrow> u8 list res" where
  "Escape_UnescapeCString buf = loop (UnescapeCString_loop buf 0 0)"

end
