(* ===== verification/EscapeC_Laws.thy ===== *)
theory EscapeC_Laws
  imports EscapeC Escape_Laws
begin

text \<open>
  Laws of the functions that work on zero-terminated strings: \<^verbatim>\<open>Escape_UnescapeCString\<close> writes the reference
  bytes in place for every string whose octal escapes have three digits, and runs past the terminator
  for others; \<^verbatim>\<open>Escape_Comma\<close>, \<^verbatim>\<open>Escape_Unescape\<close> and \<^verbatim>\<open>Escape_Strchr\<close> with their byte-wise reference functions.
\<close>

section \<open>In-place unescaping\<close>

text \<open>
  The bytes that an escaped string stands for: a backslash with \<^verbatim>\<open>n\<close>, with a backslash, or with three octal
  digits is an escape; a backslash that starts nothing stands for itself; a shorter number is not
  an escape of this form (\<^const>\<open>None\<close>).
\<close>

function cstring_bytes :: "u8 list \<Rightarrow> u8 list option" where
  "cstring_bytes [] = Some []"
| "cstring_bytes (x # xs) =
     (if x \<noteq> 92 then map_option (\<lambda>t. x # t) (cstring_bytes xs)
      else if xs \<noteq> [] \<and> hd xs = 110 then map_option (\<lambda>t. 10 # t) (cstring_bytes (tl xs))
      else if xs \<noteq> [] \<and> hd xs = 92 then map_option (\<lambda>t. 92 # t) (cstring_bytes (tl xs))
      else if 3 \<le> length xs \<and> list_all is_octal (take 3 xs)
      then map_option (\<lambda>t. ucast (octal_value (take 3 xs)) # t) (cstring_bytes (drop 3 xs))
      else if sscanf_octal (x # xs) = None then map_option (\<lambda>t. x # t) (cstring_bytes xs)
      else None)"
  by pat_completeness auto
termination by (relation "measure length") auto

lemma is_octal_not:
  assumes "is_octal x"
  shows "\<not> c_isspace x" "x \<noteq> 43" "x \<noteq> 45" "x \<noteq> 110" "x \<noteq> 92" "x \<noteq> 0"
proof -
  have "48 \<le> unat x" "unat x \<le> 55" using assms by (simp_all add: is_octal_def word_le_nat_alt)
  then show "\<not> c_isspace x" "x \<noteq> 43" "x \<noteq> 45" "x \<noteq> 110" "x \<noteq> 92" "x \<noteq> 0"
    by (auto simp: c_isspace_def word_le_nat_alt)
qed

lemma sscanf_octal_three:
  assumes "3 \<le> length xs" and "list_all is_octal (take 3 xs)"
  shows "sscanf_octal (92 # xs) = Some (octal_value (take 3 xs))"
proof -
  have ne: "xs \<noteq> []" and oct: "is_octal (hd xs)" using assms by (cases xs; auto)+
  have "dropWhile c_isspace xs = xs" using ne is_octal_not(1) [OF oct] by (cases xs) auto
  moreover have "takeWhile is_octal (take 3 xs) = take 3 xs"
    using assms(2) by (simp add: takeWhile_eq_all_conv list_all_iff)
  ultimately show ?thesis using ne is_octal_not(2,3) [OF oct] 
    by (auto simp: sscanf_octal_def Let_def simp del: takeWhile_eq_all_conv)
qed

text \<open>What one step of the loop makes of the rest of the string.\<close>

lemma byte_at_drop: "drop i buf = x # xs \<Longrightarrow> byte_at buf i = Inr x"
  by (metis byte_at_def drop_eq_Nil2 hd_drop_conv_nth leI list.distinct(1) list.sel(1))

lemma unescape_at_string:
  assumes "drop (unat read) buf = (x # xs) @ 0 # rest" and "0 \<notin> set (x # xs)" and "unat read + 1 < 2 ^ 32"
    and "cstring_bytes (x # xs) = Some t"
  shows "\<exists>y k xs' t'. unescape_at buf read = Inr (y, of_nat k) \<and> k \<le> length xs \<and> k \<le> 3 \<and> xs' = drop k xs \<and>
    cstring_bytes xs' = Some t' \<and> t = y # t'"
proof -
  have r1: "unat (read + 1) = unat read + 1" using unat_add_bound [of read 1] assms(3) by simp
  have b0: "byte_at buf (unat read) = Inr x" using byte_at_drop assms(1) by simp
  have "drop (unat read + 1) buf = xs @ 0 # rest"
    using assms(1) drop_drop [of 1 "unat read" buf] by (simp add: add.commute)
  then have b1: "byte_at buf (unat (read + 1)) = Inr (hd (xs @ [0]))" using byte_at_drop r1 by (cases xs) auto
  have sc: "c_strlen (drop (unat read) buf) = Inr (length (x # xs))"
    "take (length (x # xs)) (drop (unat read) buf) = x # xs"
    unfolding assms(1) by (rule c_strlen_string [OF assms(2)]) simp
  note u = unescape_at_def [of buf read] b0 b1
  consider (plain) "x \<noteq> 92" | (nl) "x = 92" "xs \<noteq> []" "hd xs = 110" | (bs) "x = 92" "xs \<noteq> []" "hd xs = 92"
    | (oct) "x = 92" "3 \<le> length xs" "list_all is_octal (take 3 xs)"
    | (lone) "x = 92" "\<not> (xs \<noteq> [] \<and> hd xs = 110)" "\<not> (xs \<noteq> [] \<and> hd xs = 92)"
        "\<not> (3 \<le> length xs \<and> list_all is_octal (take 3 xs))" "sscanf_octal (x # xs) = None"
    using assms(4) by (auto split: if_splits)
  then show ?thesis
  proof cases
    case plain
    then show ?thesis using assms(4) u by (intro exI [of _ x] exI [of _ 0]) auto
  next
    case nl
    then show ?thesis using assms(4) u by (intro exI [of _ 10] exI [of _ 1]) (auto simp: drop_Suc Suc_le_eq)
  next
    case bs
    then show ?thesis using assms(4) u by (intro exI [of _ 92] exI [of _ 1]) (auto simp: drop_Suc Suc_le_eq)
  next
    case oct
    then have ne: "xs \<noteq> []" "is_octal (hd xs)" by (cases xs; auto)+
    then show ?thesis
      using assms(4) u sc oct sscanf_octal_three [OF oct(2,3)] is_octal_not [OF ne(2)]
      by (intro exI [of _ "ucast (octal_value (take 3 xs))"] exI [of _ 3]) auto
  next
    case lone
    then have "hd (xs @ [0]) \<noteq> 110" "hd (xs @ [0]) \<noteq> 92" by (cases xs; auto)+
    then show ?thesis using lone assms(4) u sc by (intro exI [of _ x] exI [of _ 0]) auto
  qed
qed

lemma write_at_mid: "m \<noteq> [] \<Longrightarrow> write_at (w @ m) (length w) [x] = Inr ((w @ [x]) @ tl m)"
  by (cases m) (auto simp: write_at_def patch_def)

lemma UnescapeCString_loop_string:
  assumes "cstring_bytes s = Some t" and "0 \<notin> set s" and "drop k m = s @ 0 # rest"
    and "length w + k + length s + 4 < 2 ^ 32"
  shows "UnescapeCString_loop (w @ m) (of_nat (length w + k)) (of_nat (length w)) =
    Some (Inr (w @ t @ [0] @ drop (length t + 1) m))"
  using assms
proof (induction s arbitrary: t k m w rule: length_induct)
  case (1 s)
  note IH = 1(1) and ref = 1(2) and nz = 1(3) and dr = 1(4) and len = 1(5)
  let ?r = "of_nat (length w + k) :: u32"
  have r: "unat ?r = length w + k" and wr: "unat (of_nat (length w) :: u32) = length w"
    using len by (intro unat_of_nat_bound; simp)+
  have drw: "drop (unat ?r) (w @ m) = s @ 0 # rest" using dr by (simp only: r) simp
  have m: "m \<noteq> []" using dr by auto
  show ?case
  proof (cases s)
    case Nil
    then have "byte_at (w @ m) (unat ?r) = Inr 0" using byte_at_drop drw by simp
    then show ?thesis
      using Nil ref write_at_mid [OF m, of w 0] wr
      by (subst UnescapeCString_loop.simps) (simp add: drop_Suc)
  next
    case (Cons x xs)
    have b: "byte_at (w @ m) (unat ?r) = Inr x" using byte_at_drop drw Cons by simp
    have x: "x \<noteq> 0" using nz Cons by simp
    have "unat ?r + 1 < 2 ^ 32" using r len by simp
    then obtain y j t' where u: "unescape_at (w @ m) ?r = Inr (y, of_nat j)" "j \<le> length xs" "j \<le> 3"
      "cstring_bytes (drop j xs) = Some t'" "t = y # t'"
      using unescape_at_string [of ?r "w @ m" x xs rest t] drw nz ref Cons by auto
    have "drop k (tl m) = xs @ 0 # rest" using dr Cons tl_drop [of k m] by simp
    then have "drop (k + j) (tl m) = drop j xs @ 0 # rest"
      using u(2) drop_drop [of j k "tl m"] by (simp add: add.commute)
    moreover have "0 \<notin> set (drop j xs)" using nz Cons by (auto dest: in_set_dropD)
    moreover have "length (w @ [y]) + (k + j) + length (drop j xs) + 4 < 2 ^ 32" using len Cons u(2) by simp
    moreover have "length (drop j xs) < length s" using Cons by simp
    ultimately have "UnescapeCString_loop ((w @ [y]) @ tl m) (of_nat (length (w @ [y]) + (k + j))) (of_nat (length (w @ [y]))) =
        Some (Inr ((w @ [y]) @ t' @ [0] @ drop (length t' + 1) (tl m)))"
      using IH u(4) by blast
    then show ?thesis
      using b x u(1,5) write_at_mid [OF m, of w y] wr
      by (subst UnescapeCString_loop.simps) (simp add: drop_Suc ac_simps)
  qed
qed

text \<open>
  C25. For every string in which each backslash is followed by \<^verbatim>\<open>n\<close>, by a backslash, by three octal digits,
  or by nothing that reads as a number, \<^verbatim>\<open>Escape_UnescapeCString\<close> returns, touches nothing outside the string, and leaves
  the unescaped bytes with a terminator at the front of the block and the rest of the block as it was.
\<close>

theorem unescape_cstring_in_place:
  assumes "cstring_bytes s = Some t" and "0 \<notin> set s" and "length s + 4 < 2 ^ 32"
  shows "Escape_UnescapeCString (s @ 0 # rest) = Inr (patch (s @ 0 # rest) 0 (t @ [0])) \<and> length t \<le> length s"
proof -
  have "length t \<le> length s" using assms(1)
    by (induction s arbitrary: t rule: cstring_bytes.induct) (fastforce split: if_splits)+
  then show ?thesis
    using UnescapeCString_loop_string [OF assms(1,2), of 0 "s @ 0 # rest" rest "[]"] assms(3)
    by (simp add: Escape_UnescapeCString_def loop_def patch_def)
qed

theorem unescape_cstring_in_place_witness:
  "Escape_UnescapeCString [97, 92, 48, 52, 48, 92, 110, 0] = Inr (patch [97, 92, 48, 52, 48, 92, 110, 0] 0 [97, 32, 10, 0])"
proof -
  have "cstring_bytes [97, 92, 48, 52, 48, 92, 110] = Some [97, 32, 10]" by code_simp
  from unescape_cstring_in_place [OF this, of "[]"] show ?thesis by simp
qed

text \<open>A number of one digit is skipped like one of three, and the loop reads on behind the terminator.\<close>

lemma unescape_cstring_overrun: "Escape_UnescapeCString [92, 49, 0] = Inl OutOfBounds"
  by code_simp

section \<open>Commas\<close>

definition comma_byte :: "u8 \<Rightarrow> u8 list" where
  "comma_byte x = (if x = 44 \<or> x = 92 then [92, x] else [x])"

lemma is_chunk_first: "is_chunk (x # xs, 1) [x]"
  by (simp add: is_chunk_def)

lemma Escape_Comma_loop_string:
  assumes "0 \<notin> set s" and "holds b c"
  shows "\<exists>r. Escape_Comma_loop f b (s @ 0 # rest) = Inr r \<and>
    (\<forall>f' b'. r = Some (f', b') \<longrightarrow> holds b' (c @ expand comma_byte s) \<and> (granting f \<longrightarrow> granting f')) \<and>
    (granting f \<and> length (c @ expand comma_byte s) < 2 ^ 64 \<longrightarrow> r \<noteq> None)"
  using assms
proof (induction s arbitrary: f b c)
  case Nil
  then show ?case by simp
next
  case (Cons x s)
  let ?cs = "(if x = 44 \<or> x = 92 then [bytes_chunk [92]] else []) @ [(x # s @ 0 # rest, 1)]"
  have "\<exists>bss. list_all2 is_chunk ?cs bss \<and> concat bss = comma_byte x"
  proof (cases "x = 44 \<or> x = 92")
    case True
    then show ?thesis by (intro exI [of _ "[[92], [x]]"]) (auto simp: is_chunk_first comma_byte_def)
  next
    case False
    then show ?thesis by (intro exI [of _ "[[x]]"]) (auto simp: is_chunk_first comma_byte_def)
  qed
  then obtain bss where bss: "list_all2 is_chunk ?cs bss" "concat bss = comma_byte x" by blast
  obtain ok f1 b1 where ch: "append_chain DynBuf_Append f b ?cs = Inr (ok, f1, b1)"
    "ok \<longrightarrow> holds b1 (c @ comma_byte x)"
    "granting f \<longrightarrow> granting f1 \<and> (length c + length (comma_byte x) < 2 ^ 64 \<longrightarrow> ok)"
    using dyn.chain_law [OF Cons.prems(2) bss(1), of f] unfolding bss(2) by blast
  have step: "Escape_Comma_loop f b ((x # s) @ 0 # rest) = (if ok then Escape_Comma_loop f1 b1 (s @ 0 # rest) else Inr None)"
    using ch(1) Cons.prems(1) by auto
  show ?case
  proof (cases ok)
    case False
    with ch(3) have "\<not> (granting f \<and> length (c @ expand comma_byte (x # s)) < 2 ^ 64)" by auto
    with False step show ?thesis by simp
  next
    case True
    have nz: "0 \<notin> set s" using Cons.prems(1) by simp
    have "holds b1 (c @ comma_byte x)" using ch(2) True by simp
    from Cons.IH [OF nz this, of f1] ch(3) step True show ?thesis by auto
  qed
qed

lemma Escape_Comma_granted:
  assumes "0 \<notin> set s" and "granting f" and "2 * length s + 1 < 2 ^ 64"
  shows "\<exists>blk. Escape_Comma f (Some (s @ 0 # rest)) = Inr (Some blk) \<and> prefix (expand comma_byte s @ [0]) blk"
proof -
  have "length (expand comma_byte s) \<le> 2 * length s"
    by (induction s) (auto simp: comma_byte_def)
  then obtain f' b' where l: "Escape_Comma_loop f DynBuf_Init (s @ 0 # rest) = Inr (Some (f', b'))"
    "holds b' (expand comma_byte s)" "granting f'" "length (expand comma_byte s) + 1 < 2 ^ 64"
    using Escape_Comma_loop_string [OF assms(1) holds_Init, of f rest] assms(2,3) by auto
  have tail: "dropWhile (\<lambda>c. c \<noteq> 0) (s @ 0 # rest) = 0 # rest"
    using assms(1) by (subst dropWhile_append2) auto
  obtain ok f2 b2 where a: "DynBuf_Append f' b' (0 # rest) 1 = Inr (ok, f2, b2)"
    "holds b2 (if ok then expand comma_byte s @ [0] else expand comma_byte s)"
    "granting f' \<longrightarrow> granting f2 \<and> (length (expand comma_byte s) + length [0 :: u8] < 2 ^ 64 \<longrightarrow> ok)"
    using dyn.app_law [OF l(2) is_chunk_first, of f' 0 rest] by blast
  then have "holds b2 (expand comma_byte s @ [0])" using l(3,4) by simp
  then obtain blk where "db_data b2 = Some blk" "prefix (expand comma_byte s @ [0]) blk"
    by (auto simp: holds_def split: option.splits)
  then show ?thesis using l(1) a(1) tail by (simp add: Escape_Comma_def DynBuf_Get_def)
qed

section \<open>Unescaping single bytes\<close>

fun unescape_bytes :: "u8 \<Rightarrow> bool \<Rightarrow> u8 list \<Rightarrow> u8 list" where
  "unescape_bytes e escaped [] = []"
| "unescape_bytes e escaped (x # xs) =
     (if x \<noteq> e \<or> escaped then x # unescape_bytes e False xs else unescape_bytes e True xs)"

lemma unescape_comma: "unescape_bytes 92 False (expand comma_byte s) = s"
  by (induction s) (auto simp: comma_byte_def)

lemma length_unescape_bytes: "length (unescape_bytes e escaped s) \<le> length s"
  by (induction e escaped s rule: unescape_bytes.induct) auto

lemma Escape_Unescape_loop_granted:
  assumes "0 \<notin> set s" and "holds b c" and "granting f" and "length c + length s < 2 ^ 64"
  shows "\<exists>f' b'. Escape_Unescape_loop e f b escaped (s @ 0 # rest) = Inr (f', b') \<and>
    holds b' (c @ unescape_bytes e escaped s) \<and> granting f'"
  using assms
proof (induction s arbitrary: f b c escaped)
  case Nil
  then show ?case by simp
next
  case (Cons x s)
  show ?case
  proof (cases "x \<noteq> e \<or> escaped")
    case False
    then show ?thesis using Cons.IH [of b c f True] Cons.prems by simp
  next
    case True
    obtain ok f1 b1 where "DynBuf_Append f b (x # s @ 0 # rest) 1 = Inr (ok, f1, b1)"
      "holds b1 (if ok then c @ [x] else c)" "granting f \<longrightarrow> granting f1 \<and> (length c + length [x] < 2 ^ 64 \<longrightarrow> ok)"
      using dyn.app_law [OF Cons.prems(2) is_chunk_first, of f x "s @ 0 # rest"] by blast
    then show ?thesis
      using True Cons.IH [of b1 "c @ [x]" f1 False] Cons.prems by simp
  qed
qed

text \<open>An append of more bytes than its source has reads behind the source once there is room.\<close>

lemma DynBuf_Append_overread:
  assumes "holds b c" and "granting f" and "length src < n" and "length c + n < 2 ^ 64"
  shows "DynBuf_Append f b src (of_nat n) = Inl OutOfBounds"
proof -
  let ?n = "of_nat n :: u64"
  have n: "unat ?n = n" using assms(4) by (intro unat_of_nat_bound) simp
  note sz = holds_size [OF assms(1)]
  have new: "unat (db_size b + ?n) = length c + n"
    using unat_add_bound [of "db_size b" ?n] assms(4) by (simp add: n sz)
  have pos: "\<not> ?n \<le> 0" "\<not> db_size b + ?n < db_size b"
    using assms(3) by (auto simp: word_le_nat_alt word_less_nat_alt n new sz)
  obtain ok f1 b1 where e: "(if db_size b + ?n > db_allocated b then DynBuf_Enlarge f b (db_size b + ?n)
      else (True, f, b)) = (ok, f1, b1)" by (metis prod_cases3)
  have ok: "ok"
    using DynBuf_Enlarge_holds(2) [OF assms(1,2), of "db_size b + ?n"] e by (auto split: if_splits)
  have h: "holds b1 c"
    using DynBuf_Enlarge_holds(1) [OF assms(1), of f "db_size b + ?n"] assms(1) e
    by (auto simp: outcome_def split: if_splits)
  have "db_size b + ?n \<le> db_allocated b1"
    using DynBuf_Enlarge_holds(3) [OF assms(1), of f "db_size b + ?n" f1 b1] e ok by (auto split: if_splits)
  then have "0 < unat (db_allocated b1)" using new assms(3) by (simp add: word_le_nat_alt)
  then obtain blk where "db_data b1 = Some blk" using h by (auto simp: holds_def split: option.splits)
  then have "c_memcpy (db_data b1) (unat (db_size b1)) (Some src) n = Inl OutOfBounds"
    using assms(3) by (simp add: c_memcpy_def read_at_def)
  then show ?thesis using pos e ok n by (simp add: DynBuf_Append_def Let_def)
qed

text \<open>
  \<^verbatim>\<open>Escape_Unescape\<close> collects the right bytes, and then appends four bytes from its one-byte variable.
\<close>

lemma Escape_Unescape_overreads:
  assumes "0 \<notin> set s" and "granting f" and "length s + 4 < 2 ^ 64"
  shows "Escape_Unescape f e (s @ 0 # rest) = Inl OutOfBounds"
proof -
  obtain f' b' where l: "Escape_Unescape_loop e f DynBuf_Init False (s @ 0 # rest) = Inr (f', b')"
    "holds b' (unescape_bytes e False s)" "granting f'"
    using Escape_Unescape_loop_granted [OF assms(1) holds_Init assms(2), of e False rest] assms(3) by auto
  have "DynBuf_Append f' b' [0] (of_nat 4) = Inl OutOfBounds"
    using DynBuf_Append_overread [OF l(2,3), of "[0]" 4] length_unescape_bytes [of e False s] assms(3) by simp
  then show ?thesis using l(1) by (simp add: Escape_Unescape_def sizeof_char_constant_def)
qed

text \<open>An escaped escape byte does not hide the byte behind it.\<close>

lemma Escape_Strchr_recursive: "Escape_Strchr 92 [92, 92, 44, 0] 44 = Inr (Some 2)"
  by (simp add: Escape_Strchr_def)

text \<open>
  \<^verbatim>\<open>Escape_Strchr\<close> returns the first occurrence that is reached unescaped, and does not read behind the
  terminator.
\<close>

fun unescaped_at :: "u8 \<Rightarrow> bool \<Rightarrow> u8 list \<Rightarrow> nat \<Rightarrow> bool" where
  "unescaped_at e escaped [] i = False"
| "unescaped_at e escaped (x # xs) i =
     (case i of 0 \<Rightarrow> \<not> escaped | Suc j \<Rightarrow> unescaped_at e (\<not> escaped \<and> x = e) xs j)"

lemma Escape_Strchr_loop_string:
  assumes "0 \<notin> set s"
  shows "\<exists>r. Escape_Strchr_loop e c (s @ 0 # rest) k escaped = Inr r \<and>
    (case r of
       None \<Rightarrow> \<forall>i < length s. \<not> (unescaped_at e escaped s i \<and> s ! i = c)
     | Some j \<Rightarrow> k \<le> j \<and> j - k < length s \<and> unescaped_at e escaped s (j - k) \<and> s ! (j - k) = c \<and>
         (\<forall>i < j - k. \<not> (unescaped_at e escaped s i \<and> s ! i = c)))"
  using assms
proof (induction s arbitrary: k escaped)
  case Nil
  then show ?case by simp
next
  case (Cons x s)
  show ?case
  proof (cases "\<not> escaped \<and> x = c")
    case True
    then show ?thesis using Cons.prems by simp
  next
    case False
    let ?esc = "\<not> escaped \<and> x = e"
    obtain r where r: "Escape_Strchr_loop e c (s @ 0 # rest) (k + 1) ?esc = Inr r"
      "case r of
         None \<Rightarrow> \<forall>i < length s. \<not> (unescaped_at e ?esc s i \<and> s ! i = c)
       | Some j \<Rightarrow> k + 1 \<le> j \<and> j - (k + 1) < length s \<and> unescaped_at e ?esc s (j - (k + 1)) \<and> s ! (j - (k + 1)) = c \<and>
           (\<forall>i < j - (k + 1). \<not> (unescaped_at e ?esc s i \<and> s ! i = c))"
      using Cons.IH [of "k + 1" ?esc] Cons.prems by auto
    have lift: "unescaped_at e escaped (x # s) i \<and> (x # s) ! i = c \<longleftrightarrow>
        (\<exists>i'. i = Suc i' \<and> unescaped_at e ?esc s i' \<and> s ! i' = c)" for i
      using False by (cases i) auto
    have "Escape_Strchr_loop e c ((x # s) @ 0 # rest) k escaped = Inr r"
      using r(1) False Cons.prems by (cases escaped) auto
    moreover have "case r of
         None \<Rightarrow> \<forall>i < length (x # s). \<not> (unescaped_at e escaped (x # s) i \<and> (x # s) ! i = c)
       | Some j \<Rightarrow> k \<le> j \<and> j - k < length (x # s) \<and> unescaped_at e escaped (x # s) (j - k) \<and> (x # s) ! (j - k) = c \<and>
           (\<forall>i < j - k. \<not> (unescaped_at e escaped (x # s) i \<and> (x # s) ! i = c))"
    proof (cases r)
      case None
      then show ?thesis using r(2) lift by auto
    next
      case (Some j)
      then obtain d where "j = k + Suc d" using r(2) by (auto dest: le_Suc_ex)
      then show ?thesis using r(2) Some lift [of "Suc d"] lift by auto
    qed
    ultimately show ?thesis by blast
  qed
qed

end
