(* ===== verification/VixProps.thy ===== *)
theory VixProps
  imports Prelude
begin

text \<open>
  Model of \<^verbatim>\<open>lib/foundryMsg/foundryPropertyListCommon.c\<close>: the property lists that the VIX protocol carries
  between host and guest. A list of nodes is the list of their contents in order, and a pointer to
  a node is its position. The union of a node is a datatype with its members as constructors; reading
  a member that is not the one last written is the fault \<^const>\<open>TypeConfusion\<close>. A block of memory that is freed is
  recorded with its contents and with whether its property was marked as sensitive.

  Pointers for results are not null in the model. The allocator, the validation of UTF-8 and the escaping of
  invalid bytes (\<^verbatim>\<open>lib/unicode\<close>, on top of ICU or the code set tables) are the record \<open>vix_env\<close>.
\<close>

section \<open>Types\<close>

datatype VixError = VIX_OK | VIX_E_OUT_OF_MEMORY | VIX_E_INVALID_ARG | VIX_E_INVALID_UTF8_STRING
  | VIX_E_TYPE_MISMATCH | VIX_E_UNRECOGNIZED_PROPERTY | VIX_E_INVALID_SERIALIZED_DATA

definition VIX_PROPERTYTYPE_ANY :: u32 where "VIX_PROPERTYTYPE_ANY = 0"
definition VIX_PROPERTYTYPE_INTEGER :: u32 where "VIX_PROPERTYTYPE_INTEGER = 1"
definition VIX_PROPERTYTYPE_STRING :: u32 where "VIX_PROPERTYTYPE_STRING = 2"
definition VIX_PROPERTYTYPE_BOOL :: u32 where "VIX_PROPERTYTYPE_BOOL = 3"
definition VIX_PROPERTYTYPE_HANDLE :: u32 where "VIX_PROPERTYTYPE_HANDLE = 4"
definition VIX_PROPERTYTYPE_INT64 :: u32 where "VIX_PROPERTYTYPE_INT64 = 5"
definition VIX_PROPERTYTYPE_BLOB :: u32 where "VIX_PROPERTYTYPE_BLOB = 6"
definition VIX_PROPERTYTYPE_POINTER :: u32 where "VIX_PROPERTYTYPE_POINTER = 7"

lemmas vix_types = VIX_PROPERTYTYPE_ANY_def VIX_PROPERTYTYPE_INTEGER_def VIX_PROPERTYTYPE_STRING_def
  VIX_PROPERTYTYPE_BOOL_def VIX_PROPERTYTYPE_HANDLE_def VIX_PROPERTYTYPE_INT64_def
  VIX_PROPERTYTYPE_BLOB_def VIX_PROPERTYTYPE_POINTER_def

text \<open>The union \<^verbatim>\<open>value\<close>; \<open>zeroValue\<close> is the memory that \<^verbatim>\<open>calloc\<close> returned, for a type with no member.\<close>

datatype VixValue = boolValue u8 | strValue "u8 list option" | intValue i32 | int64Value i64
  | handleValue u32 | blobValue "u8 list option" i32 | ptrValue u64 | zeroValue

record VixPropertyValue =
  propertyID :: i32
  ptype :: u32
  pvalue :: VixValue
  isDirty :: bool
  isSensitive :: bool

record VixPropertyListImpl =
  properties :: "VixPropertyValue list"
  freed :: "(bool \<times> u8 list) list"

datatype VixPropertyListBadEncodingAction = VIX_PROPERTY_LIST_BAD_ENCODING_ERROR | VIX_PROPERTY_LIST_BAD_ENCODING_ESCAPE

record vix_env =
  ve_alloc :: allocator
  ve_valid :: "u8 list \<Rightarrow> bool"
  ve_escape :: "u8 list \<Rightarrow> u8 list option"

definition VixPropertyList_Initialize :: VixPropertyListImpl where
  "VixPropertyList_Initialize = \<lparr>properties = [], freed = []\<rparr>"

section \<open>Releasing values\<close>

text \<open>\<^verbatim>\<open>free\<close> of a block that may be null, recorded with the mark of its property.\<close>

definition c_free :: "bool \<Rightarrow> u8 list option \<Rightarrow> (bool \<times> u8 list) list" where
  "c_free sens p = (case p of None \<Rightarrow> [] | Some blk \<Rightarrow> [(sens, blk)])"

definition Util_Zero :: "u8 list option \<Rightarrow> u64 \<Rightarrow> u8 list option res" where
  "Util_Zero p n =
     (case p of None \<Rightarrow> Inr None
      | Some blk \<Rightarrow> bindR (if unat n \<le> length blk then Inr () else Inl OutOfBounds)
          (\<lambda>_. Inr (Some (replicate (unat n) 0 @ drop (unat n) blk))))"

definition Util_ZeroString :: "u8 list option \<Rightarrow> u8 list option res" where
  "Util_ZeroString p =
     (case p of None \<Rightarrow> Inr None
      | Some blk \<Rightarrow> bindR (c_strlen blk) (\<lambda>n. Util_Zero (Some blk) (of_nat n)))"

definition str_of :: "VixValue \<Rightarrow> u8 list option res" where
  "str_of v = (case v of strValue s \<Rightarrow> Inr s | _ \<Rightarrow> Inl TypeConfusion)"

definition blob_of :: "VixValue \<Rightarrow> (u8 list option \<times> i32) res" where
  "blob_of v = (case v of blobValue p n \<Rightarrow> Inr (p, n) | _ \<Rightarrow> Inl TypeConfusion)"

text \<open>What \<^verbatim>\<open>VixPropertyList_RemoveAllWithoutHandles\<close> frees of one node.\<close>

definition release_value :: "VixPropertyValue \<Rightarrow> ((bool \<times> u8 list) list) res" where
  "release_value p =
     (if ptype p = VIX_PROPERTYTYPE_STRING then
        bindR (str_of (pvalue p)) (\<lambda>s.
          bindR (if isSensitive p then Util_ZeroString s else Inr s) (\<lambda>s. Inr (c_free (isSensitive p) s)))
      else if ptype p = VIX_PROPERTYTYPE_BLOB then
        bindR (blob_of (pvalue p)) (\<lambda>(c, n).
          bindR (if isSensitive p then Util_Zero c (scast n) else Inr c) (\<lambda>c. Inr (c_free (isSensitive p) c)))
      else Inr [])"

fun remove_nodes :: "VixPropertyValue list \<Rightarrow> (bool \<times> u8 list) list \<Rightarrow> VixPropertyListImpl res" where
  "remove_nodes [] fr = Inr \<lparr>properties = [], freed = fr\<rparr>"
| "remove_nodes (p # ps) fr = bindR (release_value p) (\<lambda>f. remove_nodes ps (fr @ f))"

definition VixPropertyList_RemoveAllWithoutHandles :: "VixPropertyListImpl option \<Rightarrow> VixPropertyListImpl option res" where
  "VixPropertyList_RemoveAllWithoutHandles propList =
     (case propList of None \<Rightarrow> Inr None
      | Some l \<Rightarrow> bindR (remove_nodes (properties l) (freed l)) (\<lambda>l. Inr (Some l)))"

definition VixPropertyList_MarkAllSensitive :: "VixPropertyListImpl option \<Rightarrow> VixPropertyListImpl option" where
  "VixPropertyList_MarkAllSensitive propList =
     map_option (\<lambda>l. l\<lparr>properties := map (\<lambda>p. p\<lparr>isSensitive := True\<rparr>) (properties l)\<rparr>) propList"

section \<open>Finding and adding\<close>

fun find_walk :: "i32 \<Rightarrow> u32 \<Rightarrow> int \<Rightarrow> VixPropertyValue list \<Rightarrow> nat \<Rightarrow> (VixError \<times> nat) option" where
  "find_walk pid type index [] i = None"
| "find_walk pid type index (p # ps) i =
     (if pid = propertyID p then
        (if 0 < index then find_walk pid type (index - 1) ps (i + 1)
         else Some (if type \<noteq> VIX_PROPERTYTYPE_ANY \<and> type \<noteq> ptype p then VIX_E_TYPE_MISMATCH else VIX_OK, i))
      else find_walk pid type index ps (i + 1))"

definition calloc_value :: "u32 \<Rightarrow> VixValue" where
  "calloc_value type =
     (if type = VIX_PROPERTYTYPE_STRING then strValue None
      else if type = VIX_PROPERTYTYPE_BLOB then blobValue None 0
      else if type = VIX_PROPERTYTYPE_HANDLE then handleValue 0
      else if type = VIX_PROPERTYTYPE_INTEGER then intValue 0
      else if type = VIX_PROPERTYTYPE_BOOL then boolValue 0
      else if type = VIX_PROPERTYTYPE_INT64 then int64Value 0
      else if type = VIX_PROPERTYTYPE_POINTER then ptrValue 0
      else zeroValue)"

definition VixPropertyListAppendProperty :: "VixPropertyListImpl \<Rightarrow> i32 \<Rightarrow> u32 \<Rightarrow> nat \<times> VixPropertyListImpl" where
  "VixPropertyListAppendProperty l pid type =
     (length (properties l),
      l\<lparr>properties := properties l @
          [\<lparr>propertyID = pid, ptype = type, pvalue = calloc_value type, isDirty = True, isSensitive = False\<rparr>]\<rparr>)"

definition VixPropertyList_FindProperty ::
  "VixPropertyListImpl \<Rightarrow> i32 \<Rightarrow> u32 \<Rightarrow> int \<Rightarrow> bool \<Rightarrow> VixError \<times> nat option \<times> VixPropertyListImpl" where
  "VixPropertyList_FindProperty l pid type index createIfMissing =
     (case find_walk pid type index (properties l) 0 of
        Some (err, i) \<Rightarrow> (err, Some i, l)
      | None \<Rightarrow>
          if \<not> createIfMissing then (VIX_E_UNRECOGNIZED_PROPERTY, None, l)
          else let (i, l) = VixPropertyListAppendProperty l pid type in (VIX_OK, Some i, l))"

definition set_node :: "VixPropertyListImpl \<Rightarrow> nat \<Rightarrow> VixPropertyValue \<Rightarrow> (bool \<times> u8 list) list \<Rightarrow> VixPropertyListImpl" where
  "set_node l i p fr = l\<lparr>properties := (properties l)[i := p], freed := freed l @ fr\<rparr>"

definition set_value :: "VixPropertyListImpl \<Rightarrow> nat \<Rightarrow> VixValue \<Rightarrow> (bool \<times> u8 list) list \<Rightarrow> VixPropertyListImpl" where
  "set_value l i v fr = set_node l i ((properties l ! i)\<lparr>pvalue := v\<rparr>) fr"

section \<open>Setters\<close>

text \<open>
  A setter finds or creates the node of its type and changes it; a node of another type is left alone.
  The memory for copies comes from \<^verbatim>\<open>Util_SafeMalloc\<close> and \<^verbatim>\<open>Util_SafeStrdup\<close>, which end the program rather than fail.
\<close>

definition update_property ::
  "VixPropertyListImpl option \<Rightarrow> i32 \<Rightarrow> u32 \<Rightarrow> (VixPropertyValue \<Rightarrow> (VixPropertyValue \<times> (bool \<times> u8 list) list) res) \<Rightarrow>
    (VixError \<times> VixPropertyListImpl option) res" where
  "update_property propList pid type f =
     (case propList of None \<Rightarrow> Inr (VIX_E_INVALID_ARG, None)
      | Some l \<Rightarrow>
          (case VixPropertyList_FindProperty l pid type 0 True of
             (VIX_OK, Some i, l) \<Rightarrow> bindR (f (properties l ! i)) (\<lambda>(p, fr). Inr (VIX_OK, Some (set_node l i p fr)))
           | (err, _, l) \<Rightarrow> Inr (err, Some l)))"

definition VixPropertyListSetStringImpl ::
  "VixPropertyValue \<Rightarrow> u8 list option \<Rightarrow> bool \<Rightarrow> (VixPropertyValue \<times> (bool \<times> u8 list) list) res" where
  "VixPropertyListSetStringImpl p val sens =
     bindR (str_of (pvalue p)) (\<lambda>s.
       bindR (if s \<noteq> None \<and> isSensitive p then Util_ZeroString s else Inr s) (\<lambda>s.
         bindR (case val of None \<Rightarrow> Inr None
                | Some v \<Rightarrow> bindR (c_strlen v) (\<lambda>n. bindR (read_at v 0 (n + 1)) (\<lambda>bs. Inr (Some bs)))) (\<lambda>new.
           Inr (p\<lparr>pvalue := strValue new, isDirty := True, isSensitive := sens\<rparr>, c_free (isSensitive p) s))))"

definition VixPropertyList_SetString ::
  "VixPropertyListImpl option \<Rightarrow> i32 \<Rightarrow> u8 list option \<Rightarrow> (VixError \<times> VixPropertyListImpl option) res" where
  "VixPropertyList_SetString propList pid val =
     update_property propList pid VIX_PROPERTYTYPE_STRING (\<lambda>p. VixPropertyListSetStringImpl p val (isSensitive p))"

definition VixPropertyList_SetStringSensitive ::
  "VixPropertyListImpl option \<Rightarrow> i32 \<Rightarrow> u8 list option \<Rightarrow> (VixError \<times> VixPropertyListImpl option) res" where
  "VixPropertyList_SetStringSensitive propList pid val =
     update_property propList pid VIX_PROPERTYTYPE_STRING (\<lambda>p. VixPropertyListSetStringImpl p val True)"

definition VixPropertyListSetBlobImpl ::
  "VixPropertyValue \<Rightarrow> i32 \<Rightarrow> u8 list option \<Rightarrow> bool \<Rightarrow> (VixPropertyValue \<times> (bool \<times> u8 list) list) res" where
  "VixPropertyListSetBlobImpl p blobSize val sens =
     bindR (blob_of (pvalue p)) (\<lambda>(c, n).
       bindR (if c \<noteq> None \<and> isSensitive p then Util_Zero c (scast n) else Inr c) (\<lambda>c.
         bindR (case val of None \<Rightarrow> Inr None
                | Some v \<Rightarrow> if 0 < sint blobSize then bindR (read_at v 0 (unat blobSize)) (\<lambda>bs. Inr (Some bs))
                            else Inr None) (\<lambda>new.
           Inr (p\<lparr>pvalue := blobValue new blobSize, isDirty := True, isSensitive := sens\<rparr>, c_free (isSensitive p) c))))"

definition VixPropertyList_SetBlob ::
  "VixPropertyListImpl option \<Rightarrow> i32 \<Rightarrow> i32 \<Rightarrow> u8 list option \<Rightarrow> (VixError \<times> VixPropertyListImpl option) res" where
  "VixPropertyList_SetBlob propList pid blobSize val =
     update_property propList pid VIX_PROPERTYTYPE_BLOB (\<lambda>p. VixPropertyListSetBlobImpl p blobSize val (isSensitive p))"

definition VixPropertyList_SetBlobSensitive ::
  "VixPropertyListImpl option \<Rightarrow> i32 \<Rightarrow> i32 \<Rightarrow> u8 list option \<Rightarrow> (VixError \<times> VixPropertyListImpl option) res" where
  "VixPropertyList_SetBlobSensitive propList pid blobSize val =
     update_property propList pid VIX_PROPERTYTYPE_BLOB (\<lambda>p. VixPropertyListSetBlobImpl p blobSize val True)"

definition VixPropertyList_SetInteger :: "VixPropertyListImpl option \<Rightarrow> i32 \<Rightarrow> i32 \<Rightarrow> (VixError \<times> VixPropertyListImpl option) res" where
  "VixPropertyList_SetInteger propList pid val =
     update_property propList pid VIX_PROPERTYTYPE_INTEGER (\<lambda>p. Inr (p\<lparr>pvalue := intValue val, isDirty := True\<rparr>, []))"

definition VixPropertyList_SetBool :: "VixPropertyListImpl option \<Rightarrow> i32 \<Rightarrow> u8 \<Rightarrow> (VixError \<times> VixPropertyListImpl option) res" where
  "VixPropertyList_SetBool propList pid val =
     update_property propList pid VIX_PROPERTYTYPE_BOOL (\<lambda>p. Inr (p\<lparr>pvalue := boolValue val, isDirty := True\<rparr>, []))"

definition VixPropertyList_SetInt64 :: "VixPropertyListImpl option \<Rightarrow> i32 \<Rightarrow> i64 \<Rightarrow> (VixError \<times> VixPropertyListImpl option) res" where
  "VixPropertyList_SetInt64 propList pid val =
     update_property propList pid VIX_PROPERTYTYPE_INT64 (\<lambda>p. Inr (p\<lparr>pvalue := int64Value val, isDirty := True\<rparr>, []))"

definition VixPropertyList_SetPtr :: "VixPropertyListImpl option \<Rightarrow> i32 \<Rightarrow> u64 \<Rightarrow> (VixError \<times> VixPropertyListImpl option) res" where
  "VixPropertyList_SetPtr propList pid val =
     update_property propList pid VIX_PROPERTYTYPE_POINTER (\<lambda>p. Inr (p\<lparr>pvalue := ptrValue val, isDirty := True\<rparr>, []))"

section \<open>Getters\<close>

text \<open>A getter returns the error and, without an error, the value.\<close>

definition read_property ::
  "VixPropertyListImpl option \<Rightarrow> i32 \<Rightarrow> u32 \<Rightarrow> int \<Rightarrow> (VixValue \<Rightarrow> 'a res) \<Rightarrow> (VixError \<times> 'a option) res" where
  "read_property propList pid type index f =
     (case propList of None \<Rightarrow> Inr (VIX_E_INVALID_ARG, None)
      | Some l \<Rightarrow>
          (case VixPropertyList_FindProperty l pid type index False of
             (VIX_OK, Some i, _) \<Rightarrow> bindR (f (pvalue (properties l ! i))) (\<lambda>x. Inr (VIX_OK, Some x))
           | (err, _, _) \<Rightarrow> Inr (err, None)))"

definition VixPropertyList_GetString :: "VixPropertyListImpl option \<Rightarrow> i32 \<Rightarrow> int \<Rightarrow> (VixError \<times> u8 list option option) res" where
  "VixPropertyList_GetString propList pid index =
     read_property propList pid VIX_PROPERTYTYPE_STRING index (\<lambda>v.
       bindR (str_of v) (\<lambda>s. case s of None \<Rightarrow> Inr None
         | Some blk \<Rightarrow> bindR (c_strlen blk) (\<lambda>n. bindR (read_at blk 0 (n + 1)) (\<lambda>bs. Inr (Some bs)))))"

definition VixPropertyList_GetInteger :: "VixPropertyListImpl option \<Rightarrow> i32 \<Rightarrow> int \<Rightarrow> (VixError \<times> i32 option) res" where
  "VixPropertyList_GetInteger propList pid index =
     read_property propList pid VIX_PROPERTYTYPE_INTEGER index
       (\<lambda>v. case v of intValue x \<Rightarrow> Inr x | _ \<Rightarrow> Inl TypeConfusion)"

definition VixPropertyList_GetBool :: "VixPropertyListImpl option \<Rightarrow> i32 \<Rightarrow> int \<Rightarrow> (VixError \<times> u8 option) res" where
  "VixPropertyList_GetBool propList pid index =
     read_property propList pid VIX_PROPERTYTYPE_BOOL index
       (\<lambda>v. case v of boolValue x \<Rightarrow> Inr x | _ \<Rightarrow> Inl TypeConfusion)"

definition VixPropertyList_GetInt64 :: "VixPropertyListImpl option \<Rightarrow> i32 \<Rightarrow> int \<Rightarrow> (VixError \<times> i64 option) res" where
  "VixPropertyList_GetInt64 propList pid index =
     read_property propList pid VIX_PROPERTYTYPE_INT64 index
       (\<lambda>v. case v of int64Value x \<Rightarrow> Inr x | _ \<Rightarrow> Inl TypeConfusion)"

definition VixPropertyList_GetPtr :: "VixPropertyListImpl option \<Rightarrow> i32 \<Rightarrow> int \<Rightarrow> (VixError \<times> u64 option) res" where
  "VixPropertyList_GetPtr propList pid index =
     read_property propList pid VIX_PROPERTYTYPE_POINTER index
       (\<lambda>v. case v of ptrValue x \<Rightarrow> Inr x | _ \<Rightarrow> Inl TypeConfusion)"

definition VixPropertyList_GetBlob :: "VixPropertyListImpl option \<Rightarrow> i32 \<Rightarrow> int \<Rightarrow> (VixError \<times> (i32 \<times> u8 list option) option) res" where
  "VixPropertyList_GetBlob propList pid index =
     read_property propList pid VIX_PROPERTYTYPE_BLOB index (\<lambda>v.
       bindR (blob_of v) (\<lambda>(c, n).
         case c of
           Some blk \<Rightarrow> if 0 < sint n then bindR (read_at blk 0 (unat n)) (\<lambda>bs. Inr (n, Some bs)) else Inr (0, None)
         | None \<Rightarrow> Inr (0, None)))"

definition VixPropertyList_PropertyExists :: "VixPropertyListImpl \<Rightarrow> i32 \<Rightarrow> u32 \<Rightarrow> bool" where
  "VixPropertyList_PropertyExists l pid type =
     (case VixPropertyList_FindProperty l pid type 0 False of (err, p, _) \<Rightarrow> err = VIX_OK \<and> p \<noteq> None)"

definition VixPropertyList_NumItems :: "VixPropertyListImpl option \<Rightarrow> i32" where
  "VixPropertyList_NumItems propList =
     (case propList of None \<Rightarrow> 0 | Some l \<Rightarrow> foldl (\<lambda>count _. count + 1) 0 (properties l))"

definition VixPropertyList_Empty :: "VixPropertyListImpl option \<Rightarrow> bool" where
  "VixPropertyList_Empty propList = (case propList of None \<Rightarrow> True | Some l \<Rightarrow> properties l = [])"

section \<open>The interface as operations\<close>

text \<open>The calls that change a list, with the sensitive variants of the setters marked by a flag.\<close>

datatype VixOp = OpSetString i32 "u8 list option" bool | OpSetBlob i32 i32 "u8 list option" bool
  | OpSetInteger i32 i32 | OpSetBool i32 u8 | OpSetInt64 i32 i64 | OpSetPtr i32 u64
  | OpMarkAllSensitive | OpRemoveAll

fun vix_do :: "VixPropertyListImpl option \<Rightarrow> VixOp \<Rightarrow> (VixError \<times> VixPropertyListImpl option) res" where
  "vix_do l (OpSetString pid v sens) =
     (if sens then VixPropertyList_SetStringSensitive l pid v else VixPropertyList_SetString l pid v)"
| "vix_do l (OpSetBlob pid n v sens) =
     (if sens then VixPropertyList_SetBlobSensitive l pid n v else VixPropertyList_SetBlob l pid n v)"
| "vix_do l (OpSetInteger pid x) = VixPropertyList_SetInteger l pid x"
| "vix_do l (OpSetBool pid x) = VixPropertyList_SetBool l pid x"
| "vix_do l (OpSetInt64 pid x) = VixPropertyList_SetInt64 l pid x"
| "vix_do l (OpSetPtr pid x) = VixPropertyList_SetPtr l pid x"
| "vix_do l OpMarkAllSensitive = Inr (VIX_OK, VixPropertyList_MarkAllSensitive l)"
| "vix_do l OpRemoveAll = bindR (VixPropertyList_RemoveAllWithoutHandles l) (\<lambda>l. Inr (VIX_OK, l))"

text \<open>
  The calls of a client that keeps one value per identifier: setters by the kind of the value, getters by type
  at index zero, and the removal of everything. A getter returns its value as the member of the union.
\<close>

datatype VixCall = CallSet i32 VixValue | CallGet i32 u32 | CallClear

definition set_by_kind :: "VixPropertyListImpl \<Rightarrow> i32 \<Rightarrow> VixValue \<Rightarrow> (VixError \<times> VixPropertyListImpl option) res" where
  "set_by_kind l pid v =
     (case v of
        intValue x \<Rightarrow> VixPropertyList_SetInteger (Some l) pid x
      | boolValue x \<Rightarrow> VixPropertyList_SetBool (Some l) pid x
      | int64Value x \<Rightarrow> VixPropertyList_SetInt64 (Some l) pid x
      | ptrValue x \<Rightarrow> VixPropertyList_SetPtr (Some l) pid x
      | strValue s \<Rightarrow> VixPropertyList_SetString (Some l) pid s
      | blobValue c n \<Rightarrow> VixPropertyList_SetBlob (Some l) pid n c
      | _ \<Rightarrow> Inr (VIX_E_INVALID_ARG, Some l))"

definition get_by_type :: "VixPropertyListImpl \<Rightarrow> i32 \<Rightarrow> u32 \<Rightarrow> (VixError \<times> VixValue option) res" where
  "get_by_type l pid type =
     (if type = VIX_PROPERTYTYPE_INTEGER then
        bindR (VixPropertyList_GetInteger (Some l) pid 0) (\<lambda>(e, x). Inr (e, map_option intValue x))
      else if type = VIX_PROPERTYTYPE_BOOL then
        bindR (VixPropertyList_GetBool (Some l) pid 0) (\<lambda>(e, x). Inr (e, map_option boolValue x))
      else if type = VIX_PROPERTYTYPE_INT64 then
        bindR (VixPropertyList_GetInt64 (Some l) pid 0) (\<lambda>(e, x). Inr (e, map_option int64Value x))
      else if type = VIX_PROPERTYTYPE_POINTER then
        bindR (VixPropertyList_GetPtr (Some l) pid 0) (\<lambda>(e, x). Inr (e, map_option ptrValue x))
      else if type = VIX_PROPERTYTYPE_STRING then
        bindR (VixPropertyList_GetString (Some l) pid 0) (\<lambda>(e, x). Inr (e, map_option strValue x))
      else if type = VIX_PROPERTYTYPE_BLOB then
        bindR (VixPropertyList_GetBlob (Some l) pid 0) (\<lambda>(e, x). Inr (e, map_option (\<lambda>(n, c). blobValue c n) x))
      else Inr (VIX_E_INVALID_ARG, None))"

fun vix_call :: "VixPropertyListImpl \<Rightarrow> VixCall \<Rightarrow> (VixPropertyListImpl \<times> (VixError \<times> VixValue option)) res" where
  "vix_call l (CallSet pid v) = bindR (set_by_kind l pid v) (\<lambda>(e, l'). Inr (the l', (e, None)))"
| "vix_call l (CallGet pid type) = bindR (get_by_type l pid type) (\<lambda>r. Inr (l, r))"
| "vix_call l CallClear =
     bindR (VixPropertyList_RemoveAllWithoutHandles (Some l)) (\<lambda>l'. Inr (the l', (VIX_OK, None)))"

end
