(* ===== verification/VixProps_Laws.thy ===== *)
theory VixProps_Laws
  imports VixProps
begin

text \<open>
  Laws of property lists: every node is well typed (its type says which member of the union is valid, strings are
  terminated, blobs have their size), every operation keeps that, and no operation reads a wrong member. The
  operations of the interface form a transition system; in each of its reachable states what was freed
  for a sensitive property had been overwritten.
\<close>

section \<open>Well-typed nodes\<close>

definition c_string :: "u8 list \<Rightarrow> bool" where
  "c_string blk \<longleftrightarrow> (\<exists>s. blk = s @ [0] \<and> 0 \<notin> set s) \<and> length blk < 2 ^ 64"

fun value_ok :: "u32 \<Rightarrow> VixValue \<Rightarrow> bool" where
  "value_ok type (boolValue x) = (type = VIX_PROPERTYTYPE_BOOL)"
| "value_ok type (strValue s) = (type = VIX_PROPERTYTYPE_STRING \<and> (\<forall>blk. s = Some blk \<longrightarrow> c_string blk))"
| "value_ok type (intValue x) = (type = VIX_PROPERTYTYPE_INTEGER)"
| "value_ok type (int64Value x) = (type = VIX_PROPERTYTYPE_INT64)"
| "value_ok type (handleValue x) = (type = VIX_PROPERTYTYPE_HANDLE)"
| "value_ok type (blobValue c n) =
     (type = VIX_PROPERTYTYPE_BLOB \<and> (\<forall>blk. c = Some blk \<longrightarrow> 0 < sint n \<and> length blk = unat n))"
| "value_ok type (ptrValue x) = (type = VIX_PROPERTYTYPE_POINTER)"
| "value_ok type zeroValue = (type \<notin> {VIX_PROPERTYTYPE_BOOL, VIX_PROPERTYTYPE_STRING, VIX_PROPERTYTYPE_INTEGER,
     VIX_PROPERTYTYPE_INT64, VIX_PROPERTYTYPE_HANDLE, VIX_PROPERTYTYPE_BLOB, VIX_PROPERTYTYPE_POINTER})"

definition prop_ok :: "VixPropertyValue \<Rightarrow> bool" where
  "prop_ok p = value_ok (ptype p) (pvalue p)"

definition plist_ok :: "VixPropertyListImpl \<Rightarrow> bool" where
  "plist_ok l = list_all prop_ok (properties l)"

lemma c_string_strlen: "c_string blk \<Longrightarrow> c_strlen blk = Inr (length blk - 1) \<and> 0 < length blk"
  using c_strlen_string [of _ "[]"] by (auto simp: c_string_def)

lemma c_strlen_take:
  assumes "c_strlen v = Inr n" and "length v < 2 ^ 64"
  shows "c_string (take (n + 1) v) \<and> n < length v"
proof -
  have "0 \<in> set v" using assms(1) by (auto simp: c_strlen_def split: if_splits)
  then obtain s rest where v: "v = s @ 0 # rest" "0 \<notin> set s" by (metis split_list_first)
  then have "n = length s" using assms(1) c_strlen_string [of s rest] by simp
  then show ?thesis using v assms(2) by (auto simp: c_string_def)
qed

lemma value_ok_str: "value_ok VIX_PROPERTYTYPE_STRING v \<Longrightarrow> \<exists>s. v = strValue s \<and> (\<forall>blk. s = Some blk \<longrightarrow> c_string blk)"
  by (cases v) (auto simp: vix_types)

lemma value_ok_blob:
  "value_ok VIX_PROPERTYTYPE_BLOB v \<Longrightarrow> \<exists>c n. v = blobValue c n \<and> (\<forall>blk. c = Some blk \<longrightarrow> 0 < sint n \<and> length blk = unat n)"
  by (cases v) (auto simp: vix_types)

lemma value_ok_calloc: "value_ok type (calloc_value type)"
  by (simp add: calloc_value_def)

section \<open>Freed memory\<close>

definition wiped :: "(bool \<times> u8 list) list \<Rightarrow> bool" where
  "wiped fr = list_all (\<lambda>(sens, blk). sens \<longrightarrow> blk = replicate (length blk) 0) fr"

lemma wiped_append [simp]: "wiped (xs @ ys) = (wiped xs \<and> wiped ys)"
  by (simp add: wiped_def)

lemma scast_pos:
  assumes "0 < sint (n :: i32)"
  shows "unat (scast n :: u64) = unat n"
proof -
  have "\<not> bit n 31" using assms by (auto simp: sint_uint signed_take_bit_negative_iff bit_uint_iff dest: order.asym)
  moreover have "bit n k \<Longrightarrow> 31 \<le> k \<Longrightarrow> k = 31" for k using bit_imp_le_length [of n k] by simp
  ultimately have "scast n = (ucast n :: u64)"
    by (intro bit_word_eqI) (auto simp: bit_signed_iff bit_unsigned_iff min_def split: if_splits)
  then show ?thesis using unat_lt_32 [of n] by (simp add: unsigned_ucast_eq take_bit_nat_eq_self)
qed

lemma Util_ZeroString_wipes:
  assumes "\<forall>blk. s = Some blk \<longrightarrow> c_string blk"
  shows "\<exists>s'. Util_ZeroString s = Inr s' \<and> wiped (c_free True s')"
proof (cases s)
  case None
  then show ?thesis by (simp add: Util_ZeroString_def c_free_def wiped_def)
next
  case (Some blk)
  then obtain w where w: "blk = w @ [0]" "0 \<notin> set w" "length w < 2 ^ 64" using assms by (auto simp: c_string_def)
  then have "unat (of_nat (length w) :: u64) = length w" by (intro unat_of_nat_bound) simp
  then show ?thesis
    using Some w c_strlen_string [OF w(2), of "[]"]
    by (simp add: Util_ZeroString_def Util_Zero_def c_free_def wiped_def replicate_append_same)
qed

lemma Util_Zero_wipes:
  assumes "\<forall>blk. c = Some blk \<longrightarrow> 0 < sint n \<and> length blk = unat (n :: i32)"
  shows "\<exists>c'. Util_Zero c (scast n) = Inr c' \<and> wiped (c_free True c')"
  using assms scast_pos [of n] by (cases c) (auto simp: Util_Zero_def c_free_def wiped_def)

lemma c_free_plain [simp]: "wiped (c_free False p)"
  by (cases p) (simp_all add: c_free_def wiped_def)

lemma release_value_wipes:
  assumes "prop_ok p"
  shows "\<exists>f. release_value p = Inr f \<and> wiped f"
proof -
  consider (str) "ptype p = VIX_PROPERTYTYPE_STRING" | (blob) "ptype p = VIX_PROPERTYTYPE_BLOB" "ptype p \<noteq> VIX_PROPERTYTYPE_STRING"
    | (other) "ptype p \<noteq> VIX_PROPERTYTYPE_STRING" "ptype p \<noteq> VIX_PROPERTYTYPE_BLOB" by blast
  then show ?thesis
  proof cases
    case str
    then obtain s where s: "pvalue p = strValue s" "\<forall>blk. s = Some blk \<longrightarrow> c_string blk"
      using assms value_ok_str by (auto simp: prop_ok_def)
    then show ?thesis
      using str Util_ZeroString_wipes [OF s(2)]
      by (cases "isSensitive p") (auto simp: release_value_def str_of_def)
  next
    case blob
    then obtain c n where c: "pvalue p = blobValue c n" "\<forall>blk. c = Some blk \<longrightarrow> 0 < sint n \<and> length blk = unat n"
      using assms value_ok_blob [of "pvalue p"] by (auto simp: prop_ok_def)
    then show ?thesis
      using blob Util_Zero_wipes [OF c(2)]
      by (cases "isSensitive p") (auto simp: release_value_def blob_of_def)
  next
    case other
    then show ?thesis by (simp add: release_value_def wiped_def)
  qed
qed

lemma remove_nodes_wipes:
  assumes "list_all prop_ok ps"
  shows "\<exists>fr'. remove_nodes ps fr = Inr \<lparr>properties = [], freed = fr'\<rparr> \<and> (wiped fr \<longrightarrow> wiped fr')"
  using assms
proof (induction ps arbitrary: fr)
  case (Cons p ps)
  obtain f where f: "release_value p = Inr f" "wiped f" using release_value_wipes [of p] Cons.prems by auto
  obtain fr' where "remove_nodes ps (fr @ f) = Inr \<lparr>properties = [], freed = fr'\<rparr>" "wiped (fr @ f) \<longrightarrow> wiped fr'"
    using Cons.IH [of "fr @ f"] Cons.prems by auto
  then show ?case using f by simp
qed simp

section \<open>Finding a node\<close>

lemma find_walk_Some:
  assumes "find_walk pid type k ps i = Some (err, j)"
  shows "i \<le> j \<and> j - i < length ps \<and> propertyID (ps ! (j - i)) = pid \<and>
    err = (if type \<noteq> VIX_PROPERTYTYPE_ANY \<and> type \<noteq> ptype (ps ! (j - i)) then VIX_E_TYPE_MISMATCH else VIX_OK)"
  using assms
proof (induction ps arbitrary: k i)
  case (Cons p ps)
  show ?case
  proof (cases "pid = propertyID p \<and> \<not> 0 < k")
    case True
    then show ?thesis using Cons.prems by auto
  next
    case False
    then obtain k' where "find_walk pid type k' ps (i + 1) = Some (err, j)" using Cons.prems by (auto split: if_splits)
    from Cons.IH [OF this] show ?thesis by (auto simp: nth_Cons')
  qed
qed simp

lemma append_property_ok:
  assumes "plist_ok l" and "VixPropertyListAppendProperty l pid type = (i, l')"
  shows "plist_ok l' \<and> i < length (properties l') \<and> propertyID (properties l' ! i) = pid \<and>
    ptype (properties l' ! i) = type \<and> freed l' = freed l"
  using assms value_ok_calloc [of type]
  by (auto simp: VixPropertyListAppendProperty_def plist_ok_def prop_ok_def)

lemma FindProperty_ok:
  assumes "plist_ok l" and "VixPropertyList_FindProperty l pid type k create = (err, node, l')"
  shows "plist_ok l' \<and> freed l' = freed l \<and>
    (err = VIX_OK \<longrightarrow> (\<exists>i. node = Some i \<and> i < length (properties l') \<and> propertyID (properties l' ! i) = pid \<and>
      (type = VIX_PROPERTYTYPE_ANY \<or> ptype (properties l' ! i) = type)))"
proof (cases "find_walk pid type k (properties l) 0")
  case None
  show ?thesis
  proof (cases create)
    case True
    then show ?thesis
      using None assms append_property_ok [OF assms(1)]
      by (cases "VixPropertyListAppendProperty l pid type") (auto simp: VixPropertyList_FindProperty_def)
  next
    case False
    then show ?thesis using None assms by (auto simp: VixPropertyList_FindProperty_def)
  qed
next
  case (Some r)
  obtain e j where r: "r = (e, j)" by (cases r)
  then show ?thesis
    using Some assms find_walk_Some [of pid type k "properties l" 0 e j]
    by (auto simp: VixPropertyList_FindProperty_def split: if_splits)
qed

lemma set_node_ok: "plist_ok l \<Longrightarrow> prop_ok p \<Longrightarrow> plist_ok (set_node l i p fr)"
  by (auto simp: plist_ok_def set_node_def list_all_iff dest: subsetD [OF set_update_subset_insert])

text \<open>A setter whose change keeps nodes of its type well typed.\<close>

lemma update_property_ok:
  assumes "plist_ok l" and "type \<noteq> VIX_PROPERTYTYPE_ANY"
    and "\<And>p. prop_ok p \<Longrightarrow> ptype p = type \<Longrightarrow> \<exists>p' fr. f p = Inr (p', fr) \<and> prop_ok p' \<and> wiped fr"
  shows "\<exists>err l'. update_property (Some l) pid type f = Inr (err, Some l') \<and> plist_ok l' \<and>
    (wiped (freed l) \<longrightarrow> wiped (freed l'))"
proof -
  obtain err node l1 where find: "VixPropertyList_FindProperty l pid type 0 True = (err, node, l1)" by (metis prod_cases3)
  note ok = FindProperty_ok [OF assms(1) find]
  show ?thesis
  proof (cases "err = VIX_OK")
    case False
    then show ?thesis using find ok by (cases err) (auto simp: update_property_def)
  next
    case True
    then obtain i where i: "node = Some i" "i < length (properties l1)" "ptype (properties l1 ! i) = type"
      using ok assms(2) by auto
    then have "prop_ok (properties l1 ! i)" using ok by (simp add: plist_ok_def list_all_length)
    then obtain p' fr where "f (properties l1 ! i) = Inr (p', fr)" "prop_ok p'" "wiped fr" using assms(3) i(3) by blast
    then show ?thesis
      using find ok True i set_node_ok [of l1 p' i fr] by (auto simp: update_property_def set_node_def)
  qed
qed

section \<open>The interface keeps nodes well typed and wipes what it frees\<close>

text \<open>The arguments a caller may pass: terminated strings, blobs of at least the announced size.\<close>

fun legal_op :: "VixOp \<Rightarrow> bool" where
  "legal_op (OpSetString pid v sens) = (\<forall>s. v = Some s \<longrightarrow> 0 \<in> set s \<and> length s < 2 ^ 64)"
| "legal_op (OpSetBlob pid n v sens) = (\<forall>s. v = Some s \<and> 0 < sint n \<longrightarrow> unat n \<le> length s)"
| "legal_op _ = True"

lemma SetStringImpl_ok:
  assumes "prop_ok p" and "ptype p = VIX_PROPERTYTYPE_STRING" and "\<forall>s. v = Some s \<longrightarrow> 0 \<in> set s \<and> length s < 2 ^ 64"
  shows "\<exists>p' fr. VixPropertyListSetStringImpl p v sens = Inr (p', fr) \<and> prop_ok p' \<and> wiped fr"
proof -
  obtain s where s: "pvalue p = strValue s" "\<forall>blk. s = Some blk \<longrightarrow> c_string blk"
    using assms(1,2) value_ok_str by (auto simp: prop_ok_def)
  obtain s' where s': "(if s \<noteq> None \<and> isSensitive p then Util_ZeroString s else Inr s) = Inr s'"
    "wiped (c_free (isSensitive p) s')"
    using Util_ZeroString_wipes [OF s(2)] by (cases "isSensitive p"; cases s) (auto simp: c_free_def wiped_def)
  have "\<exists>new. (case v of None \<Rightarrow> Inr None
      | Some v \<Rightarrow> bindR (c_strlen v) (\<lambda>n. bindR (read_at v 0 (n + 1)) (\<lambda>bs. Inr (Some bs)))) = Inr new \<and>
      (\<forall>blk. new = Some blk \<longrightarrow> c_string blk)"
  proof (cases v)
    case (Some x)
    then obtain n where "c_strlen x = Inr n" using assms(3) by (auto simp: c_strlen_def)
    then show ?thesis using Some assms(3) c_strlen_take [of x n] by (auto simp: read_at_def)
  qed simp
  then show ?thesis
    using s s' assms(2) by (auto simp: VixPropertyListSetStringImpl_def str_of_def prop_ok_def)
qed

lemma SetBlobImpl_ok:
  assumes "prop_ok p" and "ptype p = VIX_PROPERTYTYPE_BLOB" and "\<forall>s. v = Some s \<and> 0 < sint k \<longrightarrow> unat k \<le> length s"
  shows "\<exists>p' fr. VixPropertyListSetBlobImpl p k v sens = Inr (p', fr) \<and> prop_ok p' \<and> wiped fr"
proof -
  obtain c n where c: "pvalue p = blobValue c n" "\<forall>blk. c = Some blk \<longrightarrow> 0 < sint n \<and> length blk = unat n"
    using assms(1,2) value_ok_blob [of "pvalue p"] by (auto simp: prop_ok_def)
  obtain c' where c': "(if c \<noteq> None \<and> isSensitive p then Util_Zero c (scast n) else Inr c) = Inr c'"
    "wiped (c_free (isSensitive p) c')"
    using Util_Zero_wipes [OF c(2)] by (cases "isSensitive p"; cases c) (auto simp: c_free_def wiped_def)
  have "\<exists>new. (case v of None \<Rightarrow> Inr None
      | Some v \<Rightarrow> if 0 < sint k then bindR (read_at v 0 (unat k)) (\<lambda>bs. Inr (Some bs)) else Inr None) = Inr new \<and>
      (\<forall>blk. new = Some blk \<longrightarrow> 0 < sint k \<and> length blk = unat k)"
    using assms(3) by (cases v) (auto simp: read_at_def)
  then show ?thesis
    using c c' assms(2) by (auto simp: VixPropertyListSetBlobImpl_def blob_of_def prop_ok_def)
qed

lemma update_scalar_ok:
  assumes "plist_ok l" and "value_ok type v" and "type \<noteq> VIX_PROPERTYTYPE_ANY"
  shows "\<exists>err l'. update_property (Some l) pid type (\<lambda>p. Inr (p\<lparr>pvalue := v, isDirty := True\<rparr>, [])) = Inr (err, Some l') \<and>
    plist_ok l' \<and> (wiped (freed l) \<longrightarrow> wiped (freed l'))"
  using assms by (intro update_property_ok) (auto simp: prop_ok_def wiped_def)

lemma vix_do_ok:
  assumes "plist_ok l" and "legal_op op"
  shows "\<exists>err l'. vix_do (Some l) op = Inr (err, Some l') \<and> plist_ok l' \<and> (wiped (freed l) \<longrightarrow> wiped (freed l'))"
proof (cases op)
  case (OpSetString pid v sens)
  then show ?thesis
    using update_property_ok [OF assms(1) _ SetStringImpl_ok] assms(2)
    by (auto simp: VixPropertyList_SetString_def VixPropertyList_SetStringSensitive_def vix_types)
next
  case (OpSetBlob pid n v sens)
  then show ?thesis
    using update_property_ok [OF assms(1) _ SetBlobImpl_ok] assms(2)
    by (auto simp: VixPropertyList_SetBlob_def VixPropertyList_SetBlobSensitive_def vix_types)
next
  case OpMarkAllSensitive
  then show ?thesis
    using assms(1) by (auto simp: VixPropertyList_MarkAllSensitive_def plist_ok_def prop_ok_def list_all_iff)
next
  case OpRemoveAll
  then show ?thesis
    using remove_nodes_wipes [of "properties l" "freed l"] assms(1)
    by (auto simp: VixPropertyList_RemoveAllWithoutHandles_def plist_ok_def)
next
  case (OpSetInteger pid x)
  then show ?thesis
    using update_scalar_ok [OF assms(1), of VIX_PROPERTYTYPE_INTEGER "intValue x" pid]
    by (simp add: VixPropertyList_SetInteger_def vix_types)
next
  case (OpSetBool pid x)
  then show ?thesis
    using update_scalar_ok [OF assms(1), of VIX_PROPERTYTYPE_BOOL "boolValue x" pid]
    by (simp add: VixPropertyList_SetBool_def vix_types)
next
  case (OpSetInt64 pid x)
  then show ?thesis
    using update_scalar_ok [OF assms(1), of VIX_PROPERTYTYPE_INT64 "int64Value x" pid]
    by (simp add: VixPropertyList_SetInt64_def vix_types)
next
  case (OpSetPtr pid x)
  then show ?thesis
    using update_scalar_ok [OF assms(1), of VIX_PROPERTYTYPE_POINTER "ptrValue x" pid]
    by (simp add: VixPropertyList_SetPtr_def vix_types)
qed

definition vix_init :: "VixPropertyListImpl \<Rightarrow> bool" where
  "vix_init l \<longleftrightarrow> l = VixPropertyList_Initialize"

definition vix_step :: "VixPropertyListImpl \<Rightarrow> VixOp \<Rightarrow> VixPropertyListImpl \<Rightarrow> bool" where
  "vix_step l op l' \<longleftrightarrow> legal_op op \<and> (\<exists>err. vix_do (Some l) op = Inr (err, Some l'))"

interpretation vix: invariant_system vix_init vix_step "\<lambda>l. plist_ok l \<and> wiped (freed l)"
proof
  show "vix_init s \<Longrightarrow> plist_ok s \<and> wiped (freed s)" for s
    by (simp add: vix_init_def VixPropertyList_Initialize_def plist_ok_def wiped_def)
  show "plist_ok s \<and> wiped (freed s) \<Longrightarrow> vix_step s a s' \<Longrightarrow> plist_ok s' \<and> wiped (freed s')" for s a s'
    using vix_do_ok [of s a] by (auto simp: vix_step_def)
qed

text \<open>
  C16. After any sequence of setters, marks and removals on a new property list every node is well typed, the
  next call runs without a fault (in particular no member of the union is read that is not valid), and every
  block that was freed while its property was sensitive had been overwritten with zero bytes.
\<close>

theorem vix_sensitive_wiped:
  assumes "reach vix_init vix_step l"
  shows "plist_ok l \<and> wiped (freed l) \<and> (\<forall>op. legal_op op \<longrightarrow> (\<exists>err l'. vix_do (Some l) op = Inr (err, Some l')))"
  using vix.reach_inv [OF assms] vix_do_ok [of l] by blast

theorem vix_sensitive_wiped_witness:
  "\<exists>l. vix_do (Some VixPropertyList_Initialize) (OpSetString 5 (Some [112, 119, 0]) True) = Inr (VIX_OK, Some l) \<and>
     wiped (freed l) \<and> (\<exists>err l'. vix_do (Some l) OpRemoveAll = Inr (err, Some l'))"
proof -
  let ?op = "OpSetString 5 (Some [112, 119, 0]) True"
  obtain l where l: "vix_do (Some VixPropertyList_Initialize) ?op = Inr (VIX_OK, Some l)"
    by (simp add: VixPropertyList_SetStringSensitive_def update_property_def VixPropertyList_FindProperty_def
        VixPropertyList_Initialize_def VixPropertyListAppendProperty_def calloc_value_def VixPropertyListSetStringImpl_def
        str_of_def c_strlen_def read_at_def)
  have "reach vix_init vix_step VixPropertyList_Initialize" by (rule reach_init) (simp add: vix_init_def)
  moreover have "vix_step VixPropertyList_Initialize ?op l" using l by (simp add: vix_step_def)
  ultimately have "reach vix_init vix_step l" by (rule reach_step)
  from vix_sensitive_wiped [OF this] have "wiped (freed l)" "legal_op OpRemoveAll \<longrightarrow>
    (\<exists>err l'. vix_do (Some l) OpRemoveAll = Inr (err, Some l'))" by blast+
  moreover have "legal_op OpRemoveAll" by simp
  ultimately show ?thesis using l by blast
qed

end
