(* ===== verification/VixProps_Map.thy ===== *)
theory VixProps_Map
  imports VixProps_Laws
begin

text \<open>
  Property lists as maps: for a client that reads and writes by identifier, a property list is a map from
  identifiers to values in which a value is only replaced by one of its type.
\<close>

fun tag :: "VixValue \<Rightarrow> u32" where
  "tag (boolValue x) = VIX_PROPERTYTYPE_BOOL"
| "tag (strValue s) = VIX_PROPERTYTYPE_STRING"
| "tag (intValue x) = VIX_PROPERTYTYPE_INTEGER"
| "tag (int64Value x) = VIX_PROPERTYTYPE_INT64"
| "tag (handleValue x) = VIX_PROPERTYTYPE_HANDLE"
| "tag (blobValue c n) = VIX_PROPERTYTYPE_BLOB"
| "tag (ptrValue x) = VIX_PROPERTYTYPE_POINTER"
| "tag zeroValue = VIX_PROPERTYTYPE_ANY"

definition client_types :: "u32 set" where
  "client_types = {VIX_PROPERTYTYPE_BOOL, VIX_PROPERTYTYPE_STRING, VIX_PROPERTYTYPE_INTEGER, VIX_PROPERTYTYPE_INT64,
     VIX_PROPERTYTYPE_BLOB, VIX_PROPERTYTYPE_POINTER}"

text \<open>The values a client may store: terminated strings, blobs with contents of their size.\<close>

definition storable :: "VixValue \<Rightarrow> bool" where
  "storable v \<longleftrightarrow> tag v \<in> client_types \<and> value_ok (tag v) v \<and> (\<forall>n. v \<noteq> blobValue None n)"

fun legal_call :: "VixCall \<Rightarrow> bool" where
  "legal_call (CallSet pid v) = storable v"
| "legal_call (CallGet pid type) = (type \<in> client_types)"
| "legal_call CallClear = True"

text \<open>The specification.\<close>

fun map_call :: "(i32 \<rightharpoonup> VixValue) \<Rightarrow> VixCall \<Rightarrow> (i32 \<rightharpoonup> VixValue) \<times> (VixError \<times> VixValue option)" where
  "map_call m (CallSet pid v) =
     (case m pid of
        None \<Rightarrow> (m(pid \<mapsto> v), (VIX_OK, None))
      | Some w \<Rightarrow> if tag w = tag v then (m(pid \<mapsto> v), (VIX_OK, None)) else (m, (VIX_E_TYPE_MISMATCH, None)))"
| "map_call m (CallGet pid type) =
     (m, case m pid of
           None \<Rightarrow> (VIX_E_UNRECOGNIZED_PROPERTY, None)
         | Some w \<Rightarrow> if tag w = type then (VIX_OK, Some w) else (VIX_E_TYPE_MISMATCH, None))"
| "map_call m CallClear = (Map.empty, (VIX_OK, None))"

definition as_map :: "VixPropertyListImpl \<Rightarrow> i32 \<rightharpoonup> VixValue" where
  "as_map l = (\<lambda>pid. map_option pvalue (find (\<lambda>p. propertyID p = pid) (properties l)))"

definition map_inv :: "VixPropertyListImpl \<Rightarrow> bool" where
  "map_inv l \<longleftrightarrow> plist_ok l \<and> (\<forall>p \<in> set (properties l). \<forall>n. pvalue p \<noteq> blobValue None n)"

section \<open>The first node of an identifier\<close>

lemma find_walk_first:
  "find_walk pid type 0 ps i =
     (case find (\<lambda>p. propertyID p = pid) ps of
        None \<Rightarrow> None
      | Some p \<Rightarrow> Some (if type \<noteq> VIX_PROPERTYTYPE_ANY \<and> type \<noteq> ptype p then VIX_E_TYPE_MISMATCH else VIX_OK,
          i + length (takeWhile (\<lambda>p. propertyID p \<noteq> pid) ps)))"
  by (induction ps arbitrary: i) (auto split: option.splits)

lemma first_nth: "find (\<lambda>p. propertyID p = pid) ps = Some p \<Longrightarrow>
    ps ! length (takeWhile (\<lambda>p. propertyID p \<noteq> pid) ps) = p \<and> length (takeWhile (\<lambda>p. propertyID p \<noteq> pid) ps) < length ps \<and>
    propertyID p = pid \<and> p \<in> set ps"
  by (induction ps) (auto split: if_splits)

lemma find_update_first:
  assumes "propertyID p' = pid"
  shows "find (\<lambda>p. propertyID p = q) (ps[length (takeWhile (\<lambda>p. propertyID p \<noteq> pid) ps) := p']) =
    (if q = pid \<and> find (\<lambda>p. propertyID p = pid) ps \<noteq> None then Some p' else find (\<lambda>p. propertyID p = q) ps)"
  using assms by (induction ps) auto

lemma find_node_append: "find P (xs @ [x]) = (case find P xs of None \<Rightarrow> if P x then Some x else None | Some y \<Rightarrow> Some y)"
  by (induction xs) auto

lemma type_tag: "prop_ok p \<Longrightarrow> type \<in> client_types \<Longrightarrow> type = ptype p \<longleftrightarrow> tag (pvalue p) = type"
  by (cases "pvalue p") (auto simp: prop_ok_def client_types_def vix_types)

section \<open>Setters and getters\<close>

lemma update_property_map:
  assumes "map_inv l" and "storable v"
    and "\<And>p. prop_ok p \<Longrightarrow> ptype p = tag v \<Longrightarrow> \<exists>p' fr. f p = Inr (p', fr) \<and> pvalue p' = v \<and> ptype p' = tag v \<and> propertyID p' = propertyID p"
  shows "\<exists>e l'. update_property (Some l) pid (tag v) f = Inr (e, Some l') \<and> map_inv l' \<and>
    map_call (as_map l) (CallSet pid v) = (as_map l', (e, None))"
proof -
  have t: "tag v \<in> client_types" "tag v \<noteq> VIX_PROPERTYTYPE_ANY" and v: "value_ok (tag v) v" "\<forall>n. v \<noteq> blobValue None n"
    using assms(2) by (auto simp: storable_def client_types_def vix_types)
  let ?k = "length (takeWhile (\<lambda>p. propertyID p \<noteq> pid) (properties l))"
  show ?thesis
  proof (cases "find (\<lambda>p. propertyID p = pid) (properties l)")
    case None
    let ?new = "\<lparr>propertyID = pid, ptype = tag v, pvalue = calloc_value (tag v), isDirty = True, isSensitive = False\<rparr>"
    have "prop_ok ?new" using value_ok_calloc [of "tag v"] by (simp add: prop_ok_def)
    then obtain p' fr where p': "f ?new = Inr (p', fr)" "pvalue p' = v" "ptype p' = tag v" "propertyID p' = pid"
      using assms(3) [of ?new] by auto
    let ?l' = "l\<lparr>properties := properties l @ [p'], freed := freed l @ fr\<rparr>"
    have "update_property (Some l) pid (tag v) f = Inr (VIX_OK, Some ?l')"
      using None p'(1) find_walk_first [of pid "tag v" "properties l" 0]
      by (simp add: update_property_def VixPropertyList_FindProperty_def VixPropertyListAppendProperty_def set_node_def)
    moreover have "map_inv ?l'"
      using assms(1) v p' by (auto simp: map_inv_def plist_ok_def prop_ok_def)
    moreover have "as_map ?l' = (as_map l)(pid \<mapsto> v)"
      using None p' by (auto simp: as_map_def find_node_append fun_eq_iff split: option.splits)
    moreover have "as_map l pid = None" using None by (simp add: as_map_def)
    ultimately show ?thesis by simp
  next
    case (Some p)
    note first = first_nth [OF Some]
    have ok: "prop_ok p" using first assms(1) by (auto simp: map_inv_def plist_ok_def list_all_iff)
    have ap: "as_map l pid = Some (pvalue p)" using Some by (simp add: as_map_def)
    show ?thesis
    proof (cases "ptype p = tag v")
      case False
      then have "tag (pvalue p) \<noteq> tag v" using type_tag [OF ok t(1)] by auto
      moreover have "update_property (Some l) pid (tag v) f = Inr (VIX_E_TYPE_MISMATCH, Some l)"
        using Some False t(2) find_walk_first [of pid "tag v" "properties l" 0]
        by (simp add: update_property_def VixPropertyList_FindProperty_def)
      ultimately show ?thesis using assms(1) ap by simp
    next
      case True
      obtain p' fr where p': "f p = Inr (p', fr)" "pvalue p' = v" "ptype p' = tag v" "propertyID p' = pid"
        using assms(3) [OF ok True] first by auto
      let ?l' = "l\<lparr>properties := (properties l)[?k := p'], freed := freed l @ fr\<rparr>"
      have "update_property (Some l) pid (tag v) f = Inr (VIX_OK, Some ?l')"
        using Some True p'(1) first find_walk_first [of pid "tag v" "properties l" 0]
        by (simp add: update_property_def VixPropertyList_FindProperty_def set_node_def)
      moreover have "map_inv ?l'"
        using assms(1) v p' set_node_ok [of l p' ?k fr] set_update_subset_insert [of "properties l" ?k p']
        by (auto simp: map_inv_def set_node_def prop_ok_def)
      moreover have "as_map ?l' = (as_map l)(pid \<mapsto> v)"
        using find_update_first [OF p'(4), of _ "properties l"] Some p'(2) by (auto simp: as_map_def fun_eq_iff)
      moreover have "tag (pvalue p) = tag v" using type_tag [OF ok t(1)] True by simp
      ultimately show ?thesis using ap by simp
    qed
  qed
qed

lemma read_property_map:
  assumes "map_inv l" and "type \<in> client_types"
    and "\<And>p. p \<in> set (properties l) \<Longrightarrow> prop_ok p \<Longrightarrow> ptype p = type \<Longrightarrow> \<exists>x. f (pvalue p) = Inr x \<and> mk x = pvalue p"
  shows "\<exists>e x. read_property (Some l) pid type 0 f = Inr (e, x) \<and>
    map_call (as_map l) (CallGet pid type) = (as_map l, (e, map_option mk x))"
proof -
  have t: "type \<noteq> VIX_PROPERTYTYPE_ANY" using assms(2) by (auto simp: client_types_def vix_types)
  show ?thesis
  proof (cases "find (\<lambda>p. propertyID p = pid) (properties l)")
    case None
    then show ?thesis
      using find_walk_first [of pid type "properties l" 0]
      by (simp add: read_property_def VixPropertyList_FindProperty_def as_map_def)
  next
    case (Some p)
    note first = first_nth [OF Some]
    have ok: "prop_ok p" using first assms(1) by (auto simp: map_inv_def plist_ok_def list_all_iff)
    show ?thesis
    proof (cases "ptype p = type")
      case False
      then show ?thesis
        using Some t type_tag [OF ok assms(2)] find_walk_first [of pid type "properties l" 0]
        by (auto simp: read_property_def VixPropertyList_FindProperty_def as_map_def)
    next
      case True
      then obtain x where "f (pvalue p) = Inr x" "mk x = pvalue p" using assms(3) [of p] ok first by blast
      then show ?thesis
        using Some True first type_tag [OF ok assms(2)] find_walk_first [of pid type "properties l" 0]
        by (auto simp: read_property_def VixPropertyList_FindProperty_def as_map_def)
    qed
  qed
qed

lemma c_string_copy:
  assumes "c_string v"
  shows "c_strlen v = Inr (length v - 1)" "read_at v 0 (length v - 1 + 1) = Inr v" "0 \<in> set v \<and> length v < 2 ^ 64"
  using c_string_strlen [OF assms] assms by (auto simp: read_at_def c_string_def)

lemma SetStringImpl_value:
  assumes "prop_ok p" and "ptype p = VIX_PROPERTYTYPE_STRING" and "\<forall>blk. s = Some blk \<longrightarrow> c_string blk"
  shows "\<exists>p' fr. VixPropertyListSetStringImpl p s sens = Inr (p', fr) \<and> pvalue p' = strValue s \<and>
    ptype p' = VIX_PROPERTYTYPE_STRING \<and> propertyID p' = propertyID p"
proof -
  obtain p' fr where r: "VixPropertyListSetStringImpl p s sens = Inr (p', fr)"
    using SetStringImpl_ok [OF assms(1,2), of s sens] assms(3) c_string_copy(3) by blast
  moreover have "(case s of None \<Rightarrow> Inr None
      | Some v \<Rightarrow> bindR (c_strlen v) (\<lambda>n. bindR (read_at v 0 (n + 1)) (\<lambda>bs. Inr (Some bs)))) = Inr s"
    using assms(3) c_string_copy by (cases s) auto
  ultimately have "p' = p\<lparr>pvalue := strValue s, isDirty := True, isSensitive := sens\<rparr>"
    by (auto simp: VixPropertyListSetStringImpl_def bindR_eq_Inr)
  then show ?thesis using r assms(2) by simp
qed

lemma SetBlobImpl_value:
  assumes "prop_ok p" and "ptype p = VIX_PROPERTYTYPE_BLOB" and "0 < sint n" and "length blk = unat n"
  shows "\<exists>p' fr. VixPropertyListSetBlobImpl p n (Some blk) sens = Inr (p', fr) \<and> pvalue p' = blobValue (Some blk) n \<and>
    ptype p' = VIX_PROPERTYTYPE_BLOB \<and> propertyID p' = propertyID p"
proof -
  obtain p' fr where r: "VixPropertyListSetBlobImpl p n (Some blk) sens = Inr (p', fr)"
    using SetBlobImpl_ok [OF assms(1,2), of "Some blk" n sens] assms(4) by auto
  then have "p' = p\<lparr>pvalue := blobValue (Some blk) n, isDirty := True, isSensitive := sens\<rparr>"
    using assms(3,4) by (auto simp: VixPropertyListSetBlobImpl_def bindR_eq_Inr read_at_def)
  then show ?thesis using r assms(2) by simp
qed

lemma set_by_kind_map:
  assumes "map_inv l" and "storable v"
  shows "\<exists>e l'. set_by_kind l pid v = Inr (e, Some l') \<and> map_inv l' \<and>
    map_call (as_map l) (CallSet pid v) = (as_map l', (e, None))"
proof -
  note upd = update_property_map [OF assms, of _ pid]
  show ?thesis
  proof (cases v)
    case (strValue s)
    then have "\<forall>blk. s = Some blk \<longrightarrow> c_string blk" using assms(2) by (simp add: storable_def)
    then show ?thesis
      using strValue upd [of "\<lambda>p. VixPropertyListSetStringImpl p s (isSensitive p)"] SetStringImpl_value
      by (simp add: set_by_kind_def VixPropertyList_SetString_def)
  next
    case (blobValue c n)
    then obtain blk where "c = Some blk" "0 < sint n" "length blk = unat n"
      using assms(2) by (cases c) (auto simp: storable_def)
    then show ?thesis
      using blobValue upd [of "\<lambda>p. VixPropertyListSetBlobImpl p n c (isSensitive p)"] SetBlobImpl_value
      by (simp add: set_by_kind_def VixPropertyList_SetBlob_def)
  next
    case (intValue x)
    then show ?thesis
      using upd [of "\<lambda>p. Inr (p\<lparr>pvalue := intValue x, isDirty := True\<rparr>, [])"]
      by (simp add: set_by_kind_def VixPropertyList_SetInteger_def)
  next
    case (boolValue x)
    then show ?thesis
      using upd [of "\<lambda>p. Inr (p\<lparr>pvalue := boolValue x, isDirty := True\<rparr>, [])"]
      by (simp add: set_by_kind_def VixPropertyList_SetBool_def)
  next
    case (int64Value x)
    then show ?thesis
      using upd [of "\<lambda>p. Inr (p\<lparr>pvalue := int64Value x, isDirty := True\<rparr>, [])"]
      by (simp add: set_by_kind_def VixPropertyList_SetInt64_def)
  next
    case (ptrValue x)
    then show ?thesis
      using upd [of "\<lambda>p. Inr (p\<lparr>pvalue := ptrValue x, isDirty := True\<rparr>, [])"]
      by (simp add: set_by_kind_def VixPropertyList_SetPtr_def)
  qed (use assms(2) in \<open>auto simp: storable_def client_types_def vix_types\<close>)
qed

lemma value_ok_scalar:
  "value_ok VIX_PROPERTYTYPE_INTEGER v \<Longrightarrow> \<exists>x. v = intValue x" "value_ok VIX_PROPERTYTYPE_BOOL v \<Longrightarrow> \<exists>x. v = boolValue x"
  "value_ok VIX_PROPERTYTYPE_INT64 v \<Longrightarrow> \<exists>x. v = int64Value x" "value_ok VIX_PROPERTYTYPE_POINTER v \<Longrightarrow> \<exists>x. v = ptrValue x"
  by (cases v; simp add: vix_types)+

lemma read_scalar_map:
  assumes "map_inv l" and "type \<in> client_types" and "\<And>x. f (mk x) = Inr x" and "\<And>v. value_ok type v \<Longrightarrow> \<exists>x. v = mk x"
  shows "\<exists>e x. read_property (Some l) pid type 0 f = Inr (e, x) \<and>
    map_call (as_map l) (CallGet pid type) = (as_map l, (e, map_option mk x))"
  by (rule read_property_map [OF assms(1,2)]) (use assms(3,4) in \<open>force simp: prop_ok_def\<close>)

lemma get_by_type_map:
  assumes "map_inv l" and "type \<in> client_types"
  shows "\<exists>r. get_by_type l pid type = Inr r \<and> map_call (as_map l) (CallGet pid type) = (as_map l, r)"
proof -
  consider (int) "type = VIX_PROPERTYTYPE_INTEGER" | (bool) "type = VIX_PROPERTYTYPE_BOOL" | (int64) "type = VIX_PROPERTYTYPE_INT64"
    | (ptr) "type = VIX_PROPERTYTYPE_POINTER" | (str) "type = VIX_PROPERTYTYPE_STRING" | (blob) "type = VIX_PROPERTYTYPE_BLOB"
    using assms(2) by (auto simp: client_types_def)
  then show ?thesis
  proof cases
    case int
    have "\<exists>e x. VixPropertyList_GetInteger (Some l) pid 0 = Inr (e, x) \<and>
        map_call (as_map l) (CallGet pid type) = (as_map l, (e, map_option intValue x))"
      unfolding VixPropertyList_GetInteger_def int [symmetric]
      by (rule read_scalar_map [OF assms]) (use int value_ok_scalar in auto)
    then show ?thesis using int by (auto simp: get_by_type_def vix_types)
  next
    case bool
    have "\<exists>e x. VixPropertyList_GetBool (Some l) pid 0 = Inr (e, x) \<and>
        map_call (as_map l) (CallGet pid type) = (as_map l, (e, map_option boolValue x))"
      unfolding VixPropertyList_GetBool_def bool [symmetric]
      by (rule read_scalar_map [OF assms]) (use bool value_ok_scalar in auto)
    then show ?thesis using bool by (auto simp: get_by_type_def vix_types)
  next
    case int64
    have "\<exists>e x. VixPropertyList_GetInt64 (Some l) pid 0 = Inr (e, x) \<and>
        map_call (as_map l) (CallGet pid type) = (as_map l, (e, map_option int64Value x))"
      unfolding VixPropertyList_GetInt64_def int64 [symmetric]
      by (rule read_scalar_map [OF assms]) (use int64 value_ok_scalar in auto)
    then show ?thesis using int64 by (auto simp: get_by_type_def vix_types)
  next
    case ptr
    have "\<exists>e x. VixPropertyList_GetPtr (Some l) pid 0 = Inr (e, x) \<and>
        map_call (as_map l) (CallGet pid type) = (as_map l, (e, map_option ptrValue x))"
      unfolding VixPropertyList_GetPtr_def ptr [symmetric]
      by (rule read_scalar_map [OF assms]) (use ptr value_ok_scalar in auto)
    then show ?thesis using ptr by (auto simp: get_by_type_def vix_types)
  next
    case str
    have "\<exists>e x. VixPropertyList_GetString (Some l) pid 0 = Inr (e, x) \<and>
        map_call (as_map l) (CallGet pid type) = (as_map l, (e, map_option strValue x))"
      unfolding VixPropertyList_GetString_def str [symmetric]
    proof (rule read_property_map [OF assms])
      fix p assume "prop_ok p" "ptype p = type"
      then obtain s where "pvalue p = strValue s" "\<forall>blk. s = Some blk \<longrightarrow> c_string blk"
        using str value_ok_str by (auto simp: prop_ok_def)
      then show "\<exists>x. bindR (str_of (pvalue p)) (\<lambda>s. case s of None \<Rightarrow> Inr None
          | Some blk \<Rightarrow> bindR (c_strlen blk) (\<lambda>n. bindR (read_at blk 0 (n + 1)) (\<lambda>bs. Inr (Some bs)))) = Inr x \<and>
          strValue x = pvalue p"
        using c_string_copy by (cases s) (auto simp: str_of_def)
    qed
    then show ?thesis using str by (auto simp: get_by_type_def vix_types)
  next
    case blob
    have "\<exists>e x. VixPropertyList_GetBlob (Some l) pid 0 = Inr (e, x) \<and>
        map_call (as_map l) (CallGet pid type) = (as_map l, (e, map_option (\<lambda>(n, c). blobValue c n) x))"
      unfolding VixPropertyList_GetBlob_def blob [symmetric]
    proof (rule read_property_map [OF assms])
      fix p assume p: "p \<in> set (properties l)" "prop_ok p" "ptype p = type"
      then obtain c n where c: "pvalue p = blobValue c n" "\<forall>blk. c = Some blk \<longrightarrow> 0 < sint n \<and> length blk = unat n"
        using blob value_ok_blob [of "pvalue p"] by (auto simp: prop_ok_def)
      moreover obtain blk where "c = Some blk" using assms(1) p(1) c(1) by (cases c) (auto simp: map_inv_def)
      ultimately show "\<exists>x. bindR (blob_of (pvalue p)) (\<lambda>(c, n). case c of
            Some blk \<Rightarrow> if 0 < sint n then bindR (read_at blk 0 (unat n)) (\<lambda>bs. Inr (n, Some bs)) else Inr (0, None)
          | None \<Rightarrow> Inr (0, None)) = Inr x \<and> (\<lambda>(n, c). blobValue c n) x = pvalue p"
        by (simp add: blob_of_def read_at_def)
    qed
    then show ?thesis using blob by (auto simp: get_by_type_def vix_types)
  qed
qed

lemma vix_call_sim:
  assumes "map_inv l" and "legal_call c"
  shows "\<exists>l' r. vix_call l c = Inr (l', r) \<and> map_inv l' \<and> map_call (as_map l) c = (as_map l', r)"
proof (cases c)
  case (CallSet pid v)
  then show ?thesis using set_by_kind_map [OF assms(1), of v pid] assms(2) by auto
next
  case (CallGet pid type)
  then show ?thesis using get_by_type_map [OF assms(1), of type pid] assms by auto
next
  case CallClear
  then show ?thesis
    using remove_nodes_wipes [of "properties l" "freed l"] assms(1)
    by (auto simp: map_inv_def plist_ok_def VixPropertyList_RemoveAllWithoutHandles_def as_map_def)
qed

lemma vix_implementation: "implementation vix_call map_call map_inv as_map (\<lambda>_. n) (\<lambda>_. legal_call)"
  using vix_call_sim by unfold_locales auto

text \<open>
  C15. Any sequence of setter, getter and remove-all calls on a new property list returns what a map from identifiers
  to values returns: a getter gives the last value that was set under the identifier, a type that differs from the stored
  one is refused by setters and getters alike and changes nothing.
\<close>

theorem vix_refines_map:
  assumes "list_all legal_call calls"
  shows "\<exists>l rs. run vix_call VixPropertyList_Initialize calls = Inr (l, rs) \<and>
    run_spec map_call Map.empty calls = (as_map l, rs)"
proof -
  have init: "map_inv VixPropertyList_Initialize" "as_map VixPropertyList_Initialize = Map.empty"
    by (auto simp: map_inv_def plist_ok_def VixPropertyList_Initialize_def as_map_def)
  show ?thesis
    using implementation.run_sim [OF vix_implementation [of "length calls"] init(1), of calls] assms init(2)
    by (auto simp: list_all_iff)
qed

theorem vix_refines_map_witness:
  "\<exists>l rs. run vix_call VixPropertyList_Initialize [CallSet 1 (intValue 5), CallSet 1 (boolValue 1), CallGet 1 VIX_PROPERTYTYPE_INTEGER] = Inr (l, rs) \<and>
    rs = [(VIX_OK, None), (VIX_E_TYPE_MISMATCH, None), (VIX_OK, Some (intValue 5))]"
proof -
  let ?cs = "[CallSet 1 (intValue 5), CallSet 1 (boolValue 1), CallGet 1 VIX_PROPERTYTYPE_INTEGER]"
  have "list_all legal_call ?cs" by (simp add: storable_def client_types_def)
  from vix_refines_map [OF this] obtain l rs where "run vix_call VixPropertyList_Initialize ?cs = Inr (l, rs)"
    "run_spec map_call Map.empty ?cs = (as_map l, rs)" by blast
  moreover have "snd (run_spec map_call Map.empty ?cs) = [(VIX_OK, None), (VIX_E_TYPE_MISMATCH, None), (VIX_OK, Some (intValue 5))]"
    by (simp add: vix_types)
  ultimately show ?thesis by (metis snd_conv)
qed

end
