(* ===== verification/VixWire.thy ===== *)
theory VixWire
  imports VixProps
begin

text \<open>
  The wire format of property lists: \<^verbatim>\<open>VixPropertyList_Serialize\<close>, \<^verbatim>\<open>VixPropertyList_Deserialize\<close> and
  \<^verbatim>\<open>VixPropertyList_DeserializeNoClobber\<close>. A property is its identifier, its type, the length of its value and the value,
  with integers as they lie in the memory of an x86 machine.
\<close>

section \<open>Integers in memory\<close>

definition to_le :: "nat \<Rightarrow> 'a::len word \<Rightarrow> u8 list" where
  "to_le n x = map (\<lambda>i. ucast (drop_bit (8 * i) x)) [0..<n]"

fun of_le :: "u8 list \<Rightarrow> 'a::len word" where
  "of_le [] = 0"
| "of_le (b # bs) = ucast b OR push_bit 8 (of_le bs)"

definition PROPERTY_SIZE_INT32 :: i32 where "PROPERTY_SIZE_INT32 = 4"
definition PROPERTY_SIZE_INT64 :: i32 where "PROPERTY_SIZE_INT64 = 8"
definition PROPERTY_SIZE_BOOL :: i32 where "PROPERTY_SIZE_BOOL = 1"

text \<open>The size of identifier, type and length together.\<close>

definition headerSize :: u64 where "headerSize = 12"

section \<open>Serialising\<close>

text \<open>
  The first loop adds up the sizes. It stops with an error (the first component is true), or goes on with the
  error of a string that is not UTF-8. The length of a value is an \<^verbatim>\<open>int\<close>, the sum a \<^verbatim>\<open>size_t\<close>.
\<close>

definition value_size :: "vix_env \<Rightarrow> VixPropertyValue \<Rightarrow> VixError \<Rightarrow> (bool \<times> VixError \<times> i32) res" where
  "value_size env p err =
     (if ptype p = VIX_PROPERTYTYPE_INTEGER then Inr (False, err, PROPERTY_SIZE_INT32)
      else if ptype p = VIX_PROPERTYTYPE_STRING then
        bindR (str_of (pvalue p)) (\<lambda>s.
          case s of
            None \<Rightarrow> Inr (True, VIX_E_INVALID_ARG, 0)
          | Some blk \<Rightarrow>
              bindR (c_strlen blk) (\<lambda>n.
                Inr (False, if ve_valid env (take (n + 1) blk) then err else VIX_E_INVALID_UTF8_STRING, of_nat (n + 1))))
      else if ptype p = VIX_PROPERTYTYPE_BOOL then Inr (False, err, PROPERTY_SIZE_BOOL)
      else if ptype p = VIX_PROPERTYTYPE_INT64 then Inr (False, err, PROPERTY_SIZE_INT64)
      else if ptype p = VIX_PROPERTYTYPE_BLOB then bindR (blob_of (pvalue p)) (\<lambda>(c, n). Inr (False, err, n))
      else if ptype p = VIX_PROPERTYTYPE_POINTER then Inr (True, VIX_E_INVALID_ARG, 0)
      else Inr (True, VIX_E_UNRECOGNIZED_PROPERTY, 0))"

fun Serialize_size :: "vix_env \<Rightarrow> bool \<Rightarrow> VixPropertyValue list \<Rightarrow> VixError \<Rightarrow> u64 \<Rightarrow> (bool \<times> VixError \<times> u64) res" where
  "Serialize_size env dirtyOnly [] err bufferSize = Inr (False, err, bufferSize)"
| "Serialize_size env dirtyOnly (p # ps) err bufferSize =
     (if dirtyOnly \<and> \<not> isDirty p then Serialize_size env dirtyOnly ps err bufferSize
      else bindR (value_size env p err) (\<lambda>(stop, err, n).
        if stop then Inr (True, err, bufferSize)
        else Serialize_size env dirtyOnly ps err (bufferSize + headerSize + scast n)))"

text \<open>The bytes of a value, copied from the member of the union.\<close>

definition value_bytes :: "VixPropertyValue \<Rightarrow> (VixError + i32 \<times> u8 list) res" where
  "value_bytes p =
     (if ptype p = VIX_PROPERTYTYPE_INTEGER then
        (case pvalue p of intValue x \<Rightarrow> Inr (Inr (PROPERTY_SIZE_INT32, to_le 4 x)) | _ \<Rightarrow> Inl TypeConfusion)
      else if ptype p = VIX_PROPERTYTYPE_STRING then
        bindR (str_of (pvalue p)) (\<lambda>s.
          case s of None \<Rightarrow> Inl NullDeref
          | Some blk \<Rightarrow> bindR (c_strlen blk) (\<lambda>n.
              let valueLength = of_nat n + 1 :: i32 in
              if n \<ge> unat (scast valueLength :: u64) then Inl Panicked
              else bindR (read_at blk 0 (n + 1)) (\<lambda>bs. Inr (Inr (valueLength, bs)))))
      else if ptype p = VIX_PROPERTYTYPE_BOOL then
        (case pvalue p of boolValue x \<Rightarrow> Inr (Inr (PROPERTY_SIZE_BOOL, [x])) | _ \<Rightarrow> Inl TypeConfusion)
      else if ptype p = VIX_PROPERTYTYPE_INT64 then
        (case pvalue p of int64Value x \<Rightarrow> Inr (Inr (PROPERTY_SIZE_INT64, to_le 8 x)) | _ \<Rightarrow> Inl TypeConfusion)
      else if ptype p = VIX_PROPERTYTYPE_BLOB then
        bindR (blob_of (pvalue p)) (\<lambda>(c, n).
          case c of None \<Rightarrow> Inr (Inl VIX_E_INVALID_ARG)
          | Some blk \<Rightarrow> bindR (read_at blk 0 (unat (scast n :: u64))) (\<lambda>bs. Inr (Inr (n, bs))))
      else if ptype p = VIX_PROPERTYTYPE_POINTER then Inl Panicked
      else Inr (Inl VIX_E_UNRECOGNIZED_PROPERTY))"

text \<open>The second loop writes; each \<^verbatim>\<open>memcpy\<close> is checked against the buffer.\<close>

fun Serialize_write :: "bool \<Rightarrow> VixPropertyValue list \<Rightarrow> VixError \<Rightarrow> u8 list \<Rightarrow> u64 \<Rightarrow> (VixError \<times> u8 list) res" where
  "Serialize_write dirtyOnly [] err buf pos = Inr (err, buf)"
| "Serialize_write dirtyOnly (p # ps) err buf pos =
     (if dirtyOnly \<and> \<not> isDirty p then Serialize_write dirtyOnly ps err buf pos
      else bindR (write_at buf (unat pos) (to_le 4 (propertyID p))) (\<lambda>buf.
        bindR (write_at buf (unat (pos + 4)) (to_le 4 (ptype p))) (\<lambda>buf.
          bindR (value_bytes p) (\<lambda>r.
            case r of Inl e \<Rightarrow> Inr (e, buf)
            | Inr (valueLength, bs) \<Rightarrow>
                bindR (write_at buf (unat (pos + 8)) (to_le 4 valueLength)) (\<lambda>buf.
                  bindR (write_at buf (unat (pos + 12)) bs) (\<lambda>buf.
                    Serialize_write dirtyOnly ps err buf (pos + 12 + scast valueLength)))))))"

definition VixPropertyList_Serialize ::
  "vix_env \<Rightarrow> VixPropertyListImpl option \<Rightarrow> bool \<Rightarrow> (VixError \<times> u8 list option) res" where
  "VixPropertyList_Serialize env propList dirtyOnly =
     (case propList of None \<Rightarrow> Inr (VIX_E_INVALID_ARG, None)
      | Some l \<Rightarrow>
          bindR (Serialize_size env dirtyOnly (properties l) VIX_OK 0) (\<lambda>(stop, err, bufferSize).
            if stop then Inr (err, None)
            else if \<not> ve_alloc env (unat bufferSize) then Inr (VIX_E_OUT_OF_MEMORY, None)
            else bindR (Serialize_write dirtyOnly (properties l) err (replicate (unat bufferSize) 0) 0) (\<lambda>(err, buf).
              Inr (err, if err = VIX_OK then Some buf else None))))"

section \<open>Deserialising\<close>

text \<open>The value that was received for the node \<open>i\<close>: what \<^verbatim>\<open>switch (*propertyTypePtr)\<close> does with it.\<close>

definition receive_string ::
  "vix_env \<Rightarrow> VixPropertyListBadEncodingAction \<Rightarrow> VixPropertyListImpl \<Rightarrow> nat \<Rightarrow> u8 list \<Rightarrow> i32 \<Rightarrow> (VixError \<times> VixPropertyListImpl) res" where
  "receive_string env action l i strPtr len =
     bindR (read_at strPtr (unat len - 1) 1) (\<lambda>final.
       if final \<noteq> [0] then Inr (VIX_E_INVALID_SERIALIZED_DATA, l)
       else bindR (read_at strPtr 0 (unat len)) (\<lambda>str.
         let needToEscape = \<not> ve_valid env str in
         if needToEscape \<and> action = VIX_PROPERTY_LIST_BAD_ENCODING_ERROR then Inr (VIX_E_INVALID_UTF8_STRING, l)
         else bindR (str_of (pvalue (properties l ! i))) (\<lambda>old.
           let fr = c_free (isSensitive (properties l ! i)) old in
           if needToEscape then
             (case ve_escape env str of
                None \<Rightarrow> Inr (VIX_E_OUT_OF_MEMORY, set_value l i (strValue None) fr)
              | Some s \<Rightarrow> Inr (VIX_OK, set_value l i (strValue (Some s)) fr))
           else
             bindR (c_strlen strPtr) (\<lambda>n.
               if \<not> ve_alloc env (n + 1) then Inr (VIX_E_OUT_OF_MEMORY, set_value l i (strValue None) fr)
               else bindR (read_at strPtr 0 (n + 1)) (\<lambda>s. Inr (VIX_OK, set_value l i (strValue (Some s)) fr))))))"

definition receive_blob ::
  "vix_env \<Rightarrow> VixPropertyListImpl \<Rightarrow> nat \<Rightarrow> u8 list \<Rightarrow> i32 \<Rightarrow> (VixError \<times> VixPropertyListImpl) res" where
  "receive_blob env l i blobPtr len =
     bindR (blob_of (pvalue (properties l ! i))) (\<lambda>(c, n).
       let fr = c_free (isSensitive (properties l ! i)) c in
       if \<not> ve_alloc env (unat len) then Inr (VIX_E_OUT_OF_MEMORY, set_value l i (blobValue None len) fr)
       else bindR (read_at blobPtr 0 (unat len)) (\<lambda>bs. Inr (VIX_OK, set_value l i (blobValue (Some bs) len) fr)))"

definition receive_value ::
  "vix_env \<Rightarrow> VixPropertyListBadEncodingAction \<Rightarrow> VixPropertyListImpl \<Rightarrow> nat \<Rightarrow> u32 \<Rightarrow> u8 list \<Rightarrow> i32 \<Rightarrow>
    (VixError \<times> VixPropertyListImpl) res" where
  "receive_value env action l i type ptr len =
     (if type = VIX_PROPERTYTYPE_INTEGER then
        (if len \<noteq> PROPERTY_SIZE_INT32 then Inr (VIX_E_INVALID_SERIALIZED_DATA, l)
         else bindR (read_at ptr 0 4) (\<lambda>bs. Inr (VIX_OK, set_value l i (intValue (of_le bs)) [])))
      else if type = VIX_PROPERTYTYPE_STRING then receive_string env action l i ptr len
      else if type = VIX_PROPERTYTYPE_BOOL then
        (if len \<noteq> PROPERTY_SIZE_BOOL then Inr (VIX_E_INVALID_SERIALIZED_DATA, l)
         else bindR (read_at ptr 0 1) (\<lambda>bs. Inr (VIX_OK, set_value l i (boolValue (hd bs)) [])))
      else if type = VIX_PROPERTYTYPE_INT64 then
        (if len \<noteq> PROPERTY_SIZE_INT64 then Inr (VIX_E_INVALID_SERIALIZED_DATA, l)
         else bindR (read_at ptr 0 8) (\<lambda>bs. Inr (VIX_OK, set_value l i (int64Value (of_le bs)) [])))
      else if type = VIX_PROPERTYTYPE_BLOB then receive_blob env l i ptr len
      else if type = VIX_PROPERTYTYPE_POINTER then Inr (VIX_E_INVALID_SERIALIZED_DATA, l)
      else Inr (VIX_E_UNRECOGNIZED_PROPERTY, l))"

text \<open>One round of the loop: the error, the list and the position behind the value.\<close>

definition Deserialize_one ::
  "vix_env \<Rightarrow> bool \<Rightarrow> VixPropertyListBadEncodingAction \<Rightarrow> u8 list \<Rightarrow> u64 \<Rightarrow> VixPropertyListImpl \<Rightarrow> u64 \<Rightarrow>
    (VixError \<times> VixPropertyListImpl \<times> u64) res" where
  "Deserialize_one env clobber action buffer bufferSize l pos =
     bindR (read_at buffer (unat pos) 4) (\<lambda>ids.
     bindR (read_at buffer (unat (pos + 4)) 4) (\<lambda>types.
     bindR (read_at buffer (unat (pos + 8)) 4) (\<lambda>lens.
       let pid = of_le ids; type = of_le types; len = of_le lens :: i32; pos = pos + headerSize in
       if sint len < 1 \<or> scast len + pos > bufferSize then Inr (VIX_E_INVALID_SERIALIZED_DATA, l, pos)
       else
         let (err, node, l) =
               (if clobber then VixPropertyList_FindProperty l pid type 0 True
                else let (i, l) = VixPropertyListAppendProperty l pid type in (VIX_OK, Some i, l)) in
         if err \<noteq> VIX_OK then Inr (err, l, pos)
         else bindR (receive_value env action l (the node) type (drop (unat pos) buffer) len) (\<lambda>(err, l).
           Inr (err, l, pos + scast len)))))"

partial_function (option) Deserialize_loop ::
  "vix_env \<Rightarrow> bool \<Rightarrow> VixPropertyListBadEncodingAction \<Rightarrow> u8 list \<Rightarrow> u64 \<Rightarrow> VixPropertyListImpl \<Rightarrow> u64 \<Rightarrow>
    (VixError \<times> VixPropertyListImpl) res option" where
  "Deserialize_loop env clobber action buffer bufferSize l pos =
     (if pos + headerSize < bufferSize
      then (case Deserialize_one env clobber action buffer bufferSize l pos of
              Inl e \<Rightarrow> Some (Inl e)
            | Inr r \<Rightarrow>
                if fst r = VIX_OK
                then Deserialize_loop env clobber action buffer bufferSize (fst (snd r)) (snd (snd r))
                else Some (Inr (fst r, fst (snd r))))
      else Some (Inr (VIX_OK, l)))"

declare Deserialize_loop.simps [code]

definition VixPropertyListDeserializeImpl ::
  "vix_env \<Rightarrow> VixPropertyListImpl option \<Rightarrow> u8 list option \<Rightarrow> u64 \<Rightarrow> bool \<Rightarrow> VixPropertyListBadEncodingAction \<Rightarrow>
    (VixError \<times> VixPropertyListImpl option) res" where
  "VixPropertyListDeserializeImpl env propList buffer bufferSize clobber action =
     bindR (case (propList, buffer) of
              (Some l, Some buf) \<Rightarrow>
                bindR (loop (Deserialize_loop env clobber action buf bufferSize l 0)) (\<lambda>(err, l). Inr (err, Some l))
            | _ \<Rightarrow> Inr (VIX_E_INVALID_ARG, propList))
       (\<lambda>(err, propList).
         if err \<noteq> VIX_OK \<and> propList \<noteq> None
         then bindR (VixPropertyList_RemoveAllWithoutHandles propList) (\<lambda>propList. Inr (err, propList))
         else Inr (err, propList))"

definition VixPropertyList_Deserialize ::
  "vix_env \<Rightarrow> VixPropertyListImpl option \<Rightarrow> u8 list option \<Rightarrow> u64 \<Rightarrow> VixPropertyListBadEncodingAction \<Rightarrow>
    (VixError \<times> VixPropertyListImpl option) res" where
  "VixPropertyList_Deserialize env propList buffer bufferSize action =
     VixPropertyListDeserializeImpl env propList buffer bufferSize True action"

definition VixPropertyList_DeserializeNoClobber ::
  "vix_env \<Rightarrow> VixPropertyListImpl option \<Rightarrow> u8 list option \<Rightarrow> u64 \<Rightarrow> VixPropertyListBadEncodingAction \<Rightarrow>
    (VixError \<times> VixPropertyListImpl option) res" where
  "VixPropertyList_DeserializeNoClobber env propList buffer bufferSize action =
     VixPropertyListDeserializeImpl env propList buffer bufferSize False action"

end
