(* ===== verification/VixWire_Laws.thy ===== *)
theory VixWire_Laws
  imports VixWire VixProps_Laws
begin

text \<open>
  Laws of the wire format of property lists: integers survive the conversion to bytes, serialising writes the
  concatenation of the encoded properties, deserialising any bytes stays inside the buffer, and a list that is
  sent arrives.
\<close>

section \<open>Integers in memory\<close>

lemma bit_of_le:
  "bit (of_le bs :: 'a::len word) k \<longleftrightarrow> k < LENGTH('a) \<and> k div 8 < length bs \<and> bit (bs ! (k div 8)) (k mod 8)"
proof (induction bs arbitrary: k)
  case Nil
  then show ?case by simp
next
  case (Cons b bs)
  show ?case
  proof (cases "k < 8")
    case True
    then show ?thesis by (simp add: bit_simps)
  next
    case False
    have "\<not> bit b k" using bit_imp_le_length [of b k] False by auto
    moreover have "k div 8 = Suc ((k - 8) div 8)" "(k - 8) mod 8 = k mod 8"
      using False by (simp_all add: le_div_geq le_mod_geq)
    moreover have "k < LENGTH('a) \<Longrightarrow> k - 8 < LENGTH('a)" by simp
    ultimately show ?thesis using Cons.IH [of "k - 8"] False by (auto simp: bit_simps)
  qed
qed

lemma length_to_le [simp]: "length (to_le n x) = n"
  by (simp add: to_le_def)

lemma of_le_to_le:
  fixes x :: "'a::len word"
  assumes "LENGTH('a) \<le> 8 * n"
  shows "of_le (to_le n x) = x"
proof (rule bit_word_eqI)
  fix k assume "k < LENGTH('a)"
  moreover from this have "k div 8 < n" using assms by linarith
  moreover have "8 * (k div 8) + k mod 8 = k" by simp
  moreover have "k mod 8 < 8" by simp
  ultimately show "bit (of_le (to_le n x) :: 'a word) k = bit x k"
    by (simp add: bit_of_le to_le_def bit_simps)
qed

lemma of_le_to_le_32 [simp]: "of_le (to_le 4 x) = (x :: 32 word)"
  by (rule of_le_to_le) simp

lemma of_le_to_le_64 [simp]: "of_le (to_le 8 x) = (x :: 64 word)"
  by (rule of_le_to_le) simp

section \<open>Receiving any bytes\<close>

text \<open>What the environment promises: escaped strings are terminated.\<close>

definition env_ok :: "vix_env \<Rightarrow> bool" where
  "env_ok env \<longleftrightarrow> (\<forall>str s. ve_escape env str = Some s \<longrightarrow> c_string s)"

lemma set_value_ok:
  assumes "plist_ok l" and "i < length (properties l)" and "value_ok (ptype (properties l ! i)) v"
  shows "plist_ok (set_value l i v fr)"
  using assms set_node_ok [of l "(properties l ! i)\<lparr>pvalue := v\<rparr>" i fr] by (simp add: set_value_def prop_ok_def)

lemma node_value_ok: "plist_ok l \<Longrightarrow> i < length (properties l) \<Longrightarrow> value_ok (ptype (properties l ! i)) (pvalue (properties l ! i))"
  by (simp add: plist_ok_def prop_ok_def list_all_length)

lemma sint_pos_unat:
  assumes "\<not> sint (len :: i32) < 1"
  shows "0 < unat len" and "unat (scast len :: u64) = unat len"
proof -
  have s: "0 < sint len" using assms by simp
  show "unat (scast len :: u64) = unat len" by (rule scast_pos [OF s])
  show "0 < unat len"
  proof (rule ccontr)
    assume "\<not> 0 < unat len"
    then have "len = 0" by (simp add: unat_eq_0)
    then show False using s by simp
  qed
qed

lemma receive_string_ok:
  assumes "plist_ok l" and "i < length (properties l)" and "ptype (properties l ! i) = VIX_PROPERTYTYPE_STRING"
    and "0 < unat len" and "unat len \<le> length ptr" and "length ptr < 2 ^ 64" and "env_ok env"
  shows "\<exists>err l'. receive_string env action l i ptr len = Inr (err, l') \<and> plist_ok l'"
proof (cases "ptr ! (unat len - 1) = 0")
  case False
  then show ?thesis
    using assms(1,4,5) by (auto simp: receive_string_def read_at_def take_Suc_conv_app_nth hd_drop_conv_nth take_Suc)
next
  case True
  then have final: "read_at ptr (unat len - 1) 1 = Inr [0]"
    using assms(4,5) by (auto simp: read_at_def take_Suc hd_drop_conv_nth)
  have "0 \<in> set ptr" using True assms(4,5) by (metis diff_less le_trans less_imp_diff_less less_le_trans nth_mem zero_less_one)
  then obtain n where n: "c_strlen ptr = Inr n" by (simp add: c_strlen_def)
  note cs = c_strlen_take [OF n assms(6)]
  have rd: "read_at ptr 0 (n + 1) = Inr (take (n + 1) ptr)" "read_at ptr 0 (unat len) = Inr (take (unat len) ptr)"
    using cs assms(5) by (simp_all add: read_at_def)
  obtain old where "str_of (pvalue (properties l ! i)) = Inr old"
    using value_ok_str [of "pvalue (properties l ! i)"] node_value_ok [OF assms(1,2)] assms(3) by (auto simp: str_of_def)
  then show ?thesis
    using assms(1,2,3,7) final rd n cs set_value_ok [OF assms(1,2)]
    by (auto simp: receive_string_def Let_def env_ok_def split: option.splits)
qed

lemma receive_blob_ok:
  assumes "plist_ok l" and "i < length (properties l)" and "ptype (properties l ! i) = VIX_PROPERTYTYPE_BLOB"
    and "0 < sint len" and "unat len \<le> length ptr"
  shows "\<exists>err l'. receive_blob env l i ptr len = Inr (err, l') \<and> plist_ok l'"
proof -
  obtain c n where "pvalue (properties l ! i) = blobValue c n"
    using value_ok_blob [of "pvalue (properties l ! i)"] node_value_ok [OF assms(1,2)] assms(3) by auto
  then show ?thesis
    using assms set_value_ok [OF assms(1,2)] by (auto simp: receive_blob_def blob_of_def Let_def read_at_def)
qed

lemma receive_value_ok:
  assumes "plist_ok l" and "i < length (properties l)"
    and "type = VIX_PROPERTYTYPE_ANY \<or> ptype (properties l ! i) = type"
    and "\<not> sint len < 1" and "unat len \<le> length ptr" and "length ptr < 2 ^ 64" and "env_ok env"
  shows "\<exists>err l'. receive_value env action l i type ptr len = Inr (err, l') \<and> plist_ok l'"
proof -
  note pos = sint_pos_unat(1) [OF assms(4)]
  have sp: "0 < sint len" using assms(4) by simp
  note set_ok = set_value_ok [OF assms(1,2)]
  consider (int) "type = VIX_PROPERTYTYPE_INTEGER" | (str) "type = VIX_PROPERTYTYPE_STRING"
    | (bool) "type = VIX_PROPERTYTYPE_BOOL" | (int64) "type = VIX_PROPERTYTYPE_INT64" | (blob) "type = VIX_PROPERTYTYPE_BLOB"
    | (other) "type \<noteq> VIX_PROPERTYTYPE_INTEGER" "type \<noteq> VIX_PROPERTYTYPE_STRING" "type \<noteq> VIX_PROPERTYTYPE_BOOL"
        "type \<noteq> VIX_PROPERTYTYPE_INT64" "type \<noteq> VIX_PROPERTYTYPE_BLOB" by blast
  then show ?thesis
  proof cases
    case int
    then show ?thesis
      using assms set_ok by (auto simp: receive_value_def vix_types PROPERTY_SIZE_INT32_def read_at_def)
  next
    case str
    then show ?thesis
      using receive_string_ok [OF assms(1,2) _ pos assms(5,6,7)] assms(3) by (auto simp: receive_value_def vix_types)
  next
    case bool
    then show ?thesis
      using assms set_ok by (auto simp: receive_value_def vix_types PROPERTY_SIZE_BOOL_def read_at_def)
  next
    case int64
    then show ?thesis
      using assms set_ok by (auto simp: receive_value_def vix_types PROPERTY_SIZE_INT64_def read_at_def)
  next
    case blob
    then show ?thesis
      using receive_blob_ok [OF assms(1,2) _ sp assms(5)] assms(3) by (auto simp: receive_value_def vix_types)
  next
    case other
    then show ?thesis using assms(1) by (auto simp: receive_value_def)
  qed
qed

lemma Deserialize_one_ok:
  assumes "plist_ok l" and "env_ok env" and "length buffer = unat bufferSize" and "unat bufferSize < 2 ^ 63"
    and "unat pos \<le> unat bufferSize" and "pos + headerSize < bufferSize"
  shows "\<exists>err l' pos'. Deserialize_one env clobber action buffer bufferSize l pos = Inr (err, l', pos') \<and> plist_ok l' \<and>
    (err = VIX_OK \<longrightarrow> unat pos < unat pos' \<and> unat pos' \<le> unat bufferSize)"
proof -
  have u: "unat (pos + k) = unat pos + unat k" if "unat k \<le> 12" for k
    using unat_add_bound [of pos k] assms(4,5) that by simp
  have h: "unat (pos + headerSize) = unat pos + 12" using u [of headerSize] by (simp add: headerSize_def)
  then have lt: "unat pos + 12 < unat bufferSize" using assms(6) by (simp add: word_less_nat_alt)
  have "unat (pos + 4) = unat pos + 4" "unat (pos + 8) = unat pos + 8" using u [of 4] u [of 8] by simp_all
  then have rd: "\<exists>xs. read_at buffer (unat pos) 4 = Inr xs" "\<exists>xs. read_at buffer (unat (pos + 4)) 4 = Inr xs"
    "\<exists>xs. read_at buffer (unat (pos + 8)) 4 = Inr xs"
    using lt assms(3) by (simp_all add: read_at_def)
  then obtain ids types lens where r: "read_at buffer (unat pos) 4 = Inr ids"
    "read_at buffer (unat (pos + 4)) 4 = Inr types" "read_at buffer (unat (pos + 8)) 4 = Inr lens" by blast
  define len where "len = (of_le lens :: i32)"
  define find where "find = (if clobber then VixPropertyList_FindProperty l (of_le ids) (of_le types) 0 True
    else let (i, l) = VixPropertyListAppendProperty l (of_le ids) (of_le types) in (VIX_OK, Some i, l))"
  obtain err node l1 where f: "find = (err, node, l1)" by (metis prod_cases3)
  have one: "Deserialize_one env clobber action buffer bufferSize l pos =
      (if sint len < 1 \<or> scast len + (pos + headerSize) > bufferSize then Inr (VIX_E_INVALID_SERIALIZED_DATA, l, pos + headerSize)
       else if err \<noteq> VIX_OK then Inr (err, l1, pos + headerSize)
       else bindR (receive_value env action l1 (the node) (of_le types) (drop (unat (pos + headerSize)) buffer) len) (\<lambda>(err, l).
         Inr (err, l, pos + headerSize + scast len)))"
    using r f by (simp add: Deserialize_one_def Let_def len_def find_def)
  show ?thesis
  proof (cases "sint len < 1 \<or> scast len + (pos + headerSize) > bufferSize")
    case True
    then show ?thesis using one assms(1) by simp
  next
    case False
    note len = sint_pos_unat [of len]
    have "unat len < 2 ^ 32" by (rule unat_lt_32)
    then have sum: "unat (scast len + (pos + headerSize)) = unat len + (unat pos + 12)"
      using unat_add_bound [of "scast len :: u64" "pos + headerSize"] len False h lt assms(4) by simp
    then have fit: "unat pos + 12 + unat len \<le> unat bufferSize" using False by (simp add: word_less_nat_alt)
    have find_ok: "plist_ok l1 \<and> (err = VIX_OK \<longrightarrow> (\<exists>i. node = Some i \<and> i < length (properties l1) \<and>
        (of_le types = VIX_PROPERTYTYPE_ANY \<or> ptype (properties l1 ! i) = of_le types)))"
      using FindProperty_ok [OF assms(1), of "of_le ids" "of_le types" 0 True err node l1]
        append_property_ok [OF assms(1), of "of_le ids" "of_le types"] f
      by (cases "VixPropertyListAppendProperty l (of_le ids) (of_le types)") (auto simp: find_def split: if_splits)
    show ?thesis
    proof (cases "err = VIX_OK")
      case False
      then show ?thesis using one find_ok \<open>\<not> (sint len < 1 \<or> _)\<close> by simp
    next
      case True
      then obtain i where i: "node = Some i" "i < length (properties l1)"
        "of_le types = VIX_PROPERTYTYPE_ANY \<or> ptype (properties l1 ! i) = of_le types" using find_ok by blast
      have "\<exists>err l'. receive_value env action l1 i (of_le types) (drop (unat (pos + headerSize)) buffer) len = Inr (err, l') \<and> plist_ok l'"
        using find_ok i False fit h assms(2,3,4) by (intro receive_value_ok) auto
      then obtain err' l' where rv: "receive_value env action l1 i (of_le types) (drop (unat (pos + headerSize)) buffer) len = Inr (err', l')"
        "plist_ok l'" by blast
      have "unat (pos + headerSize + scast len) = unat pos + 12 + unat len" using sum by (simp add: ac_simps)
      then show ?thesis using one False True i rv fit len by simp
    qed
  qed
qed

lemma Deserialize_loop_ok:
  assumes "plist_ok l" and "env_ok env" and "length buffer = unat bufferSize" and "unat bufferSize < 2 ^ 63"
    and "unat pos \<le> unat bufferSize"
  shows "\<exists>err l'. Deserialize_loop env clobber action buffer bufferSize l pos = Some (Inr (err, l')) \<and> plist_ok l'"
  using assms(1,5)
proof (induction "unat bufferSize - unat pos" arbitrary: l pos rule: less_induct)
  case less
  show ?case
  proof (cases "pos + headerSize < bufferSize")
    case False
    then show ?thesis using less.prems by (subst Deserialize_loop.simps) simp
  next
    case True
    obtain err l' pos' where one: "Deserialize_one env clobber action buffer bufferSize l pos = Inr (err, l', pos')" "plist_ok l'"
      "err = VIX_OK \<longrightarrow> unat pos < unat pos' \<and> unat pos' \<le> unat bufferSize"
      using Deserialize_one_ok [OF less.prems(1) assms(2-4) less.prems(2) True] by blast
    show ?thesis
    proof (cases "err = VIX_OK")
      case False
      then show ?thesis using True one by (subst Deserialize_loop.simps) simp
    next
      case ok: True
      have "unat bufferSize - unat pos' < unat bufferSize - unat pos" using one(3) ok by auto
      from less.hyps [OF this one(2)] one(3) ok have
        "\<exists>err l''. Deserialize_loop env clobber action buffer bufferSize l' pos' = Some (Inr (err, l'')) \<and> plist_ok l''" by blast
      then show ?thesis using True one(1) ok by (subst Deserialize_loop.simps) simp
    qed
  qed
qed

text \<open>
  C4. \<^verbatim>\<open>VixPropertyList_Deserialize\<close> and \<^verbatim>\<open>VixPropertyList_DeserializeNoClobber\<close> can be given any bytes and any allocator: they end, read nothing
  outside the buffer, never take a value for one of another type, leave a well-typed list, and an empty one
  when they fail.
\<close>

theorem vix_deserialize_safe:
  assumes "plist_ok l" and "env_ok env" and "length buffer = unat bufferSize" and "unat bufferSize < 2 ^ 63"
  shows "\<exists>err l'. VixPropertyListDeserializeImpl env (Some l) (Some buffer) bufferSize clobber action = Inr (err, Some l') \<and>
    plist_ok l' \<and> (err \<noteq> VIX_OK \<longrightarrow> properties l' = [])"
proof -
  obtain err l1 where "Deserialize_loop env clobber action buffer bufferSize l 0 = Some (Inr (err, l1))" "plist_ok l1"
    using Deserialize_loop_ok [OF assms, of 0 clobber action] by auto
  moreover obtain fr' where "remove_nodes (properties l1) (freed l1) = Inr \<lparr>properties = [], freed = fr'\<rparr>"
    using remove_nodes_wipes [of "properties l1" "freed l1"] \<open>plist_ok l1\<close> by (auto simp: plist_ok_def)
  ultimately show ?thesis
    by (cases "err = VIX_OK")
      (simp_all add: VixPropertyListDeserializeImpl_def loop_def VixPropertyList_RemoveAllWithoutHandles_def plist_ok_def)
qed

theorem vix_deserialize_safe_witness:
  "\<exists>err l'. VixPropertyListDeserializeImpl \<lparr>ve_alloc = \<lambda>n. False, ve_valid = \<lambda>s. True, ve_escape = \<lambda>s. None\<rparr>
      (Some VixPropertyList_Initialize) (Some [1, 0, 0, 0, 2, 0, 0, 0, 2, 0, 0, 0, 65, 0]) 14 True VIX_PROPERTY_LIST_BAD_ENCODING_ERROR =
      Inr (err, Some l') \<and> plist_ok l' \<and> (err \<noteq> VIX_OK \<longrightarrow> properties l' = [])"
  by (rule vix_deserialize_safe) (simp_all add: VixPropertyList_Initialize_def plist_ok_def env_ok_def)

section \<open>A list that is sent arrives\<close>

text \<open>The properties that can be sent, the bytes of their values and their encoding.\<close>

fun payload :: "VixValue \<Rightarrow> u8 list" where
  "payload (boolValue x) = [x]"
| "payload (intValue x) = to_le 4 x"
| "payload (int64Value x) = to_le 8 x"
| "payload (strValue (Some blk)) = blk"
| "payload (blobValue (Some blk) n) = blk"
| "payload _ = []"

definition sendable :: "vix_env \<Rightarrow> VixPropertyValue \<Rightarrow> bool" where
  "sendable env p \<longleftrightarrow> prop_ok p \<and> payload (pvalue p) \<noteq> [] \<and> length (payload (pvalue p)) < 2 ^ 31 \<and>
     (ptype p = VIX_PROPERTYTYPE_STRING \<longrightarrow> ve_valid env (payload (pvalue p)))"

definition plen :: "VixPropertyValue \<Rightarrow> i32" where
  "plen p = of_nat (length (payload (pvalue p)))"

definition encode :: "VixPropertyValue \<Rightarrow> u8 list" where
  "encode p = to_le 4 (propertyID p) @ to_le 4 (ptype p) @ to_le 4 (plen p) @ payload (pvalue p)"

definition selected :: "bool \<Rightarrow> VixPropertyValue list \<Rightarrow> VixPropertyValue list" where
  "selected dirtyOnly ps = filter (\<lambda>p. dirtyOnly \<longrightarrow> isDirty p) ps"

lemma sint_of_nat_small:
  assumes "k < 2 ^ 31"
  shows "sint (of_nat k :: i32) = int k"
proof -
  have "unat (of_nat k :: i32) = k" using assms by (intro unat_of_nat_bound) simp
  then have "uint (of_nat k :: i32) = int k" by (simp add: uint_nat)
  then show ?thesis
    by (simp only: sint_uint) (rule signed_take_bit_int_eq_self, use assms in simp_all)
qed

lemma plen_facts:
  assumes "sendable env p"
  shows "unat (plen p) = length (payload (pvalue p))" and "\<not> sint (plen p) < 1" and "scast (plen p) = (of_nat (length (payload (pvalue p))) :: u64)"
proof -
  let ?k = "length (payload (pvalue p))"
  have k: "0 < ?k" "?k < 2 ^ 31" using assms by (simp_all add: sendable_def)
  show u: "unat (plen p) = ?k" unfolding plen_def using k(2) by (intro unat_of_nat_bound) simp
  show s: "\<not> sint (plen p) < 1" using sint_of_nat_small [OF k(2)] k(1) by (simp add: plen_def)
  show "scast (plen p) = (of_nat ?k :: u64)"
    using sint_pos_unat(2) [OF s] u by (simp add: word_unat_eq_iff unat_of_nat_bound k order.strict_trans [OF k(2)])
qed

lemma sendable_cases:
  assumes "sendable env p"
  obtains (int) x where "ptype p = VIX_PROPERTYTYPE_INTEGER" "pvalue p = intValue x"
  | (bool) x where "ptype p = VIX_PROPERTYTYPE_BOOL" "pvalue p = boolValue x"
  | (int64) x where "ptype p = VIX_PROPERTYTYPE_INT64" "pvalue p = int64Value x"
  | (str) blk where "ptype p = VIX_PROPERTYTYPE_STRING" "pvalue p = strValue (Some blk)" "c_string blk" "ve_valid env blk"
  | (blob) blk n where "ptype p = VIX_PROPERTYTYPE_BLOB" "pvalue p = blobValue (Some blk) n" "length blk = unat n" "0 < sint n"
  using assms that by (cases "pvalue p" rule: payload.cases) (auto simp: sendable_def prop_ok_def)

lemma plen_blob: "length blk = unat n \<Longrightarrow> pvalue p = blobValue (Some blk) n \<Longrightarrow> plen p = n"
  by (simp add: plen_def)

lemma value_size_sent:
  assumes "sendable env p"
  shows "value_size env p err = Inr (False, err, plen p)"
  using assms
proof (cases rule: sendable_cases)
  case (str blk)
  then obtain m where m: "length blk = Suc m" "c_strlen blk = Inr m" using c_string_strlen [of blk] by (cases "length blk") auto
  then show ?thesis using str by (simp add: value_size_def vix_types str_of_def plen_def ac_simps)
next
  case (blob blk n)
  then show ?thesis using plen_blob [of blk n p] by (simp add: value_size_def vix_types blob_of_def)
qed (simp_all add: value_size_def vix_types plen_def PROPERTY_SIZE_INT32_def PROPERTY_SIZE_BOOL_def PROPERTY_SIZE_INT64_def)

lemma value_bytes_sent:
  assumes "sendable env p"
  shows "value_bytes p = Inr (Inr (plen p, payload (pvalue p)))"
  using assms
proof (cases rule: sendable_cases)
  case (str blk)
  then obtain n where n: "length blk = Suc n" "c_strlen blk = Inr n" using c_string_strlen [of blk] by (cases "length blk") auto
  then have v: "of_nat n + 1 = plen p" using str(2) by (simp add: plen_def ac_simps)
  have "\<not> unat (scast (plen p) :: u64) \<le> n"
    using plen_facts(1,2) [OF assms] sint_pos_unat(2) [of "plen p"] str(2) n(1) by simp
  then show ?thesis
    using str n v by (simp add: value_bytes_def vix_types str_of_def Let_def read_at_def)
next
  case (blob blk n)
  then show ?thesis
    using plen_blob [of blk n p] scast_pos [of n] by (simp add: value_bytes_def vix_types blob_of_def read_at_def)
qed (simp_all add: value_bytes_def vix_types plen_def PROPERTY_SIZE_INT32_def PROPERTY_SIZE_BOOL_def PROPERTY_SIZE_INT64_def)

lemma length_encode: "length (encode p) = 12 + length (payload (pvalue p))"
  by (simp add: encode_def)

lemma Serialize_size_sent:
  assumes "list_all (sendable env) (selected dirtyOnly ps)"
  shows "Serialize_size env dirtyOnly ps err sz =
    Inr (False, err, sz + of_nat (length (concat (map encode (selected dirtyOnly ps)))))"
  using assms
proof (induction ps arbitrary: sz)
  case Nil
  then show ?case by (simp add: selected_def)
next
  case (Cons p ps)
  show ?case
  proof (cases "dirtyOnly \<and> \<not> isDirty p")
    case True
    then show ?thesis using Cons by (simp add: selected_def)
  next
    case False
    then have sel: "selected dirtyOnly (p # ps) = p # selected dirtyOnly ps" by (auto simp: selected_def)
    then have p: "sendable env p" and ps: "list_all (sendable env) (selected dirtyOnly ps)" using Cons.prems by simp_all
    show ?thesis
      using False Cons.IH [OF ps] value_size_sent [OF p] plen_facts(3) [OF p] sel
      by (auto simp: length_encode headerSize_def ac_simps)
  qed
qed

text \<open>Writing one property: four copies, one behind the other.\<close>

lemma write_four:
  assumes "off + length as + length bs + length cs + length ds \<le> length buf"
  shows "bindR (write_at buf off as) (\<lambda>buf. bindR (write_at buf (off + length as) bs) (\<lambda>buf.
      bindR (write_at buf (off + length as + length bs) cs) (\<lambda>buf.
        bindR (write_at buf (off + length as + length bs + length cs) ds) F))) = F (patch buf off (as @ bs @ cs @ ds))"
proof -
  have "patch (patch buf off as) (off + length as) bs = patch buf off (as @ bs)"
    using assms by (intro patch_patch) simp
  moreover have "patch (patch buf off (as @ bs)) (off + length (as @ bs)) cs = patch buf off ((as @ bs) @ cs)"
    using assms by (intro patch_patch) simp
  moreover have "patch (patch buf off ((as @ bs) @ cs)) (off + length ((as @ bs) @ cs)) ds = patch buf off (((as @ bs) @ cs) @ ds)"
    using assms by (intro patch_patch) simp
  ultimately show ?thesis using assms by (simp add: write_at_def add.assoc)
qed

lemma Serialize_write_one:
  assumes "sendable env p" and "\<not> (dirtyOnly \<and> \<not> isDirty p)"
    and "unat pos + length (encode p) \<le> length buf" and "length buf < 2 ^ 64"
  shows "Serialize_write dirtyOnly (p # ps) err buf pos =
      Serialize_write dirtyOnly ps err (patch buf (unat pos) (encode p)) (pos + of_nat (length (encode p)))"
proof -
  let ?pl = "payload (pvalue p)"
  have u: "unat (pos + k) = unat pos + unat k" if "unat k \<le> 12" for k
    using unat_add_bound [of pos k] assms(3,4) that by (simp add: length_encode)
  have off: "unat (pos + 4) = unat pos + 4" "unat (pos + 8) = unat pos + 8" "unat (pos + 12) = unat pos + 12"
    using u [of 4] u [of 8] u [of 12] by simp_all
  show ?thesis
    using assms(2) value_bytes_sent [OF assms(1)] plen_facts(3) [OF assms(1)] assms(3)
      write_four [of "unat pos" "to_le 4 (propertyID p)" "to_le 4 (ptype p)" "to_le 4 (plen p)" ?pl buf
        "\<lambda>buf. Serialize_write dirtyOnly ps err buf (pos + 12 + scast (plen p))"]
    by (auto simp: off length_encode encode_def ac_simps)
qed

lemma Serialize_write_sent:
  assumes "list_all (sendable env) (selected dirtyOnly ps)"
    and "unat pos + length (concat (map encode (selected dirtyOnly ps))) \<le> length buf" and "length buf < 2 ^ 64"
  shows "Serialize_write dirtyOnly ps err buf pos = Inr (err, patch buf (unat pos) (concat (map encode (selected dirtyOnly ps))))"
  using assms
proof (induction ps arbitrary: buf pos)
  case Nil
  then show ?case by (simp add: selected_def)
next
  case (Cons p ps)
  show ?case
  proof (cases "dirtyOnly \<and> \<not> isDirty p")
    case True
    then show ?thesis using Cons by (simp add: selected_def)
  next
    case False
    then have sel: "selected dirtyOnly (p # ps) = p # selected dirtyOnly ps" by (auto simp: selected_def)
    let ?es = "concat (map encode (selected dirtyOnly ps))"
    let ?k = "of_nat (length (encode p)) :: u64"
    have p: "sendable env p" and ps: "list_all (sendable env) (selected dirtyOnly ps)" using Cons.prems(1) sel by simp_all
    have fit: "unat pos + length (encode p) + length ?es \<le> length buf" using Cons.prems(2) sel by simp
    have k: "unat ?k = length (encode p)" using fit Cons.prems(3) by (intro unat_of_nat_bound) simp
    have next_pos: "unat (pos + ?k) = unat pos + length (encode p)"
      using unat_add_bound [of pos ?k] k fit Cons.prems(3) by simp
    have "Serialize_write dirtyOnly (p # ps) err buf pos =
        Serialize_write dirtyOnly ps err (patch buf (unat pos) (encode p)) (pos + ?k)"
      using Serialize_write_one [OF p False] fit Cons.prems(3) by simp
    also have "\<dots> = Inr (err, patch (patch buf (unat pos) (encode p)) (unat (pos + ?k)) ?es)"
      using Cons.IH [OF ps] fit next_pos Cons.prems(3) by simp
    also have "patch (patch buf (unat pos) (encode p)) (unat (pos + ?k)) ?es = patch buf (unat pos) (encode p @ ?es)"
      unfolding next_pos using fit by (intro patch_patch)
    finally show ?thesis using sel by simp
  qed
qed

definition received :: "VixPropertyValue \<Rightarrow> VixPropertyValue" where
  "received p = p\<lparr>isDirty := True, isSensitive := False\<rparr>"

definition add_node :: "VixPropertyListImpl \<Rightarrow> VixPropertyValue \<Rightarrow> VixPropertyListImpl" where
  "add_node l p = l\<lparr>properties := properties l @ [received p]\<rparr>"

lemma set_value_new:
  "set_value (snd (VixPropertyListAppendProperty l (propertyID p) (ptype p))) (length (properties l)) (pvalue p) [] = add_node l p"
  by (simp add: set_value_def set_node_def VixPropertyListAppendProperty_def add_node_def received_def)

lemma new_node: "properties (snd (VixPropertyListAppendProperty l pid type)) ! length (properties l) =
    \<lparr>propertyID = pid, ptype = type, pvalue = calloc_value type, isDirty = True, isSensitive = False\<rparr>"
  by (simp add: VixPropertyListAppendProperty_def)

lemma receive_sent:
  assumes "sendable env p" and "\<forall>n. ve_alloc env n"
  shows "receive_value env action (snd (VixPropertyListAppendProperty l (propertyID p) (ptype p))) (length (properties l))
      (ptype p) (payload (pvalue p) @ rest) (plen p) = Inr (VIX_OK, add_node l p)"
  using assms(1)
proof (cases rule: sendable_cases)
  case (str blk)
  then obtain s where s: "blk = s @ [0]" "0 \<notin> set s" by (auto simp: c_string_def)
  have len: "unat (plen p) = length s + 1" using plen_facts(1) [OF assms(1)] str(2) s(1) by simp
  have strlen: "c_strlen (blk @ rest) = Inr (length s)" using c_strlen_string [OF s(2), of rest] s(1) by simp
  have final: "read_at (blk @ rest) (length s) 1 = Inr [0]" using s(1) by (simp add: read_at_def)
  have all: "read_at (blk @ rest) 0 (length s + 1) = Inr blk" using s(1) by (simp add: read_at_def)
  show ?thesis
    using str assms(2) len strlen final all set_value_new [of l p]
    by (simp add: receive_value_def receive_string_def vix_types new_node calloc_value_def str_of_def c_free_def Let_def)
next
  case (blob blk n)
  then have "plen p = n" using plen_blob by blast
  then show ?thesis
    using blob assms(2) set_value_new [of l p]
    by (simp add: receive_value_def receive_blob_def vix_types new_node calloc_value_def blob_of_def c_free_def read_at_def)
qed (use set_value_new [of l p] in \<open>simp_all add: receive_value_def vix_types plen_def PROPERTY_SIZE_INT32_def PROPERTY_SIZE_BOOL_def
    PROPERTY_SIZE_INT64_def read_at_def\<close>)

lemma find_walk_None: "pid \<notin> propertyID ` set ps \<Longrightarrow> find_walk pid type k ps i = None"
  by (induction ps arbitrary: k i) auto

lemma Deserialize_one_sent:
  assumes "sendable env p" and "\<forall>n. ve_alloc env n" and "clobber \<longrightarrow> propertyID p \<notin> propertyID ` set (properties l)"
    and "drop (unat pos) buffer = encode p @ rest" and "length buffer = unat bufferSize" and "unat bufferSize < 2 ^ 63"
    and "unat pos \<le> unat bufferSize"
  shows "Deserialize_one env clobber action buffer bufferSize l pos = Inr (VIX_OK, add_node l p, pos + of_nat (length (encode p)))"
    and "pos + headerSize < bufferSize"
proof -
  let ?k = "length (payload (pvalue p))"
  have k: "0 < ?k" using assms(1) by (simp add: sendable_def)
  have total: "unat pos + (12 + ?k + length rest) = unat bufferSize"
    using arg_cong [OF assms(4), of length] assms(5,7) by (simp add: length_encode)
  have u: "unat (pos + j) = unat pos + unat j" if "unat j \<le> 12" for j
    using unat_add_bound [of pos j] assms(6,7) that by simp
  have off: "unat (pos + 4) = unat pos + 4" "unat (pos + 8) = unat pos + 8" "unat (pos + headerSize) = unat pos + 12"
    using u [of 4] u [of 8] u [of 12] by (simp_all add: headerSize_def)
  have "unat pos + 12 < unat bufferSize" using total k by linarith
  then show "pos + headerSize < bufferSize" using off(3) by (simp add: word_less_nat_alt)
  have dd: "drop (unat pos + j) buffer = drop j (encode p @ rest)" for j
    using assms(4) drop_drop [of j "unat pos" buffer] by (simp add: add.commute)
  have d: "drop (unat pos + 4) buffer = to_le 4 (ptype p) @ to_le 4 (plen p) @ payload (pvalue p) @ rest"
    "drop (unat pos + 8) buffer = to_le 4 (plen p) @ payload (pvalue p) @ rest"
    "drop (unat pos + 12) buffer = payload (pvalue p) @ rest"
    by (simp_all add: dd encode_def)
  have rd: "read_at buffer (unat pos) 4 = Inr (to_le 4 (propertyID p))" "read_at buffer (unat (pos + 4)) 4 = Inr (to_le 4 (ptype p))"
    "read_at buffer (unat (pos + 8)) 4 = Inr (to_le 4 (plen p))"
    using assms(4,5) d off total by (simp_all add: read_at_def encode_def)
  have fit: "\<not> scast (plen p) + (pos + headerSize) > bufferSize"
  proof -
    have "unat (of_nat ?k :: u64) = ?k" using total assms(6) by (intro unat_of_nat_bound) simp
    then have "unat (scast (plen p) + (pos + headerSize)) = ?k + (unat pos + 12)"
      using unat_add_bound [of "scast (plen p) :: u64" "pos + headerSize"] plen_facts(3) [OF assms(1)] off(3) total assms(6) by simp
    then show ?thesis using total by (simp add: word_less_nat_alt)
  qed
  define l1 where "l1 = snd (VixPropertyListAppendProperty l (propertyID p) (ptype p))"
  have app: "VixPropertyListAppendProperty l (propertyID p) (ptype p) = (length (properties l), l1)"
    by (simp add: VixPropertyListAppendProperty_def l1_def)
  have find: "clobber \<Longrightarrow> VixPropertyList_FindProperty l (propertyID p) (ptype p) 0 True = (VIX_OK, Some (length (properties l)), l1)"
    using assms(3) find_walk_None [of "propertyID p" "properties l" "ptype p" 0 0]
    by (simp add: VixPropertyList_FindProperty_def app)
  have recv: "receive_value env action l1 (length (properties l)) (ptype p) (drop (unat (pos + headerSize)) buffer) (plen p) =
      Inr (VIX_OK, add_node l p)"
    using receive_sent [OF assms(1,2), of action l rest] d(3) off(3) by (simp add: l1_def)
  have "Deserialize_one env clobber action buffer bufferSize l pos = Inr (VIX_OK, add_node l p, pos + headerSize + scast (plen p))"
    using rd fit plen_facts(2) [OF assms(1)] recv
    by (cases clobber) (simp_all add: Deserialize_one_def Let_def find app)
  then show "Deserialize_one env clobber action buffer bufferSize l pos = Inr (VIX_OK, add_node l p, pos + of_nat (length (encode p)))"
    using plen_facts(3) [OF assms(1)] by (simp add: length_encode headerSize_def ac_simps)
qed

lemma Deserialize_loop_sent:
  assumes "list_all (sendable env) ps" and "\<forall>n. ve_alloc env n"
    and "clobber \<longrightarrow> distinct (map propertyID ps) \<and> propertyID ` set ps \<inter> propertyID ` set (properties l) = {}"
    and "drop (unat pos) buffer = concat (map encode ps)" and "length buffer = unat bufferSize" and "unat bufferSize < 2 ^ 63"
    and "unat pos \<le> unat bufferSize"
  shows "Deserialize_loop env clobber action buffer bufferSize l pos =
    Some (Inr (VIX_OK, l\<lparr>properties := properties l @ map received ps\<rparr>))"
  using assms(1,3,4,7)
proof (induction ps arbitrary: l pos)
  case Nil
  then have "unat pos = unat bufferSize" using assms(5) by simp
  moreover have "unat (pos + headerSize) = unat pos + 12"
    using unat_add_bound [of pos headerSize] Nil(4) assms(6) by (simp add: headerSize_def)
  ultimately have "\<not> pos + headerSize < bufferSize" by (simp add: word_less_nat_alt)
  then show ?case by (subst Deserialize_loop.simps) simp
next
  case (Cons p ps)
  have p: "sendable env p" and ps: "list_all (sendable env) ps" using Cons.prems(1) by simp_all
  have new: "clobber \<longrightarrow> propertyID p \<notin> propertyID ` set (properties l)" using Cons.prems(2) by auto
  have dr: "drop (unat pos) buffer = encode p @ concat (map encode ps)" using Cons.prems(3) by simp
  note one = Deserialize_one_sent(1) [OF p assms(2) new dr assms(5,6) Cons.prems(4), of action]
    Deserialize_one_sent(2) [OF p assms(2) new dr assms(5,6) Cons.prems(4)]
  let ?k = "of_nat (length (encode p)) :: u64"
  have total: "unat pos + (length (encode p) + length (concat (map encode ps))) = unat bufferSize"
    using arg_cong [OF dr, of length] assms(5) Cons.prems(4) by simp
  have k: "unat ?k = length (encode p)" using total assms(6) by (intro unat_of_nat_bound) simp
  have pos': "unat (pos + ?k) = unat pos + length (encode p)" using unat_add_bound [of pos ?k] k total assms(6) by simp
  have "Deserialize_loop env clobber action buffer bufferSize (add_node l p) (pos + ?k) =
      Some (Inr (VIX_OK, (add_node l p)\<lparr>properties := properties (add_node l p) @ map received ps\<rparr>))"
  proof (rule Cons.IH [OF ps])
    show "clobber \<longrightarrow> distinct (map propertyID ps) \<and> propertyID ` set ps \<inter> propertyID ` set (properties (add_node l p)) = {}"
      using Cons.prems(2) by (auto simp: add_node_def received_def)
    show "drop (unat (pos + ?k)) buffer = concat (map encode ps)"
      using dr drop_drop [of "length (encode p)" "unat pos" buffer] pos' by (simp add: add.commute)
    show "unat (pos + ?k) \<le> unat bufferSize" using pos' total by simp
  qed
  then show ?case using one by (subst Deserialize_loop.simps) (simp add: add_node_def)
qed

text \<open>
  C9. A property list arrives as it was sent: \<^verbatim>\<open>VixPropertyList_Serialize\<close> of a list whose selected properties can be sent (well typed, no
  pointers, handles or empty values, valid strings) returns a buffer, and \<^verbatim>\<open>VixPropertyList_DeserializeNoClobber\<close> of that buffer into an
  empty list gives the same properties in the same order, repeated identifiers included;
  \<^verbatim>\<open>VixPropertyList_Deserialize\<close> does so when no identifier is repeated. Only the marks are reset.
\<close>

theorem vix_transfer:
  assumes "list_all (sendable env) (selected dirtyOnly (properties l))" and "\<forall>n. ve_alloc env n"
    and "length (concat (map encode (selected dirtyOnly (properties l)))) < 2 ^ 63"
  shows "\<exists>buf. VixPropertyList_Serialize env (Some l) dirtyOnly = Inr (VIX_OK, Some buf) \<and>
    VixPropertyList_DeserializeNoClobber env (Some VixPropertyList_Initialize) (Some buf) (of_nat (length buf)) action =
      Inr (VIX_OK, Some \<lparr>properties = map received (selected dirtyOnly (properties l)), freed = []\<rparr>) \<and>
    (distinct (map propertyID (selected dirtyOnly (properties l))) \<longrightarrow>
      VixPropertyList_Deserialize env (Some VixPropertyList_Initialize) (Some buf) (of_nat (length buf)) action =
      Inr (VIX_OK, Some \<lparr>properties = map received (selected dirtyOnly (properties l)), freed = []\<rparr>))"
proof -
  let ?ps = "selected dirtyOnly (properties l)"
  let ?buf = "concat (map encode ?ps)"
  let ?n = "of_nat (length ?buf) :: u64"
  have n: "unat ?n = length ?buf" using assms(3) by (intro unat_of_nat_bound) simp
  have "patch (replicate (length ?buf) 0) 0 ?buf = ?buf" by (rule patch_all) simp
  then have ser: "VixPropertyList_Serialize env (Some l) dirtyOnly = Inr (VIX_OK, Some ?buf)"
    using Serialize_size_sent [OF assms(1), of VIX_OK 0] Serialize_write_sent [OF assms(1), of 0 "replicate (length ?buf) 0" VIX_OK]
      assms(2,3) n by (simp add: VixPropertyList_Serialize_def)
  have loop: "Deserialize_loop env clobber action ?buf ?n VixPropertyList_Initialize 0 =
      Some (Inr (VIX_OK, \<lparr>properties = map received ?ps, freed = []\<rparr>))"
    if "clobber \<longrightarrow> distinct (map propertyID ?ps)" for clobber
    using Deserialize_loop_sent [OF assms(1,2), of clobber VixPropertyList_Initialize 0 ?buf ?n action] that n assms(3)
    by (simp add: VixPropertyList_Initialize_def)
  show ?thesis
    using ser loop [of False] loop [of True]
    by (intro exI [of _ ?buf]) (auto simp: VixPropertyList_DeserializeNoClobber_def VixPropertyList_Deserialize_def
        VixPropertyListDeserializeImpl_def loop_def)
qed

definition small_list :: VixPropertyListImpl where
  "small_list = \<lparr>properties =
     [\<lparr>propertyID = 7, ptype = VIX_PROPERTYTYPE_INTEGER, pvalue = intValue 300, isDirty = True, isSensitive = False\<rparr>,
      \<lparr>propertyID = 7, ptype = VIX_PROPERTYTYPE_STRING, pvalue = strValue (Some [65, 0]), isDirty = True, isSensitive = True\<rparr>],
     freed = []\<rparr>"

definition plain_env :: vix_env where
  "plain_env = \<lparr>ve_alloc = \<lambda>n. True, ve_valid = \<lambda>s. True, ve_escape = \<lambda>s. None\<rparr>"

theorem vix_transfer_witness:
  "\<exists>buf. VixPropertyList_Serialize plain_env (Some small_list) False = Inr (VIX_OK, Some buf) \<and>
    VixPropertyList_DeserializeNoClobber plain_env (Some VixPropertyList_Initialize) (Some buf) (of_nat (length buf))
      VIX_PROPERTY_LIST_BAD_ENCODING_ERROR = Inr (VIX_OK, Some \<lparr>properties = map received (properties small_list), freed = []\<rparr>)"
proof -
  have sel: "selected False (properties small_list) = properties small_list" by (simp add: selected_def)
  have str: "c_string [65, 0]" by (simp add: c_string_def)
  have "list_all (sendable plain_env) (selected False (properties small_list))"
    unfolding sel using str
    by (simp add: small_list_def sendable_def prop_ok_def plain_env_def to_le_def)
  moreover have "length (concat (map encode (selected False (properties small_list)))) < 2 ^ 63"
    unfolding sel by (simp add: small_list_def length_encode)
  ultimately show ?thesis
    using vix_transfer [of plain_env False small_list VIX_PROPERTY_LIST_BAD_ENCODING_ERROR] sel
    by (auto simp: plain_env_def)
qed

section \<open>Two defects\<close>

text \<open>
  A blob of negative size, which the setter accepts, makes the computed size of the buffer too small for the
  properties in front of it.
\<close>

lemma vix_serialize_negative_blob:
  "\<exists>l. bindR (VixPropertyList_SetInteger (Some VixPropertyList_Initialize) 1 5) (\<lambda>(e, l). VixPropertyList_SetBlob l 2 (-20) None) =
       Inr (VIX_OK, Some l) \<and>
     VixPropertyList_Serialize plain_env (Some l) False = Inl OutOfBounds"
proof -
  let ?l = "\<lparr>properties =
     [\<lparr>propertyID = 1, ptype = VIX_PROPERTYTYPE_INTEGER, pvalue = intValue 5, isDirty = True, isSensitive = False\<rparr>,
      \<lparr>propertyID = 2, ptype = VIX_PROPERTYTYPE_BLOB, pvalue = blobValue None (-20), isDirty = True, isSensitive = False\<rparr>],
     freed = []\<rparr>"
  have "bindR (VixPropertyList_SetInteger (Some VixPropertyList_Initialize) 1 5) (\<lambda>(e, l). VixPropertyList_SetBlob l 2 (-20) None) =
      Inr (VIX_OK, Some ?l)" by code_simp
  moreover have "VixPropertyList_Serialize plain_env (Some ?l) False = Inl OutOfBounds" by code_simp
  ultimately show ?thesis by blast
qed

text \<open>A sensitive string that is replaced by a received one is freed as it is.\<close>

lemma vix_deserialize_not_wiped:
  "\<exists>l. VixPropertyList_Deserialize plain_env
      (Some \<lparr>properties = [\<lparr>propertyID = 1, ptype = VIX_PROPERTYTYPE_STRING, pvalue = strValue (Some [112, 119, 0]),
         isDirty = True, isSensitive = True\<rparr>], freed = []\<rparr>)
      (Some [1, 0, 0, 0, 2, 0, 0, 0, 2, 0, 0, 0, 65, 0]) 14 VIX_PROPERTY_LIST_BAD_ENCODING_ERROR = Inr (VIX_OK, Some l) \<and>
    freed l = [(True, [112, 119, 0])]"
proof -
  let ?l = "\<lparr>properties = [\<lparr>propertyID = 1, ptype = VIX_PROPERTYTYPE_STRING, pvalue = strValue (Some [65, 0]),
         isDirty = True, isSensitive = True\<rparr>], freed = [(True, [112, 119, 0])]\<rparr>"
  have "VixPropertyList_Deserialize plain_env
      (Some \<lparr>properties = [\<lparr>propertyID = 1, ptype = VIX_PROPERTYTYPE_STRING, pvalue = strValue (Some [112, 119, 0]),
         isDirty = True, isSensitive = True\<rparr>], freed = []\<rparr>)
      (Some [1, 0, 0, 0, 2, 0, 0, 0, 2, 0, 0, 0, 65, 0]) 14 VIX_PROPERTY_LIST_BAD_ENCODING_ERROR = Inr (VIX_OK, Some ?l)"
    by code_simp
  then show ?thesis by (intro exI [of _ ?l]) simp
qed

end
