(* ===== verification/Spec2Isabelle.thy ===== *)
theory Spec2Isabelle
  imports DataMap_Ops Base64_Laws VMBlock_Laws VMCIQueue_Spec Balloon_Poll HgfsName_To HgfsTime VMCIResource_Spec
    Escape_Read EscapeC_Laws VixProps_Map VixWire_Laws
begin

text \<open>
  \<^bold>\<open>A verification of components of open-vm-tools\<close>

  open-vm-tools are the guest services of VMware virtual machines. The host talks to the guest through
  a backdoor port and through VMCI; services and kernel modules in the guest answer. This development
  models data structures and protocols that carry that traffic or protect shared state, as executable functions, and proves
  what their callers rely on. File names below are relative to \<^verbatim>\<open>src/open-vm-tools\<close>.

  \<^item> \<^verbatim>\<open>Prelude\<close>: machine words, faults as values (\<open>'a res = fault + 'a\<close>: an access outside a block, a use of a freed or
    null pointer, a read of the wrong union member, a division by zero, a panic or divergence is a result that theorems exclude or exhibit), byte ranges, output
    buffers, runs of operations, and two interfaces: the locale \<open>implementation\<close> (an object whose steps simulate an
    abstract specification; its runs then return what the specification returns) and the locale
    \<open>invariant_system\<close> (what holds initially and is kept by each step holds in every reachable state).

  \<^item> \<^verbatim>\<open>HashMap\<close>, \<^verbatim>\<open>HashMap_Laws\<close>, \<^verbatim>\<open>HashMap_Spec\<close>: the open-addressing table of \<^verbatim>\<open>lib/hashMap/hashMap.c\<close>. The
    record \<open>HashMap\<close> is the struct; \<open>LookupKey_loop\<close>, \<open>Resize\<close>, \<open>HashMap_Put\<close>, \<open>HashMap_Get\<close>,
    \<open>HashMap_Remove\<close>, \<open>HashMap_Clear\<close>, \<open>HashMap_Iterate\<close> are the functions of the same names. Shown: a table refines
    a map from keys to data under every sequence of calls, a failed allocation leaves it unchanged, iteration
    visits each entry once, the entry layout keeps fields apart; and that a growth that follows a refused one
    overruns the new table.

  \<^item> \<^verbatim>\<open>DataMap\<close>, \<^verbatim>\<open>DataMap_Laws\<close>, \<^verbatim>\<open>DataMap_Spec\<close>, \<^verbatim>\<open>DataMap_Ops\<close>: the typed map of \<^verbatim>\<open>lib/dataMap/dataMap.c\<close> on top
    of the hash map, with its wire format. Shown: what one side serialises the other side reads back, decoding
    never leaves the received buffer, setters and getters refine a map from ids to typed values, copying keeps the
    contents; and two defects, a null dereference on a negative list count and a size that wraps for a long number
    list. The text dumper (\<^verbatim>\<open>DataMap_ToString\<close>) is not modelled.

  \<^item> \<^verbatim>\<open>Base64\<close>, \<^verbatim>\<open>Base64_Laws\<close>: \<^verbatim>\<open>lib/misc/base64.c\<close>. Shown: decoding inverts encoding, the encoder succeeds exactly
    when the destination is large enough, the decoder stays inside its buffers, the static reverse table is the
    one that its comment describes.

  \<^item> \<^verbatim>\<open>VMBlock\<close>, \<^verbatim>\<open>VMBlock_Laws\<close>: the file blocker of \<^verbatim>\<open>modules/shared/vmblock/block.c\<close> with an explicit heap of
    reference-counted blocks, and a system of threads that hold or wait for blocks. Each entry point runs under
    \<^verbatim>\<open>blockedFilesLock\<close> and is one step; a thread sleeps between the two halves of \<^verbatim>\<open>BlockWaitOnFile\<close>. Shown for every
    reachable state: no use of a freed block, exact reference counts, waiters can leave exactly when their block is
    lifted, and the entry points act on a map from names to blockers.

  \<^item> \<^verbatim>\<open>VMCIQueue\<close>, \<^verbatim>\<open>VMCIQueue_Laws\<close>, \<^verbatim>\<open>VMCIQueue_Spec\<close>: queue pairs of VMCI, from the header arithmetic of
    \<^verbatim>\<open>modules/linux/shared/vmci_defs.h\<close> over the paged copies of \<^verbatim>\<open>modules/linux/vmci/linux/vmciKernelIf.c\<close> to the accessors of
    \<^verbatim>\<open>modules/linux/vmci/common/vmciQPair.c\<close>. Shown: the two ends see two bounded byte queues, hostile header contents
    cannot drive a copy out of bounds, and producer and consumer need no common lock.

  \<^item> \<^verbatim>\<open>Balloon\<close>, \<^verbatim>\<open>Balloon_Laws\<close>, \<^verbatim>\<open>Balloon_Deflate\<close>, \<^verbatim>\<open>Balloon_Poll\<close>: the memory balloon of
    \<^verbatim>\<open>modules/shared/vmmemctl\<close> (\<^verbatim>\<open>vmballoon.c\<close>, \<^verbatim>\<open>backdoor_balloon.c\<close>, \<^verbatim>\<open>balloon_def.h\<close>), which reserves pages of the guest on
    request of the monitor. The record \<open>Balloon\<close> is the struct together with the set of pages that the operating system has
    reserved for it; allocation, mapping and the replies of the monitor are the record \<open>balloon_env\<close>. Shown: a poll, whatever the
    monitor answers, loses no page, frees none twice and keeps the page count exact; inflating does so under every allocation failure;
    a reset starts from an empty balloon; and three defects, in the count of released large pages, in a poll that follows a failed
    reset and in the loop condition of a deflation with large pages.

  \<^item> \<^verbatim>\<open>HgfsEscape\<close>, \<^verbatim>\<open>HgfsEscape_Laws\<close>, \<^verbatim>\<open>HgfsEscape_Undo\<close>: the escaping of names of the shared-folder protocol (HGFS),
    \<^verbatim>\<open>lib/hgfs/hgfsEscape.c\<close>, for the three platforms, over a byte memory. The laws relate the loops to a function that lists the
    components of a name (\<open>comps\<close>) and one that escapes a component (\<open>esc\<close>). Shown: escaping is reversible on Linux and macOS, the size
    query agrees with escaping for any bytes; and a name that Windows does not get back.

  \<^item> \<^verbatim>\<open>HgfsName\<close>, \<^verbatim>\<open>HgfsName_Laws\<close>, \<^verbatim>\<open>HgfsName_To\<close>, \<^verbatim>\<open>HgfsTime\<close>: conversion between paths and names of that protocol (\<^verbatim>\<open>cpName.c\<close>,
    \<^verbatim>\<open>cpNameLinux.c\<close>, \<^verbatim>\<open>cpNameLite.c\<close>, \<^verbatim>\<open>cpNameUtil.c\<close>, \<^verbatim>\<open>cpNameUtilLinux.c\<close>) and its time stamps and status codes
    (\<^verbatim>\<open>hgfsUtil.c\<close>). Shown: no name of the peer leads out of the shared folder, conversion to a name undoes conversion to a path, time stamps
    survive a round trip up to their resolution; and defects at the ends of buffers. The record \<open>cp_state\<close> is the
    state behind the pointer arguments of the conversion.

  \<^item> \<^verbatim>\<open>VMCIResource\<close>, \<^verbatim>\<open>VMCIResource_Laws\<close>, \<^verbatim>\<open>VMCIResource_Spec\<close>: the resources of VMCI and the chained hash table that
    finds them (\<^verbatim>\<open>vmciHashtable.c\<close> and \<^verbatim>\<open>vmciResource.c\<close> of \<^verbatim>\<open>modules/linux/vmci/common\<close>), with a heap of reference-counted
    entries, and a system of clients whose steps are the functions that run under the lock of the table. Shown for every reachable state: the table
    is well formed, reference counts are exact, no permitted call faults or diverges, and the choice of an identifier ends
    with a free one if there is one; and two races, a release that unlinks the wrong entry and a lookup that loses a callback.

  \<^item> \<^verbatim>\<open>DynBuf\<close>, \<^verbatim>\<open>DynBuf_Laws\<close>: the growing byte buffer of \<^verbatim>\<open>lib/misc/dynbuf.c\<close>. The invariant \<open>holds b c\<close> says that the block of \<open>b\<close>
    starts with the bytes \<open>c\<close>; the locale \<open>byte_sink\<close> is what clients rely on. Shown: under every pattern of allocation failures the buffer holds the
    bytes of the accepted appends; and that a detached buffer keeps its size.

  \<^item> \<^verbatim>\<open>Escape\<close>, \<^verbatim>\<open>Escape_Laws\<close>, \<^verbatim>\<open>Escape_Read\<close>, \<^verbatim>\<open>EscapeC\<close>, \<^verbatim>\<open>EscapeC_Laws\<close>: the escaping functions of
    \<^verbatim>\<open>lib/misc/escape.c\<close> on top of that buffer. Each copying loop is related to a list function through the predicate \<open>progress\<close>. Shown: hexadecimal
    unescaping inverts escaping, a shell reads a quoted buffer as its bytes, string unescaping works in place; and reads
    behind a variable and behind a terminator.

  \<^item> \<^verbatim>\<open>VixProps\<close>, \<^verbatim>\<open>VixProps_Laws\<close>, \<^verbatim>\<open>VixProps_Map\<close>, \<^verbatim>\<open>VixWire\<close>, \<^verbatim>\<open>VixWire_Laws\<close>: the property lists of the VIX
    protocol, \<^verbatim>\<open>lib/foundryMsg/foundryPropertyListCommon.c\<close>. A list is the sequence of its nodes, the union of a node a datatype
    with its members as constructors, and freed blocks are recorded with their contents. \<open>VixProps\<close> has the setters, getters and removal,
    \<open>VixWire\<close> the two loops of \<^verbatim>\<open>VixPropertyList_Serialize\<close> and the loop of \<^verbatim>\<open>VixPropertyListDeserializeImpl\<close>. Shown: a list refines a map
    from identifiers to typed values, the setters and the removal free no sensitive value that is not overwritten, deserialising is safe
    on any bytes, a list arrives as it was sent; and that a negative blob size overruns the
    buffer of the sender and that deserialising frees sensitive values as they are.

  Parameters. Allocators are functions from sizes, or from the number of the request, to success, \<^verbatim>\<open>os_kmem_cache_alloc\<close> and \<^verbatim>\<open>vmap\<close> are arguments of
  the functions that call them; sleeping threads take the actions of others as a list;
  the validation of UTF-8 and the escaping of invalid bytes are fields of the record \<open>vix_env\<close>. \<^verbatim>\<open>ASSERT\<close> is not modelled: it
  compiles to nothing in release builds.

  Bounds. Integers keep their width wherever the code computes with them, except for lengths of HGFS names, which stay below
  \<open>2 ^ 31\<close>, and reference counts. Property lists are received from buffers below \<open>2 ^ 63\<close> bytes, the largest an object can be. Loops are total functions with termination proofs, or partial functions whose
  divergence is the fault \<^const>\<open>Diverges\<close> and is excluded by the theorems; no fuel is used, except that a sleeping call ends in the value \<^const>\<open>None\<close> when the list of
  wake-ups is used up. The capacity argument of the locale \<open>implementation\<close> counts calls for which a counter of the
  object cannot wrap.

  Not modelled: the headers and error texts of VIX messages (the rest of \<^verbatim>\<open>lib/foundryMsg\<close>), and the services, plugins, file systems, network drivers and command line tools, whose behaviour is
  mostly that of the system calls and libraries they wrap.
\<close>

end
